(* ===== verification/Prelude.thy ===== *)
theory Prelude
  imports Main "HOL-Library.AList" "HOL-Library.Multiset" "HOL-Library.Sublist"
    "HOL-Library.List_Lexorder" "HOL-Library.Char_ord"
begin

text \<open>
  Shared vocabulary of the development: results of fallible operations as sums (\<open>Inl\<close> is the
  raised exception), Python dictionaries as association lists in insertion order, Python list
  indexing, the contract of a binary heap, and the generic lemmas the components share.
\<close>

named_theorems result_simps \<open>how fallible operations compose\<close>
named_theorems dict_simps \<open>lookups in updated dictionaries\<close>

section \<open>Fallible operations\<close>

type_synonym ('e, 'a) result = "'e + 'a"

definition bindE :: "('e, 'a) result \<Rightarrow> ('a \<Rightarrow> ('e, 'b) result) \<Rightarrow> ('e, 'b) result" where
  "bindE m f = (case m of Inl e \<Rightarrow> Inl e | Inr x \<Rightarrow> f x)"

lemma bindE_simps [simp, result_simps]:
  "bindE (Inl e) f = Inl e"
  "bindE (Inr x) f = f x"
  by (simp_all add: bindE_def)

lemma bindE_Inr_iff [result_simps]:
  "bindE m f = Inr y \<longleftrightarrow> (\<exists>x. m = Inr x \<and> f x = Inr y)"
  by (cases m) simp_all

lemma bindE_Inl_iff:
  "bindE m f = Inl e \<longleftrightarrow> m = Inl e \<or> (\<exists>x. m = Inr x \<and> f x = Inl e)"
  by (cases m) simp_all

lemma bindE_assoc: "bindE (bindE m f) g = bindE m (\<lambda>x. bindE (f x) g)"
  by (cases m) simp_all

lemma bindE_cong [fundef_cong]:
  assumes "m = m'" "\<And>x. m' = Inr x \<Longrightarrow> f x = g x"
  shows "bindE m f = bindE m' g"
  using assms by (cases m') (simp_all add: bindE_def)

definition of_option :: "'e \<Rightarrow> 'a option \<Rightarrow> ('e, 'a) result" where
  "of_option e m = (case m of None \<Rightarrow> Inl e | Some x \<Rightarrow> Inr x)"

lemma of_option_simps [simp]: "of_option e None = Inl e" "of_option e (Some x) = Inr x"
  by (simp_all add: of_option_def)

lemma of_option_Inr_iff [simp, result_simps]: "of_option e m = Inr x \<longleftrightarrow> m = Some x"
  by (cases m) simp_all

fun mapE :: "('a \<Rightarrow> ('e, 'b) result) \<Rightarrow> 'a list \<Rightarrow> ('e, 'b list) result" where
  "mapE f [] = Inr []"
| "mapE f (x # xs) = bindE (f x) (\<lambda>y. bindE (mapE f xs) (\<lambda>ys. Inr (y # ys)))"

fun foldE :: "('a \<Rightarrow> 's \<Rightarrow> ('e, 's) result) \<Rightarrow> 'a list \<Rightarrow> 's \<Rightarrow> ('e, 's) result" where
  "foldE f [] s = Inr s"
| "foldE f (x # xs) s = bindE (f x s) (foldE f xs)"

lemma foldE_append: "foldE f (xs @ ys) s = bindE (foldE f xs s) (foldE f ys)"
  by (induction xs arbitrary: s) (simp_all add: bindE_def split: sum.split)

lemma foldE_invariant:
  assumes "foldE f xs s = Inr t" "P s"
    and "\<And>x s s'. x \<in> set xs \<Longrightarrow> P s \<Longrightarrow> f x s = Inr s' \<Longrightarrow> P s'"
  shows "P t"
  using assms
proof (induction xs arbitrary: s)
  case (Cons x xs)
  then obtain s' where "f x s = Inr s'" "foldE f xs s' = Inr t"
    by (auto simp: bindE_Inr_iff)
  with Cons.prems show ?case
    using Cons.IH [of s'] by (metis list.set_intros(1) list.set_intros(2))
qed simp

lemma mapE_Inr_length: "mapE f xs = Inr ys \<Longrightarrow> length ys = length xs"
  by (induction xs arbitrary: ys) (auto simp: bindE_Inr_iff)

lemma mapE_Inr_nth: "mapE f xs = Inr ys \<Longrightarrow> i < length xs \<Longrightarrow> f (xs ! i) = Inr (ys ! i)"
  by (induction xs arbitrary: ys i) (auto simp: bindE_Inr_iff nth_Cons split: nat.splits)

lemma mapE_Inr_all:
  "(\<And>x. x \<in> set xs \<Longrightarrow> f x = Inr (g x)) \<Longrightarrow> mapE f xs = Inr (map g xs)"
  by (induction xs) simp_all

section \<open>Dictionaries in insertion order\<close>

text \<open>
  \<open>AList.update\<close> changes the value of a present key in place and appends a new key at the end, as
  assignment to a Python dictionary does; \<open>map_of\<close> is the lookup.
\<close>

type_synonym ('k, 'v) dict = "('k \<times> 'v) list"

definition dict_values :: "('k, 'v) dict \<Rightarrow> 'v list" where
  "dict_values d = map snd d"

definition has_key :: "('k, 'v) dict \<Rightarrow> 'k \<Rightarrow> bool" where
  "has_key d k \<longleftrightarrow> map_of d k \<noteq> None"

lemma has_key_iff [dict_simps]: "has_key d k \<longleftrightarrow> k \<in> fst ` set d"
  by (auto simp: has_key_def map_of_eq_None_iff)

text \<open>\<open>{v: k for k, v in d.items()}\<close>: a later pair overwrites an earlier one.\<close>

definition reverse_dict :: "('k \<times> 'v) list \<Rightarrow> ('v, 'k) dict" where
  "reverse_dict d = foldl (\<lambda>acc (k, v). AList.update v k acc) [] d"

lemma map_of_reverse_dict_gen:
  "map_of (foldl (\<lambda>acc (k, v). AList.update v k acc) acc d) x =
    (case map_of (rev (map (\<lambda>(k, v). (v, k)) d)) x of None \<Rightarrow> map_of acc x | Some k \<Rightarrow> Some k)"
  by (induction d arbitrary: acc)
     (auto simp: update_conv' map_add_def split: option.splits)

lemma map_of_reverse_dict_inj:
  assumes "map_of d k = Some v" "distinct (map snd d)"
  shows "map_of (reverse_dict d) v = Some k"
proof -
  from assms(1) have "(k, v) \<in> set d" by (rule map_of_SomeD)
  then have "(v, k) \<in> set (rev (map (\<lambda>(k, v). (v, k)) d))" by force
  moreover have "distinct (map fst (rev (map (\<lambda>(k, v). (v, k)) d)))"
    using assms(2) by (simp add: rev_map [symmetric] case_prod_beta' comp_def)
  ultimately have "map_of (rev (map (\<lambda>(k, v). (v, k)) d)) v = Some k"
    by simp
  then show ?thesis
    by (simp add: reverse_dict_def map_of_reverse_dict_gen)
qed

lemma map_of_update_iff [dict_simps]:
  "map_of (AList.update k v d) k' = (if k' = k then Some v else map_of d k')"
  by (simp add: update_conv')

lemma update_new: "\<not> has_key d k \<Longrightarrow> AList.update k v d = d @ [(k, v)]"
  by (induction d) (auto simp: has_key_def)

lemma has_key_map_of: "has_key d k \<longleftrightarrow> map_of d k \<noteq> None"
  by (simp add: has_key_iff map_of_eq_None_iff)

lemma has_key_update [simp]: "has_key (AList.update k v d) k' \<longleftrightarrow> k' = k \<or> has_key d k'"
  by (simp add: has_key_map_of map_of_update_iff)

lemma map_of_delete_iff [dict_simps]:
  "map_of (AList.delete k d) k' = (if k' = k then None else map_of d k')"
  by (auto simp: delete_conv')

section \<open>Python list indexing\<close>

text \<open>A negative index counts from the end; an index out of range raises.\<close>

definition py_index :: "'a list \<Rightarrow> int \<Rightarrow> nat option" where
  "py_index xs i =
     (let n = int (length xs); j = (if i < 0 then n + i else i)
      in if 0 \<le> j \<and> j < n then Some (nat j) else None)"

definition py_get :: "'a list \<Rightarrow> int \<Rightarrow> 'a option" where
  "py_get xs i = map_option (\<lambda>j. xs ! j) (py_index xs i)"

definition py_set :: "'a list \<Rightarrow> int \<Rightarrow> 'a \<Rightarrow> 'a list option" where
  "py_set xs i v = map_option (\<lambda>j. xs[j := v]) (py_index xs i)"

lemma py_index_nonneg [simp]:
  "0 \<le> i \<Longrightarrow> py_index xs i = (if nat i < length xs then Some (nat i) else None)"
  by (simp add: py_index_def nat_less_iff)

lemma py_index_bound: "py_index xs i = Some j \<Longrightarrow> j < length xs"
  by (auto simp: py_index_def Let_def split: if_splits)

lemma py_index_length: "length xs = length ys \<Longrightarrow> py_index xs i = py_index ys i"
  by (simp add: py_index_def)

lemma py_set_length: "py_set xs i v = Some ys \<Longrightarrow> length ys = length xs"
  by (auto simp: py_set_def)

section \<open>Binary heaps\<close>

text \<open>
  What a client of Python's \<open>heapq\<close> relies on: pushing adds one element, popping removes and
  returns a least one. The array layout of the heap cannot be observed through these operations
  when the elements are distinct, so the model keeps the elements in a sorted list.
\<close>

locale min_heap =
  fixes empty :: "'h" and push :: "'a::linorder \<Rightarrow> 'h \<Rightarrow> 'h"
    and pop :: "'h \<Rightarrow> ('a \<times> 'h) option" and elems :: "'h \<Rightarrow> 'a multiset" and inv :: "'h \<Rightarrow> bool"
  assumes elems_empty: "elems empty = {#}"
    and elems_push: "inv h \<Longrightarrow> elems (push x h) = add_mset x (elems h)"
    and pop_None: "inv h \<Longrightarrow> pop h = None \<longleftrightarrow> elems h = {#}"
    and pop_elems: "inv h \<Longrightarrow> pop h = Some (x, h') \<Longrightarrow> elems h = add_mset x (elems h')"
    and pop_min: "inv h \<Longrightarrow> pop h = Some (x, h') \<Longrightarrow> y \<in># elems h \<Longrightarrow> x \<le> y"
    and inv_empty: "inv empty"
    and inv_push: "inv h \<Longrightarrow> inv (push x h)"
    and inv_pop: "inv h \<Longrightarrow> pop h = Some (x, h') \<Longrightarrow> inv h'"
begin

lemma pop_in: "inv h \<Longrightarrow> pop h = Some (x, h') \<Longrightarrow> x \<in># elems h"
  by (simp add: pop_elems)

lemma foldr_push: "inv h \<Longrightarrow> inv (foldr push xs h) \<and> elems (foldr push xs h) = mset xs + elems h"
  by (induction xs) (auto simp: elems_push inv_push)

end

definition heappush :: "'a::linorder \<Rightarrow> 'a list \<Rightarrow> 'a list" where
  "heappush x h = insort x h"

definition heappop :: "'a list \<Rightarrow> ('a \<times> 'a list) option" where
  "heappop h = (case h of [] \<Rightarrow> None | x # xs \<Rightarrow> Some (x, xs))"

interpretation heapq: min_heap "[]" heappush heappop mset sorted
  by unfold_locales
     (auto simp: heappush_def heappop_def sorted_insort split: list.splits)

section \<open>Lists\<close>

lemma distinct_sorted_list_eq:
  fixes xs ys :: "'a::linorder list"
  assumes "sorted xs" "sorted ys" "distinct xs" "distinct ys" "set xs = set ys"
  shows "xs = ys"
  using assms by (metis sorted_distinct_set_unique)

lemma nth_filter_index:
  "i < length xs \<Longrightarrow> P (xs ! i) \<Longrightarrow>
    filter P xs ! length (filter P (take i xs)) = xs ! i \<and>
    length (filter P (take i xs)) < length (filter P xs)"
proof (induction xs arbitrary: i)
  case (Cons x xs)
  then show ?case by (cases i) auto
qed simp

section \<open>Worklists\<close>

text \<open>A set of what has been seen and a list of what is still to be processed.\<close>

definition mark_live :: "'a \<Rightarrow> 'a set \<times> 'a list \<Rightarrow> 'a set \<times> 'a list" where
  "mark_live idx s = (if idx \<in> fst s then s else (insert idx (fst s), snd s @ [idx]))"

definition mark_all :: "'a list \<Rightarrow> 'a set \<times> 'a list \<Rightarrow> 'a set \<times> 'a list" where
  "mark_all ixs s = foldl (\<lambda>s i. mark_live i s) s ixs"

lemma mark_all_simps [simp]:
  "mark_all [] s = s" "mark_all (i # ixs) s = mark_all ixs (mark_live i s)"
  by (simp_all add: mark_all_def)

lemma mark_all_spec:
  "fst (mark_all ixs s) = fst s \<union> set ixs \<and>
    (\<exists>new. snd (mark_all ixs s) = snd s @ new \<and> set new = set ixs - fst s \<and> distinct new)"
proof (induction ixs arbitrary: s)
  case (Cons i ixs)
  show ?case
  proof (cases "i \<in> fst s")
    case True
    with Cons [of s] show ?thesis by (auto simp: mark_live_def)
  next
    case False
    with Cons [of "(insert i (fst s), snd s @ [i])"] obtain new where
      "fst (mark_all ixs (insert i (fst s), snd s @ [i])) = insert i (fst s) \<union> set ixs"
      "snd (mark_all ixs (insert i (fst s), snd s @ [i])) = (snd s @ [i]) @ new"
      "set new = set ixs - insert i (fst s)" "distinct new" by auto
    with False show ?thesis by (auto simp: mark_live_def intro!: exI [of _ "i # new"])
  qed
qed simp

text \<open>Processing one element and marking what it leads to decreases this measure.\<close>

lemma mark_all_decreases:
  assumes "finite U" "set ixs \<subseteq> U" "snd s \<noteq> []"
  shows "card (U - fst (mark_all ixs (fst s, butlast (snd s)))) + length (snd (mark_all ixs (fst s, butlast (snd s))))
    < card (U - fst s) + length (snd s)"
proof -
  let ?s = "(fst s, butlast (snd s))"
  obtain new where n: "fst (mark_all ixs ?s) = fst s \<union> set ixs" "snd (mark_all ixs ?s) = butlast (snd s) @ new"
    "set new = set ixs - fst s" "distinct new"
    using mark_all_spec [of ixs ?s] by auto
  have sub: "set new \<subseteq> U - fst s" using n(3) assms(2) by auto
  have "U - fst (mark_all ixs ?s) = (U - fst s) - set new" using n(1,3) by auto
  then have "card (U - fst (mark_all ixs ?s)) = card (U - fst s) - length new"
    using sub n(4) by (simp add: card_Diff_subset distinct_card)
  moreover have "length new \<le> card (U - fst s)"
    using sub n(4) assms(1) by (metis card_mono distinct_card finite_Diff)
  ultimately show ?thesis using n(2) assms(3) by (cases "snd s" rule: rev_cases) auto
qed

end
