(* ===== verification/PyStr.thy ===== *)
theory PyStr
  imports Prelude
begin

text \<open>
  The Python string operations the compiler is written with, over ASCII text: \<open>strip\<close>, \<open>split\<close>,
  \<open>startswith\<close>, \<open>upper\<close>, \<open>isdigit\<close>, \<open>int(s, base)\<close>, the decimal and hexadecimal formats, and the
  regular expressions over register names of \<open>passes/_helpers.py\<close> and \<open>legacy_lowering.py\<close>,
  each as a recursive matcher. A \<open>char\<close> is one code point; the source languages involved are ASCII.
\<close>

named_theorems token_simps \<open>facts about register and immediate tokens\<close>

section \<open>Stripping, splitting, prefixes\<close>

definition is_space :: "char \<Rightarrow> bool" where
  "is_space c \<longleftrightarrow> (of_char c :: nat) \<in> {9, 10, 11, 12, 13, 28, 29, 30, 31, 32}"

definition lstrip :: "string \<Rightarrow> string" where
  "lstrip s = dropWhile is_space s"

definition rstrip :: "string \<Rightarrow> string" where
  "rstrip s = rev (dropWhile is_space (rev s))"

definition strip :: "string \<Rightarrow> string" where
  "strip s = rstrip (lstrip s)"

definition startswith :: "string \<Rightarrow> string \<Rightarrow> bool" where
  "startswith s p \<longleftrightarrow> take (length p) s = p"

definition endswith :: "string \<Rightarrow> string \<Rightarrow> bool" where
  "endswith s p \<longleftrightarrow> startswith (rev s) (rev p)"

text \<open>\<open>s.split(c)\<close> for a one-character separator: never an empty list.\<close>

fun split_on :: "char \<Rightarrow> string \<Rightarrow> string list" where
  "split_on c [] = [[]]"
| "split_on c (x # xs) =
     (if x = c then [] # split_on c xs
      else (case split_on c xs of [] \<Rightarrow> [[x]] | p # ps \<Rightarrow> (x # p) # ps))"

text \<open>\<open>s.split(c, 1)[0]\<close>: the text before the first separator.\<close>

definition before_first :: "char \<Rightarrow> string \<Rightarrow> string" where
  "before_first c s = takeWhile (\<lambda>x. x \<noteq> c) s"

definition upper_char :: "char \<Rightarrow> char" where
  "upper_char c = (let n = (of_char c :: nat) in if 97 \<le> n \<and> n \<le> 122 then char_of (n - 32) else c)"

definition upper :: "string \<Rightarrow> string" where
  "upper s = map upper_char s"

lemma split_on_nonempty [simp]: "split_on c s \<noteq> []"
  by (induction s) (auto split: list.splits)

lemma hd_split_on [token_simps]: "hd (split_on c s) = before_first c s"
  by (induction s) (auto simp: before_first_def split: list.splits)

lemma strip_Nil [simp]: "strip [] = []"
  by (simp add: strip_def lstrip_def rstrip_def)

lemma strip_strip [simp]: "strip (strip s) = strip s"
proof -
  have r: "rstrip (rstrip x) = rstrip x" for x by (simp add: rstrip_def)
  have l: "lstrip (rstrip x) = rstrip x" if "lstrip x = x" for x
  proof (cases "rstrip x = []")
    case True
    then show ?thesis by (simp add: lstrip_def)
  next
    case False
    have "rev x = takeWhile is_space (rev x) @ rev (rstrip x)" by (simp add: rstrip_def)
    then have x: "x = rstrip x @ rev (takeWhile is_space (rev x))" by (metis rev_append rev_rev_ident)
    then have "hd x = hd (rstrip x)" "x \<noteq> []" using False by (metis hd_append, metis append_is_Nil_conv)
    moreover have "\<not> is_space (hd x)" using that \<open>x \<noteq> []\<close> by (metis hd_dropWhile lstrip_def)
    ultimately show ?thesis using False by (cases "rstrip x") (simp_all add: lstrip_def)
  qed
  have "lstrip (lstrip s) = lstrip s" by (simp add: lstrip_def)
  then show ?thesis by (simp add: strip_def r l)
qed

lemma strip_no_space:
  assumes "list_all (\<lambda>c. \<not> is_space c) s"
  shows "strip s = s"
proof -
  have 1: "dropWhile is_space t = t" if "list_all (\<lambda>c. \<not> is_space c) t" for t
    using that by (cases t) auto
  have "list_all (\<lambda>c. \<not> is_space c) (rev s)" using assms by simp
  then show ?thesis using assms by (simp add: strip_def lstrip_def rstrip_def 1)
qed

lemma startswith_append [simp]: "startswith (p @ s) p"
  by (simp add: startswith_def)

section \<open>Digits and integers\<close>

definition is_digit :: "char \<Rightarrow> bool" where
  "is_digit c \<longleftrightarrow> (let n = (of_char c :: nat) in 48 \<le> n \<and> n \<le> 57)"

text \<open>\<open>str.isdigit\<close>: false on the empty string.\<close>

definition str_isdigit :: "string \<Rightarrow> bool" where
  "str_isdigit s \<longleftrightarrow> s \<noteq> [] \<and> list_all is_digit s"

definition digit_value :: "char \<Rightarrow> int option" where
  "digit_value c =
     (let n = (of_char c :: nat) in
      if 48 \<le> n \<and> n \<le> 57 then Some (int n - 48)
      else if 97 \<le> n \<and> n \<le> 122 then Some (int n - 87)
      else if 65 \<le> n \<and> n \<le> 90 then Some (int n - 55)
      else None)"

text \<open>
  Digits with single underscores between them, as \<open>int\<close> accepts; the flag says whether the last
  character was a digit.
\<close>

fun parse_digits :: "int \<Rightarrow> bool \<Rightarrow> int \<Rightarrow> string \<Rightarrow> int option" where
  "parse_digits b prev acc [] = (if prev then Some acc else None)"
| "parse_digits b prev acc (c # cs) =
     (if c = CHR ''_'' then (if prev then parse_digits b False acc cs else None)
      else (case digit_value c of
              None \<Rightarrow> None
            | Some d \<Rightarrow> if d < b then parse_digits b True (acc * b + d) cs else None))"

definition after_prefix :: "string \<Rightarrow> string" where
  "after_prefix s = (case s of c # cs \<Rightarrow> if c = CHR ''_'' then cs else s | [] \<Rightarrow> [])"

definition prefix_base :: "string \<Rightarrow> int option" where
  "prefix_base s =
     (if startswith s ''0x'' \<or> startswith s ''0X'' then Some 16
      else if startswith s ''0o'' \<or> startswith s ''0O'' then Some 8
      else if startswith s ''0b'' \<or> startswith s ''0B'' then Some 2
      else None)"

definition parse_body :: "int \<Rightarrow> string \<Rightarrow> int option" where
  "parse_body b s =
     (if b = 0 then
        (case prefix_base s of
           Some b' \<Rightarrow> parse_digits b' False 0 (after_prefix (drop 2 s))
         | None \<Rightarrow>
             (case parse_digits 10 False 0 s of
                None \<Rightarrow> None
              | Some v \<Rightarrow> if startswith s ''0'' \<and> v \<noteq> 0 then None else Some v))
      else if prefix_base s = Some b then parse_digits b False 0 (after_prefix (drop 2 s))
      else parse_digits b False 0 s)"

text \<open>\<open>int(s, base)\<close>; \<open>None\<close> is the \<open>ValueError\<close>.\<close>

definition py_int :: "int \<Rightarrow> string \<Rightarrow> int option" where
  "py_int b s =
     (case strip s of
        [] \<Rightarrow> None
      | c # cs \<Rightarrow>
          if c = CHR ''-'' then map_option uminus (parse_body b cs)
          else if c = CHR ''+'' then parse_body b cs
          else parse_body b (c # cs))"

section \<open>Formatting\<close>

definition digit_char :: "nat \<Rightarrow> char" where
  "digit_char d = (if d < 10 then char_of (48 + d) else char_of (87 + d))"

fun digits_of :: "nat \<Rightarrow> nat \<Rightarrow> string" where
  "digits_of b n = (if b < 2 \<or> n < b then [digit_char n] else digits_of b (n div b) @ [digit_char (n mod b)])"

declare digits_of.simps [simp del]

definition dec_str :: "int \<Rightarrow> string" where
  "dec_str i = (if i < 0 then CHR ''-'' # digits_of 10 (nat (- i)) else digits_of 10 (nat i))"

text \<open>\<open>f"{v:0wx}"\<close> for a non-negative \<open>v\<close>.\<close>

definition hex_pad :: "nat \<Rightarrow> int \<Rightarrow> string" where
  "hex_pad w v =
     (let s = digits_of 16 (nat v) in replicate (w - length s) CHR ''0'' @ s)"

definition dec_pad :: "nat \<Rightarrow> int \<Rightarrow> string" where
  "dec_pad w v =
     (let s = digits_of 10 (nat v) in replicate (w - length s) CHR ''0'' @ s)"

section \<open>Register tokens\<close>

text \<open>
  \<open>%(?:rd|bd|p|r|s|b|f|h)\d*\<close>: the length of the longest match of the alternation at the front of
  a string, the alternatives tried in the order of the pattern.
\<close>

definition reg_class :: "string \<Rightarrow> nat option" where
  "reg_class s =
     (if startswith s ''%rd'' \<or> startswith s ''%bd'' then Some 3
      else if startswith s ''%p'' \<or> startswith s ''%r'' \<or> startswith s ''%s'' \<or>
              startswith s ''%b'' \<or> startswith s ''%f'' \<or> startswith s ''%h'' then Some 2
      else None)"

definition match_reg :: "string \<Rightarrow> (string \<times> string) option" where
  "match_reg s =
     (case reg_class s of
        None \<Rightarrow> None
      | Some k \<Rightarrow> Some (take k s @ takeWhile is_digit (drop k s), dropWhile is_digit (drop k s)))"

lemma match_reg_append: "match_reg s = Some (m, rest) \<Longrightarrow> s = m @ rest"
  by (auto simp: match_reg_def split: option.splits)

lemma match_reg_shorter: "match_reg s = Some (m, rest) \<Longrightarrow> length rest < length s"
proof -
  assume a: "match_reg s = Some (m, rest)"
  then obtain k where k: "reg_class s = Some k" "rest = dropWhile is_digit (drop k s)"
    by (auto simp: match_reg_def split: option.splits)
  from k(1) have "0 < k" "s \<noteq> []"
    by (auto simp: reg_class_def startswith_def split: if_splits)
  moreover have "length rest \<le> length (drop k s)"
    unfolding k(2) by (rule length_dropWhile_le)
  ultimately show ?thesis by (cases s) auto
qed

text \<open>\<open>fullmatch\<close> and the anchored \<open>match(... $)\<close> of the lowering on one-line tokens.\<close>

definition is_reg_token :: "string \<Rightarrow> bool" where
  "is_reg_token s \<longleftrightarrow> (case match_reg s of None \<Rightarrow> False | Some (_, rest) \<Rightarrow> rest = [])"

text \<open>\<open>findall\<close>: the non-overlapping matches from left to right.\<close>

function find_regs :: "string \<Rightarrow> string list" where
  "find_regs s =
     (case s of
        [] \<Rightarrow> []
      | c # cs \<Rightarrow> (case match_reg s of
                    Some (m, rest) \<Rightarrow> m # find_regs rest
                  | None \<Rightarrow> find_regs cs))"
  by pat_completeness auto
termination
  by (relation "measure length") (auto dest: match_reg_shorter)

declare find_regs.simps [simp del]

lemma find_regs_Nil [simp]: "find_regs [] = []"
  by (simp add: find_regs.simps)

text \<open>\<open>sub\<close> with a replacement function: every match is replaced, other text is kept.\<close>

function sub_regs :: "(string \<Rightarrow> string) \<Rightarrow> string \<Rightarrow> string" where
  "sub_regs f s =
     (case s of
        [] \<Rightarrow> []
      | c # cs \<Rightarrow> (case match_reg s of
                    Some (m, rest) \<Rightarrow> f m @ sub_regs f rest
                  | None \<Rightarrow> c # sub_regs f cs))"
  by pat_completeness auto
termination
  by (relation "measure (\<lambda>(f, s). length s)") (auto dest: match_reg_shorter)

declare sub_regs.simps [simp del]

lemma sub_regs_Nil [simp]: "sub_regs f [] = []"
  by (simp add: sub_regs.simps)

lemma reg_token_nonempty: "is_reg_token s \<Longrightarrow> s \<noteq> []"
  by (auto simp: is_reg_token_def match_reg_def reg_class_def startswith_def split: option.splits)

lemma match_reg_token: "is_reg_token s \<Longrightarrow> match_reg s = Some (s, [])"
  by (auto simp: is_reg_token_def split: option.splits dest: match_reg_append)

lemma find_regs_token [token_simps]: "is_reg_token s \<Longrightarrow> find_regs s = [s]"
  using match_reg_token [of s] reg_token_nonempty [of s]
  by (subst find_regs.simps) (cases s, auto)

lemma sub_regs_token [token_simps]: "is_reg_token s \<Longrightarrow> sub_regs f s = f s"
  using match_reg_token [of s] reg_token_nonempty [of s]
  by (subst sub_regs.simps) (cases s, auto)

text \<open>A token in brackets (an address) contains exactly the register it names.\<close>

lemma sub_regs_id: "(\<And>m. m \<in> set (find_regs s) \<Longrightarrow> f m = m) \<Longrightarrow> sub_regs f s = s"
proof (induction s rule: find_regs.induct)
  case (1 s)
  show ?case
  proof (cases s)
    case Nil then show ?thesis by simp
  next
    case (Cons c cs)
    show ?thesis
    proof (cases "match_reg s")
      case None
      have "\<And>m. m \<in> set (find_regs cs) \<Longrightarrow> f m = m"
        using 1(3) Cons None by (simp add: find_regs.simps [of "c # cs"])
      with 1 Cons None have "sub_regs f cs = cs" by blast
      with Cons None show ?thesis by (simp add: sub_regs.simps [of f "c # cs"])
    next
      case (Some a)
      obtain m rest where a: "a = (m, rest)" by (cases a)
      with Some Cons have m: "match_reg (c # cs) = Some (m, rest)" by simp
      have h: "f m = m" "\<And>x. x \<in> set (find_regs rest) \<Longrightarrow> f x = x"
        using 1(3) Cons m by (simp_all add: find_regs.simps [of "c # cs"])
      with 1 Cons Some a have "sub_regs f rest = rest" by blast
      with h m Cons show ?thesis
        by (simp add: sub_regs.simps [of f "c # cs"] match_reg_append [OF m, symmetric])
    qed
  qed
qed

end
