(* ===== verification/Isa.thy ===== *)
theory Isa
  imports PyStr "HOL-Library.Word"
begin

unbundle bit_operations_syntax

text \<open>
  The instruction set tables, the encoder and the decoder of \<open>isa.py\<close>. A Python integer field is an
  \<open>int\<close>; the masks and shifts of the source act on it as infinite two's complement. Tables are
  dictionaries in insertion order.
\<close>

section \<open>Profiles\<close>

record isa_profile =
  name :: string
  opcodes :: "(string, int) dict"
  types :: "(string, int) dict"
  memory_spaces :: "(string, int) dict"
  compare_ops :: "(string, int) dict"
  special_registers :: "(string, int) dict"
  supports_tensor :: bool

definition memory_space_table :: "(string, int) dict" where
  "memory_space_table =
     [(''gmem'', 0), (''smem'', 1), (''cmem'', 2), (''lmem'', 3), (''pmem'', 4)]"

definition compare_table :: "(string, int) dict" where
  "compare_table = [(''eq'', 0), (''ne'', 1), (''lt'', 2), (''le'', 3), (''gt'', 4), (''ge'', 5)]"

definition C1_DEFAULT :: isa_profile where
  "C1_DEFAULT = \<lparr>
     name = ''c1_default'',
     opcodes =
       [(''ADD'', 0x0001), (''SUB'', 0x0002), (''MUL'', 0x0003), (''MAD'', 0x0004),
        (''FMA'', 0x0005), (''AND'', 0x0010), (''OR'', 0x0011), (''XOR'', 0x0012),
        (''SHL'', 0x0014), (''SHR'', 0x0015), (''CMPP'', 0x0021), (''LD'', 0x0030),
        (''ST'', 0x0031), (''BR'', 0x0040), (''BRX'', 0x0041), (''HALT'', 0x0045),
        (''CPY'', 0x0054), (''LOADI'', 0x0055), (''LOADI64'', 0x0056)],
     types =
       [(''b32'', 0x0), (''b64'', 0x1), (''u32'', 0x2), (''s32'', 0x3), (''f32'', 0x8),
        (''none'', 0xF)],
     memory_spaces = memory_space_table,
     compare_ops = compare_table,
     special_registers =
       [(''%tid.x'', 0x0100), (''%ntid.x'', 0x0101), (''%ctaid.x'', 0x0102),
        (''%nctaid.x'', 0x0103), (''%laneid'', 0x0104), (''%tid.y'', 0x0110),
        (''%ntid.y'', 0x0111), (''%ctaid.y'', 0x0112), (''%nctaid.y'', 0x0113),
        (''%tid.z'', 0x0120), (''%ntid.z'', 0x0121), (''%ctaid.z'', 0x0122),
        (''%nctaid.z'', 0x0123)],
     supports_tensor = False\<rparr>"

definition TRACK_B_V1 :: isa_profile where
  "TRACK_B_V1 = \<lparr>
     name = ''track_b_v1'',
     opcodes =
       [(''ADD'', 0x0001), (''SUB'', 0x0002), (''MUL'', 0x0003), (''MAD'', 0x0004),
        (''FMA'', 0x0005), (''DIV'', 0x0006), (''NEG'', 0x0007), (''ABS'', 0x0008),
        (''MIN'', 0x0009), (''MAX'', 0x000A), (''AND'', 0x0010), (''OR'', 0x0011),
        (''XOR'', 0x0012), (''NOT'', 0x0013), (''SHL'', 0x0014), (''SHR'', 0x0015),
        (''BFX'', 0x0016), (''BINS'', 0x0017), (''POPC'', 0x0018), (''FLO'', 0x0019),
        (''CMP'', 0x0020), (''CMPP'', 0x0021), (''SEL'', 0x0022), (''PICK'', 0x0023),
        (''LD'', 0x0030), (''ST'', 0x0031), (''LDC'', 0x0032), (''ATOM'', 0x0033),
        (''BR'', 0x0040), (''BRX'', 0x0041), (''CALL'', 0x0043), (''RET'', 0x0044),
        (''HALT'', 0x0045), (''SYNC.CT'', 0x0047), (''MBAR'', 0x0049), (''CVTFF'', 0x0050),
        (''CVTFI'', 0x0051), (''CVTIF'', 0x0052), (''CVTII'', 0x0053), (''CPY'', 0x0054),
        (''LOADI'', 0x0055), (''LOADI64'', 0x0056), (''SHUF'', 0x0057), (''VOTE'', 0x0058),
        (''MTCH'', 0x0059), (''RCP'', 0x0070), (''RSQ'', 0x0071), (''SIN'', 0x0072),
        (''COS'', 0x0073), (''EXP'', 0x0074), (''LOG'', 0x0075), (''SQRT'', 0x0076),
        (''RDTSC'', 0x0080)],
     types =
       [(''b32'', 0x0), (''b64'', 0x1), (''u32'', 0x2), (''s32'', 0x3), (''u8'', 0x4),
        (''s8'', 0x5), (''f32'', 0x8), (''f64'', 0x9), (''f16'', 0xA), (''bf16'', 0xB),
        (''none'', 0xF)],
     memory_spaces = memory_space_table,
     compare_ops = compare_table,
     special_registers =
       [(''%tid'', 0x0100), (''%tid.x'', 0x0100), (''%ntid'', 0x0101), (''%ntid.x'', 0x0101),
        (''%ctaid'', 0x0102), (''%ctaid.x'', 0x0102), (''%nctaid'', 0x0103),
        (''%nctaid.x'', 0x0103), (''%laneid'', 0x0104), (''%warpid'', 0x0105),
        (''%tid.y'', 0x0110), (''%ntid.y'', 0x0111), (''%ctaid.y'', 0x0112),
        (''%nctaid.y'', 0x0113), (''%tid.z'', 0x0120), (''%ntid.z'', 0x0121),
        (''%ctaid.z'', 0x0122), (''%nctaid.z'', 0x0123)],
     supports_tensor = False\<rparr>"

definition PRED_ENABLE :: int where "PRED_ENABLE = 0x8000"
definition PRED_NEGATE :: int where "PRED_NEGATE = 0x4000"
definition TYPE_SHIFT :: nat where "TYPE_SHIFT = 3"
definition FAMILY_SHIFT :: nat where "FAMILY_SHIFT = 8"
definition SPACE_SHIFT :: nat where "SPACE_SHIFT = 11"

lemmas field_layout = PRED_ENABLE_def PRED_NEGATE_def TYPE_SHIFT_def FAMILY_SHIFT_def SPACE_SHIFT_def

section \<open>Instructions\<close>

record aec_instruction =
  opcode :: string
  dtype :: string
  dest :: int
  src1 :: int
  src2 :: int
  src3 :: int
  imm :: int
  predicate :: "int option"
  predicate_negated :: bool
  compare :: "string option"
  memory_space :: "string option"
  cvt_src_type :: "string option"
  family :: int

text \<open>The defaults of the dataclass.\<close>

definition AECInstruction :: "string \<Rightarrow> aec_instruction" where
  "AECInstruction op = \<lparr>
     opcode = op, dtype = ''none'', dest = 0, src1 = 0, src2 = 0, src3 = 0, imm = 0,
     predicate = None, predicate_negated = False, compare = None, memory_space = None,
     cvt_src_type = None, family = 0\<rparr>"

datatype encode_error =
    UnsupportedOpcode string
  | UnsupportedType string
  | UnsupportedConversionSource string
  | BRXRequiresPredicate
  | NegationRequiresPredicate
  | UnsupportedCompare string
  | UnsupportedSpace string
  | LengthNotMultipleOf16 nat
  | UnknownOpcode int
  | UnknownType int
  | UnknownCompare int
  | UnknownSpace int
  | UnknownConversionSource int

type_synonym words = "int \<times> int \<times> int \<times> int"

text \<open>The truth value of an optional string: \<open>None\<close> and the empty string are false.\<close>

definition truthy :: "string option \<Rightarrow> bool" where
  "truthy s \<longleftrightarrow> s \<noteq> None \<and> s \<noteq> Some []"

section \<open>Encoding\<close>

definition instruction_encoding_type :: "string \<Rightarrow> string \<Rightarrow> string" where
  "instruction_encoding_type opcode_name dt =
     (if opcode_name = ''SHL'' \<and> dt = ''b32'' then ''u32''
      else if opcode_name \<in> {''LOADI'', ''LOADI64'', ''BR'', ''BRX''} then ''none''
      else dt)"

definition uses_immediate :: "string \<Rightarrow> bool" where
  "uses_immediate opcode_name \<longleftrightarrow>
     opcode_name \<in> {''LOADI'', ''LOADI64'', ''BR'', ''BRX'', ''CALL''}"

definition encode_type_bits ::
    "isa_profile \<Rightarrow> string \<Rightarrow> int \<Rightarrow> aec_instruction \<Rightarrow> (encode_error, int) result" where
  "encode_type_bits profile opcode_name tcode inst =
     (if startswith opcode_name ''CVT'' \<and> truthy (cvt_src_type inst) then
        (case map_of (types profile) (the (cvt_src_type inst)) of
           None \<Rightarrow> Inl (UnsupportedConversionSource (the (cvt_src_type inst)))
         | Some scode \<Rightarrow>
             Inr (push_bit TYPE_SHIFT (tcode AND 0xF) OR push_bit 10 (scode AND 0xF)))
      else Inr (push_bit TYPE_SHIFT (tcode AND 0xF)))"

definition encode_pred_bits ::
    "string \<Rightarrow> aec_instruction \<Rightarrow> (encode_error, int) result" where
  "encode_pred_bits opcode_name inst =
     (case predicate inst of
        Some p \<Rightarrow>
          Inr (PRED_ENABLE OR (p AND 0x7) OR (if predicate_negated inst then PRED_NEGATE else 0))
      | None \<Rightarrow>
          if opcode_name = ''BRX'' then Inl BRXRequiresPredicate
          else if predicate_negated inst then Inl NegationRequiresPredicate
          else Inr 0)"

definition encode_sub_bits ::
    "isa_profile \<Rightarrow> aec_instruction \<Rightarrow> (encode_error, int) result" where
  "encode_sub_bits profile inst =
     (if truthy (compare inst) then
        (case map_of (compare_ops profile) (the (compare inst)) of
           None \<Rightarrow> Inl (UnsupportedCompare (the (compare inst)))
         | Some c \<Rightarrow> Inr (push_bit FAMILY_SHIFT (c AND 0x7)))
      else if truthy (memory_space inst) then
        (case map_of (memory_spaces profile) (the (memory_space inst)) of
           None \<Rightarrow> Inl (UnsupportedSpace (the (memory_space inst)))
         | Some c \<Rightarrow> Inr (push_bit SPACE_SHIFT (c AND 0x7)))
      else if family inst \<noteq> 0 then Inr (push_bit FAMILY_SHIFT (family inst AND 0x7))
      else Inr 0)"

definition encode_words :: "string \<Rightarrow> int \<Rightarrow> int \<Rightarrow> aec_instruction \<Rightarrow> words" where
  "encode_words opcode_name ocode pred_ctrl inst =
     (let (word0, word1) =
            (if opcode_name = ''LOADI64'' then
               (imm inst AND 0xFFFFFFFF, drop_bit 32 (imm inst) AND 0xFFFFFFFF)
             else if uses_immediate opcode_name then
               (imm inst AND 0xFFFFFFFF, src2 inst AND 0xFFFFFFFF)
             else (src3 inst AND 0xFFFFFFFF, src2 inst AND 0xFFFFFFFF));
          word2 = push_bit 16 (dest inst AND 0xFFFF) OR (src1 inst AND 0xFFFF);
          word3 = push_bit 16 (ocode AND 0xFFFF) OR (pred_ctrl AND 0xFFFF)
      in (word0, word1, word2, word3))"

definition encode_instruction ::
    "isa_profile \<Rightarrow> aec_instruction \<Rightarrow> (encode_error, words) result" where
  "encode_instruction profile inst =
     (let opcode_name = upper (opcode inst) in
      case map_of (opcodes profile) opcode_name of
        None \<Rightarrow> Inl (UnsupportedOpcode (opcode inst))
      | Some ocode \<Rightarrow>
          (let dt = instruction_encoding_type opcode_name (dtype inst) in
           case map_of (types profile) dt of
             None \<Rightarrow> Inl (UnsupportedType dt)
           | Some tcode \<Rightarrow>
               bindE (encode_type_bits profile opcode_name tcode inst) (\<lambda>tbits.
               bindE (encode_pred_bits opcode_name inst) (\<lambda>pbits.
               bindE (encode_sub_bits profile inst) (\<lambda>sbits.
                 Inr (encode_words opcode_name ocode (tbits OR pbits OR sbits) inst))))))"

section \<open>Bytes\<close>

type_synonym byte = "8 word"

text \<open>\<open>struct.pack("<4I", ...)\<close> of words already masked to 32 bits, and its inverse.\<close>

definition pack_u32 :: "int \<Rightarrow> byte list" where
  "pack_u32 w = map (\<lambda>i. word_of_int (drop_bit (8 * i) w)) [0, 1, 2, 3]"

fun unpack_u32 :: "byte list \<Rightarrow> int" where
  "unpack_u32 [] = 0"
| "unpack_u32 (b # bs) = uint b + 256 * unpack_u32 bs"

definition pack_words :: "words \<Rightarrow> byte list" where
  "pack_words ws = (case ws of (w0, w1, w2, w3) \<Rightarrow>
     pack_u32 w0 @ pack_u32 w1 @ pack_u32 w2 @ pack_u32 w3)"

definition unpack_words :: "byte list \<Rightarrow> words" where
  "unpack_words bs =
     (unpack_u32 (take 4 bs), unpack_u32 (take 4 (drop 4 bs)),
      unpack_u32 (take 4 (drop 8 bs)), unpack_u32 (take 4 (drop 12 bs)))"

definition instructions_to_bytes ::
    "isa_profile \<Rightarrow> aec_instruction list \<Rightarrow> (encode_error, byte list) result" where
  "instructions_to_bytes profile insts =
     foldE (\<lambda>inst out. bindE (encode_instruction profile inst)
             (\<lambda>ws. Inr (out @ pack_words ws))) insts []"

fun iter_unpack :: "nat \<Rightarrow> byte list \<Rightarrow> words list" where
  "iter_unpack 0 bs = []"
| "iter_unpack (Suc n) bs = unpack_words (take 16 bs) # iter_unpack n (drop 16 bs)"

definition bytes_to_words :: "byte list \<Rightarrow> (encode_error, words list) result" where
  "bytes_to_words blob =
     (if length blob mod 16 \<noteq> 0 then Inl (LengthNotMultipleOf16 (length blob))
      else Inr (iter_unpack (length blob div 16) blob))"

section \<open>Decoding\<close>

definition decode_predicate_fields :: "string \<Rightarrow> int \<Rightarrow> int option \<times> bool" where
  "decode_predicate_fields opc pred_ctrl =
     (if opc = ''BRX'' \<or> pred_ctrl AND PRED_ENABLE \<noteq> 0
      then (Some (pred_ctrl AND 0x7), pred_ctrl AND PRED_NEGATE \<noteq> 0)
      else (None, False))"

definition decode_sub_fields ::
    "isa_profile \<Rightarrow> string \<Rightarrow> int \<Rightarrow>
     (encode_error, string option \<times> string option \<times> string option) result" where
  "decode_sub_fields profile opc pred_ctrl =
     (if opc \<in> {''CMP'', ''CMPP''} then
        (let code = drop_bit FAMILY_SHIFT pred_ctrl AND 0x7 in
         case map_of (reverse_dict (compare_ops profile)) code of
           None \<Rightarrow> Inl (UnknownCompare code) | Some c \<Rightarrow> Inr (Some c, None, None))
      else if opc \<in> {''LD'', ''ST'', ''LDC''} then
        (let code = drop_bit SPACE_SHIFT pred_ctrl AND 0x7 in
         case map_of (reverse_dict (memory_spaces profile)) code of
           None \<Rightarrow> Inl (UnknownSpace code) | Some c \<Rightarrow> Inr (None, Some c, None))
      else if startswith opc ''CVT'' then
        (let code = drop_bit 10 pred_ctrl AND 0xF in
         case map_of (reverse_dict (types profile)) code of
           None \<Rightarrow> Inl (UnknownConversionSource code) | Some c \<Rightarrow> Inr (None, None, Some c))
      else Inr (None, None, None))"

definition decode_immediates :: "string \<Rightarrow> int \<Rightarrow> int \<Rightarrow> int \<times> int \<times> int" where
  "decode_immediates opc word0 word1 =
     (if opc = ''LOADI64'' then
        (push_bit 32 (word1 AND 0xFFFFFFFF) OR (word0 AND 0xFFFFFFFF), 0, 0)
      else if uses_immediate opc then (word0 AND 0xFFFFFFFF, word1 AND 0xFFFFFFFF, 0)
      else (0, word1 AND 0xFFFFFFFF, word0 AND 0xFFFFFFFF))"

definition decode_words_to_instruction ::
    "isa_profile \<Rightarrow> words \<Rightarrow> (encode_error, aec_instruction) result" where
  "decode_words_to_instruction profile ws =
     (case ws of (word0, word1, word2, word3) \<Rightarrow>
       let opcode_value = drop_bit 16 word3 AND 0xFFFF;
           pred_ctrl = word3 AND 0xFFFF in
       case map_of (reverse_dict (opcodes profile)) opcode_value of
         None \<Rightarrow> Inl (UnknownOpcode opcode_value)
       | Some opc \<Rightarrow>
         (let dtype_code = drop_bit TYPE_SHIFT pred_ctrl AND 0xF in
          case map_of (reverse_dict (types profile)) dtype_code of
            None \<Rightarrow> Inl (UnknownType dtype_code)
          | Some dt \<Rightarrow>
            (let (pr, neg) = decode_predicate_fields opc pred_ctrl in
             bindE (decode_sub_fields profile opc pred_ctrl) (\<lambda>(cmp, space, cvt).
               let (imm64, src2_val, src3_val) = decode_immediates opc word0 word1 in
               Inr \<lparr>opcode = opc, dtype = dt,
                    dest = drop_bit 16 word2 AND 0xFFFF, src1 = word2 AND 0xFFFF,
                    src2 = src2_val, src3 = src3_val, imm = imm64,
                    predicate = pr, predicate_negated = neg, compare = cmp,
                    memory_space = space, cvt_src_type = cvt, family = 0\<rparr>))))"

end
