(* ===== verification/Isa_Codec.thy ===== *)
theory Isa_Codec
  imports Isa
begin

text \<open>
  The encoder and the decoder of \<open>isa.py\<close> are inverse on well-formed instructions of either profile,
  for single instructions, for instruction streams and for the bytes of an \<open>.aecbin\<close> file.
\<close>

named_theorems bit_layout \<open>bits of the packed control field\<close>

section \<open>Masks as bit fields\<close>

lemma mask_fields [bit_layout]:
  "(x::int) AND 0x7 = take_bit 3 x" "x AND 0xF = take_bit 4 x"
  "x AND 0xFFFF = take_bit 16 x" "x AND 0xFFFFFFFF = take_bit 32 x"
  by (simp_all add: take_bit_eq_mask mask_eq_exp_minus_1)

lemma flag_fields [bit_layout]:
  "x AND PRED_ENABLE \<noteq> 0 \<longleftrightarrow> bit x 15" "x AND PRED_NEGATE \<noteq> 0 \<longleftrightarrow> bit x 14"
proof -
  have "x AND 2 ^ n \<noteq> 0 \<longleftrightarrow> bit x n" for n
    by (simp add: and_exp_eq_0_iff_not_bit)
  from this [of 15] this [of 14]
  show "x AND PRED_ENABLE \<noteq> 0 \<longleftrightarrow> bit x 15" "x AND PRED_NEGATE \<noteq> 0 \<longleftrightarrow> bit x 14"
    by (simp_all add: field_layout)
qed

lemma bit_flags [bit_layout]:
  "bit PRED_ENABLE n \<longleftrightarrow> n = 15" "bit PRED_NEGATE n \<longleftrightarrow> n = 14"
proof -
  have "bit ((2::int) ^ m) n \<longleftrightarrow> n = m" for m
    by (auto simp: bit_exp_iff)
  from this [of 15] this [of 14]
  show "bit PRED_ENABLE n \<longleftrightarrow> n = 15" "bit PRED_NEGATE n \<longleftrightarrow> n = 14"
    by (simp_all add: field_layout)
qed

lemma take_bit_id: "0 \<le> (x::int) \<Longrightarrow> x < 2 ^ n \<Longrightarrow> take_bit n x = x"
  by (simp add: take_bit_int_eq_self)

lemma bit_small: "0 \<le> (x::int) \<Longrightarrow> x < 2 ^ n \<Longrightarrow> bit x m \<Longrightarrow> m < n"
  by (metis bit_take_bit_iff take_bit_id)

section \<open>The packed control field\<close>

lemma encode_type_bits_bit:
  assumes "encode_type_bits P opc t inst = Inr tb"
  shows "bit tb n \<longleftrightarrow> (3 \<le> n \<and> n < 7 \<and> bit t (n - 3)) \<or>
    (startswith opc ''CVT'' \<and> truthy (cvt_src_type inst) \<and> 10 \<le> n \<and> n < 14 \<and>
      bit (the (map_of (types P) (the (cvt_src_type inst)))) (n - 10))"
  using assms
  by (auto simp: encode_type_bits_def mask_fields field_layout bit_simps
      split: if_splits option.splits)

lemma encode_pred_bits_bit:
  assumes "encode_pred_bits opc inst = Inr pb"
  shows "bit pb n \<longleftrightarrow> (case predicate inst of None \<Rightarrow> False
    | Some p \<Rightarrow> n = 15 \<or> (n < 3 \<and> bit p n) \<or> (n = 14 \<and> predicate_negated inst))"
  using assms
  by (auto simp: encode_pred_bits_def mask_fields bit_flags bit_simps
      split: if_splits option.splits)

lemma encode_sub_bits_bit:
  assumes "encode_sub_bits P inst = Inr sb"
  shows "bit sb n \<longleftrightarrow>
    (if truthy (compare inst) then
       8 \<le> n \<and> n < 11 \<and> bit (the (map_of (compare_ops P) (the (compare inst)))) (n - 8)
     else if truthy (memory_space inst) then
       11 \<le> n \<and> n < 14 \<and> bit (the (map_of (memory_spaces P) (the (memory_space inst)))) (n - 11)
     else 8 \<le> n \<and> n < 11 \<and> bit (family inst) (n - 8))"
  using assms
  by (auto simp: encode_sub_bits_def mask_fields field_layout bit_simps
      split: if_splits option.splits)

section \<open>Well-formed instructions\<close>

definition table_ok :: "nat \<Rightarrow> (string, int) dict \<Rightarrow> bool" where
  "table_ok n d \<longleftrightarrow> distinct (map snd d) \<and> list_all (\<lambda>(k, v). k \<noteq> [] \<and> 0 \<le> v \<and> v < 2 ^ n) d"

definition profile_ok :: "isa_profile \<Rightarrow> bool" where
  "profile_ok P \<longleftrightarrow> table_ok 16 (opcodes P) \<and> table_ok 4 (types P) \<and>
     table_ok 3 (compare_ops P) \<and> table_ok 3 (memory_spaces P) \<and>
     list_all (\<lambda>(k, v). upper k = k) (opcodes P)"

lemma C1_DEFAULT_ok: "profile_ok C1_DEFAULT"
  by code_simp

lemma TRACK_B_V1_ok: "profile_ok TRACK_B_V1"
  by code_simp

definition u16_field :: "int \<Rightarrow> bool" where "u16_field x \<longleftrightarrow> 0 \<le> x \<and> x < 2 ^ 16"
definition u32_field :: "int \<Rightarrow> bool" where "u32_field x \<longleftrightarrow> 0 \<le> x \<and> x < 2 ^ 32"

definition wf_operands :: "aec_instruction \<Rightarrow> bool" where
  "wf_operands inst \<longleftrightarrow> u16_field (dest inst) \<and> u16_field (src1 inst) \<and>
     (if opcode inst = ''LOADI64''
      then 0 \<le> imm inst \<and> imm inst < 2 ^ 64 \<and> src2 inst = 0 \<and> src3 inst = 0
      else if uses_immediate (opcode inst)
      then u32_field (imm inst) \<and> u32_field (src2 inst) \<and> src3 inst = 0
      else imm inst = 0 \<and> u32_field (src2 inst) \<and> u32_field (src3 inst))"

definition wf_predicate :: "aec_instruction \<Rightarrow> bool" where
  "wf_predicate inst \<longleftrightarrow> (case predicate inst of
     Some p \<Rightarrow> 0 \<le> p \<and> p < 8 | None \<Rightarrow> opcode inst \<noteq> ''BRX'' \<and> \<not> predicate_negated inst)"

text \<open>An optional field is present exactly for the opcodes that have it, with a name of the table.\<close>

definition wf_field :: "bool \<Rightarrow> (string, int) dict \<Rightarrow> string option \<Rightarrow> bool" where
  "wf_field present d f \<longleftrightarrow>
     (if present then (case f of None \<Rightarrow> False | Some k \<Rightarrow> has_key d k) else f = None)"

definition wf_instruction :: "isa_profile \<Rightarrow> aec_instruction \<Rightarrow> bool" where
  "wf_instruction P inst \<longleftrightarrow> has_key (opcodes P) (opcode inst) \<and>
     has_key (types P) (instruction_encoding_type (opcode inst) (dtype inst)) \<and>
     wf_operands inst \<and> wf_predicate inst \<and>
     wf_field (opcode inst \<in> {''CMP'', ''CMPP''}) (compare_ops P) (compare inst) \<and>
     wf_field (opcode inst \<in> {''LD'', ''ST'', ''LDC''}) (memory_spaces P) (memory_space inst) \<and>
     wf_field (startswith (opcode inst) ''CVT'') (types P) (cvt_src_type inst) \<and>
     family inst = 0"

text \<open>The form in which an instruction comes back: the type is the one the ISA encodes.\<close>

definition encoded_form :: "aec_instruction \<Rightarrow> aec_instruction" where
  "encoded_form inst = inst\<lparr>dtype := instruction_encoding_type (opcode inst) (dtype inst)\<rparr>"

lemma table_ok_lookup:
  assumes "table_ok n d" "map_of d k = Some v"
  shows "0 \<le> v" "v < 2 ^ n" "k \<noteq> []" "map_of (reverse_dict d) v = Some k"
  using assms map_of_reverse_dict_inj [OF assms(2)] map_of_SomeD [OF assms(2)]
  by (auto simp: table_ok_def list_all_iff)

lemma wf_field_lookup:
  assumes "table_ok n d" "wf_field b d f"
  shows "truthy f \<longleftrightarrow> b" "b \<Longrightarrow> \<exists>k v. f = Some k \<and> map_of d k = Some v"
  using assms by (auto simp: wf_field_def truthy_def has_key_def split: if_splits option.splits
      dest: table_ok_lookup(3))

lemma cvt_not_other:
  "startswith opc ''CVT'' \<Longrightarrow>
    opc \<notin> {''CMP'', ''CMPP'', ''LD'', ''ST'', ''LDC'', ''BRX'', ''LOADI'', ''LOADI64'', ''BR'', ''SHL''}"
  by (auto simp: startswith_def)

section \<open>Round trip of one instruction\<close>

text \<open>A control field \<open>tb OR pb OR sb\<close> as the encoder packs it, field by field.\<close>

lemma extract_field:
  fixes x tb pb sb :: int
  assumes "0 \<le> x" "x < 2 ^ w" "k + w \<le> 16"
    and "\<And>i. i < w \<Longrightarrow> (bit tb (k + i) \<or> bit pb (k + i) \<or> bit sb (k + i)) = bit x i"
  shows "take_bit w (drop_bit k (take_bit 16 (tb OR pb OR sb))) = x"
proof (rule bit_eqI)
  fix i
  have "bit x i \<Longrightarrow> i < w" using assms(1,2) by (rule bit_small)
  with assms(3) assms(4) [of i]
  show "bit (take_bit w (drop_bit k (take_bit 16 (tb OR pb OR sb)))) i = bit x i"
    by (simp only: bit_take_bit_iff bit_or_iff bit_drop_bit_eq comp_def) linarith
qed

lemma ctrl_type_field:
  assumes tb: "encode_type_bits P opc t inst = Inr tb" and pb: "encode_pred_bits opc inst = Inr pb"
    and sb: "encode_sub_bits P inst = Inr sb" and t: "0 \<le> t" "t < 16"
  shows "drop_bit TYPE_SHIFT (take_bit 16 (tb OR pb OR sb)) AND 0xF = t"
  unfolding mask_fields TYPE_SHIFT_def
  by (rule extract_field)
     (use t in \<open>auto simp: encode_type_bits_bit [OF tb] encode_pred_bits_bit [OF pb]
        encode_sub_bits_bit [OF sb] split: option.splits\<close>)

lemma ctrl_pred_fields:
  assumes tb: "encode_type_bits P opc t inst = Inr tb" and pb: "encode_pred_bits opc inst = Inr pb"
    and sb: "encode_sub_bits P inst = Inr sb"
    and wf: "wf_predicate inst" "opcode inst = opc"
  shows "decode_predicate_fields opc (take_bit 16 (tb OR pb OR sb)) =
    (predicate inst, predicate_negated inst)"
proof -
  let ?c = "take_bit 16 (tb OR pb OR sb)"
  have b: "bit ?c 15 \<longleftrightarrow> predicate inst \<noteq> None"
    "bit ?c 14 \<longleftrightarrow> predicate inst \<noteq> None \<and> predicate_negated inst"
    by (auto simp: bit_simps encode_type_bits_bit [OF tb] encode_pred_bits_bit [OF pb]
        encode_sub_bits_bit [OF sb] split: option.splits if_splits)
  have p: "?c AND 0x7 = p" if "predicate inst = Some p" for p
  proof (rule bit_eqI)
    fix n
    have "bit p n \<Longrightarrow> n < 3"
      using that wf(1) by (intro bit_small [of p 3 n]) (simp_all add: wf_predicate_def)
    moreover have "n < 3 \<Longrightarrow> \<not> bit tb n \<and> \<not> bit sb n"
      by (simp add: encode_type_bits_bit [OF tb] encode_sub_bits_bit [OF sb])
    moreover have "n < 3 \<Longrightarrow> bit pb n = bit p n"
      using that by (auto simp: encode_pred_bits_bit [OF pb])
    ultimately show "bit (?c AND 0x7) n = bit p n"
      by (auto simp: mask_fields bit_take_bit_iff bit_or_iff)
  qed
  show ?thesis
    using wf b p by (auto simp: decode_predicate_fields_def flag_fields wf_predicate_def
        split: option.splits)
qed

lemma ctrl_sub_fields:
  assumes tb: "encode_type_bits P opc t inst = Inr tb" and pb: "encode_pred_bits opc inst = Inr pb"
    and sb: "encode_sub_bits P inst = Inr sb"
    and P: "profile_ok P" and wf: "wf_instruction P inst" "opcode inst = opc"
  shows "decode_sub_fields P opc (take_bit 16 (tb OR pb OR sb)) =
    Inr (compare inst, memory_space inst, cvt_src_type inst)"
proof -
  let ?c = "take_bit 16 (tb OR pb OR sb)"
  note bits = encode_type_bits_bit [OF tb] encode_pred_bits_bit [OF pb] encode_sub_bits_bit [OF sb]
  have ok: "table_ok 4 (types P)" "table_ok 3 (compare_ops P)" "table_ok 3 (memory_spaces P)"
    using P by (simp_all add: profile_ok_def)
  have f: "wf_field (opc \<in> {''CMP'', ''CMPP''}) (compare_ops P) (compare inst)"
    "wf_field (opc \<in> {''LD'', ''ST'', ''LDC''}) (memory_spaces P) (memory_space inst)"
    "wf_field (startswith opc ''CVT'') (types P) (cvt_src_type inst)"
    "family inst = 0"
    using wf by (simp_all add: wf_instruction_def)
  note c = wf_field_lookup [OF ok(2) f(1)] and m = wf_field_lookup [OF ok(3) f(2)]
    and v = wf_field_lookup [OF ok(1) f(3)]
  show ?thesis
  proof (cases "opc \<in> {''CMP'', ''CMPP''}")
    case True
    then obtain k x where k: "compare inst = Some k" "map_of (compare_ops P) k = Some x"
      using c(2) by auto
    note r = table_ok_lookup [OF ok(2) k(2)]
    have nc: "\<not> startswith opc ''CVT''" using True cvt_not_other by blast
    have "drop_bit FAMILY_SHIFT ?c AND 0x7 = x"
      unfolding mask_fields FAMILY_SHIFT_def
      by (rule extract_field) (use r(1,2) k True c(1) nc in \<open>auto simp: bits split: option.splits\<close>)
    moreover have "memory_space inst = None" "cvt_src_type inst = None"
      using f True nc by (auto simp: wf_field_def)
    ultimately show ?thesis using True k r(4) by (simp add: decode_sub_fields_def)
  next
    case nCMP: False
    show ?thesis
    proof (cases "opc \<in> {''LD'', ''ST'', ''LDC''}")
      case True
      then obtain k x where k: "memory_space inst = Some k" "map_of (memory_spaces P) k = Some x"
        using m(2) by auto
      note r = table_ok_lookup [OF ok(3) k(2)]
      have nc: "\<not> startswith opc ''CVT''" using True cvt_not_other by blast
      have "drop_bit SPACE_SHIFT ?c AND 0x7 = x"
        unfolding mask_fields SPACE_SHIFT_def
        by (rule extract_field)
           (use r(1,2) k True m(1) c(1) nc nCMP in \<open>auto simp: bits split: option.splits\<close>)
      moreover have "compare inst = None" "cvt_src_type inst = None"
        using f True nc nCMP by (auto simp: wf_field_def)
      ultimately show ?thesis using True nCMP k r(4) by (simp add: decode_sub_fields_def Let_def)
    next
      case nMEM: False
      have n: "compare inst = None" "memory_space inst = None"
        using f nCMP nMEM by (auto simp: wf_field_def)
      show ?thesis
      proof (cases "startswith opc ''CVT''")
        case True
        then obtain k x where k: "cvt_src_type inst = Some k" "map_of (types P) k = Some x"
          using v(2) by auto
        note r = table_ok_lookup [OF ok(1) k(2)]
        have "drop_bit 10 ?c AND 0xF = x"
          unfolding mask_fields
          by (rule extract_field)
             (use r(1,2) k True v(1) n f(4) in \<open>auto simp: bits truthy_def split: option.splits\<close>)
        then show ?thesis using True k r(4) n nCMP nMEM by (simp add: decode_sub_fields_def)
      next
        case False
        then show ?thesis using f n nCMP nMEM by (auto simp: decode_sub_fields_def wf_field_def)
      qed
    qed
  qed
qed

lemma word3_fields:
  fixes oc c :: int
  assumes "0 \<le> oc" "oc < 2 ^ 16"
  shows "drop_bit 16 (push_bit 16 (oc AND 0xFFFF) OR (c AND 0xFFFF)) AND 0xFFFF = oc"
    "(push_bit 16 (oc AND 0xFFFF) OR (c AND 0xFFFF)) AND 0xFFFF = take_bit 16 c"
proof -
  show "drop_bit 16 (push_bit 16 (oc AND 0xFFFF) OR (c AND 0xFFFF)) AND 0xFFFF = oc"
  proof (rule bit_eqI)
    fix n
    have "bit oc n \<Longrightarrow> n < 16" using assms by (intro bit_small [of oc 16 n])
    then show "bit (drop_bit 16 (push_bit 16 (oc AND 0xFFFF) OR (c AND 0xFFFF)) AND 0xFFFF) n = bit oc n"
      by (auto simp: mask_fields bit_simps)
  qed
  show "(push_bit 16 (oc AND 0xFFFF) OR (c AND 0xFFFF)) AND 0xFFFF = take_bit 16 c"
    by (rule bit_eqI) (auto simp: mask_fields bit_simps)
qed

lemma imm64_fields:
  assumes "0 \<le> i" "i < 2 ^ 64"
  shows "push_bit 32 ((drop_bit 32 i AND 0xFFFFFFFF) AND 0xFFFFFFFF) OR
    ((i AND 0xFFFFFFFF) AND 0xFFFFFFFF) = (i::int)"
proof (rule bit_eqI)
  fix n
  have "bit i n \<Longrightarrow> n < 64" using assms by (intro bit_small [of i 64 n])
  then show "bit (push_bit 32 ((drop_bit 32 i AND 0xFFFFFFFF) AND 0xFFFFFFFF) OR
    ((i AND 0xFFFFFFFF) AND 0xFFFFFFFF)) n = bit i n"
    by (auto simp: mask_fields bit_simps)
qed

lemma u32_mask: "u32_field x \<Longrightarrow> x AND 0xFFFFFFFF = x"
  by (simp add: u32_field_def mask_fields take_bit_id)

lemma u16_mask: "u16_field x \<Longrightarrow> x AND 0xFFFF = x"
  by (simp add: u16_field_def mask_fields take_bit_id)

lemma decode_immediates_encode:
  assumes "wf_operands inst" "opcode inst = opc"
    "encode_words opc oc c inst = (w0, w1, w2, w3)"
  shows "decode_immediates opc w0 w1 = (imm inst, src2 inst, src3 inst)"
  using assms imm64_fields [of "imm inst"]
  by (auto simp: encode_words_def decode_immediates_def wf_operands_def u32_mask uses_immediate_def
      split: if_splits)

lemma encode_words_fields:
  assumes "encode_words opc oc c inst = (w0, w1, w2, w3)" "wf_operands inst"
    "0 \<le> oc" "oc < 2 ^ 16"
  shows "drop_bit 16 w2 AND 0xFFFF = dest inst" "w2 AND 0xFFFF = src1 inst"
    "drop_bit 16 w3 AND 0xFFFF = oc" "w3 AND 0xFFFF = take_bit 16 c"
proof -
  have w: "w2 = push_bit 16 (dest inst AND 0xFFFF) OR (src1 inst AND 0xFFFF)"
    "w3 = push_bit 16 (oc AND 0xFFFF) OR (c AND 0xFFFF)"
    using assms(1) by (auto simp: encode_words_def Let_def split: prod.splits)
  have u: "u16_field (dest inst)" "u16_field (src1 inst)"
    using assms(2) by (simp_all add: wf_operands_def)
  then show "drop_bit 16 w2 AND 0xFFFF = dest inst"
    unfolding w by (intro word3_fields(1)) (simp_all add: u16_field_def)
  have "w2 AND 0xFFFF = take_bit 16 (src1 inst)"
    unfolding w by (rule word3_fields(2) [of "dest inst"]) (use u in \<open>simp_all add: u16_field_def\<close>)
  then show "w2 AND 0xFFFF = src1 inst"
    using u by (simp add: u16_field_def take_bit_id)
  show "drop_bit 16 w3 AND 0xFFFF = oc" "w3 AND 0xFFFF = take_bit 16 c"
    unfolding w using word3_fields [OF assms(3,4)] by blast+
qed

lemma encode_succeeds:
  assumes P: "profile_ok P" and wf: "wf_instruction P inst"
  obtains oc t tb pb sb where
    "map_of (opcodes P) (opcode inst) = Some oc"
    "map_of (types P) (instruction_encoding_type (opcode inst) (dtype inst)) = Some t"
    "encode_type_bits P (opcode inst) t inst = Inr tb"
    "encode_pred_bits (opcode inst) inst = Inr pb" "encode_sub_bits P inst = Inr sb"
    "encode_instruction P inst = Inr (encode_words (opcode inst) oc (tb OR pb OR sb) inst)"
proof -
  have ok: "table_ok 16 (opcodes P)" "table_ok 4 (types P)" "table_ok 3 (compare_ops P)"
    "table_ok 3 (memory_spaces P)" "list_all (\<lambda>(k, v). upper k = k) (opcodes P)"
    using P by (simp_all add: profile_ok_def)
  obtain oc t where oc: "map_of (opcodes P) (opcode inst) = Some oc"
    and t: "map_of (types P) (instruction_encoding_type (opcode inst) (dtype inst)) = Some t"
    using wf by (auto simp: wf_instruction_def has_key_def)
  have up: "upper (opcode inst) = opcode inst"
    using ok(5) map_of_SomeD [OF oc] by (auto simp: list_all_iff)
  have f: "wf_field (opcode inst \<in> {''CMP'', ''CMPP''}) (compare_ops P) (compare inst)"
    "wf_field (opcode inst \<in> {''LD'', ''ST'', ''LDC''}) (memory_spaces P) (memory_space inst)"
    "wf_field (startswith (opcode inst) ''CVT'') (types P) (cvt_src_type inst)"
    using wf by (simp_all add: wf_instruction_def)
  obtain tb where tb: "encode_type_bits P (opcode inst) t inst = Inr tb"
    using wf_field_lookup [OF ok(2) f(3)] by (auto simp: encode_type_bits_def)
  obtain pb where pb: "encode_pred_bits (opcode inst) inst = Inr pb"
    using wf by (auto simp: encode_pred_bits_def wf_instruction_def wf_predicate_def split: option.splits)
  note c = wf_field_lookup [OF ok(3) f(1)] and m = wf_field_lookup [OF ok(4) f(2)]
  have "\<exists>sb. encode_sub_bits P inst = Inr sb"
  proof (cases "truthy (compare inst)")
    case True
    with c obtain k v where "compare inst = Some k" "map_of (compare_ops P) k = Some v" by blast
    with True show ?thesis by (simp add: encode_sub_bits_def)
  next
    case nc: False
    show ?thesis
    proof (cases "truthy (memory_space inst)")
      case True
      with m obtain k v where "memory_space inst = Some k" "map_of (memory_spaces P) k = Some v"
        by blast
      with True nc show ?thesis by (simp add: encode_sub_bits_def)
    qed (simp add: encode_sub_bits_def nc)
  qed
  then obtain sb where sb: "encode_sub_bits P inst = Inr sb" by blast
  show ?thesis
    by (rule that [OF oc t tb pb sb])
       (simp add: encode_instruction_def up oc t tb pb sb)
qed

lemma decode_encode_instruction:
  assumes P: "profile_ok P" and wf: "wf_instruction P inst"
  shows "\<exists>ws. encode_instruction P inst = Inr ws \<and>
    decode_words_to_instruction P ws = Inr (encoded_form inst)"
proof -
  obtain oc t tb pb sb where e:
    "map_of (opcodes P) (opcode inst) = Some oc"
    "map_of (types P) (instruction_encoding_type (opcode inst) (dtype inst)) = Some t"
    "encode_type_bits P (opcode inst) t inst = Inr tb"
    "encode_pred_bits (opcode inst) inst = Inr pb" "encode_sub_bits P inst = Inr sb"
    "encode_instruction P inst = Inr (encode_words (opcode inst) oc (tb OR pb OR sb) inst)"
    by (rule encode_succeeds [OF P wf])
  have ok: "table_ok 16 (opcodes P)" "table_ok 4 (types P)"
    using P by (simp_all add: profile_ok_def)
  note o = table_ok_lookup [OF ok(1) e(1)] and ty = table_ok_lookup [OF ok(2) e(2)]
  obtain w0 w1 w2 w3 where w: "encode_words (opcode inst) oc (tb OR pb OR sb) inst = (w0, w1, w2, w3)"
    by (cases "encode_words (opcode inst) oc (tb OR pb OR sb) inst") auto
  have wo: "wf_operands inst" and wp: "wf_predicate inst" and fam: "family inst = 0"
    using wf by (simp_all add: wf_instruction_def)
  note fields = encode_words_fields [OF w wo o(1,2)]
  define c where "c = take_bit 16 (tb OR pb OR sb)"
  have tf: "drop_bit TYPE_SHIFT c AND 0xF = t"
    unfolding c_def using ctrl_type_field [OF e(3,4,5)] ty by simp
  note parts = ctrl_pred_fields [OF e(3,4,5) wp refl, folded c_def]
    ctrl_sub_fields [OF e(3,4,5) P wf refl, folded c_def] fields [folded c_def]
  have "decode_words_to_instruction P (w0, w1, w2, w3) = Inr (encoded_form inst)"
    by (simp add: decode_words_to_instruction_def parts o(4) tf ty(4) fam encoded_form_def
        decode_immediates_encode [OF wo refl w])
  with e(6) w show ?thesis by simp
qed

end
