(* ===== verification/Aecbin.thy ===== *)
theory Aecbin
  imports Isa_Codec
begin

text \<open>
  The raw binary (\<open>instructions_to_bytes\<close>, \<open>bytes_to_words\<close>) and the textual disassembler
  (\<open>decode_instruction\<close>, \<open>words_to_msb_hex\<close>, \<open>objdump.disassemble\<close>). The interface \<open>codec\<close> states
  what a stream format needs of its element format; both profiles and the 32-bit word packing
  provide it.
\<close>

section \<open>Element codecs and streams of elements\<close>

locale codec =
  fixes enc :: "'a \<Rightarrow> ('e, 'w) result" and dec :: "'w \<Rightarrow> ('e, 'a) result"
    and ok :: "'a \<Rightarrow> bool" and norm :: "'a \<Rightarrow> 'a"
  assumes round_trip: "ok x \<Longrightarrow> \<exists>w. enc x = Inr w \<and> dec w = Inr (norm x)"
begin

lemma round_trip_list:
  "list_all ok xs \<Longrightarrow> \<exists>ws. mapE enc xs = Inr ws \<and> mapE dec ws = Inr (map norm xs)"
proof (induction xs)
  case (Cons x xs)
  then obtain ws where "mapE enc xs = Inr ws" "mapE dec ws = Inr (map norm xs)" by auto
  moreover obtain w where "enc x = Inr w" "dec w = Inr (norm x)"
    using round_trip [of x] Cons.prems by auto
  ultimately show ?case by (intro exI [of _ "w # ws"]) simp
qed simp

lemma enc_injective: "ok x \<Longrightarrow> ok y \<Longrightarrow> enc x = enc y \<Longrightarrow> norm x = norm y"
  using round_trip [of x] round_trip [of y] by auto

lemma round_trip_pair:
  "ok x \<Longrightarrow> ok y \<Longrightarrow> \<exists>v w. enc x = Inr v \<and> enc y = Inr w \<and> dec v = Inr (norm x) \<and> dec w = Inr (norm y)"
  using round_trip by blast

end

interpretation c1_codec: codec "encode_instruction C1_DEFAULT"
  "decode_words_to_instruction C1_DEFAULT" "wf_instruction C1_DEFAULT" encoded_form
  by unfold_locales (rule decode_encode_instruction [OF C1_DEFAULT_ok])

interpretation track_b_codec: codec "encode_instruction TRACK_B_V1"
  "decode_words_to_instruction TRACK_B_V1" "wf_instruction TRACK_B_V1" encoded_form
  by unfold_locales (rule decode_encode_instruction [OF TRACK_B_V1_ok])

section \<open>Words and bytes\<close>

lemma take_bit_bound: "u32_field (take_bit 32 (x::int))"
  using take_bit_int_less_exp [of 32 x] by (simp add: u32_field_def)

lemma packed_halves_bound: "u32_field (push_bit 16 ((x::int) AND 0xFFFF) OR (y AND 0xFFFF))"
proof -
  have "push_bit 16 (x AND 0xFFFF) OR (y AND 0xFFFF) =
      take_bit 32 (push_bit 16 (x AND 0xFFFF) OR (y AND 0xFFFF))"
    by (rule bit_eqI) (auto simp: mask_fields bit_simps)
  then show ?thesis by (metis take_bit_bound)
qed

definition words_ok :: "words \<Rightarrow> bool" where
  "words_ok ws \<longleftrightarrow> (case ws of (w0, w1, w2, w3) \<Rightarrow>
     u32_field w0 \<and> u32_field w1 \<and> u32_field w2 \<and> u32_field w3)"

lemma encode_words_ok: "words_ok (encode_words opc oc c inst)"
  by (simp add: words_ok_def encode_words_def Let_def packed_halves_bound mask_fields(4)
      take_bit_bound del: push_bit_and)

lemma encode_instruction_words_ok: "encode_instruction P inst = Inr ws \<Longrightarrow> words_ok ws"
  by (auto simp: encode_instruction_def Let_def bindE_Inr_iff encode_words_ok split: option.splits)

lemma unpack_pack_u32: "u32_field w \<Longrightarrow> unpack_u32 (pack_u32 w) = w"
proof -
  assume w: "u32_field w"
  define a b c where "a = w div 256" and "b = a div 256" and "c = b div 256"
  have d: "w div 2 ^ 16 = b" "w div 2 ^ 24 = c"
    by (simp_all add: a_def b_def c_def flip: zdiv_zmult2_eq)
  have "0 \<le> c" "c < 256" using w d(2) by (auto simp: u32_field_def)
  then have e: "c mod 256 = c" "b mod 256 + 256 * c = b" "a mod 256 + 256 * b = a"
    "w mod 256 + 256 * a = w"
    by (simp_all add: a_def b_def c_def)
  have "uint (word_of_int x :: byte) = x mod 256" for x
    by (simp add: uint_word_of_int)
  then have "unpack_u32 (pack_u32 w) =
      w mod 256 + 256 * (a mod 256 + 256 * (b mod 256 + 256 * (c mod 256)))"
    unfolding d [symmetric] unfolding a_def
    by (simp add: pack_u32_def take_bit_int_def drop_bit_int_def)
  then show ?thesis by (simp only: e)
qed

lemma length_pack_u32 [simp]: "length (pack_u32 w) = 4"
  by (simp add: pack_u32_def)

lemma length_pack_words [simp]: "length (pack_words ws) = 16"
  by (simp add: pack_words_def split: prod.splits)

lemma unpack_pack_words: "words_ok ws \<Longrightarrow> unpack_words (pack_words ws) = ws"
  by (auto simp: words_ok_def pack_words_def unpack_words_def unpack_pack_u32 split: prod.splits)

interpretation word_codec: codec "\<lambda>ws. Inr (pack_words ws)" "\<lambda>bs. Inr (unpack_words bs)" words_ok id
  by unfold_locales (simp add: unpack_pack_words)

lemma iter_unpack_pack:
  "list_all words_ok wss \<Longrightarrow> iter_unpack (length wss) (concat (map pack_words wss)) = wss"
  by (induction wss) (simp_all add: unpack_pack_words)

lemma length_concat_pack: "length (concat (map pack_words wss)) = 16 * length wss"
  by (induction wss) simp_all

lemma bytes_to_words_pack:
  "list_all words_ok wss \<Longrightarrow> bytes_to_words (concat (map pack_words wss)) = Inr wss"
  by (simp add: bytes_to_words_def length_concat_pack iter_unpack_pack)

lemma instructions_to_bytes_mapE:
  "instructions_to_bytes P insts =
    bindE (mapE (encode_instruction P) insts) (\<lambda>wss. Inr (concat (map pack_words wss)))"
proof -
  have "foldE (\<lambda>inst out. bindE (encode_instruction P inst) (\<lambda>ws. Inr (out @ pack_words ws))) insts acc =
      bindE (mapE (encode_instruction P) insts) (\<lambda>wss. Inr (acc @ concat (map pack_words wss)))" for acc
    by (induction insts arbitrary: acc) (auto simp: bindE_def split: sum.splits)
  from this [of "[]"] show ?thesis by (simp add: instructions_to_bytes_def)
qed

lemma mapE_encode_words_ok: "mapE (encode_instruction P) insts = Inr wss \<Longrightarrow> list_all words_ok wss"
  by (induction insts arbitrary: wss)
     (auto simp: bindE_Inr_iff dest: encode_instruction_words_ok)

section \<open>Properties of the binary format\<close>

lemma stream_round_trip:
  assumes "profile_ok P" "list_all (wf_instruction P) insts"
  shows "\<exists>blob wss. instructions_to_bytes P insts = Inr blob \<and> length blob = 16 * length insts \<and>
    bytes_to_words blob = Inr wss \<and>
    mapE (decode_words_to_instruction P) wss = Inr (map encoded_form insts)"
proof -
  have "codec (encode_instruction P) (decode_words_to_instruction P)
      (wf_instruction P) encoded_form"
    by unfold_locales (rule decode_encode_instruction [OF assms(1)])
  from codec.round_trip_list [OF this assms(2)] obtain wss where
    w: "mapE (encode_instruction P) insts = Inr wss"
    "mapE (decode_words_to_instruction P) wss = Inr (map encoded_form insts)" by blast
  then show ?thesis
    by (simp add: instructions_to_bytes_mapE bytes_to_words_pack [OF mapE_encode_words_ok [OF w(1)]]
        length_concat_pack mapE_Inr_length [OF w(1)])
qed

text \<open>
  C1. A stream of well-formed instructions survives the binary file: for either profile, encoding
  produces 16 bytes per instruction, and reading the bytes back and decoding every word group gives
  the instructions again, in order, each with the type the ISA encodes (\<open>SHL.b32\<close> as \<open>SHL.u32\<close>,
  immediates and branches as \<open>none\<close>).
\<close>

theorem aecbin_round_trip:
  assumes "profile_ok P" "list_all (wf_instruction P) insts"
  shows "\<exists>blob wss. instructions_to_bytes P insts = Inr blob \<and> length blob = 16 * length insts \<and>
    bytes_to_words blob = Inr wss \<and>
    mapE (decode_words_to_instruction P) wss = Inr (map encoded_form insts)"
  by (rule stream_round_trip [OF assms])

definition sample_insts :: "aec_instruction list" where
  "sample_insts =
     [(AECInstruction ''LOADI'')\<lparr>dtype := ''u32'', dest := 240, imm := 24\<rparr>,
      (AECInstruction ''LD'')\<lparr>dtype := ''u32'', dest := 3, src1 := 240, memory_space := Some ''pmem''\<rparr>,
      (AECInstruction ''CMPP'')\<lparr>dtype := ''u32'', dest := 1, src1 := 3, src2 := 4, compare := Some ''ge''\<rparr>,
      (AECInstruction ''SHL'')\<lparr>dtype := ''b32'', dest := 5, src1 := 3, src2 := 240,
         predicate := Some 1, predicate_negated := True\<rparr>,
      (AECInstruction ''BRX'')\<lparr>imm := 6, predicate := Some 1\<rparr>,
      AECInstruction ''HALT'']"

theorem aecbin_round_trip_witness:
  "\<exists>blob wss. instructions_to_bytes C1_DEFAULT sample_insts = Inr blob \<and>
    length blob = 16 * length sample_insts \<and> bytes_to_words blob = Inr wss \<and>
    mapE (decode_words_to_instruction C1_DEFAULT) wss = Inr (map encoded_form sample_insts)"
  by (rule aecbin_round_trip [OF C1_DEFAULT_ok]) code_simp

text \<open>
  C2. Whatever the fields of an instruction hold (negative or oversized values included), a
  successful encoding consists of four words that fit in 32 bits, so \<open>struct.pack\<close> accepts them; the
  bytes of the instruction are those of the words, and they read back as the same words.
\<close>

theorem encode_instruction_bounds:
  assumes "encode_instruction P inst = Inr (w0, w1, w2, w3)"
  shows "w0 \<in> {0..<2 ^ 32} \<and> w1 \<in> {0..<2 ^ 32} \<and> w2 \<in> {0..<2 ^ 32} \<and> w3 \<in> {0..<2 ^ 32} \<and>
    (\<exists>blob. instructions_to_bytes P [inst] = Inr blob \<and> length blob = 16 \<and>
      bytes_to_words blob = Inr [(w0, w1, w2, w3)])"
proof -
  have ok: "words_ok (w0, w1, w2, w3)" by (rule encode_instruction_words_ok [OF assms])
  then have "bytes_to_words (pack_words (w0, w1, w2, w3)) = Inr [(w0, w1, w2, w3)]"
    using bytes_to_words_pack [of "[(w0, w1, w2, w3)]"] by simp
  with ok assms show ?thesis by (auto simp: words_ok_def u32_field_def instructions_to_bytes_mapE)
qed

text \<open>A store with a negative and an oversized operand: the fields are masked.\<close>

definition oversized_store :: aec_instruction where
  "oversized_store = (AECInstruction ''ST'')\<lparr>dtype := ''u32'', dest := 70000, src1 := -1,
     src2 := 2 ^ 40 + 7, memory_space := Some ''gmem''\<rparr>"

theorem encode_instruction_bounds_witness:
  "encode_instruction C1_DEFAULT oversized_store = Inr (0, 7, 0x1170FFFF, 0x00310010) \<and>
    (0::int) \<in> {0..<2 ^ 32} \<and> (7::int) \<in> {0..<2 ^ 32} \<and> (0x1170FFFF::int) \<in> {0..<2 ^ 32} \<and>
    (0x00310010::int) \<in> {0..<2 ^ 32} \<and>
    (\<exists>blob. instructions_to_bytes C1_DEFAULT [oversized_store] = Inr blob \<and> length blob = 16 \<and>
      bytes_to_words blob = Inr [(0, 7, 0x1170FFFF, 0x00310010)])"
proof -
  have e: "encode_instruction C1_DEFAULT oversized_store = Inr (0, 7, 0x1170FFFF, 0x00310010)"
    by code_simp
  show ?thesis using e encode_instruction_bounds [OF e] by blast
qed

end
