(* ===== verification/Disasm.thy ===== *)
theory Disasm
  imports Aecbin
begin

text \<open>
  The textual disassembler: \<open>decode_instruction\<close> and \<open>words_to_msb_hex\<close> of \<open>isa.py\<close> and
  \<open>disassemble\<close> of \<open>objdump.py\<close>.
\<close>

section \<open>One instruction\<close>

definition decode_predicate_text :: "string \<Rightarrow> int \<Rightarrow> string" where
  "decode_predicate_text opc pred_ctrl =
     (if opc = ''BRX'' \<or> pred_ctrl AND PRED_ENABLE = 0 then []
      else (let neg = (if pred_ctrl AND PRED_NEGATE \<noteq> 0 then ''!'' else [])
            in ''@'' @ neg @ ''P'' @ dec_str (pred_ctrl AND 0x7) @ '' ''))"

definition unary_ops :: "string list" where
  "unary_ops = [''NEG'', ''ABS'', ''NOT'', ''POPC'', ''FLO'', ''RCP'', ''RSQ'', ''SIN'', ''COS'',
     ''EXP'', ''LOG'', ''SQRT'']"

definition lookup_default :: "('k, 'v) dict \<Rightarrow> 'k \<Rightarrow> 'v \<Rightarrow> 'v" where
  "lookup_default d k v = (case map_of d k of None \<Rightarrow> v | Some x \<Rightarrow> x)"

definition decode_instruction :: "isa_profile \<Rightarrow> words \<Rightarrow> string" where
  "decode_instruction profile ws =
     (case ws of (word0, word1, word2, word3) \<Rightarrow>
      let opcode_value = drop_bit 16 word3 AND 0xFFFF;
          pred_ctrl = word3 AND 0xFFFF;
          opc = lookup_default (reverse_dict (opcodes profile)) opcode_value
                  (''OP_'' @ hex_pad 4 opcode_value);
          tcode = drop_bit TYPE_SHIFT pred_ctrl AND 0xF;
          dt = lookup_default (reverse_dict (types profile)) tcode (''type'' @ hex_pad 1 tcode);
          dst = dec_str (drop_bit 16 word2 AND 0xFFFF);
          s1 = word2 AND 0xFFFF;
          s2 = dec_str (word1 AND 0xFFFF);
          s3 = dec_str (word0 AND 0xFFFF);
          prefix = decode_predicate_text opc pred_ctrl;
          r1 = ''R'' @ dec_str s1;
          body =
           (if opc = ''LOADI'' then ''LOADI R'' @ dst @ '', 0x'' @ hex_pad 8 word0
            else if opc = ''LOADI64'' then
              ''LOADI64 R'' @ dst @ '', 0x'' @
                hex_pad 16 (push_bit 32 (word1 AND 0xFFFFFFFF) OR (word0 AND 0xFFFFFFFF))
            else if opc \<in> {''BR'', ''CALL''} then opc @ '' '' @ dec_str word0
            else if opc = ''BRX'' then ''BRX P'' @ dec_str (pred_ctrl AND 0x7) @ '', '' @ dec_str word0
            else if opc = ''HALT'' then ''HALT''
            else if opc \<in> {''LD'', ''ST'', ''LDC''} then
              (let space = lookup_default (reverse_dict (memory_spaces profile))
                             (drop_bit SPACE_SHIFT pred_ctrl AND 0x7) ''space?'' in
               if opc = ''ST'' then
                 ''ST.'' @ space @ ''.'' @ dt @ '' ['' @ r1 @ ''], R'' @ s2
               else opc @ ''.'' @ space @ ''.'' @ dt @ '' R'' @ dst @ '', ['' @ r1 @ '']'')
            else if opc \<in> {''CMP'', ''CMPP''} then
              (let cmp_op = lookup_default (reverse_dict (compare_ops profile))
                              (drop_bit FAMILY_SHIFT pred_ctrl AND 0x7) ''cmp?'';
                   dst_prefix = (if opc = ''CMPP'' then ''P'' else ''R'') in
               opc @ ''.'' @ cmp_op @ ''.'' @ dt @ '' '' @ dst_prefix @ dst @ '', '' @ r1 @ '', R'' @ s2)
            else if startswith opc ''CVT'' then
              (let src_type = lookup_default (reverse_dict (types profile))
                                (drop_bit 10 pred_ctrl AND 0xF) ''type?'' in
               opc @ ''.'' @ dt @ ''.'' @ src_type @ '' R'' @ dst @ '', '' @ r1)
            else if opc = ''CPY'' then
              ''CPY.'' @ dt @ '' R'' @ dst @ '', '' @
                lookup_default (reverse_dict (special_registers profile)) s1 r1
            else if opc = ''RDTSC'' then opc @ ''.'' @ dt @ '' R'' @ dst @ '', '' @ r1
            else if opc \<in> set unary_ops then opc @ ''.'' @ dt @ '' R'' @ dst @ '', '' @ r1
            else if opc \<in> {''MAD'', ''FMA''} then
              opc @ ''.'' @ dt @ '' R'' @ dst @ '', '' @ r1 @ '', R'' @ s2 @ '', R'' @ s3
            else opc @ ''.'' @ dt @ '' R'' @ dst @ '', '' @ r1 @ '', R'' @ s2)
      in prefix @ body)"

definition words_to_msb_hex :: "words \<Rightarrow> string" where
  "words_to_msb_hex ws = (case ws of (word0, word1, word2, word3) \<Rightarrow>
     hex_pad 8 word3 @ hex_pad 8 word2 @ hex_pad 8 word1 @ hex_pad 8 word0)"

section \<open>A binary file\<close>

definition AECI_MAGIC :: int where "AECI_MAGIC = 0x49434541"

definition PROFILES :: "(string, isa_profile) dict" where
  "PROFILES = [(''c1_default'', C1_DEFAULT), (''track_b_v1'', TRACK_B_V1)]"

datatype objdump_error = KeyErrorProfile string | Encode encode_error

fun numbered_lines :: "isa_profile \<Rightarrow> nat \<Rightarrow> words list \<Rightarrow> string list" where
  "numbered_lines profile pc [] = []"
| "numbered_lines profile pc (ws # rest) =
     (dec_pad 4 (int pc) @ '': '' @ words_to_msb_hex ws @ ''    '' @ decode_instruction profile ws) #
       numbered_lines profile (Suc pc) rest"

text \<open>The header offset of the legacy container, 0 for a raw stream.\<close>

definition header_offset :: "byte list \<Rightarrow> nat" where
  "header_offset blob =
     (if length blob \<ge> 64 \<and> unpack_u32 (take 4 blob) = AECI_MAGIC
      then nat (unpack_u32 (take 4 (drop 12 blob))) else 0)"

definition disassemble :: "byte list \<Rightarrow> string \<Rightarrow> (objdump_error, string list) result" where
  "disassemble blob profile_name =
     (case map_of PROFILES profile_name of
        None \<Rightarrow> Inl (KeyErrorProfile profile_name)
      | Some profile \<Rightarrow>
          (case bytes_to_words (drop (header_offset blob) blob) of
             Inl e \<Rightarrow> Inl (Encode e)
           | Inr wss \<Rightarrow> Inr (numbered_lines profile 0 wss)))"

section \<open>Properties\<close>

lemma length_numbered_lines [simp]: "length (numbered_lines P pc wss) = length wss"
  by (induction wss arbitrary: pc) simp_all

lemma nth_numbered_lines:
  "i < length wss \<Longrightarrow> numbered_lines P pc wss ! i =
    dec_pad 4 (int (pc + i)) @ '': '' @ words_to_msb_hex (wss ! i) @ ''    '' @
      decode_instruction P (wss ! i)"
  by (induction wss arbitrary: pc i) (auto simp: nth_Cons algebra_simps split: nat.splits)

lemma take_concat_pack_head:
  "wss \<noteq> [] \<Longrightarrow> take 4 (concat (map pack_words wss)) = pack_u32 (fst (hd wss))"
  by (cases wss) (auto simp: pack_words_def split: prod.splits)

text \<open>
  A raw stream is taken for a legacy container exactly when it has the 64 bytes of a header, four
  instructions, and its first word is the magic.
\<close>

lemma header_offset_raw:
  assumes "list_all words_ok wss" "length wss < 4 \<or> fst (hd wss) \<noteq> AECI_MAGIC"
  shows "header_offset (concat (map pack_words wss)) = 0"
proof (cases "length wss < 4")
  case True
  then show ?thesis by (simp add: header_offset_def length_concat_pack)
next
  case False
  then have ne: "wss \<noteq> []" by auto
  then have "words_ok (hd wss)" using assms(1) by (cases wss) auto
  then have "u32_field (fst (hd wss))" by (auto simp: words_ok_def split: prod.splits)
  with False ne assms show ?thesis
    by (simp add: header_offset_def take_concat_pack_head unpack_pack_u32)
qed


text \<open>The words of the sample stream, which is longer than a container header.\<close>

definition sample_words :: "words list" where
  "sample_words =
     [(24, 0, 0x00F00000, 0x00550078), (0, 0, 0x000300F0, 0x00302010), (0, 4, 0x00010003, 0x00210510),
      (0, 240, 0x00050003, 0x0014C011), (6, 0, 0, 0x00418079), (0, 0, 0, 0x00450078)]"


text \<open>A stream of four instructions that begins with the magic: all its lines are lost.\<close>

definition magic_stream :: "aec_instruction list" where
  "magic_stream = (AECInstruction ''LOADI'')\<lparr>dtype := ''u32'', dest := 1, imm := AECI_MAGIC\<rparr> #
     replicate 3 (AECInstruction ''HALT'')"

definition magic_blob :: "byte list" where
  "magic_blob = (case instructions_to_bytes C1_DEFAULT magic_stream of Inl _ \<Rightarrow> [] | Inr blob \<Rightarrow> blob)"

lemma disassemble_takes_stream_for_container:
  "instructions_to_bytes C1_DEFAULT magic_stream = Inr magic_blob" "disassemble magic_blob ''c1_default'' = Inr []"
proof -
  have "case instructions_to_bytes C1_DEFAULT magic_stream of Inl _ \<Rightarrow> False | Inr _ \<Rightarrow> True" by code_simp
  then show "instructions_to_bytes C1_DEFAULT magic_stream = Inr magic_blob"
    by (auto simp: magic_blob_def split: sum.splits)
  have "length magic_blob = 64" "unpack_u32 (take 4 magic_blob) = AECI_MAGIC"
    "64 \<le> unpack_u32 (take 4 (drop 12 magic_blob))" by code_simp+
  then have "drop (header_offset magic_blob) magic_blob = []" by (simp add: header_offset_def)
  then show "disassemble magic_blob ''c1_default'' = Inr []"
    by (simp add: disassemble_def PROFILES_def bytes_to_words_def)
qed

definition brx_inst :: "bool \<Rightarrow> int \<Rightarrow> int \<Rightarrow> aec_instruction" where
  "brx_inst neg p t = (AECInstruction ''BRX'')\<lparr>predicate := Some p, predicate_negated := neg, imm := t\<rparr>"

text \<open>The text of a decoded \<open>BRX\<close> is a function of its predicate number and its target alone.\<close>

lemma decode_instruction_text_BRX:
  assumes "map_of (reverse_dict (opcodes P)) (drop_bit 16 w3 AND 0xFFFF) = Some ''BRX''"
  shows "decode_instruction P (w0, w1, w2, w3) =
    ''BRX P'' @ dec_str ((w3 AND 0xFFFF) AND 0x7) @ '', '' @ dec_str w0"
  using assms by (simp add: decode_instruction_def Let_def lookup_default_def decode_predicate_text_def)

lemma decode_words_fields:
  assumes "decode_words_to_instruction P (w0, w1, w2, w3) = Inr inst"
  shows "map_of (reverse_dict (opcodes P)) (drop_bit 16 w3 AND 0xFFFF) = Some (opcode inst)"
    "predicate inst = fst (decode_predicate_fields (opcode inst) (w3 AND 0xFFFF))"
    "imm inst = fst (decode_immediates (opcode inst) w0 w1)"
proof -
  define pc ov where "pc = w3 AND 0xFFFF" and "ov = drop_bit 16 w3 AND 0xFFFF"
  define tc where "tc = drop_bit TYPE_SHIFT pc AND 0xF"
  note h = assms [unfolded decode_words_to_instruction_def prod.case, folded pc_def ov_def,
      unfolded Let_def, folded tc_def]
  obtain opc where o: "map_of (reverse_dict (opcodes P)) ov = Some opc"
    using h by (cases "map_of (reverse_dict (opcodes P)) ov") simp_all
  obtain dt where t: "map_of (reverse_dict (types P)) tc = Some dt"
    using h o by (cases "map_of (reverse_dict (types P)) tc") simp_all
  obtain c m v where f: "decode_sub_fields P opc pc = Inr (c, m, v)"
    using h o t by (cases "decode_sub_fields P opc pc") (auto split: prod.splits)
  have "opcode inst = opc \<and> predicate inst = fst (decode_predicate_fields opc pc) \<and>
      imm inst = fst (decode_immediates opc w0 w1)"
    using h by (cases "decode_predicate_fields opc pc"; cases "decode_immediates opc w0 w1")
      (auto simp: o t f)
  with o show "map_of (reverse_dict (opcodes P)) (drop_bit 16 w3 AND 0xFFFF) = Some (opcode inst)"
    "predicate inst = fst (decode_predicate_fields (opcode inst) (w3 AND 0xFFFF))"
    "imm inst = fst (decode_immediates (opcode inst) w0 w1)"
    by (simp_all only: pc_def ov_def)
qed

lemma decode_instruction_BRX:
  assumes "decode_words_to_instruction P ws = Inr inst" "opcode inst = ''BRX''" "words_ok ws"
  shows "decode_instruction P ws =
    ''BRX P'' @ dec_str (the (predicate inst)) @ '', '' @ dec_str (imm inst)"
proof -
  obtain w0 w1 w2 w3 where ws: "ws = (w0, w1, w2, w3)" by (cases ws)
  with assms(3) have "w0 AND 0xFFFFFFFF = w0" by (simp add: words_ok_def u32_mask)
  then have "imm inst = w0" "the (predicate inst) = (w3 AND 0xFFFF) AND 0x7"
    using decode_words_fields(2,3) [OF assms(1) [unfolded ws]] assms(2)
    by (simp_all add: decode_immediates_def uses_immediate_def decode_predicate_fields_def)
  then show ?thesis
    using decode_words_fields(1) [OF assms(1) [unfolded ws]] assms(2)
    by (simp only: ws decode_instruction_text_BRX option.sel)
qed

lemma wf_brx_inst:
  assumes "P = C1_DEFAULT \<or> P = TRACK_B_V1" "0 \<le> p" "p < 8" "u32_field t"
  shows "wf_instruction P (brx_inst neg p t)"
proof -
  have "has_key (opcodes P) ''BRX''" "has_key (types P) ''none''"
    using assms(1) by (auto simp: C1_DEFAULT_def TRACK_B_V1_def has_key_def)
  then show ?thesis using assms(2-4)
    by (simp add: wf_instruction_def brx_inst_def AECInstruction_def instruction_encoding_type_def
        wf_operands_def u16_field_def u32_field_def uses_immediate_def wf_predicate_def
        wf_field_def startswith_def)
qed

text \<open>
  C4. The text of a predicated branch does not show its polarity: for either profile and every
  predicate and target, \<open>BRX P, t\<close> and its negation are encoded differently and the disassembler
  prints the same text for both.
\<close>

theorem brx_polarity_not_disassembled:
  assumes "P = C1_DEFAULT \<or> P = TRACK_B_V1" "0 \<le> p" "p < 8" "0 \<le> t" "t < 2 ^ 32"
  shows "\<exists>pos neg. encode_instruction P (brx_inst False p t) = Inr pos \<and>
    encode_instruction P (brx_inst True p t) = Inr neg \<and> pos \<noteq> neg \<and>
    decode_instruction P pos = decode_instruction P neg"
proof -
  have ok: "profile_ok P" using assms(1) C1_DEFAULT_ok TRACK_B_V1_ok by auto
  have wf: "wf_instruction P (brx_inst neg p t)" for neg
    using assms by (intro wf_brx_inst) (auto simp: u32_field_def)
  obtain pos neg where e: "encode_instruction P (brx_inst False p t) = Inr pos"
      "encode_instruction P (brx_inst True p t) = Inr neg"
    and d: "decode_words_to_instruction P pos = Inr (encoded_form (brx_inst False p t))"
      "decode_words_to_instruction P neg = Inr (encoded_form (brx_inst True p t))"
    using decode_encode_instruction [OF ok wf] by metis
  have b: "opcode (encoded_form (brx_inst n p t)) = ''BRX''"
    "the (predicate (encoded_form (brx_inst n p t))) = p" "imm (encoded_form (brx_inst n p t)) = t"
    "predicate_negated (encoded_form (brx_inst n p t)) = n" for n
    by (simp_all add: encoded_form_def brx_inst_def AECInstruction_def)
  have "pos \<noteq> neg" using d b(4) by (metis Inr_inject)
  moreover have "decode_instruction P pos = decode_instruction P neg"
    using decode_instruction_BRX [OF d(1) b(1) encode_instruction_words_ok [OF e(1)]]
      decode_instruction_BRX [OF d(2) b(1) encode_instruction_words_ok [OF e(2)]] b by simp
  ultimately show ?thesis using e by blast
qed

theorem brx_polarity_not_disassembled_witness:
  "\<exists>pos neg. encode_instruction C1_DEFAULT (brx_inst False 1 12) = Inr pos \<and>
    encode_instruction C1_DEFAULT (brx_inst True 1 12) = Inr neg \<and> pos \<noteq> neg \<and>
    decode_instruction C1_DEFAULT pos = decode_instruction C1_DEFAULT neg"
  by (rule brx_polarity_not_disassembled) simp_all

end
