(* ===== verification/Sim.thy ===== *)
theory Sim
  imports Aecbin
begin

text \<open>
  The local simulator, \<open>sim.py\<close>. Python's binary floating point (\<open>struct\<close> conversions between bit
  patterns and floats, float arithmetic and comparison) is the parameter \<open>fpu\<close> of the model; packing
  a float that does not fit in 32 bits raises, which is \<open>None\<close>. A raised exception abandons the
  simulator object, so an error carries no state (the increment of
  \<open>non_uniform_branch_failures\<close> right before the raise of a non-uniform branch is lost with it).
\<close>

named_theorems sim_simps \<open>inversion of successful simulator steps\<close>

section \<open>State\<close>

definition MASK32 :: int where "MASK32 = 0xFFFFFFFF"

record 'f fpu =
  bits_to_float :: "int \<Rightarrow> 'f"
  float_to_bits :: "'f \<Rightarrow> int option"
  fadd :: "'f \<Rightarrow> 'f \<Rightarrow> 'f"
  fsub :: "'f \<Rightarrow> 'f \<Rightarrow> 'f"
  fmul :: "'f \<Rightarrow> 'f \<Rightarrow> 'f"
  feq :: "'f \<Rightarrow> 'f \<Rightarrow> bool"
  flt :: "'f \<Rightarrow> 'f \<Rightarrow> bool"
  fle :: "'f \<Rightarrow> 'f \<Rightarrow> bool"

datatype sim_error =
    PCOutOfRange int
  | StepLimitExceeded
  | GuardedHALT
  | GuardedBR
  | BRXWithoutPredicate
  | NonUniformBRX int
  | RegisterPairTooHigh int
  | SimUnsupportedOpcode string
  | CompareMissing
  | SimUnsupportedCompare string
  | SpaceMissing string
  | StoreToPmem
  | ReadOutOfRange string int int
  | WriteOutOfRange string int int
  | SimUnsupportedSpace string
  | SimUnsupportedSpecial int
  | SimUnsupportedType string
  | RegisterIndexError
  | FloatOverflowError
  | RangeStepZero

datatype access_op = AccessLD | AccessST

record memory_access =
  acc_op :: access_op
  acc_space :: string
  acc_block :: int
  acc_thread :: int
  acc_global_thread :: int
  acc_address :: int
  acc_size :: int

record branch_record =
  br_pc :: int
  br_target :: int
  br_predicate :: int
  br_block :: int
  br_warp_start :: int
  br_lane_count :: int
  br_decisions :: "bool list"
  br_uniform :: bool
  br_taken :: bool

type_synonym dim3 = "int \<times> int \<times> int"

record lane_state =
  block :: int
  thread :: int
  block_dim :: dim3
  grid_dim :: dim3
  warp_size :: int
  registers :: "int list"
  predicates :: "bool list"

definition LaneState :: "int \<Rightarrow> int \<Rightarrow> dim3 \<Rightarrow> dim3 \<Rightarrow> int \<Rightarrow> lane_state" where
  "LaneState b t bd gd ws = \<lparr>block = b, thread = t, block_dim = bd, grid_dim = gd, warp_size = ws,
     registers = replicate 256 0, predicates = replicate 8 False\<rparr>"

definition dim_x :: "dim3 \<Rightarrow> int" where "dim_x d = (case d of (x, y, z) \<Rightarrow> x)"
definition dim_y :: "dim3 \<Rightarrow> int" where "dim_y d = (case d of (x, y, z) \<Rightarrow> y)"
definition dim_z :: "dim3 \<Rightarrow> int" where "dim_z d = (case d of (x, y, z) \<Rightarrow> z)"
definition dim_total :: "dim3 \<Rightarrow> int" where "dim_total d = dim_x d * dim_y d * dim_z d"

definition block_x :: "lane_state \<Rightarrow> int" where
  "block_x ln = block ln mod dim_x (grid_dim ln)"
definition block_y :: "lane_state \<Rightarrow> int" where
  "block_y ln = (block ln div dim_x (grid_dim ln)) mod dim_y (grid_dim ln)"
definition block_z :: "lane_state \<Rightarrow> int" where
  "block_z ln = block ln div (dim_x (grid_dim ln) * dim_y (grid_dim ln))"
definition thread_x :: "lane_state \<Rightarrow> int" where
  "thread_x ln = thread ln mod dim_x (block_dim ln)"
definition thread_y :: "lane_state \<Rightarrow> int" where
  "thread_y ln = (thread ln div dim_x (block_dim ln)) mod dim_y (block_dim ln)"
definition thread_z :: "lane_state \<Rightarrow> int" where
  "thread_z ln = thread ln div (dim_x (block_dim ln) * dim_y (block_dim ln))"
definition global_thread :: "lane_state \<Rightarrow> int" where
  "global_thread ln = block ln * dim_total (block_dim ln) + thread ln"

text \<open>The memories and the logs a simulation keeps.\<close>

record mem_state =
  pmem :: "byte list"
  gmem :: "byte list"
  accesses :: "memory_access list"

record sim_state =
  mem :: mem_state
  branch_trace :: "branch_record list"
  dynamic_instruction_count :: nat
  brx_execution_count :: nat
  non_uniform_branch_failures :: nat

record simulator =
  sim_instructions :: "aec_instruction list"
  sim_block_dim :: dim3
  sim_grid_dim :: dim3
  sim_warp_size :: int
  sim_max_steps :: int

section \<open>Registers and memory\<close>

definition get_reg :: "lane_state \<Rightarrow> int \<Rightarrow> (sim_error, int) result" where
  "get_reg ln i = of_option RegisterIndexError (py_get (registers ln) i)"

definition set_reg :: "lane_state \<Rightarrow> int \<Rightarrow> int \<Rightarrow> (sim_error, lane_state) result" where
  "set_reg ln i v = bindE (of_option RegisterIndexError (py_set (registers ln) i v))
     (\<lambda>rs. Inr (ln\<lparr>registers := rs\<rparr>))"

definition get_pred :: "lane_state \<Rightarrow> int \<Rightarrow> (sim_error, bool) result" where
  "get_pred ln i = of_option RegisterIndexError (py_get (predicates ln) i)"

definition set_pred :: "lane_state \<Rightarrow> int \<Rightarrow> bool \<Rightarrow> (sim_error, lane_state) result" where
  "set_pred ln i v = bindE (of_option RegisterIndexError (py_set (predicates ln) i v))
     (\<lambda>ps. Inr (ln\<lparr>predicates := ps\<rparr>))"

definition type_size :: "string \<Rightarrow> (sim_error, int) result" where
  "type_size dt =
     (if dt = ''b64'' then Inr 8
      else if dt \<in> {''b32'', ''u32'', ''s32'', ''f32''} then Inr 4
      else Inl (SimUnsupportedType dt))"

definition memory :: "mem_state \<Rightarrow> string \<Rightarrow> (sim_error, byte list) result" where
  "memory m space =
     (if space = ''gmem'' then Inr (gmem m)
      else if space = ''pmem'' then Inr (pmem m)
      else Inl (SimUnsupportedSpace space))"

definition mem_read :: "mem_state \<Rightarrow> string \<Rightarrow> int \<Rightarrow> int \<Rightarrow> (sim_error, byte list) result" where
  "mem_read m space address sz =
     bindE (memory m space) (\<lambda>bs.
       if address + sz > int (length bs) then Inl (ReadOutOfRange space address sz)
       else Inr (take (nat sz) (drop (nat address) bs)))"

definition splice :: "nat \<Rightarrow> byte list \<Rightarrow> byte list \<Rightarrow> byte list" where
  "splice a d bs = take a bs @ d @ drop (a + length d) bs"

definition mem_write :: "mem_state \<Rightarrow> string \<Rightarrow> int \<Rightarrow> byte list \<Rightarrow> (sim_error, mem_state) result" where
  "mem_write m space address data =
     bindE (memory m space) (\<lambda>bs.
       if address + int (length data) > int (length bs)
       then Inl (WriteOutOfRange space address (int (length data)))
       else (let bs' = splice (nat address) data bs in
             Inr (if space = ''gmem'' then m\<lparr>gmem := bs'\<rparr> else m\<lparr>pmem := bs'\<rparr>)))"

text \<open>\<open>value.to_bytes(sz, "little")\<close> of a value that fits.\<close>

fun to_bytes :: "nat \<Rightarrow> int \<Rightarrow> byte list" where
  "to_bytes 0 v = []"
| "to_bytes (Suc n) v = word_of_int v # to_bytes n (drop_bit 8 v)"

definition record_access ::
    "access_op \<Rightarrow> string \<Rightarrow> lane_state \<Rightarrow> int \<Rightarrow> int \<Rightarrow> mem_state \<Rightarrow> mem_state" where
  "record_access op space ln address sz m =
     (if space \<noteq> ''gmem'' then m
      else m\<lparr>accesses := accesses m @
        [\<lparr>acc_op = op, acc_space = space, acc_block = block ln, acc_thread = thread ln,
          acc_global_thread = global_thread ln, acc_address = address, acc_size = sz\<rparr>]\<rparr>)"

section \<open>Values\<close>

datatype binop = Plus | Minus | Times

definition pack_float :: "'f fpu \<Rightarrow> 'f \<Rightarrow> (sim_error, int) result" where
  "pack_float fp x = of_option FloatOverflowError (float_to_bits fp x)"

definition unpack_float :: "'f fpu \<Rightarrow> int \<Rightarrow> 'f" where
  "unpack_float fp b = bits_to_float fp (b AND MASK32)"

definition binary_result :: "'f fpu \<Rightarrow> string \<Rightarrow> binop \<Rightarrow> int \<Rightarrow> int \<Rightarrow> (sim_error, int) result" where
  "binary_result fp dt op a b =
     (if dt = ''f32'' then
        (let x = unpack_float fp a; y = unpack_float fp b in
         case op of Plus \<Rightarrow> pack_float fp (fadd fp x y)
                  | Minus \<Rightarrow> pack_float fp (fsub fp x y)
                  | Times \<Rightarrow> pack_float fp (fmul fp x y))
      else (case op of Plus \<Rightarrow> Inr ((a + b) AND MASK32)
                     | Minus \<Rightarrow> Inr ((a - b) AND MASK32)
                     | Times \<Rightarrow> Inr ((a * b) AND MASK32)))"

definition mad_result :: "'f fpu \<Rightarrow> string \<Rightarrow> int \<Rightarrow> int \<Rightarrow> int \<Rightarrow> (sim_error, int) result" where
  "mad_result fp dt a b c =
     (if dt = ''f32'' then
        bindE (pack_float fp (fmul fp (unpack_float fp a) (unpack_float fp b))) (\<lambda>p.
          pack_float fp (fadd fp (unpack_float fp p) (unpack_float fp c)))
      else Inr ((a * b + c) AND MASK32))"

definition fma_result :: "'f fpu \<Rightarrow> string \<Rightarrow> int \<Rightarrow> int \<Rightarrow> int \<Rightarrow> (sim_error, int) result" where
  "fma_result fp dt a b c =
     (if dt = ''f32'' then
        pack_float fp (fadd fp (fmul fp (unpack_float fp a) (unpack_float fp b)) (unpack_float fp c))
      else Inr ((a * b + c) AND MASK32))"

definition compare_values ::
    "string \<Rightarrow> ('a \<Rightarrow> 'a \<Rightarrow> bool) \<Rightarrow> ('a \<Rightarrow> 'a \<Rightarrow> bool) \<Rightarrow> ('a \<Rightarrow> 'a \<Rightarrow> bool) \<Rightarrow> 'a \<Rightarrow> 'a \<Rightarrow>
     (sim_error, bool) result" where
  "compare_values cmp eq lt le x y =
     (if cmp = ''eq'' then Inr (eq x y)
      else if cmp = ''ne'' then Inr (\<not> eq x y)
      else if cmp = ''lt'' then Inr (lt x y)
      else if cmp = ''le'' then Inr (le x y)
      else if cmp = ''gt'' then Inr (lt y x)
      else if cmp = ''ge'' then Inr (le y x)
      else Inl (SimUnsupportedCompare cmp))"

definition compare_result ::
    "'f fpu \<Rightarrow> string option \<Rightarrow> string \<Rightarrow> int \<Rightarrow> int \<Rightarrow> (sim_error, bool) result" where
  "compare_result fp cmp dt a b =
     (case cmp of
        None \<Rightarrow> Inl CompareMissing
      | Some c \<Rightarrow>
          if dt = ''f32'' then
            compare_values c (feq fp) (flt fp) (fle fp) (unpack_float fp a) (unpack_float fp b)
          else compare_values c (=) (<) (\<le>) (a AND MASK32) (b AND MASK32))"

definition special_value :: "int \<Rightarrow> lane_state \<Rightarrow> (sim_error, int) result" where
  "special_value selector ln =
     (let sel = (\<lambda>n. selector = the (map_of (special_registers TRACK_B_V1) n)) in
      if sel ''%tid.x'' then Inr (thread_x ln)
      else if sel ''%tid.y'' then Inr (thread_y ln)
      else if sel ''%tid.z'' then Inr (thread_z ln)
      else if sel ''%ntid.x'' then Inr (dim_x (block_dim ln))
      else if sel ''%ntid.y'' then Inr (dim_y (block_dim ln))
      else if sel ''%ntid.z'' then Inr (dim_z (block_dim ln))
      else if sel ''%ctaid.x'' then Inr (block_x ln)
      else if sel ''%ctaid.y'' then Inr (block_y ln)
      else if sel ''%ctaid.z'' then Inr (block_z ln)
      else if sel ''%nctaid.x'' then Inr (dim_x (grid_dim ln))
      else if sel ''%nctaid.y'' then Inr (dim_y (grid_dim ln))
      else if sel ''%nctaid.z'' then Inr (dim_z (grid_dim ln))
      else if sel ''%laneid'' then Inr (thread_x ln mod warp_size ln)
      else if sel ''%warpid'' then Inr (thread_x ln div warp_size ln)
      else Inl (SimUnsupportedSpecial selector))"

definition copy_value :: "aec_instruction \<Rightarrow> lane_state \<Rightarrow> (sim_error, int) result" where
  "copy_value inst ln =
     (if src1 inst \<ge> 0x0100 then special_value (src1 inst) ln
      else bindE (get_reg ln (src1 inst)) (\<lambda>v. Inr (v AND MASK32)))"

section \<open>One lane\<close>

definition require_space :: "aec_instruction \<Rightarrow> (sim_error, string) result" where
  "require_space inst = of_option (SpaceMissing (opcode inst)) (memory_space inst)"

definition execute_load ::
    "aec_instruction \<Rightarrow> lane_state \<Rightarrow> mem_state \<Rightarrow> (sim_error, lane_state \<times> mem_state) result" where
  "execute_load inst ln m =
     bindE (require_space inst) (\<lambda>space.
     bindE (get_reg ln (src1 inst)) (\<lambda>a. let address = a AND MASK32 in
     bindE (type_size (dtype inst)) (\<lambda>sz.
     bindE (mem_read m space address sz) (\<lambda>blob.
     bindE (if dtype inst = ''b64'' then
              bindE (set_reg ln (dest inst) (unpack_u32 (take 4 blob))) (\<lambda>l.
                set_reg l (dest inst + 1) (unpack_u32 (take 4 (drop 4 blob))))
            else set_reg ln (dest inst) (unpack_u32 blob)) (\<lambda>l.
       Inr (l, record_access AccessLD space ln address sz m))))))"

definition execute_store ::
    "aec_instruction \<Rightarrow> lane_state \<Rightarrow> mem_state \<Rightarrow> (sim_error, lane_state \<times> mem_state) result" where
  "execute_store inst ln m =
     bindE (require_space inst) (\<lambda>space.
       if space = ''pmem'' then Inl StoreToPmem else
     bindE (get_reg ln (src1 inst)) (\<lambda>a. let address = a AND MASK32 in
     bindE (type_size (dtype inst)) (\<lambda>sz.
     bindE (get_reg ln (src2 inst)) (\<lambda>v.
     bindE (mem_write m space address (to_bytes (nat sz) (v AND MASK32))) (\<lambda>m'.
       Inr (ln, record_access AccessST space ln address sz m'))))))"

text \<open>The register form of a two-operand instruction: read, compute, write.\<close>

definition reg_op2 ::
    "aec_instruction \<Rightarrow> lane_state \<Rightarrow> (int \<Rightarrow> int \<Rightarrow> (sim_error, int) result) \<Rightarrow>
     (sim_error, lane_state) result" where
  "reg_op2 inst ln f =
     bindE (get_reg ln (src1 inst)) (\<lambda>a. bindE (get_reg ln (src2 inst)) (\<lambda>b.
     bindE (f a b) (\<lambda>v. set_reg ln (dest inst) v)))"

definition reg_op3 ::
    "aec_instruction \<Rightarrow> lane_state \<Rightarrow> (int \<Rightarrow> int \<Rightarrow> int \<Rightarrow> (sim_error, int) result) \<Rightarrow>
     (sim_error, lane_state) result" where
  "reg_op3 inst ln f =
     bindE (get_reg ln (src1 inst)) (\<lambda>a. bindE (get_reg ln (src2 inst)) (\<lambda>b.
     bindE (get_reg ln (src3 inst)) (\<lambda>c. bindE (f a b c) (\<lambda>v. set_reg ln (dest inst) v))))"

definition execute_cpy :: "aec_instruction \<Rightarrow> lane_state \<Rightarrow> (sim_error, lane_state) result" where
  "execute_cpy inst ln =
     (let wide = dtype inst \<in> {''b64'', ''f64''} in
      if wide \<and> (dest inst \<ge> 255 \<or> src1 inst \<ge> 255) then Inl (RegisterPairTooHigh (dest inst))
      else bindE (copy_value inst ln) (\<lambda>v. bindE (set_reg ln (dest inst) v) (\<lambda>l.
        if wide then bindE (get_reg l (src1 inst + 1)) (\<lambda>w. set_reg l (dest inst + 1) w)
        else Inr l)))"

text \<open>The register-only opcodes of \<open>_execute_lane\<close>, in the order of its branches.\<close>

definition execute_compute ::
    "'f fpu \<Rightarrow> aec_instruction \<Rightarrow> lane_state \<Rightarrow> (sim_error, lane_state) result" where
  "execute_compute fp inst ln =
     (let op = upper (opcode inst); dt = dtype inst in
      if op = ''LOADI'' then set_reg ln (dest inst) (imm inst AND MASK32)
      else if op = ''LOADI64'' then
        (if dest inst \<ge> 255 then Inl (RegisterPairTooHigh (dest inst))
         else bindE (set_reg ln (dest inst) (imm inst AND MASK32)) (\<lambda>l.
           set_reg l (dest inst + 1) (drop_bit 32 (imm inst) AND MASK32)))
      else if op = ''CPY'' then execute_cpy inst ln
      else if op = ''ADD'' then reg_op2 inst ln (binary_result fp dt Plus)
      else if op = ''SUB'' then reg_op2 inst ln (binary_result fp dt Minus)
      else if op = ''MUL'' then reg_op2 inst ln (binary_result fp dt Times)
      else if op = ''MAD'' then reg_op3 inst ln (mad_result fp dt)
      else if op = ''FMA'' then reg_op3 inst ln (fma_result fp dt)
      else if op = ''AND'' then reg_op2 inst ln (\<lambda>a b. Inr ((a AND b) AND MASK32))
      else if op = ''OR'' then reg_op2 inst ln (\<lambda>a b. Inr ((a OR b) AND MASK32))
      else if op = ''XOR'' then reg_op2 inst ln (\<lambda>a b. Inr ((a XOR b) AND MASK32))
      else if op = ''SHL'' then
        reg_op2 inst ln (\<lambda>a b. Inr (push_bit (nat (b AND 31)) a AND MASK32))
      else if op = ''SHR'' then
        reg_op2 inst ln (\<lambda>a b. Inr (drop_bit (nat (b AND 31)) a AND MASK32))
      else if op = ''CMPP'' then
        bindE (get_reg ln (src1 inst)) (\<lambda>a. bindE (get_reg ln (src2 inst)) (\<lambda>b.
        bindE (compare_result fp (compare inst) dt a b) (\<lambda>v. set_pred ln (dest inst) v)))
      else Inl (SimUnsupportedOpcode (opcode inst)))"

definition execute_lane ::
    "'f fpu \<Rightarrow> aec_instruction \<Rightarrow> lane_state \<Rightarrow> mem_state \<Rightarrow>
     (sim_error, lane_state \<times> mem_state) result" where
  "execute_lane fp inst ln m =
     (if upper (opcode inst) = ''LD'' then execute_load inst ln m
      else if upper (opcode inst) = ''ST'' then execute_store inst ln m
      else bindE (execute_compute fp inst ln) (\<lambda>l. Inr (l, m)))"

section \<open>One warp\<close>

definition guard_passes :: "aec_instruction \<Rightarrow> lane_state \<Rightarrow> (sim_error, bool) result" where
  "guard_passes inst ln =
     (case predicate inst of
        None \<Rightarrow> Inr True
      | Some p \<Rightarrow> bindE (get_pred ln p) (\<lambda>v. Inr (if predicate_negated inst then \<not> v else v)))"

definition step_lane ::
    "'f fpu \<Rightarrow> aec_instruction \<Rightarrow> lane_state \<Rightarrow> mem_state \<Rightarrow>
     (sim_error, lane_state \<times> mem_state) result" where
  "step_lane fp inst ln m =
     bindE (guard_passes inst ln) (\<lambda>g. if g then execute_lane fp inst ln m else Inr (ln, m))"

fun exec_lanes ::
    "'f fpu \<Rightarrow> aec_instruction \<Rightarrow> lane_state list \<Rightarrow> mem_state \<Rightarrow>
     (sim_error, lane_state list \<times> mem_state) result" where
  "exec_lanes fp inst [] m = Inr ([], m)"
| "exec_lanes fp inst (l # ls) m =
     bindE (step_lane fp inst l m) (\<lambda>(l', m').
     bindE (exec_lanes fp inst ls m') (\<lambda>(ls', m''). Inr (l' # ls', m'')))"

definition branchx_next_pc ::
    "aec_instruction \<Rightarrow> lane_state list \<Rightarrow> int \<Rightarrow> sim_state \<Rightarrow>
     (sim_error, int \<times> sim_state) result" where
  "branchx_next_pc inst lanes pc st =
     (case predicate inst of
        None \<Rightarrow> Inl BRXWithoutPredicate
      | Some p \<Rightarrow>
          bindE (mapE (\<lambda>ln. get_pred ln p) lanes) (\<lambda>raw.
            let decisions = map (\<lambda>d. if predicate_negated inst then \<not> d else d) raw;
                uniform = list_all id decisions \<or> \<not> list_ex id decisions;
                taken = list_all id decisions in
            case lanes of
              [] \<Rightarrow> Inl RegisterIndexError
            | l0 # _ \<Rightarrow>
                (let st' = st\<lparr>brx_execution_count := brx_execution_count st + 1,
                       branch_trace := branch_trace st @
                         [\<lparr>br_pc = pc, br_target = imm inst, br_predicate = p, br_block = block l0,
                           br_warp_start = thread l0, br_lane_count = int (length lanes),
                           br_decisions = decisions, br_uniform = uniform, br_taken = taken\<rparr>]\<rparr>
                 in if \<not> uniform then Inl (NonUniformBRX pc)
                    else Inr (if taken then imm inst else pc + 1, st'))))"

datatype warp_outcome = WarpHalted sim_state | WarpNext int "lane_state list" sim_state

text \<open>One iteration of the loop of \<open>_run_warp\<close>, after the bounds and the step limit.\<close>

definition warp_step ::
    "'f fpu \<Rightarrow> aec_instruction \<Rightarrow> int \<Rightarrow> lane_state list \<Rightarrow> sim_state \<Rightarrow>
     (sim_error, warp_outcome) result" where
  "warp_step fp inst pc lanes st0 =
     (let st = st0\<lparr>dynamic_instruction_count := dynamic_instruction_count st0 + 1\<rparr>;
          op = upper (opcode inst) in
      if op = ''HALT'' then
        (if predicate inst \<noteq> None then Inl GuardedHALT else Inr (WarpHalted st))
      else if op = ''BR'' then
        (if predicate inst \<noteq> None then Inl GuardedBR else Inr (WarpNext (imm inst) lanes st))
      else if op = ''BRX'' then
        bindE (branchx_next_pc inst lanes pc st) (\<lambda>(pc', st'). Inr (WarpNext pc' lanes st'))
      else
        bindE (exec_lanes fp inst lanes (mem st)) (\<lambda>(lanes', m).
          Inr (WarpNext (pc + 1) lanes' (st\<lparr>mem := m\<rparr>))))"

function run_warp ::
    "'f fpu \<Rightarrow> aec_instruction list \<Rightarrow> int \<Rightarrow> int \<Rightarrow> int \<Rightarrow> lane_state list \<Rightarrow> sim_state \<Rightarrow>
     (sim_error, sim_state) result" where
  "run_warp fp insts max_steps steps pc lanes st =
     (if \<not> (0 \<le> pc \<and> pc < int (length insts)) then Inl (PCOutOfRange pc)
      else if steps \<ge> max_steps then Inl StepLimitExceeded
      else (case warp_step fp (insts ! nat pc) pc lanes st of
              Inl e \<Rightarrow> Inl e
            | Inr (WarpHalted st') \<Rightarrow> Inr st'
            | Inr (WarpNext pc' lanes' st') \<Rightarrow>
                run_warp fp insts max_steps (steps + 1) pc' lanes' st'))"
  by pat_completeness auto
termination
  by (relation "measure (\<lambda>(fp, insts, max_steps, steps, _). nat (max_steps - steps))") auto

declare run_warp.simps [simp del]

section \<open>A launch\<close>

definition py_range :: "int \<Rightarrow> int \<Rightarrow> int \<Rightarrow> (sim_error, int list) result" where
  "py_range start stop step =
     (if step = 0 then Inl RangeStepZero
      else (let n = (if step > 0 then (stop - start + step - 1) div step
                     else (start - stop - step - 1) div (- step))
            in Inr (map (\<lambda>i. start + int i * step) [0 ..< nat n])))"

definition warp_lanes :: "simulator \<Rightarrow> int \<Rightarrow> int \<Rightarrow> lane_state list" where
  "warp_lanes s b warp_start =
     (let lane_count = min (sim_warp_size s) (dim_total (sim_block_dim s) - warp_start) in
      map (\<lambda>lane. LaneState b (warp_start + int lane) (sim_block_dim s) (sim_grid_dim s) (sim_warp_size s))
        [0 ..< nat lane_count])"

definition run_block :: "'f fpu \<Rightarrow> simulator \<Rightarrow> int \<Rightarrow> sim_state \<Rightarrow> (sim_error, sim_state) result" where
  "run_block fp s b st =
     bindE (py_range 0 (dim_total (sim_block_dim s)) (sim_warp_size s)) (\<lambda>starts.
       foldE (\<lambda>warp_start st'. run_warp fp (sim_instructions s) (sim_max_steps s) 0 0
                (warp_lanes s b warp_start) st') starts st)"

definition run_all :: "'f fpu \<Rightarrow> simulator \<Rightarrow> sim_state \<Rightarrow> (sim_error, sim_state) result" where
  "run_all fp s st =
     foldE (\<lambda>b st'. run_block fp s (int b) st') [0 ..< nat (dim_total (sim_grid_dim s))] st"

text \<open>The constructor's initial state over copies of the caller's memories, and the result.\<close>

definition initial_state :: "byte list \<Rightarrow> byte list \<Rightarrow> sim_state" where
  "initial_state pm gm = \<lparr>mem = \<lparr>pmem = pm, gmem = gm, accesses = []\<rparr>, branch_trace = [],
     dynamic_instruction_count = 0, brx_execution_count = 0, non_uniform_branch_failures = 0\<rparr>"

definition simulate ::
    "'f fpu \<Rightarrow> simulator \<Rightarrow> byte list \<Rightarrow> byte list \<Rightarrow> (sim_error, sim_state) result" where
  "simulate fp s pm gm = run_all fp s (initial_state pm gm)"

end
