(* ===== verification/Sim_Safety.thy ===== *)
theory Sim_Safety
  imports Sim
begin

text \<open>
  Invariants of a simulation: what every successful run keeps of the memories, the logs, the
  register files and the counters.
\<close>

section \<open>Memory invariant\<close>

definition access_ok :: "nat \<Rightarrow> memory_access \<Rightarrow> bool" where
  "access_ok n a \<longleftrightarrow> acc_space a = ''gmem'' \<and> 0 \<le> acc_address a \<and> acc_size a \<in> {4, 8} \<and>
     acc_address a + acc_size a \<le> int n"

definition mem_inv :: "byte list \<Rightarrow> nat \<Rightarrow> mem_state \<Rightarrow> bool" where
  "mem_inv pm n m \<longleftrightarrow> pmem m = pm \<and> length (gmem m) = n \<and> list_all (access_ok n) (accesses m)"

lemma MASK32_nonneg [simp]: "0 \<le> MASK32"
  by (simp add: MASK32_def)

lemma mask_nonneg: "0 \<le> (a::int) AND MASK32"
  by simp

lemma length_to_bytes [simp]: "length (to_bytes n v) = n"
  by (induction n arbitrary: v) simp_all

lemma length_splice [simp]: "a + length d \<le> length bs \<Longrightarrow> length (splice a d bs) = length bs"
  by (simp add: splice_def)

lemma type_size_cases: "type_size dt = Inr sz \<Longrightarrow> sz = 4 \<or> sz = 8"
  by (auto simp: type_size_def split: if_splits)

lemma mem_inv_record:
  "mem_inv pm n m \<Longrightarrow> 0 \<le> a \<Longrightarrow> sz = 4 \<or> sz = 8 \<Longrightarrow> (space = ''gmem'' \<Longrightarrow> a + sz \<le> int n) \<Longrightarrow>
    mem_inv pm n (record_access op space ln a sz m)"
  by (auto simp: mem_inv_def record_access_def access_ok_def)

lemma mem_read_bound: "mem_read m ''gmem'' a sz = Inr bs \<Longrightarrow> a + sz \<le> int (length (gmem m))"
  by (auto simp: mem_read_def memory_def split: if_splits)

lemma execute_load_mem_inv:
  assumes "execute_load inst ln m = Inr (l, m')" "mem_inv pm n m"
  shows "mem_inv pm n m'"
proof -
  obtain space a sz blob where e: "type_size (dtype inst) = Inr sz"
    "mem_read m space (a AND MASK32) sz = Inr blob"
    "m' = record_access AccessLD space ln (a AND MASK32) sz m"
    using assms(1) by (auto simp: execute_load_def bindE_Inr_iff Let_def)
  have "space = ''gmem'' \<Longrightarrow> (a AND MASK32) + sz \<le> int n"
    using mem_read_bound [of m "a AND MASK32" sz blob] e(2) assms(2) by (simp add: mem_inv_def)
  with assms(2) type_size_cases [OF e(1)] show ?thesis
    unfolding e(3) by (intro mem_inv_record) simp_all
qed

lemma mem_write_inv:
  assumes "mem_write m space a d = Inr m'" "mem_inv pm n m" "space \<noteq> ''pmem''" "0 \<le> a"
  shows "mem_inv pm n m' \<and> a + int (length d) \<le> int n"
proof -
  have "space = ''gmem''" "a + int (length d) \<le> int n"
    "m' = m\<lparr>gmem := splice (nat a) d (gmem m)\<rparr>"
    using assms by (auto simp: mem_write_def memory_def bindE_Inr_iff Let_def mem_inv_def split: if_splits)
  moreover from this have "length (splice (nat a) d (gmem m)) = n"
    using assms(2,4) by (simp add: mem_inv_def)
  ultimately show ?thesis using assms(2) by (simp add: mem_inv_def)
qed

lemma execute_store_mem_inv:
  assumes "execute_store inst ln m = Inr (l, m')" "mem_inv pm n m"
  shows "mem_inv pm n m'"
proof -
  obtain space a sz v m1 where e: "space \<noteq> ''pmem''" "type_size (dtype inst) = Inr sz"
    "mem_write m space (a AND MASK32) (to_bytes (nat sz) (v AND MASK32)) = Inr m1"
    "m' = record_access AccessST space ln (a AND MASK32) sz m1"
    using assms(1) by (auto simp: execute_store_def bindE_Inr_iff Let_def split: if_splits)
  from mem_write_inv [OF e(3) assms(2) e(1) mask_nonneg] type_size_cases [OF e(2)]
  show ?thesis unfolding e(4) by (auto intro!: mem_inv_record)
qed

lemma step_lane_mem_inv:
  assumes "step_lane fp inst ln m = Inr (l, m')" "mem_inv pm n m"
  shows "mem_inv pm n m'"
  using assms
  by (auto simp: step_lane_def execute_lane_def bindE_Inr_iff split: if_splits
      dest: execute_load_mem_inv execute_store_mem_inv)

lemma exec_lanes_mem_inv:
  "exec_lanes fp inst lanes m = Inr (ls, m') \<Longrightarrow> mem_inv pm n m \<Longrightarrow> mem_inv pm n m'"
  by (induction lanes arbitrary: ls m)
     (auto simp: bindE_Inr_iff dest: step_lane_mem_inv)

section \<open>Register files\<close>

definition lane_ok :: "lane_state \<Rightarrow> bool" where
  "lane_ok l \<longleftrightarrow> length (registers l) = 256 \<and> length (predicates l) = 8"

text \<open>The fields no instruction changes: where the lane is in the launch.\<close>

definition same_place :: "lane_state \<Rightarrow> lane_state \<Rightarrow> bool" where
  "same_place l l' \<longleftrightarrow> block l' = block l \<and> thread l' = thread l \<and> block_dim l' = block_dim l \<and>
     grid_dim l' = grid_dim l \<and> warp_size l' = warp_size l \<and>
     length (registers l') = length (registers l) \<and> length (predicates l') = length (predicates l)"

lemma same_place_refl [simp]: "same_place l l"
  by (simp add: same_place_def)

lemma same_place_trans: "same_place a b \<Longrightarrow> same_place b c \<Longrightarrow> same_place a c"
  by (simp add: same_place_def)

lemma set_reg_same: "set_reg l i v = Inr l' \<Longrightarrow> same_place l l'"
  by (auto simp: set_reg_def bindE_Inr_iff same_place_def dest: py_set_length)

lemma set_pred_same: "set_pred l i v = Inr l' \<Longrightarrow> same_place l l'"
  by (auto simp: set_pred_def bindE_Inr_iff same_place_def dest: py_set_length)

lemma reg_op2_same: "reg_op2 inst l f = Inr l' \<Longrightarrow> same_place l l'"
  by (auto simp: reg_op2_def bindE_Inr_iff intro: set_reg_same)

lemma reg_op3_same: "reg_op3 inst l f = Inr l' \<Longrightarrow> same_place l l'"
  by (auto simp: reg_op3_def bindE_Inr_iff intro: set_reg_same)

lemma execute_cpy_same: "execute_cpy inst l = Inr l' \<Longrightarrow> same_place l l'"
  by (auto simp: execute_cpy_def bindE_Inr_iff Let_def split: if_splits
      dest: set_reg_same intro: same_place_trans)

lemma execute_compute_same: "execute_compute fp inst l = Inr l' \<Longrightarrow> same_place l l'"
  by (auto simp: execute_compute_def Let_def bindE_Inr_iff split: if_splits
      dest: set_reg_same set_pred_same reg_op2_same reg_op3_same execute_cpy_same
      intro: same_place_trans)

lemma execute_load_same: "execute_load inst l m = Inr (l', m') \<Longrightarrow> same_place l l'"
  by (auto simp: execute_load_def Let_def bindE_Inr_iff split: if_splits
      dest: set_reg_same intro: same_place_trans)

lemma execute_store_same: "execute_store inst l m = Inr (l', m') \<Longrightarrow> same_place l l'"
  by (auto simp: execute_store_def Let_def bindE_Inr_iff split: if_splits)

lemma step_lane_same: "step_lane fp inst l m = Inr (l', m') \<Longrightarrow> same_place l l'"
  by (auto simp: step_lane_def execute_lane_def bindE_Inr_iff split: if_splits
      dest: execute_load_same execute_store_same execute_compute_same)

lemma exec_lanes_same:
  "exec_lanes fp inst lanes m = Inr (ls, m') \<Longrightarrow> list_all2 same_place lanes ls"
  by (induction lanes arbitrary: ls m) (auto simp: bindE_Inr_iff dest: step_lane_same)

section \<open>Runs of a warp\<close>

lemma run_warp_invariant:
  fixes fp :: "'f fpu"
  assumes "run_warp fp insts max_steps steps pc lanes st = Inr st'" "I lanes st"
    and "\<And>(fp :: 'f fpu) inst pc lanes st st'. I lanes st \<Longrightarrow>
      warp_step fp inst pc lanes st = Inr (WarpHalted st') \<Longrightarrow> Q st'"
    and "\<And>(fp :: 'f fpu) inst pc lanes st pc' lanes' st'. I lanes st \<Longrightarrow>
      warp_step fp inst pc lanes st = Inr (WarpNext pc' lanes' st') \<Longrightarrow> I lanes' st'"
  shows "Q st'"
  using assms
proof (induction fp insts max_steps steps pc lanes st rule: run_warp.induct [case_names step])
  case (step fp insts max_steps steps pc lanes st)
  from step.prems(1) obtain out where b: "0 \<le> pc" "pc < int (length insts)" "\<not> max_steps \<le> steps"
    and out: "warp_step fp (insts ! nat pc) pc lanes st = Inr out"
    by (subst (asm) run_warp.simps) (auto split: if_splits sum.splits)
  show ?case
  proof (cases out)
    case (WarpHalted s)
    with step.prems(1) b out have "s = st'" by (subst (asm) run_warp.simps) simp
    moreover have "Q s" by (rule step.prems(3) [OF step.prems(2) out [unfolded WarpHalted]])
    ultimately show ?thesis by simp
  next
    case (WarpNext pc' lanes' s)
    with step.prems(1) b out have "run_warp fp insts max_steps (steps + 1) pc' lanes' s = Inr st'"
      by (subst (asm) run_warp.simps) simp
    moreover have "I lanes' s" by (rule step.prems(4) [OF step.prems(2) out [unfolded WarpNext]])
    ultimately show ?thesis using step.IH [OF _ _ out WarpNext] b step.prems(3,4) by blast
  qed
qed

definition branch_ok :: "branch_record \<Rightarrow> bool" where
  "branch_ok b \<longleftrightarrow> br_uniform b \<and> br_decisions b \<noteq> [] \<and>
     list_all (\<lambda>d. d = br_taken b) (br_decisions b) \<and>
     br_lane_count b = int (length (br_decisions b))"

definition sim_inv :: "byte list \<Rightarrow> nat \<Rightarrow> sim_state \<Rightarrow> bool" where
  "sim_inv pm n st \<longleftrightarrow> mem_inv pm n (mem st) \<and> list_all branch_ok (branch_trace st) \<and>
     brx_execution_count st = length (branch_trace st) \<and> non_uniform_branch_failures st = 0"

lemma branchx_inv:
  assumes "branchx_next_pc inst lanes pc st = Inr (pc', st')" "sim_inv pm n st"
  shows "sim_inv pm n st' \<and> dynamic_instruction_count st' = dynamic_instruction_count st"
proof -
  obtain p raw l0 ls where e: "predicate inst = Some p" "mapE (\<lambda>ln. get_pred ln p) lanes = Inr raw"
    "lanes = l0 # ls"
    using assms(1) by (cases lanes)
      (auto simp: branchx_next_pc_def Let_def bindE_def split: option.splits sum.splits)
  define ds where "ds = map (\<lambda>d. if predicate_negated inst then \<not> d else d) raw"
  have len: "length ds = length lanes" using mapE_Inr_length [OF e(2)] by (simp add: ds_def)
  then have ne: "ds \<noteq> []" using e(3) by auto
  have u: "list_all id ds \<or> \<not> list_ex id ds"
    using assms(1) e by (auto simp: branchx_next_pc_def Let_def simp flip: ds_def split: if_splits)
  then have "list_all (\<lambda>d. d = list_all id ds) ds"
    using ne by (cases ds) (auto simp: list_all_iff list_ex_iff)
  then show ?thesis
    using assms e u ne len
    by (auto simp: branchx_next_pc_def Let_def sim_inv_def branch_ok_def simp flip: ds_def)
qed

lemma warp_step_inv:
  assumes "warp_step fp inst pc lanes st = Inr out" "sim_inv pm n st"
  shows "(case out of WarpHalted s \<Rightarrow> sim_inv pm n s \<and>
            dynamic_instruction_count s = dynamic_instruction_count st + 1
          | WarpNext pc' ls s \<Rightarrow> sim_inv pm n s \<and>
            dynamic_instruction_count s = dynamic_instruction_count st + 1)"
proof -
  have c: "sim_inv pm n (st\<lparr>dynamic_instruction_count := c\<rparr>)" for c
    using assms(2) by (simp add: sim_inv_def)
  have m: "sim_inv pm n (st\<lparr>dynamic_instruction_count := c, mem := m\<rparr>)" if "mem_inv pm n m" for c m
    using assms(2) that by (simp add: sim_inv_def)
  show ?thesis
    using assms(1) c m branchx_inv [OF _ c] exec_lanes_mem_inv [of fp inst lanes "mem st" _ _ pm n] assms(2)
    by (fastforce simp: warp_step_def Let_def bindE_Inr_iff sim_inv_def split: if_splits)
qed

lemma run_warp_sim_inv:
  assumes "run_warp fp insts max_steps steps pc lanes st = Inr st'" "sim_inv pm n st"
  shows "sim_inv pm n st'"
  by (rule run_warp_invariant [where I = "\<lambda>_. sim_inv pm n", OF assms])
     (auto dest!: warp_step_inv)

lemma run_warp_count:
  assumes "run_warp fp insts max_steps steps pc lanes st = Inr st'" "sim_inv pm n st"
  shows "dynamic_instruction_count st' \<le> dynamic_instruction_count st + nat (max_steps - steps)"
  using assms
proof (induction fp insts max_steps steps pc lanes st rule: run_warp.induct [case_names step])
  case (step fp insts max_steps steps pc lanes st)
  from step.prems(1) obtain out where b: "0 \<le> pc" "pc < int (length insts)" "\<not> max_steps \<le> steps"
    and out: "warp_step fp (insts ! nat pc) pc lanes st = Inr out"
    by (subst (asm) run_warp.simps) (auto split: if_splits sum.splits)
  note inv = warp_step_inv [OF out step.prems(2)]
  show ?case
  proof (cases out)
    case (WarpHalted s)
    with step.prems(1) b out have "s = st'" by (subst (asm) run_warp.simps) simp
    with inv WarpHalted b(3) show ?thesis by simp
  next
    case (WarpNext pc' lanes' s)
    with step.prems(1) b out have "run_warp fp insts max_steps (steps + 1) pc' lanes' s = Inr st'"
      by (subst (asm) run_warp.simps) simp
    with step.IH [OF _ _ out WarpNext] b inv WarpNext
    have "dynamic_instruction_count st' \<le> dynamic_instruction_count s + nat (max_steps - (steps + 1))"
      by simp
    with inv WarpNext b(3) show ?thesis by simp
  qed
qed

section \<open>Runs of a launch\<close>

text \<open>The warps of a launch: blocks in order, in each block the warp starts in order.\<close>

definition warp_starts :: "simulator \<Rightarrow> int list" where
  "warp_starts s = (case py_range 0 (dim_total (sim_block_dim s)) (sim_warp_size s) of
     Inl _ \<Rightarrow> [] | Inr xs \<Rightarrow> xs)"

definition warp_count :: "simulator \<Rightarrow> nat" where
  "warp_count s = nat (dim_total (sim_grid_dim s)) * length (warp_starts s)"

definition count_inv :: "byte list \<Rightarrow> nat \<Rightarrow> nat \<Rightarrow> sim_state \<Rightarrow> bool" where
  "count_inv pm n c st \<longleftrightarrow> sim_inv pm n st \<and> dynamic_instruction_count st \<le> c"

lemma foldE_count_inv:
  assumes "foldE f xs st = Inr st'" "count_inv pm n c st"
    and "\<And>x st st' c. count_inv pm n c st \<Longrightarrow> f x st = Inr st' \<Longrightarrow> count_inv pm n (c + k) st'"
  shows "count_inv pm n (c + length xs * k) st'"
  using assms(1,2)
proof (induction xs arbitrary: st c)
  case (Cons x xs)
  then obtain s where "f x st = Inr s" "foldE f xs s = Inr st'" by (auto simp: bindE_Inr_iff)
  with Cons.IH [OF this(2) assms(3) [OF Cons.prems(2) this(1)]] show ?case
    by (simp add: algebra_simps)
qed simp

lemma run_warp_count_inv:
  assumes "count_inv pm n c st" "run_warp fp insts max_steps 0 0 lanes st = Inr st'"
  shows "count_inv pm n (c + nat max_steps) st'"
  using assms run_warp_sim_inv [OF assms(2)] run_warp_count [OF assms(2)]
  by (fastforce simp: count_inv_def)

lemma run_block_count_inv:
  assumes "count_inv pm n c st" "run_block fp s b st = Inr st'"
  shows "count_inv pm n (c + length (warp_starts s) * nat (sim_max_steps s)) st'"
proof -
  obtain starts where p: "py_range 0 (dim_total (sim_block_dim s)) (sim_warp_size s) = Inr starts"
    and f: "foldE (\<lambda>warp_start st'. run_warp fp (sim_instructions s) (sim_max_steps s) 0 0
                (warp_lanes s b warp_start) st') starts st = Inr st'"
    using assms(2) by (auto simp: run_block_def bindE_Inr_iff)
  have "warp_starts s = starts" by (simp add: warp_starts_def p)
  with foldE_count_inv [OF f assms(1) run_warp_count_inv] show ?thesis by simp
qed

lemma simulate_count_inv:
  assumes "simulate fp s pm gm = Inr st"
  shows "count_inv pm (length gm) (warp_count s * nat (sim_max_steps s)) st"
proof -
  have i: "count_inv pm (length gm) 0 (initial_state pm gm)"
    by (simp add: count_inv_def sim_inv_def mem_inv_def initial_state_def)
  from foldE_count_inv [OF assms [unfolded simulate_def run_all_def] i run_block_count_inv]
  show ?thesis by (simp add: warp_count_def algebra_simps)
qed

section \<open>Properties\<close>

text \<open>
  A launch to evaluate: two threads store their index in global memory and branch uniformly.
\<close>

definition int_fpu :: "int fpu" where
  "int_fpu = \<lparr>bits_to_float = id, float_to_bits = Some, fadd = (+), fsub = (-), fmul = (*),
     feq = (=), flt = (<), fle = (\<le>)\<rparr>"

definition sample_launch :: simulator where
  "sample_launch = \<lparr>sim_instructions =
       [(AECInstruction ''CPY'')\<lparr>dtype := ''u32'', dest := 1, src1 := 0x100\<rparr>,
        (AECInstruction ''LOADI'')\<lparr>dest := 2, imm := 2\<rparr>,
        (AECInstruction ''SHL'')\<lparr>dtype := ''u32'', dest := 3, src1 := 1, src2 := 2\<rparr>,
        (AECInstruction ''ST'')\<lparr>dtype := ''u32'', src1 := 3, src2 := 1, memory_space := Some ''gmem''\<rparr>,
        (AECInstruction ''CMPP'')\<lparr>dtype := ''u32'', dest := 1, src1 := 1, src2 := 2, compare := Some ''lt''\<rparr>,
        (AECInstruction ''BRX'')\<lparr>predicate := Some 1, imm := 6\<rparr>,
        AECInstruction ''HALT''],
     sim_block_dim = (2, 1, 1), sim_grid_dim = (1, 1, 1), sim_warp_size = 32, sim_max_steps = 10\<rparr>"

definition sample_gmem :: "byte list" where "sample_gmem = replicate 8 255"

text \<open>
  C5. A simulation that returns is memory-safe and divergence-free: parameter memory is unchanged,
  global memory keeps its size, every logged access lies inside global memory and is 4 or 8 bytes
  wide, every logged branch was decided alike by all lanes of its warp, one log entry stands for
  each executed \<open>BRX\<close>, and the failure counter of a returned result is 0.
\<close>

theorem simulate_safe:
  assumes "simulate fp s pm gm = Inr st"
  shows "pmem (mem st) = pm \<and> length (gmem (mem st)) = length gm \<and>
    (\<forall>a \<in> set (accesses (mem st)). acc_space a = ''gmem'' \<and> 0 \<le> acc_address a \<and>
       acc_size a \<in> {4, 8} \<and> acc_address a + acc_size a \<le> int (length gm)) \<and>
    (\<forall>b \<in> set (branch_trace st). br_uniform b \<and> (\<forall>d \<in> set (br_decisions b). d = br_taken b)) \<and>
    brx_execution_count st = length (branch_trace st) \<and> non_uniform_branch_failures st = 0"
  using simulate_count_inv [OF assms]
  by (auto simp: count_inv_def sim_inv_def mem_inv_def access_ok_def branch_ok_def list_all_iff)

theorem simulate_safe_witness:
  "\<exists>st. simulate int_fpu sample_launch [] sample_gmem = Inr st \<and>
    gmem (mem st) = [0, 0, 0, 0, 1, 0, 0, 0] \<and> length (branch_trace st) = 1 \<and>
    brx_execution_count st = length (branch_trace st) \<and> length (accesses (mem st)) = 2"
proof -
  have "case simulate int_fpu sample_launch [] sample_gmem of Inl _ \<Rightarrow> False
    | Inr st \<Rightarrow> gmem (mem st) = [0, 0, 0, 0, 1, 0, 0, 0] \<and> length (branch_trace st) = 1 \<and>
        length (accesses (mem st)) = 2"
    by code_simp
  then obtain st where st: "simulate int_fpu sample_launch [] sample_gmem = Inr st"
    "gmem (mem st) = [0, 0, 0, 0, 1, 0, 0, 0]" "length (branch_trace st) = 1"
    "length (accesses (mem st)) = 2"
    by (auto split: sum.splits)
  from simulate_safe [OF st(1)] st show ?thesis by auto
qed

text \<open>
  C6. The step limit bounds the whole launch: a simulation that returns has executed at most
  \<open>max_steps\<close> instructions for each warp of each block.
\<close>

theorem simulate_step_bound:
  assumes "simulate fp s pm gm = Inr st"
  shows "dynamic_instruction_count st \<le> warp_count s * nat (sim_max_steps s)"
  using simulate_count_inv [OF assms] by (simp add: count_inv_def)

theorem simulate_step_bound_witness:
  "\<exists>st. simulate int_fpu sample_launch [] sample_gmem = Inr st \<and>
    dynamic_instruction_count st = 7 \<and> dynamic_instruction_count st \<le> 1 * 10"
proof -
  have "case simulate int_fpu sample_launch [] sample_gmem of Inl _ \<Rightarrow> False
    | Inr st \<Rightarrow> dynamic_instruction_count st = 7"
    by code_simp
  then obtain st where st: "simulate int_fpu sample_launch [] sample_gmem = Inr st"
    "dynamic_instruction_count st = 7"
    by (auto split: sum.splits)
  have "warp_count sample_launch * nat (sim_max_steps sample_launch) = 1 * 10" by code_simp
  with simulate_step_bound [OF st(1)] st show ?thesis by auto
qed

end
