(* ===== verification/Scheduler.thy ===== *)
theory Scheduler
  imports Isa "HOL-Library.Product_Lexorder"
begin

text \<open>
  The post-lowering list scheduler, \<open>passes/scheduler.py\<close>: classification of instructions, the
  dependence graph of a block, the priority-driven draining of its ready heap, and the division of
  a program into blocks.
\<close>

section \<open>Classification\<close>

datatype inst_kind = CONTROL | STORE | LOAD | COMPUTE

datatype sched_error = SchedIndexError | GraphNotResolved

definition inst_kind :: "aec_instruction \<Rightarrow> inst_kind" where
  "inst_kind inst =
     (let op = upper (opcode inst) in
      if op \<in> {''BR'', ''BRX'', ''HALT'', ''CALL'', ''RET''} then CONTROL
      else if op = ''ST'' then STORE
      else if op = ''LD'' then LOAD
      else COMPUTE)"

definition has_dest :: "aec_instruction \<Rightarrow> bool" where
  "has_dest inst \<longleftrightarrow>
     upper (opcode inst) \<notin> {''ST'', ''BR'', ''BRX'', ''HALT'', ''CALL'', ''RET''}"

definition source_regs :: "aec_instruction \<Rightarrow> int list" where
  "source_regs inst = filter (\<lambda>v. 0 \<le> v \<and> v \<le> 255) [src1 inst, src2 inst, src3 inst]"

text \<open>\<open>tuple(dict.fromkeys(xs))\<close>: the first occurrence of each element.\<close>

fun unique :: "'a list \<Rightarrow> 'a list" where
  "unique [] = []"
| "unique (x # xs) = x # filter (\<lambda>y. y \<noteq> x) (unique xs)"

lemma set_unique [simp]: "set (unique xs) = set xs"
  by (induction xs) auto

definition priority :: "inst_kind list \<Rightarrow> nat \<Rightarrow> int" where
  "priority kinds idx =
     (case kinds ! idx of
        LOAD \<Rightarrow> 0 | COMPUTE \<Rightarrow> 1 | STORE \<Rightarrow> 2 + int idx | CONTROL \<Rightarrow> 1000 + int idx)"

section \<open>The dependence graph of a block\<close>

text \<open>
  The dictionaries of the source, as functions with the default their reads use: an absent key of
  \<open>dependents\<close> and \<open>pending_reads\<close> reads as the empty list.
\<close>

record build_state =
  ready :: "(int \<times> nat) list"
  dep_count :: "int list"
  dependents :: "nat \<Rightarrow> nat list"
  last_store_idx :: "nat option"
  last_def_pos :: "int \<Rightarrow> nat option"
  last_write_pos :: "int \<Rightarrow> nat option"
  pending_reads :: "int \<Rightarrow> nat list"

definition build_init :: build_state where
  "build_init = \<lparr>ready = [], dep_count = [], dependents = (\<lambda>_. []), last_store_idx = None,
     last_def_pos = Map.empty, last_write_pos = Map.empty, pending_reads = (\<lambda>_. [])\<rparr>"

definition option_list :: "'a option \<Rightarrow> 'a list" where
  "option_list x = (case x of None \<Rightarrow> [] | Some a \<Rightarrow> [a])"

text \<open>
  The instructions one instruction waits for, in the order the loop finds them: the closest
  preceding definition of each source (RAW), the pending reads of its destination (WAR), the last
  write to its destination (WAW), and for a load the last store.
\<close>

definition waits_for :: "build_state \<Rightarrow> aec_instruction \<Rightarrow> nat list" where
  "waits_for st inst =
     concat (map (\<lambda>s. option_list (last_def_pos st s)) (unique (source_regs inst))) @
     (if has_dest inst then pending_reads st (dest inst) else []) @
     (if has_dest inst then option_list (last_write_pos st (dest inst)) else []) @
     (if inst_kind inst = LOAD then option_list (last_store_idx st) else [])"

definition add_dependents :: "nat list \<Rightarrow> nat \<Rightarrow> (nat \<Rightarrow> nat list) \<Rightarrow> nat \<Rightarrow> nat list" where
  "add_dependents ps idx deps = foldl (\<lambda>d p. d(p := d p @ [idx])) deps ps"

definition add_reads :: "int list \<Rightarrow> nat \<Rightarrow> (int \<Rightarrow> nat list) \<Rightarrow> int \<Rightarrow> nat list" where
  "add_reads ss idx reads = foldl (\<lambda>r s. r(s := r s @ [idx])) reads ss"

definition build_step :: "inst_kind list \<Rightarrow> nat \<Rightarrow> aec_instruction \<Rightarrow> build_state \<Rightarrow> build_state" where
  "build_step kinds idx inst st =
     (let ps = waits_for st inst;
          unresolved = int (length ps);
          reads = (if has_dest inst then (pending_reads st)(dest inst := []) else pending_reads st)
      in \<lparr>ready = (if unresolved = 0 then heappush (priority kinds idx, idx) (ready st) else ready st),
          dep_count = dep_count st @ [unresolved],
          dependents = add_dependents ps idx (dependents st),
          last_store_idx = (if inst_kind inst = STORE then Some idx else last_store_idx st),
          last_def_pos = (if has_dest inst then (last_def_pos st)(dest inst \<mapsto> idx) else last_def_pos st),
          last_write_pos =
            (if has_dest inst then (last_write_pos st)(dest inst \<mapsto> idx) else last_write_pos st),
          pending_reads = add_reads (unique (source_regs inst)) idx reads\<rparr>)"

fun build_from :: "inst_kind list \<Rightarrow> nat \<Rightarrow> aec_instruction list \<Rightarrow> build_state \<Rightarrow> build_state" where
  "build_from kinds idx [] st = st"
| "build_from kinds idx (inst # rest) st =
     build_from kinds (Suc idx) rest (build_step kinds idx inst st)"

section \<open>Draining the ready heap\<close>

fun release ::
    "(nat \<Rightarrow> int) \<Rightarrow> nat list \<Rightarrow> int list \<Rightarrow> (int \<times> nat) list \<Rightarrow>
     (sched_error, int list \<times> (int \<times> nat) list) result" where
  "release pr [] dc h = Inr (dc, h)"
| "release pr (d # ds) dc h =
     (if d < length dc then
        (let c = dc ! d - 1 in
         release pr ds (dc[d := c]) (if c = 0 then heappush (pr d, d) h else h))
      else Inl SchedIndexError)"

definition positives :: "int list \<Rightarrow> nat" where
  "positives dc = length (filter (\<lambda>c. 0 < c) dc)"

lemma positives_update:
  "d < length dc \<Longrightarrow> positives (dc[d := v]) + (if 0 < dc ! d then 1 else 0) =
    positives dc + (if 0 < v then 1 else 0)"
proof (induction dc arbitrary: d)
  case (Cons x xs)
  then show ?case by (cases d) (auto simp: positives_def)
qed simp

lemma release_measure:
  "release pr ds dc h = Inr (dc', h') \<Longrightarrow>
    length h' + positives dc' \<le> length h + positives dc"
proof (induction ds arbitrary: dc h)
  case (Cons d ds)
  then have d: "d < length dc" by (auto split: if_splits)
  let ?c = "dc ! d - 1"
  from Cons d have "length h' + positives dc' \<le>
      length (if ?c = 0 then heappush (pr d, d) h else h) + positives (dc[d := ?c])"
    by (simp add: Let_def)
  with positives_update [OF d, of ?c] show ?case
    by (auto simp: heappush_def split: if_splits)
qed simp

function drain ::
    "(nat \<Rightarrow> int) \<Rightarrow> (nat \<Rightarrow> nat list) \<Rightarrow> int list \<Rightarrow> (int \<times> nat) list \<Rightarrow> nat list \<Rightarrow>
     (sched_error, nat list) result" where
  "drain pr deps dc h scheduled =
     (case heappop h of
        None \<Rightarrow> Inr scheduled
      | Some ((_, best), h1) \<Rightarrow>
          bindE (release pr (deps best) dc h1) (\<lambda>(dc', h').
            drain pr deps dc' h' (scheduled @ [best])))"
  by pat_completeness auto
termination
  by (relation "measure (\<lambda>(pr, deps, dc, h, out). length h + positives dc)")
     (auto simp: heappop_def dest!: release_measure split: list.splits)

declare drain.simps [simp del]

definition block_order :: "aec_instruction list \<Rightarrow> (sched_error, nat list) result" where
  "block_order insts =
     (let kinds = map inst_kind insts;
          g = build_from kinds 0 insts build_init
      in drain (priority kinds) (dependents g) (dep_count g) (ready g) [])"

definition schedule_block :: "aec_instruction list \<Rightarrow> (sched_error, aec_instruction list) result" where
  "schedule_block insts =
     (if length insts \<le> 2 then Inr insts
      else bindE (block_order insts) (\<lambda>scheduled.
        if length scheduled \<noteq> length insts then Inl GraphNotResolved
        else Inr (map (\<lambda>i. insts ! i) scheduled)))"

section \<open>A whole program\<close>

definition leaders_at :: "aec_instruction list \<Rightarrow> nat \<Rightarrow> nat list" where
  "leaders_at insts i =
     (let op = upper (opcode (insts ! i)); target = imm (insts ! i);
          next_leader = (if i + 1 < length insts then [i + 1] else []) in
      if op \<in> {''BR'', ''BRX''} then
        (if 0 \<le> target \<and> target < int (length insts) then [nat target] else []) @ next_leader
      else if op = ''HALT'' then next_leader
      else [])"

definition block_leaders :: "aec_instruction list \<Rightarrow> nat list" where
  "block_leaders insts =
     sorted_list_of_set (set (0 # concat (map (leaders_at insts) [0 ..< length insts])))"

fun schedule_ranges ::
    "nat list \<Rightarrow> nat \<Rightarrow> aec_instruction list \<Rightarrow> (sched_error, aec_instruction list) result" where
  "schedule_ranges [] n insts = Inr insts"
| "schedule_ranges (start # rest) n insts =
     (let stop = (case rest of [] \<Rightarrow> n | e # _ \<Rightarrow> e);
          blk = take (stop - start) (drop start insts)
      in if length blk \<le> 2 then schedule_ranges rest n insts
         else bindE (schedule_block blk) (\<lambda>s.
           schedule_ranges rest n (take start insts @ s @ drop stop insts)))"

definition schedule_lowered :: "aec_instruction list \<Rightarrow> (sched_error, aec_instruction list) result" where
  "schedule_lowered insts =
     (if length insts \<le> 2 then Inr insts
      else schedule_ranges (block_leaders insts) (length insts) insts)"

end
