(* ===== verification/Scheduler_Drain.thy ===== *)
theory Scheduler_Drain
  imports Scheduler
begin

text \<open>
  Draining the ready heap of a dependence graph: for every graph whose edges go forward the loop
  ends with a permutation of the block, respects every edge, and lets nothing overtake an
  instruction whose priority is no better than that of everything before it.
\<close>

section \<open>Graphs and orders\<close>

definition forward_deps :: "nat \<Rightarrow> (nat \<Rightarrow> nat list) \<Rightarrow> bool" where
  "forward_deps n deps \<longleftrightarrow> (\<forall>p j. j \<in> set (deps p) \<longrightarrow> p < j \<and> j < n)"

text \<open>How many edges into \<open>j\<close> start at instructions that are not done yet.\<close>

definition indegree :: "nat \<Rightarrow> (nat \<Rightarrow> nat list) \<Rightarrow> nat set \<Rightarrow> nat \<Rightarrow> nat" where
  "indegree n deps done j = (\<Sum>p \<in> {..<n} - done. count_list (deps p) j)"

definition is_barrier :: "(nat \<Rightarrow> int) \<Rightarrow> nat \<Rightarrow> bool" where
  "is_barrier pr s \<longleftrightarrow> (\<forall>j < s. pr j \<le> pr s)"

definition order_ok :: "(nat \<Rightarrow> int) \<Rightarrow> (nat \<Rightarrow> nat list) \<Rightarrow> nat list \<Rightarrow> bool" where
  "order_ok pr deps out \<longleftrightarrow> (\<forall>k < length out.
     (\<forall>p. out ! k \<in> set (deps p) \<longrightarrow> p \<in> set (take k out)) \<and>
     (is_barrier pr (out ! k) \<longrightarrow> {..<out ! k} \<subseteq> set (take k out)))"

lemma order_ok_snoc:
  "order_ok pr deps (out @ [b]) \<longleftrightarrow> order_ok pr deps out \<and>
    (\<forall>p. b \<in> set (deps p) \<longrightarrow> p \<in> set out) \<and> (is_barrier pr b \<longrightarrow> {..<b} \<subseteq> set out)"
  by (auto simp: order_ok_def nth_append less_Suc_eq)

lemma order_ok_closed:
  "order_ok pr deps out \<Longrightarrow> j \<in> set out \<Longrightarrow> j \<in> set (deps p) \<Longrightarrow> p \<in> set out"
  unfolding order_ok_def by (metis in_set_conv_nth in_set_takeD)

lemma indegree_0:
  "finite done \<Longrightarrow> indegree n deps done j = 0 \<longleftrightarrow> (\<forall>p < n. j \<in> set (deps p) \<longrightarrow> p \<in> done)"
  by (auto simp: indegree_def count_list_0_iff)

lemma indegree_insert:
  assumes "b < n" "b \<notin> done"
  shows "indegree n deps done j = indegree n deps (insert b done) j + count_list (deps b) j"
proof -
  have s: "{..<n} - done = insert b ({..<n} - insert b done)" using assms by auto
  have "(\<Sum>p \<in> insert b ({..<n} - insert b done). count_list (deps p) j) =
      count_list (deps b) j + (\<Sum>p \<in> {..<n} - insert b done. count_list (deps p) j)"
    by (intro sum.insert) simp_all
  then show ?thesis unfolding indegree_def by (simp only: s [symmetric])
qed

section \<open>Releasing the dependents of one instruction\<close>

lemma release_spec:
  assumes "\<forall>d \<in> set ds. d < length dc \<and> int (count_list ds d) \<le> dc ! d" "sorted h"
  shows "\<exists>dc' h'. release pr ds dc h = Inr (dc', h') \<and> length dc' = length dc \<and>
    (\<forall>j < length dc. dc' ! j = dc ! j - int (count_list ds j)) \<and> sorted h' \<and>
    mset h' = mset h +
      image_mset (\<lambda>j. (pr j, j)) (mset_set {j \<in> set ds. dc ! j = int (count_list ds j)})"
  using assms
proof (induction ds arbitrary: dc h)
  case (Cons d ds)
  let ?c = "dc ! d - 1"
  let ?dc = "dc[d := ?c]"
  let ?h = "if ?c = 0 then heappush (pr d, d) h else h"
  let ?S = "\<lambda>ds dc. {j \<in> set ds. dc ! j = int (count_list ds j)}"
  have d: "d < length dc" using Cons.prems(1) by simp
  have pre: "\<forall>x \<in> set ds. x < length ?dc \<and> int (count_list ds x) \<le> ?dc ! x"
    using Cons.prems(1) d by (auto simp: nth_list_update split: if_splits)
  have h: "sorted ?h" using Cons.prems(2) heapq.inv_push [of h "(pr d, d)"] by (cases "?c = 0") simp_all
  from Cons.IH [OF pre h] obtain dc' h' where ih: "release pr ds ?dc ?h = Inr (dc', h')"
    "length dc' = length ?dc" "\<forall>j < length ?dc. dc' ! j = ?dc ! j - int (count_list ds j)" "sorted h'"
    "mset h' = mset ?h + image_mset (\<lambda>j. (pr j, j)) (mset_set (?S ds ?dc))" by blast
  have S: "?S (d # ds) dc = (if ?c = 0 then insert d (?S ds ?dc) else ?S ds ?dc)"
    "?c = 0 \<Longrightarrow> d \<notin> ?S ds ?dc"
    using d Cons.prems(1) by (auto simp: nth_list_update count_list_0_iff split: if_splits)
  have m: "mset h' = mset h + image_mset (\<lambda>j. (pr j, j)) (mset_set (?S (d # ds) dc))"
  proof (cases "?c = 0")
    case True
    with S have "mset_set (?S (d # ds) dc) = add_mset d (mset_set (?S ds ?dc))" by simp
    moreover have "mset ?h = add_mset (pr d, d) (mset h)"
      using True Cons.prems(2) by (simp add: heapq.elems_push)
    ultimately show ?thesis using ih(5) by simp
  next
    case False
    with S ih(5) show ?thesis by simp
  qed
  have "\<forall>j < length dc. dc' ! j = dc ! j - int (count_list (d # ds) j)"
    using ih(3) d by (auto simp: nth_list_update)
  moreover have "release pr (d # ds) dc h = Inr (dc', h')"
    using d ih(1) by (simp only: release.simps Let_def if_True)
  ultimately show ?case using ih(2,4) m by auto
qed simp

section \<open>The loop\<close>

definition drain_inv ::
    "nat \<Rightarrow> (nat \<Rightarrow> int) \<Rightarrow> (nat \<Rightarrow> nat list) \<Rightarrow> int list \<Rightarrow> (int \<times> nat) list \<Rightarrow> nat list \<Rightarrow> bool" where
  "drain_inv n pr deps dc h out \<longleftrightarrow>
     distinct out \<and> set out \<subseteq> {..<n} \<and> order_ok pr deps out \<and> length dc = n \<and>
     (\<forall>j < n. dc ! j = int (indegree n deps (set out) j)) \<and> sorted h \<and>
     mset h = image_mset (\<lambda>j. (pr j, j)) (mset_set {j. j < n \<and> j \<notin> set out \<and> dc ! j = 0})"

lemma drain_inv_heap:
  assumes "drain_inv n pr deps dc h out"
  shows "(p, j) \<in># mset h \<longleftrightarrow> p = pr j \<and> j < n \<and> j \<notin> set out \<and> dc ! j = 0"
  using assms by (auto simp: drain_inv_def)

text \<open>The least instruction not scheduled yet waits for nothing.\<close>

lemma least_is_ready:
  assumes "drain_inv n pr deps dc h out" "forward_deps n deps" "j < n" "j \<notin> set out"
    "\<forall>i < j. i \<in> set out"
  shows "dc ! j = 0"
proof -
  have "\<forall>p < n. j \<in> set (deps p) \<longrightarrow> p \<in> set out"
    using assms(2,5) unfolding forward_deps_def by blast
  then have "indegree n deps (set out) j = 0" by (simp add: indegree_0)
  moreover have "dc ! j = int (indegree n deps (set out) j)"
    using assms(1,3) by (simp add: drain_inv_def)
  ultimately show ?thesis by (simp only: of_nat_0)
qed

lemma exists_ready:
  assumes "drain_inv n pr deps dc h out" "forward_deps n deps" "i < n" "i \<notin> set out"
  shows "\<exists>j \<le> i. (pr j, j) \<in># mset h"
proof -
  let ?P = "\<lambda>j. j < n \<and> j \<notin> set out"
  obtain j where P: "?P j" and le: "\<And>k. ?P k \<Longrightarrow> j \<le> k"
    using assms(3,4) exists_least_iff [of ?P] by (metis not_less)
  have j: "j < n" "j \<notin> set out" "j \<le> i" using P le [of i] assms(3,4) by blast+
  have "\<forall>x < j. x \<in> set out"
    using le j(1) by (meson less_trans not_less)
  then have "dc ! j = 0" by (rule least_is_ready [OF assms(1,2) j(1,2)])
  with j(1,2) have "(pr j, j) \<in># mset h" using drain_inv_heap [OF assms(1)] by blast
  with j(3) show ?thesis by blast
qed

lemma drain_step:
  assumes inv: "drain_inv n pr deps dc h out" and fwd: "forward_deps n deps"
    and pop: "heappop h = Some ((x, b), h1)"
  shows "\<exists>dc' h'. release pr (deps b) dc h1 = Inr (dc', h') \<and>
    drain_inv n pr deps dc' h' (out @ [b]) \<and> b < n \<and> b \<notin> set out"
proof -
  have srt: "sorted h" using inv by (simp add: drain_inv_def)
  have el: "mset h = add_mset (x, b) (mset h1)" by (rule heapq.pop_elems [OF srt pop])
  have srt1: "sorted h1" by (rule heapq.inv_pop [OF srt pop])
  from heapq.pop_in [OF srt pop] have b: "x = pr b" "b < n" "b \<notin> set out" "dc ! b = 0"
    using drain_inv_heap [OF inv] by auto
  have min: "(pr b, b) \<le> y" if "y \<in># mset h" for y
    using heapq.pop_min [OF srt pop that] b(1) by simp
  have dc: "length dc = n" "\<And>j. j < n \<Longrightarrow> dc ! j = int (indegree n deps (set out) j)"
    and ok: "order_ok pr deps out"
    using inv by (simp_all add: drain_inv_def)
  have preds: "\<forall>p. b \<in> set (deps p) \<longrightarrow> p \<in> set out"
  proof (intro allI impI)
    fix p assume p: "b \<in> set (deps p)"
    then have "p < n" using fwd b(2) by (auto simp: forward_deps_def dest: less_trans)
    moreover have "indegree n deps (set out) b = 0" using dc(2) [OF b(2)] b(4) by simp
    ultimately show "p \<in> set out" using p by (simp add: indegree_0)
  qed
  have bar: "is_barrier pr b \<longrightarrow> {..<b} \<subseteq> set out"
  proof (intro impI subsetI, rule ccontr)
    fix i assume bb: "is_barrier pr b" and i: "i \<in> {..<b}" "i \<notin> set out"
    then obtain j where j: "j \<le> i" "(pr j, j) \<in># mset h"
      using exists_ready [OF inv fwd, of i] b(2) by auto
    with min have "(pr b, b) \<le> (pr j, j)" by blast
    moreover have "pr j \<le> pr b" "j < b" using bb j(1) i(1) by (auto simp: is_barrier_def)
    ultimately show False by auto
  qed
  have cnt: "indegree n deps (set out) j =
      indegree n deps (insert b (set out)) j + count_list (deps b) j" for j
    by (rule indegree_insert [OF b(2,3)])
  have "\<forall>d \<in> set (deps b). d < length dc \<and> int (count_list (deps b) d) \<le> dc ! d"
    using dc cnt fwd by (auto simp: forward_deps_def)
  from release_spec [OF this srt1] obtain dc' h' where r: "release pr (deps b) dc h1 = Inr (dc', h')"
    "length dc' = n" "\<forall>j < n. dc' ! j = dc ! j - int (count_list (deps b) j)" "sorted h'"
    and m: "mset h' = mset h1 +
      image_mset (\<lambda>j. (pr j, j)) (mset_set {j \<in> set (deps b). dc ! j = int (count_list (deps b) j)})"
    unfolding dc(1) by blast
  let ?A = "{j. j < n \<and> j \<notin> set out \<and> dc ! j = 0}"
  let ?R = "{j \<in> set (deps b). dc ! j = int (count_list (deps b) j)}"
  have dc': "\<forall>j < n. dc' ! j = int (indegree n deps (set (out @ [b])) j)"
    using r(3) dc(2) cnt by simp
  have b_out: "set (deps b) \<inter> set out = {}"
    using order_ok_closed [OF ok] b(3) by auto
  have R0: "?R \<inter> ?A = {}" by (auto simp: count_list_0_iff)
  have new: "{j. j < n \<and> j \<notin> set (out @ [b]) \<and> dc' ! j = 0} = (?A - {b}) \<union> ?R"
  proof (rule set_eqI)
    fix j
    show "j \<in> {j. j < n \<and> j \<notin> set (out @ [b]) \<and> dc' ! j = 0} \<longleftrightarrow> j \<in> (?A - {b}) \<union> ?R"
    proof (cases "j \<in> set (deps b)")
      case True
      then have "j < n" "b < j" "j \<notin> set out" using fwd b_out by (auto simp: forward_deps_def)
      moreover from this True have "j \<notin> ?A" using r(3) dc cnt [of j] count_list_0_iff [of "deps b" j] by auto
      ultimately show ?thesis using True r(3) by auto
    next
      case False
      then have "count_list (deps b) j = 0" by (simp add: count_list_0_iff)
      with False show ?thesis using r(3) by auto
    qed
  qed
  have "mset h1 = image_mset (\<lambda>j. (pr j, j)) (mset_set (?A - {b}))"
  proof -
    have "mset_set ?A = add_mset b (mset_set (?A - {b}))"
      using b by (intro mset_set.remove) simp_all
    then have "mset h = add_mset (pr b, b) (image_mset (\<lambda>j. (pr j, j)) (mset_set (?A - {b})))"
      using inv by (simp add: drain_inv_def)
    with el b(1) show ?thesis by simp
  qed
  moreover have "mset_set ((?A - {b}) \<union> ?R) = mset_set (?A - {b}) + mset_set ?R"
    using R0 by (intro mset_set_Union) auto
  ultimately have "mset h' =
      image_mset (\<lambda>j. (pr j, j)) (mset_set {j. j < n \<and> j \<notin> set (out @ [b]) \<and> dc' ! j = 0})"
    using m by (simp only: new image_mset_union)
  then have "drain_inv n pr deps dc' h' (out @ [b])"
    using inv b preds bar r(2,4) dc' unfolding drain_inv_def order_ok_snoc by simp
  with r(1) b show ?thesis by blast
qed

lemma drain_correct:
  assumes "drain_inv n pr deps dc h out" "forward_deps n deps"
  shows "\<exists>out'. drain pr deps dc h out = Inr out' \<and> distinct out' \<and> set out' = {..<n} \<and>
    order_ok pr deps out'"
  using assms(1)
proof (induction "n - length out" arbitrary: dc h out rule: less_induct)
  case less
  show ?case
  proof (cases "heappop h")
    case None
    then have "mset h = {#}" by (simp add: heappop_def split: list.splits)
    with exists_ready [OF less.prems assms(2)] have all: "{..<n} \<subseteq> set out"
      by fastforce
    have "distinct out" "set out \<subseteq> {..<n}" "order_ok pr deps out"
      using less.prems by (simp_all add: drain_inv_def)
    with all None show ?thesis by (subst drain.simps) auto
  next
    case (Some a)
    obtain x b h1 where a: "a = ((x, b), h1)" by (cases a) auto
    from drain_step [OF less.prems assms(2) Some [unfolded a]] obtain dc' h' where
      r: "release pr (deps b) dc h1 = Inr (dc', h')" and inv: "drain_inv n pr deps dc' h' (out @ [b])"
      and b: "b < n" "b \<notin> set out" by blast
    have "length out < n"
    proof -
      have "distinct (out @ [b])" "set (out @ [b]) \<subseteq> {..<n}" using inv by (auto simp: drain_inv_def)
      then have "length (out @ [b]) \<le> n"
        by (metis card_lessThan card_mono distinct_card finite_lessThan)
      then show ?thesis by simp
    qed
    then have "n - length (out @ [b]) < n - length out" by simp
    from less.hyps [OF this inv] r Some a show ?thesis
      by (subst drain.simps) simp
  qed
qed

text \<open>What the order says of two instructions: ancestors and everything before a barrier go first.\<close>

definition precedes :: "nat list \<Rightarrow> nat \<Rightarrow> nat \<Rightarrow> bool" where
  "precedes out i j \<longleftrightarrow> (\<exists>k < length out. out ! k = j \<and> i \<in> set (take k out))"

definition dep_rel :: "(nat \<Rightarrow> nat list) \<Rightarrow> (nat \<times> nat) set" where
  "dep_rel deps = {(p, j). j \<in> set (deps p)}"

lemma precedes_trans:
  assumes "distinct out" "precedes out i j" "precedes out j k"
  shows "precedes out i k"
proof -
  obtain a b where ab: "a < length out" "out ! a = j" "i \<in> set (take a out)"
    "b < length out" "out ! b = k" "j \<in> set (take b out)"
    using assms(2,3) by (auto simp: precedes_def)
  from ab(6) obtain c where "c < b" "out ! c = j" by (auto simp: in_set_conv_nth)
  with ab assms(1) have "c = a" by (auto simp: nth_eq_iff_index_eq)
  with \<open>c < b\<close> ab(3) have "i \<in> set (take b out)"
    by (metis less_imp_le set_take_subset_set_take subsetD)
  with ab show ?thesis by (auto simp: precedes_def)
qed

lemma edge_precedes:
  assumes "order_ok pr deps out" "j \<in> set (deps p)" "j \<in> set out"
  shows "precedes out p j"
proof -
  from assms(3) obtain k where "k < length out" "out ! k = j" by (meson in_set_conv_nth)
  with assms(1,2) show ?thesis by (auto simp: order_ok_def precedes_def)
qed

lemma dep_precedes:
  assumes "order_ok pr deps out" "distinct out" "(i, j) \<in> (dep_rel deps)\<^sup>+" "j \<in> set out"
  shows "precedes out i j"
  using assms(3,4)
proof (induction rule: trancl_induct)
  case (base j)
  then show ?case by (simp add: dep_rel_def edge_precedes [OF assms(1)])
next
  case (step j k)
  then have k: "k \<in> set (deps j)" by (simp add: dep_rel_def)
  have "precedes out j k" by (rule edge_precedes [OF assms(1) k step.prems])
  moreover have "j \<in> set out" by (rule order_ok_closed [OF assms(1) step.prems k])
  ultimately show ?case using step.IH precedes_trans [OF assms(2)] by blast
qed

lemma barrier_precedes:
  assumes "order_ok pr deps out" "is_barrier pr s" "s \<in> set out" "j < s"
  shows "precedes out j s"
proof -
  from assms(3) obtain k where "k < length out" "out ! k = s" by (meson in_set_conv_nth)
  with assms(1,2,4) show ?thesis by (auto simp: order_ok_def precedes_def)
qed

end
