(* ===== verification/Scheduler_Graph.thy ===== *)
theory Scheduler_Graph
  imports Scheduler_Drain
begin

text \<open>
  The dependence graph \<open>_schedule_block\<close> builds: its edges go forward, its counters are the
  in-degrees, its ready heap holds the sources, and every register conflict of the block is a path
  of it. With the drain this gives the contract of a scheduled block: it is a permutation that
  keeps the order of every pair of instructions that conflict.
\<close>

section \<open>Conflicts\<close>

definition writes :: "aec_instruction \<Rightarrow> int \<Rightarrow> bool" where
  "writes inst r \<longleftrightarrow> has_dest inst \<and> dest inst = r"

definition reads :: "aec_instruction \<Rightarrow> int \<Rightarrow> bool" where
  "reads inst r \<longleftrightarrow> r \<in> set (source_regs inst)"

definition reg_conflict :: "aec_instruction \<Rightarrow> aec_instruction \<Rightarrow> bool" where
  "reg_conflict a b \<longleftrightarrow>
     (has_dest a \<and> (reads b (dest a) \<or> writes b (dest a))) \<or> (has_dest b \<and> reads a (dest b))"

lemma reg_conflict_iff:
  "reg_conflict a b \<longleftrightarrow>
    (\<exists>r. (writes a r \<and> (reads b r \<or> writes b r)) \<or> (reads a r \<and> writes b r))"
  by (auto simp: reg_conflict_def writes_def)

text \<open>
  The pairs a scheduled block must keep in order: register conflicts, everything before a control
  instruction, everything before a store unless control comes before it, loads after a store.
\<close>

definition keeps_order :: "aec_instruction list \<Rightarrow> nat \<Rightarrow> nat \<Rightarrow> bool" where
  "keeps_order insts i j \<longleftrightarrow> i < j \<and> j < length insts \<and>
     (reg_conflict (insts ! i) (insts ! j) \<or> inst_kind (insts ! j) = CONTROL \<or>
      ((\<forall>k < j. inst_kind (insts ! k) \<noteq> CONTROL) \<and>
        (inst_kind (insts ! j) = STORE \<or>
         inst_kind (insts ! i) = STORE \<and> inst_kind (insts ! j) = LOAD)))"

section \<open>The last position with a property\<close>

definition is_last :: "(nat \<Rightarrow> bool) \<Rightarrow> nat \<Rightarrow> nat option \<Rightarrow> bool" where
  "is_last P m x \<longleftrightarrow> (case x of None \<Rightarrow> \<forall>i < m. \<not> P i
     | Some w \<Rightarrow> w < m \<and> P w \<and> (\<forall>k. w < k \<and> k < m \<longrightarrow> \<not> P k))"

lemma is_last_Suc: "is_last P m x \<Longrightarrow> is_last P (Suc m) (if P m then Some m else x)"
  by (auto simp: is_last_def less_Suc_eq split: option.splits)

lemma is_last_obtain:
  assumes "is_last P m x" "P i" "i < m"
  obtains w where "x = Some w" "w < m" "P w" "i \<le> w"
  using assms by (cases x) (auto simp: is_last_def not_less [symmetric])

lemma is_last_Some: "is_last P m (Some w) \<Longrightarrow> w < m"
  by (simp add: is_last_def)

section \<open>Edges\<close>

lemma set_add_dependents:
  "set (add_dependents ps idx deps p) = set (deps p) \<union> (if p \<in> set ps then {idx} else {})"
  unfolding add_dependents_def by (induction ps arbitrary: deps) auto

lemma count_add_dependents:
  "count_list (add_dependents ps idx deps p) j =
    count_list (deps p) j + (if j = idx then count_list ps p else 0)"
  unfolding add_dependents_def by (induction ps arbitrary: deps) (auto simp: count_list_append)

lemma set_add_reads:
  "set (add_reads ss idx rd r) = set (rd r) \<union> (if r \<in> set ss then {idx} else {})"
  unfolding add_reads_def by (induction ss arbitrary: rd) auto

lemma set_option_list: "p \<in> set (option_list x) \<longleftrightarrow> x = Some p"
  by (auto simp: option_list_def split: option.splits)

lemma set_waits_for:
  "p \<in> set (waits_for st inst) \<longleftrightarrow>
    (\<exists>r. reads inst r \<and> last_def_pos st r = Some p) \<or>
    (has_dest inst \<and> (p \<in> set (pending_reads st (dest inst)) \<or>
       last_write_pos st (dest inst) = Some p)) \<or>
    (inst_kind inst = LOAD \<and> last_store_idx st = Some p)"
  by (auto simp: waits_for_def set_option_list reads_def)

definition build_inv :: "aec_instruction list \<Rightarrow> nat \<Rightarrow> build_state \<Rightarrow> bool" where
  "build_inv insts m st \<longleftrightarrow>
     length (dep_count st) = m \<and>
     forward_deps m (dependents st) \<and>
     (\<forall>j < m. dep_count st ! j = int (indegree m (dependents st) {} j)) \<and>
     sorted (ready st) \<and>
     mset (ready st) = image_mset (\<lambda>j. (priority (map inst_kind insts) j, j))
       (mset_set {j. j < m \<and> dep_count st ! j = 0}) \<and>
     (\<forall>r. is_last (\<lambda>i. writes (insts ! i) r) m (last_def_pos st r)) \<and>
     (\<forall>r. is_last (\<lambda>i. writes (insts ! i) r) m (last_write_pos st r)) \<and>
     is_last (\<lambda>i. inst_kind (insts ! i) = STORE) m (last_store_idx st) \<and>
     (\<forall>r. set (pending_reads st r) =
        {i. i < m \<and> reads (insts ! i) r \<and> (\<forall>k. i < k \<and> k < m \<longrightarrow> \<not> writes (insts ! k) r)}) \<and>
     (\<forall>j < m. \<forall>i < j. reg_conflict (insts ! i) (insts ! j) \<longrightarrow> (i, j) \<in> (dep_rel (dependents st))\<^sup>+) \<and>
     (\<forall>j < m. \<forall>i < j. inst_kind (insts ! j) = LOAD \<and> inst_kind (insts ! i) = STORE \<longrightarrow>
        (\<exists>s. i \<le> s \<and> s < j \<and> inst_kind (insts ! s) = STORE \<and> (s, j) \<in> dep_rel (dependents st)))"

lemma build_inv_init: "build_inv insts 0 build_init"
  by (simp add: build_inv_def build_init_def forward_deps_def is_last_def)


lemma waits_for_less:
  assumes "build_inv insts m st" "p \<in> set (waits_for st inst)"
  shows "p < m"
proof -
  have "is_last (\<lambda>i. writes (insts ! i) r) m (last_def_pos st r)"
    "is_last (\<lambda>i. writes (insts ! i) r) m (last_write_pos st r)"
    "is_last (\<lambda>i. inst_kind (insts ! i) = STORE) m (last_store_idx st)"
    "set (pending_reads st r) \<subseteq> {..<m}" for r
    using assms(1) by (auto simp: build_inv_def)
  then show ?thesis
    using assms(2) unfolding set_waits_for by (metis is_last_Some lessThan_iff subsetD)
qed

section \<open>One more instruction\<close>

lemma step_edges:
  "dep_rel (dependents (build_step kinds m inst st)) =
    dep_rel (dependents st) \<union> {(p, m) | p. p \<in> set (waits_for st inst)}"
  by (auto simp: dep_rel_def build_step_def Let_def set_add_dependents split: if_splits)

lemma step_forward:
  assumes "build_inv insts m st"
  shows "forward_deps (Suc m) (dependents (build_step kinds m inst st))"
  using assms waits_for_less [OF assms, of _ inst]
  by (auto simp: build_inv_def forward_deps_def build_step_def Let_def set_add_dependents less_Suc_eq
      split: if_splits)

lemma sum_count_below:
  assumes "set ps \<subseteq> {..<m}"
  shows "(\<Sum>p < Suc m. count_list ps p) = length ps"
  using assms by (intro sum_count_set) auto

lemma step_counts:
  assumes inv: "build_inv insts m st" and j: "j < Suc m"
  shows "indegree (Suc m) (dependents (build_step kinds m inst st)) {} j =
    (if j = m then length (waits_for st inst) else indegree m (dependents st) {} j)"
proof -
  let ?d = "dependents st"
  have fwd: "forward_deps m ?d" using inv by (simp add: build_inv_def)
  have dep: "dependents (build_step kinds m inst st) = add_dependents (waits_for st inst) m ?d"
    by (simp add: build_step_def Let_def)
  show ?thesis
  proof (cases "j = m")
    case True
    have z: "count_list (?d p) m = 0" for p
      using fwd by (auto simp: forward_deps_def count_list_0_iff)
    have "(\<Sum>p < Suc m. count_list (waits_for st inst) p) = length (waits_for st inst)"
      using waits_for_less [OF inv, of _ inst] by (intro sum_count_below) auto
    then show ?thesis using True z
      unfolding indegree_def dep count_add_dependents by simp
  next
    case False
    have "count_list (?d m) j = 0"
      using fwd unfolding forward_deps_def count_list_0_iff by (meson less_asym)
    then show ?thesis using False
      unfolding indegree_def dep count_add_dependents by simp
  qed
qed

lemma step_ready:
  assumes inv: "build_inv insts m st"
  shows "sorted (ready (build_step (map inst_kind insts) m inst st)) \<and>
    mset (ready (build_step (map inst_kind insts) m inst st)) =
      image_mset (\<lambda>j. (priority (map inst_kind insts) j, j))
        (mset_set {j. j < Suc m \<and> dep_count (build_step (map inst_kind insts) m inst st) ! j = 0})"
proof -
  let ?pr = "priority (map inst_kind insts)"
  let ?u = "int (length (waits_for st inst))"
  let ?A = "{j. j < m \<and> dep_count st ! j = 0}"
  have len: "length (dep_count st) = m" and srt: "sorted (ready st)"
    and ms: "mset (ready st) = image_mset (\<lambda>j. (?pr j, j)) (mset_set ?A)"
    using inv by (simp_all add: build_inv_def)
  have new: "{j. j < Suc m \<and> (dep_count st @ [?u]) ! j = 0} = (if ?u = 0 then insert m ?A else ?A)"
    using len by (auto simp: nth_append less_Suc_eq split: if_splits)
  show ?thesis
  proof (cases "?u = 0")
    case True
    have "mset_set (insert m ?A) = add_mset m (mset_set ?A)" by (intro mset_set.insert) simp_all
    then show ?thesis using True new srt ms heapq.inv_push [OF srt] heapq.elems_push [OF srt]
      by (simp add: build_step_def Let_def)
  next
    case False
    then show ?thesis using new srt ms by (simp add: build_step_def Let_def)
  qed
qed

lemma step_last:
  assumes "build_inv insts m st" "m < length insts"
  shows "is_last (\<lambda>i. writes (insts ! i) r) (Suc m)
      (last_def_pos (build_step kinds m (insts ! m) st) r)"
    "is_last (\<lambda>i. writes (insts ! i) r) (Suc m)
      (last_write_pos (build_step kinds m (insts ! m) st) r)"
    "is_last (\<lambda>i. inst_kind (insts ! i) = STORE) (Suc m)
      (last_store_idx (build_step kinds m (insts ! m) st))"
proof -
  have l: "is_last (\<lambda>i. writes (insts ! i) r) m (last_def_pos st r)"
    "is_last (\<lambda>i. writes (insts ! i) r) m (last_write_pos st r)"
    "is_last (\<lambda>i. inst_kind (insts ! i) = STORE) m (last_store_idx st)"
    using assms by (simp_all add: build_inv_def)
  show "is_last (\<lambda>i. writes (insts ! i) r) (Suc m)
      (last_def_pos (build_step kinds m (insts ! m) st) r)"
    using is_last_Suc [OF l(1)] by (auto simp: build_step_def Let_def writes_def split: if_splits)
  show "is_last (\<lambda>i. writes (insts ! i) r) (Suc m)
      (last_write_pos (build_step kinds m (insts ! m) st) r)"
    using is_last_Suc [OF l(2)] by (auto simp: build_step_def Let_def writes_def split: if_splits)
  show "is_last (\<lambda>i. inst_kind (insts ! i) = STORE) (Suc m)
      (last_store_idx (build_step kinds m (insts ! m) st))"
    using is_last_Suc [OF l(3)] by (simp add: build_step_def Let_def)
qed

lemma step_pending:
  assumes "build_inv insts m st" "m < length insts"
  shows "set (pending_reads (build_step kinds m (insts ! m) st) r) =
    {i. i < Suc m \<and> reads (insts ! i) r \<and> (\<forall>k. i < k \<and> k < Suc m \<longrightarrow> \<not> writes (insts ! k) r)}"
proof -
  have "set (pending_reads st r) =
      {i. i < m \<and> reads (insts ! i) r \<and> (\<forall>k. i < k \<and> k < m \<longrightarrow> \<not> writes (insts ! k) r)}"
    using assms by (simp add: build_inv_def)
  moreover have "pending_reads (build_step kinds m (insts ! m) st) =
      add_reads (unique (source_regs (insts ! m))) m
        (if has_dest (insts ! m) then (pending_reads st)(dest (insts ! m) := []) else pending_reads st)"
    by (simp add: build_step_def Let_def)
  ultimately have eq: "set (pending_reads (build_step kinds m (insts ! m) st) r) =
      (if writes (insts ! m) r then {}
       else {i. i < m \<and> reads (insts ! i) r \<and> (\<forall>k. i < k \<and> k < m \<longrightarrow> \<not> writes (insts ! k) r)}) \<union>
      (if reads (insts ! m) r then {m} else {})"
    by (auto simp: set_add_reads reads_def writes_def)
  have all: "(\<forall>k. i < k \<and> k < Suc m \<longrightarrow> \<not> writes (insts ! k) r) \<longleftrightarrow>
      (i < m \<longrightarrow> \<not> writes (insts ! m) r) \<and> (\<forall>k. i < k \<and> k < m \<longrightarrow> \<not> writes (insts ! k) r)" for i
    by (metis less_Suc_eq)
  show ?thesis unfolding eq all by (auto simp: less_Suc_eq)
qed

lemma step_conflict:
  assumes inv: "build_inv insts m st" and i: "i < m"
    and c: "reg_conflict (insts ! i) (insts ! m)"
  shows "(i, m) \<in> (dep_rel (dependents (build_step kinds m (insts ! m) st)))\<^sup>+"
proof -
  let ?R = "dep_rel (dependents st)" and ?R' = "dep_rel (dependents (build_step kinds m (insts ! m) st))"
  have sub: "?R\<^sup>+ \<subseteq> ?R'\<^sup>+" using step_edges by (intro trancl_mono_subset) blast
  have old: "(a, b) \<in> ?R'\<^sup>+" if "b < m" "a < b" "reg_conflict (insts ! a) (insts ! b)" for a b
    using inv that sub unfolding build_inv_def by blast
  have edge: "p \<in> set (waits_for st (insts ! m)) \<Longrightarrow> (p, m) \<in> ?R'" for p
    using step_edges by blast
  have ld: "is_last (\<lambda>i. writes (insts ! i) r) m (last_def_pos st r)"
    and lw: "is_last (\<lambda>i. writes (insts ! i) r) m (last_write_pos st r)" for r
    using inv by (simp_all add: build_inv_def)
  have link: "(i, m) \<in> ?R'\<^sup>+" if "(w, m) \<in> ?R'" "w < m" "i \<le> w"
    "i < w \<Longrightarrow> reg_conflict (insts ! i) (insts ! w)" for w
    using that old [of w i] by (cases "i = w") (auto intro: trancl_into_trancl)
  from c consider r where "writes (insts ! i) r" "reads (insts ! m) r"
    | r where "writes (insts ! i) r" "writes (insts ! m) r"
    | r where "reads (insts ! i) r" "writes (insts ! m) r"
    by (auto simp: reg_conflict_iff)
  then show ?thesis
  proof cases
    case 1
    obtain w where w: "last_def_pos st r = Some w" "w < m" "writes (insts ! w) r" "i \<le> w"
      using is_last_obtain [OF ld [of r], of i] 1 i by blast
    have "(w, m) \<in> ?R'" using w(1) 1(2) by (intro edge) (auto simp: set_waits_for)
    then show ?thesis using w 1(1) by (intro link [of w]) (auto simp: reg_conflict_iff)
  next
    case 2
    obtain w where w: "last_write_pos st r = Some w" "w < m" "writes (insts ! w) r" "i \<le> w"
      using is_last_obtain [OF lw [of r], of i] 2 i by blast
    have "(w, m) \<in> ?R'" using w(1) 2(2) by (intro edge) (auto simp: set_waits_for writes_def)
    then show ?thesis using w 2(1) by (intro link [of w]) (auto simp: reg_conflict_iff)
  next
    case 3
    show ?thesis
    proof (cases "\<exists>k. i < k \<and> k < m \<and> writes (insts ! k) r")
      case True
      then obtain k where k: "i < k" "k < m" "writes (insts ! k) r" by blast
      obtain w where w: "last_write_pos st r = Some w" "w < m" "writes (insts ! w) r" "k \<le> w"
        using is_last_obtain [OF lw [of r], of k] k by blast
      have "(w, m) \<in> ?R'" using w(1) 3(2) by (intro edge) (auto simp: set_waits_for writes_def)
      then show ?thesis using w k 3(1) by (intro link [of w]) (auto simp: reg_conflict_iff)
    next
      case False
      then have "i \<in> set (pending_reads st r)"
        using inv i 3(1) by (auto simp: build_inv_def)
      then have "(i, m) \<in> ?R'" using 3(2) by (intro edge) (auto simp: set_waits_for writes_def)
      then show ?thesis by blast
    qed
  qed
qed

lemma step_store_load:
  assumes inv: "build_inv insts m st" and i: "i < m"
    and k: "inst_kind (insts ! m) = LOAD" "inst_kind (insts ! i) = STORE"
  shows "\<exists>s. i \<le> s \<and> s < m \<and> inst_kind (insts ! s) = STORE \<and>
    (s, m) \<in> dep_rel (dependents (build_step kinds m (insts ! m) st))"
proof -
  have "is_last (\<lambda>i. inst_kind (insts ! i) = STORE) m (last_store_idx st)"
    using inv by (simp add: build_inv_def)
  from is_last_obtain [OF this k(2) i] obtain s where
    s: "last_store_idx st = Some s" "s < m" "inst_kind (insts ! s) = STORE" "i \<le> s" .
  then have "s \<in> set (waits_for st (insts ! m))" using k(1) by (auto simp: set_waits_for)
  then show ?thesis using s step_edges by blast
qed

lemma build_inv_step:
  assumes inv: "build_inv insts m st" and m: "m < length insts"
  shows "build_inv insts (Suc m) (build_step (map inst_kind insts) m (insts ! m) st)"
proof -
  let ?st = "build_step (map inst_kind insts) m (insts ! m) st"
  have len: "length (dep_count ?st) = Suc m"
    using inv by (simp add: build_inv_def build_step_def Let_def)
  have cnt: "\<forall>j < Suc m. dep_count ?st ! j = int (indegree (Suc m) (dependents ?st) {} j)"
  proof (intro allI impI)
    fix j assume "j < Suc m"
    with inv show "dep_count ?st ! j = int (indegree (Suc m) (dependents ?st) {} j)"
      unfolding step_counts [OF inv \<open>j < Suc m\<close>]
      by (auto simp: build_inv_def build_step_def Let_def nth_append less_Suc_eq)
  qed
  have old: "dep_rel (dependents st) \<subseteq> dep_rel (dependents ?st)" using step_edges by blast
  have conf: "\<forall>j < Suc m. \<forall>i < j. reg_conflict (insts ! i) (insts ! j) \<longrightarrow>
      (i, j) \<in> (dep_rel (dependents ?st))\<^sup>+"
  proof (intro allI impI)
    fix j i assume a: "j < Suc m" "i < j" "reg_conflict (insts ! i) (insts ! j)"
    show "(i, j) \<in> (dep_rel (dependents ?st))\<^sup>+"
    proof (cases "j = m")
      case True with a step_conflict [OF inv] show ?thesis by simp
    next
      case False
      with a inv have "(i, j) \<in> (dep_rel (dependents st))\<^sup>+" unfolding build_inv_def by (meson less_SucE)
      then show ?thesis using trancl_mono_subset [OF old] by blast
    qed
  qed
  have stld: "\<forall>j < Suc m. \<forall>i < j. inst_kind (insts ! j) = LOAD \<and> inst_kind (insts ! i) = STORE \<longrightarrow>
      (\<exists>s. i \<le> s \<and> s < j \<and> inst_kind (insts ! s) = STORE \<and> (s, j) \<in> dep_rel (dependents ?st))"
  proof (intro allI impI, elim conjE)
    fix j i assume a: "j < Suc m" "i < j" "inst_kind (insts ! j) = LOAD" "inst_kind (insts ! i) = STORE"
    show "\<exists>s. i \<le> s \<and> s < j \<and> inst_kind (insts ! s) = STORE \<and> (s, j) \<in> dep_rel (dependents ?st)"
    proof (cases "j = m")
      case True with a step_store_load [OF inv] show ?thesis by simp
    next
      case False
      with a inv old show ?thesis unfolding build_inv_def by (meson less_SucE subsetD)
    qed
  qed
  show ?thesis
    unfolding build_inv_def
    using len step_forward [OF inv] cnt step_ready [OF inv] step_last [OF inv m]
      step_pending [OF inv m] conf stld by blast
qed

lemma build_from_inv:
  assumes "rest = drop m insts" "m \<le> length insts" "build_inv insts m st"
  shows "build_inv insts (length insts) (build_from (map inst_kind insts) m rest st)"
  using assms
proof (induction rest arbitrary: m st)
  case Nil
  then show ?case by simp
next
  case (Cons inst rest)
  then have m: "m < length insts" by (metis drop_all list.distinct(1) not_less)
  with Cons.prems(1) have "inst = insts ! m" "rest = drop (Suc m) insts"
    by (auto simp: Cons_nth_drop_Suc [symmetric])
  with Cons.IH [of "Suc m"] build_inv_step [OF Cons.prems(3) m] m show ?case by simp
qed

end
