(* ===== verification/Scheduler_Correct.thy ===== *)
theory Scheduler_Correct
  imports Scheduler_Graph
begin

text \<open>
  The contract of the scheduler: \<open>_schedule_block\<close> never fails and returns a permutation of the
  block that keeps every pair of \<open>keeps_order\<close> in order; \<open>schedule_lowered\<close> permutes each block of
  the program in place, so every leader and every block terminator stays where it is.
\<close>

section \<open>One block\<close>

definition block_permutation :: "aec_instruction list \<Rightarrow> nat list \<Rightarrow> bool" where
  "block_permutation insts out \<longleftrightarrow> distinct out \<and> set out = {..<length insts} \<and>
     (\<forall>i j. keeps_order insts i j \<longrightarrow> precedes out i j)"

lemma priority_barrier:
  assumes "j < length insts"
    and "inst_kind (insts ! j) = CONTROL \<or>
      (inst_kind (insts ! j) = STORE \<and> (\<forall>k < j. inst_kind (insts ! k) \<noteq> CONTROL))"
  shows "is_barrier (priority (map inst_kind insts)) j"
  using assms
  by (auto simp: is_barrier_def priority_def split: inst_kind.splits)

lemma precedes_iff:
  "precedes out i j \<longleftrightarrow> (\<exists>a b. a < b \<and> b < length out \<and> out ! a = i \<and> out ! b = j)"
proof
  assume "precedes out i j"
  then obtain b where b: "b < length out" "out ! b = j" "i \<in> set (take b out)"
    by (auto simp: precedes_def)
  from b(3) obtain a where "a < length (take b out)" "take b out ! a = i" by (meson in_set_conv_nth)
  with b show "\<exists>a b. a < b \<and> b < length out \<and> out ! a = i \<and> out ! b = j"
    by (intro exI [of _ a] exI [of _ b]) simp
next
  assume "\<exists>a b. a < b \<and> b < length out \<and> out ! a = i \<and> out ! b = j"
  then obtain a b where ab: "a < b" "b < length out" "out ! a = i" "out ! b = j" by blast
  then have "take b out ! a \<in> set (take b out)" by (intro nth_mem) simp
  with ab show "precedes out i j" by (auto simp: precedes_def)
qed

lemma precedes_asym: "distinct out \<Longrightarrow> precedes out i j \<Longrightarrow> \<not> precedes out j i"
  unfolding precedes_iff by (metis less_asym less_trans nth_eq_iff_index_eq)

lemma precedes_in_set: "precedes out i j \<Longrightarrow> i \<in> set out \<and> j \<in> set out"
  unfolding precedes_iff by auto

lemma block_order_correct:
  "\<exists>out. block_order insts = Inr out \<and> block_permutation insts out"
proof -
  let ?n = "length insts" and ?pr = "priority (map inst_kind insts)"
  let ?g = "build_from (map inst_kind insts) 0 insts build_init"
  have inv: "build_inv insts ?n ?g"
    by (rule build_from_inv) (simp_all add: build_inv_init)
  have fwd: "forward_deps ?n (dependents ?g)" using inv by (simp add: build_inv_def)
  have "drain_inv ?n ?pr (dependents ?g) (dep_count ?g) (ready ?g) []"
    using inv by (auto simp: build_inv_def drain_inv_def order_ok_def)
  from drain_correct [OF this fwd] obtain out where
    out: "drain ?pr (dependents ?g) (dep_count ?g) (ready ?g) [] = Inr out" "distinct out"
      "set out = {..<?n}" and ok: "order_ok ?pr (dependents ?g) out" by blast
  have edge: "precedes out i j" if "(i, j) \<in> (dep_rel (dependents ?g))\<^sup>+" "j < ?n" for i j
    using dep_precedes [OF ok out(2) that(1)] that(2) out(3) by simp
  have bar: "precedes out i j" if "is_barrier ?pr j" "i < j" "j < ?n" for i j
    using barrier_precedes [OF ok that(1) _ that(2)] that(3) out(3) by simp
  have "precedes out i j" if k: "keeps_order insts i j" for i j
  proof -
    from k have ij: "i < j" "j < ?n" by (simp_all add: keeps_order_def)
    from k consider "reg_conflict (insts ! i) (insts ! j)" | "is_barrier ?pr j"
      | "\<forall>k < j. inst_kind (insts ! k) \<noteq> CONTROL" "inst_kind (insts ! i) = STORE"
        "inst_kind (insts ! j) = LOAD"
      using priority_barrier [OF ij(2)] unfolding keeps_order_def by blast
    then show ?thesis
    proof cases
      case 1
      with inv ij have "(i, j) \<in> (dep_rel (dependents ?g))\<^sup>+" by (simp add: build_inv_def)
      then show ?thesis by (rule edge [OF _ ij(2)])
    next
      case 2
      then show ?thesis by (rule bar [OF _ ij])
    next
      case 3
      with inv ij obtain s where s: "i \<le> s" "s < j" "inst_kind (insts ! s) = STORE"
        "(s, j) \<in> dep_rel (dependents ?g)" by (simp add: build_inv_def) blast
      have sj: "precedes out s j" using s(4) ij(2) by (intro edge) auto
      show ?thesis
      proof (cases "i = s")
        case False
        have "is_barrier ?pr s" using s 3(1) ij by (intro priority_barrier) auto
        then have "precedes out i s" using False s ij by (intro bar) auto
        then show ?thesis using sj by (rule precedes_trans [OF out(2)])
      qed (use sj in simp)
    qed
  qed
  with out show ?thesis by (auto simp: block_order_def block_permutation_def Let_def)
qed

lemma block_permutation_length:
  "block_permutation insts out \<Longrightarrow> length out = length insts"
  by (metis block_permutation_def card_lessThan distinct_card)

lemma precedes_upt: "i < j \<Longrightarrow> j < n \<Longrightarrow> precedes [0 ..< n] i j"
  by (auto simp: precedes_def)

lemma block_permutation_id: "block_permutation insts [0 ..< length insts]"
  by (auto simp: block_permutation_def keeps_order_def precedes_upt)

lemma schedule_block_order:
  "\<exists>out. schedule_block insts = Inr (map ((!) insts) out) \<and> block_permutation insts out"
proof (cases "length insts \<le> 2")
  case True
  then have "schedule_block insts = Inr (map ((!) insts) [0 ..< length insts])"
    by (simp only: schedule_block_def if_True map_nth)
  then show ?thesis using block_permutation_id by blast
next
  case False
  from block_order_correct [of insts] obtain out where
    "block_order insts = Inr out" "block_permutation insts out" by blast
  with False block_permutation_length [of insts out] show ?thesis
    by (auto simp: schedule_block_def)
qed

lemma block_permutation_mset:
  assumes "block_permutation insts out"
  shows "mset (map ((!) insts) out) = mset insts"
proof -
  have "mset out = mset [0 ..< length insts]"
    using assms by (intro set_eq_iff_mset_eq_distinct [THEN iffD1])
      (auto simp: block_permutation_def)
  then have "mset (map ((!) insts) out) = mset (map ((!) insts) [0 ..< length insts])"
    by (simp only: mset_map)
  then show ?thesis by (simp only: map_nth)
qed

text \<open>A control instruction at the end of a block is the last of the scheduled block.\<close>

lemma block_permutation_last:
  assumes p: "block_permutation insts out" and n: "length insts = Suc m"
    and c: "inst_kind (insts ! m) = CONTROL"
  shows "out ! m = m"
proof (rule ccontr)
  assume ne: "out ! m \<noteq> m"
  have len: "length out = Suc m" and d: "distinct out" and s: "set out = {..<Suc m}"
    using p n block_permutation_length [OF p] by (auto simp: block_permutation_def)
  have "out ! m \<in> set out" using len by simp
  with s ne have "out ! m < m" by auto
  then have "keeps_order insts (out ! m) m" using c n by (simp add: keeps_order_def)
  with p have "precedes out (out ! m) m" by (simp add: block_permutation_def)
  then obtain x y where "x < y" "y < Suc m" "out ! x = out ! m" using len by (auto simp: precedes_iff)
  with d len show False by (simp add: nth_eq_iff_index_eq)
qed

text \<open>
  C7. Scheduling a basic block never fails, whatever the block: the ready loop drains the whole
  dependence graph. The result is a permutation of the block that keeps the relative order of every
  two instructions with a register conflict (a write against a read or a write of the same register),
  of everything and a later control instruction, and, before the first control instruction, of
  everything and a later store, and of a store and a later load.
\<close>

theorem schedule_block_correct:
  "\<exists>out. schedule_block insts = Inr (map ((!) insts) out) \<and>
     distinct out \<and> set out = {..<length insts} \<and>
     mset (map ((!) insts) out) = mset insts \<and>
     (\<forall>i j. keeps_order insts i j \<longrightarrow> precedes out i j)"
  using schedule_block_order [of insts] block_permutation_mset by (auto simp: block_permutation_def)

definition dependent_block :: "aec_instruction list" where
  "dependent_block =
     [(AECInstruction ''LOADI'')\<lparr>dest := 1, imm := 5\<rparr>,
      (AECInstruction ''ADD'')\<lparr>dtype := ''u32'', dest := 2, src1 := 1, src2 := 1\<rparr>,
      (AECInstruction ''LD'')\<lparr>dtype := ''u32'', dest := 3, src1 := 2, memory_space := Some ''gmem''\<rparr>,
      AECInstruction ''HALT'']"

theorem schedule_block_correct_witness:
  "\<exists>out. schedule_block dependent_block = Inr (map ((!) dependent_block) out) \<and>
    precedes out 0 1 \<and> precedes out 1 2 \<and> precedes out 2 3"
proof -
  have "keeps_order dependent_block 0 1" "keeps_order dependent_block 1 2" "keeps_order dependent_block 2 3"
    by code_simp+
  with schedule_block_correct [of dependent_block] show ?thesis by blast
qed

end
