(* ===== verification/Scheduler_Sem.thy ===== *)
theory Scheduler_Sem
  imports Scheduler_Correct Sim_Safety
begin

text \<open>
  Why reordering a block is sound: the contract \<open>commuting\<close> of executions in which independent
  neighbours may be swapped, the lemma that every order with only independent inversions gives an
  equivalent result, and its interpretation on the lockstep execution of the simulator.
\<close>

section \<open>Executions that may be reordered\<close>

locale commuting =
  fixes ex :: "'i \<Rightarrow> 's \<Rightarrow> ('e, 's) result" and eqv :: "'s \<Rightarrow> 's \<Rightarrow> bool"
    and indep :: "'i \<Rightarrow> 'i \<Rightarrow> bool"
  assumes eqv_refl: "eqv s s"
    and eqv_trans: "eqv s t \<Longrightarrow> eqv t u \<Longrightarrow> eqv s u"
    and ex_eqv: "eqv s t \<Longrightarrow> ex i s = Inr s' \<Longrightarrow> \<exists>t'. ex i t = Inr t' \<and> eqv s' t'"
    and commute: "indep a b \<Longrightarrow> ex a s = Inr s1 \<Longrightarrow> ex b s1 = Inr s2 \<Longrightarrow>
      \<exists>t1 t2. ex b s = Inr t1 \<and> ex a t1 = Inr t2 \<and> eqv s2 t2"
begin

lemma fold_eqv:
  assumes "eqv s t" "foldE ex is s = Inr s'"
  shows "\<exists>t'. foldE ex is t = Inr t' \<and> eqv s' t'"
  using assms
proof (induction "is" arbitrary: s t)
  case (Cons i "is")
  then obtain s1 where s1: "ex i s = Inr s1" "foldE ex is s1 = Inr s'" by (auto simp: bindE_Inr_iff)
  from ex_eqv [OF Cons.prems(1) s1(1)] obtain t1 where "ex i t = Inr t1" "eqv s1 t1" by blast
  with Cons.IH [OF _ s1(2)] show ?case by auto
qed simp

lemma move_front:
  assumes "\<forall>x \<in> set pre. indep x y" "foldE ex (pre @ [y]) s = Inr s'"
  shows "\<exists>t0 t1. ex y s = Inr t0 \<and> foldE ex pre t0 = Inr t1 \<and> eqv s' t1"
  using assms
proof (induction pre arbitrary: s)
  case Nil
  then show ?case using eqv_refl by (auto simp: bindE_Inr_iff)
next
  case (Cons x pre)
  then obtain s1 where s1: "ex x s = Inr s1" "foldE ex (pre @ [y]) s1 = Inr s'"
    by (auto simp: bindE_Inr_iff)
  with Cons obtain t0 t1 where t: "ex y s1 = Inr t0" "foldE ex pre t0 = Inr t1" "eqv s' t1"
    by (metis list.set_intros(2))
  from commute [OF _ s1(1) t(1)] Cons.prems(1) obtain u0 u1 where
    u: "ex y s = Inr u0" "ex x u0 = Inr u1" "eqv t0 u1" by auto
  from fold_eqv [OF u(3) t(2)] obtain t2 where "foldE ex pre u1 = Inr t2" "eqv t1 t2" by blast
  with u t(3) eqv_trans show ?case by auto
qed

lemma reorder:
  assumes "sorted xs" "distinct xs" "distinct ys" "set ys = set xs"
    and "\<And>i j. i \<in> set xs \<Longrightarrow> j \<in> set xs \<Longrightarrow> i < j \<Longrightarrow> precedes ys j i \<Longrightarrow> indep (f i) (f j)"
    and "foldE ex (map f xs) s = Inr s'"
  shows "\<exists>t. foldE ex (map f ys) s = Inr t \<and> eqv s' t"
  using assms
proof (induction ys arbitrary: xs s s')
  case Nil
  then show ?case using eqv_refl by auto
next
  case (Cons y ys)
  then have "y \<in> set xs" by auto
  then obtain pre post where xs: "xs = pre @ y # post" by (meson split_list)
  have ind: "\<forall>x \<in> set (map f pre). indep x (f y)"
  proof (clarsimp)
    fix x assume x: "x \<in> set pre"
    then have "x < y" using Cons.prems(1,2) by (auto simp: xs sorted_append order_less_le)
    moreover have "x \<in> set ys" using x Cons.prems(2,4) by (auto simp: xs)
    then obtain i where "i < length ys" "ys ! i = x" by (meson in_set_conv_nth)
    then have "precedes (y # ys) y x"
      unfolding precedes_iff by (intro exI [of _ 0] exI [of _ "Suc i"]) simp
    ultimately show "indep (f x) (f y)" using Cons.prems(5) [of x y] x by (auto simp: xs)
  qed
  have "foldE ex ((map f pre @ [f y]) @ map f post) s = Inr s'" using Cons.prems(6) by (simp add: xs)
  then obtain s1 where s1: "foldE ex (map f pre @ [f y]) s = Inr s1" "foldE ex (map f post) s1 = Inr s'"
    unfolding foldE_append [of _ "map f pre @ [f y]"] by (auto simp: bindE_Inr_iff)
  from move_front [OF ind s1(1)] obtain t0 t1 where
    t: "ex (f y) s = Inr t0" "foldE ex (map f pre) t0 = Inr t1" "eqv s1 t1" by blast
  from fold_eqv [OF t(3) s1(2)] obtain t2 where t2: "foldE ex (map f post) t1 = Inr t2" "eqv s' t2"
    by blast
  have run: "foldE ex (map f (pre @ post)) t0 = Inr t2"
    using t(2) t2(1) by (simp add: foldE_append)
  have "\<exists>u. foldE ex (map f ys) t0 = Inr u \<and> eqv t2 u"
  proof (rule Cons.IH [OF _ _ _ _ _ run])
    show "sorted (pre @ post)" "distinct (pre @ post)" "distinct ys" "set ys = set (pre @ post)"
      using Cons.prems(1-4) by (auto simp: xs sorted_append)
    fix i j assume "i \<in> set (pre @ post)" "j \<in> set (pre @ post)" "i < j" "precedes ys j i"
    moreover from this(4) have "precedes (y # ys) j i"
      unfolding precedes_iff by (metis Suc_less_eq length_Cons nth_Cons_Suc)
    ultimately show "indep (f i) (f j)" using Cons.prems(5) by (auto simp: xs)
  qed
  then show ?case using t(1) t2(2) eqv_trans by auto
qed

end

section \<open>What an instruction reads and writes\<close>

definition uses_pair :: "aec_instruction \<Rightarrow> bool" where
  "uses_pair inst \<longleftrightarrow>
     upper (opcode inst) = ''LOADI64'' \<or>
     (upper (opcode inst) = ''CPY'' \<and> dtype inst \<in> {''b64'', ''f64''}) \<or>
     (upper (opcode inst) = ''LD'' \<and> dtype inst = ''b64'')"

text \<open>The instructions whose registers the scheduler sees: no register pairs, indices in range.\<close>

definition sched_simple :: "aec_instruction \<Rightarrow> bool" where
  "sched_simple inst \<longleftrightarrow> \<not> uses_pair inst \<and> 0 \<le> dest inst \<and>
     0 \<le> src1 inst \<and> (src1 inst \<le> 255 \<or> upper (opcode inst) = ''CPY'') \<and>
     0 \<le> src2 inst \<and> src2 inst \<le> 255 \<and> 0 \<le> src3 inst \<and> src3 inst \<le> 255 \<and>
     (case predicate inst of None \<Rightarrow> True | Some p \<Rightarrow> 0 \<le> p)"

text \<open>\<open>a\<close> does not write the predicate register that guards \<open>b\<close>.\<close>

definition guard_free :: "aec_instruction \<Rightarrow> aec_instruction \<Rightarrow> bool" where
  "guard_free a b \<longleftrightarrow> \<not> (upper (opcode a) = ''CMPP'' \<and> predicate b = Some (dest a))"

definition indep_insts :: "aec_instruction \<Rightarrow> aec_instruction \<Rightarrow> bool" where
  "indep_insts a b \<longleftrightarrow> sched_simple a \<and> sched_simple b \<and> \<not> reg_conflict a b \<and>
     guard_free a b \<and> guard_free b a \<and> inst_kind b \<noteq> STORE \<and>
     \<not> (inst_kind a = STORE \<and> inst_kind b = LOAD)"

text \<open>The update of at most one register and one predicate register.\<close>

definition upd :: "(nat \<times> 'a) option \<Rightarrow> 'a list \<Rightarrow> 'a list" where
  "upd x xs = (case x of None \<Rightarrow> xs | Some (d, v) \<Rightarrow> xs[d := v])"

lemma upd_simps [simp]: "upd None xs = xs" "upd (Some (d, v)) xs = xs[d := v]"
  "length (upd x xs) = length xs"
  by (simp_all add: upd_def split: option.splits)

lemma upd_commute:
  "(\<And>d v d' v'. x = Some (d, v) \<Longrightarrow> y = Some (d', v') \<Longrightarrow> d \<noteq> d') \<Longrightarrow> upd x (upd y xs) = upd y (upd x xs)"
proof (cases x; cases y)
  fix a b assume d: "\<And>d v d' v'. x = Some (d, v) \<Longrightarrow> y = Some (d', v') \<Longrightarrow> d \<noteq> d'"
    and xy: "x = Some a" "y = Some b"
  obtain d v d' v' where ab: "a = (d, v)" "b = (d', v')" by (cases a; cases b) blast
  with d xy have "d' \<noteq> d" by metis
  then show "upd x (upd y xs) = upd y (upd x xs)" by (simp add: xy ab list_update_swap)
qed simp_all

definition put :: "(nat \<times> int) option \<Rightarrow> (nat \<times> bool) option \<Rightarrow> lane_state \<Rightarrow> lane_state" where
  "put r p l = l\<lparr>registers := upd r (registers l), predicates := upd p (predicates l)\<rparr>"

text \<open>Lanes that look the same to an instruction.\<close>

definition agree :: "aec_instruction \<Rightarrow> lane_state \<Rightarrow> lane_state \<Rightarrow> bool" where
  "agree inst l k \<longleftrightarrow>
     k\<lparr>registers := registers l, predicates := predicates l\<rparr> = l \<and>
     length (registers k) = length (registers l) \<and> length (predicates k) = length (predicates l) \<and>
     (\<forall>s \<in> {src1 inst, src2 inst, src3 inst}. s \<le> 255 \<longrightarrow> get_reg k s = get_reg l s) \<and>
     (case predicate inst of None \<Rightarrow> True | Some p \<Rightarrow> get_pred k p = get_pred l p)"

definition put_of :: "aec_instruction \<Rightarrow> (nat \<times> int) option \<Rightarrow> (nat \<times> bool) option \<Rightarrow> bool" where
  "put_of inst r p \<longleftrightarrow>
     (\<forall>d v. r = Some (d, v) \<longrightarrow> writes inst (int d)) \<and>
     (\<forall>d v. p = Some (d, v) \<longrightarrow> writes inst (int d) \<and> upper (opcode inst) = ''CMPP'')"

section \<open>One lane\<close>

lemma agree_id:
  assumes "agree inst l k"
  shows "block k = block l" "thread k = thread l" "block_dim k = block_dim l"
    "grid_dim k = grid_dim l" "warp_size k = warp_size l"
    "length (registers k) = length (registers l)" "length (predicates k) = length (predicates l)"
  using assms by (cases l; cases k; simp add: agree_def)+

lemma agree_reg:
  "agree inst l k \<Longrightarrow> s \<le> 255 \<Longrightarrow> s \<in> {src1 inst, src2 inst, src3 inst} \<Longrightarrow> get_reg k s = get_reg l s"
  unfolding agree_def by blast

lemma agree_special: "agree inst l k \<Longrightarrow> special_value sel k = special_value sel l"
  by (frule agree_id(1), frule agree_id(2), frule agree_id(3), frule agree_id(4), drule agree_id(5))
     (simp add: special_value_def thread_x_def thread_y_def thread_z_def block_x_def block_y_def
       block_z_def)

lemma agree_global: "agree inst l k \<Longrightarrow> global_thread k = global_thread l"
  by (simp add: global_thread_def agree_id)

lemma agree_record:
  assumes "agree inst l k"
  shows "record_access op space k a sz m = record_access op space l a sz m"
  using agree_id [OF assms] agree_global [OF assms] by (simp only: record_access_def)

lemma set_reg_put:
  assumes "set_reg l d v = Inr l'" "0 \<le> d" "length (registers k) = length (registers l)"
  shows "l' = put (Some (nat d, v)) None l \<and> set_reg k d v = Inr (put (Some (nat d, v)) None k)"
  using assms
  by (cases l) (auto simp: set_reg_def put_def bindE_Inr_iff py_set_def of_option_def split: if_splits)

lemma set_pred_put:
  assumes "set_pred l d v = Inr l'" "0 \<le> d" "length (predicates k) = length (predicates l)"
  shows "l' = put None (Some (nat d, v)) l \<and> set_pred k d v = Inr (put None (Some (nat d, v)) k)"
  using assms
  by (cases l) (auto simp: set_pred_def put_def bindE_Inr_iff py_set_def of_option_def split: if_splits)

lemma put_None [simp]: "put None None l = l"
  by (simp add: put_def)

text \<open>
  A register step of an instruction: it depends on what \<open>agree\<close> keeps, and its effect is a \<open>put\<close>
  on the destination.
\<close>

definition local_step ::
    "aec_instruction \<Rightarrow> (lane_state \<Rightarrow> (sim_error, lane_state \<times> 'm) result) \<Rightarrow> bool" where
  "local_step inst f \<longleftrightarrow> (\<forall>l l' m'. f l = Inr (l', m') \<longrightarrow>
     (\<exists>r p. put_of inst r p \<and> l' = put r p l \<and>
       (\<forall>k. agree inst l k \<longrightarrow> f k = Inr (put r p k, m'))))"

lemma local_step_set:
  assumes d: "has_dest inst" "0 \<le> dest inst"
    and g: "\<And>l k. agree inst l k \<Longrightarrow> g k = g l"
  shows "local_step inst (\<lambda>l. bindE (g l) (\<lambda>(v, m). bindE (set_reg l (dest inst) v) (\<lambda>l'. Inr (l', m))))"
  unfolding local_step_def
proof (intro allI impI)
  fix l l' m' assume "bindE (g l) (\<lambda>(v, m). bindE (set_reg l (dest inst) v) (\<lambda>l'. Inr (l', m))) = Inr (l', m')"
  then obtain v where v: "g l = Inr (v, m')" "set_reg l (dest inst) v = Inr l'"
    by (auto simp: bindE_Inr_iff)
  have "l' = put (Some (nat (dest inst), v)) None l" using set_reg_put [OF v(2) d(2) refl] by simp
  moreover have "\<forall>k. agree inst l k \<longrightarrow>
      bindE (g k) (\<lambda>(v, m). bindE (set_reg k (dest inst) v) (\<lambda>l'. Inr (l', m))) =
      Inr (put (Some (nat (dest inst), v)) None k, m')"
    using g v(1) set_reg_put [OF v(2) d(2) agree_id(6)] by auto
  moreover have "put_of inst (Some (nat (dest inst), v)) None"
    using d by (simp add: put_of_def writes_def)
  ultimately show "\<exists>r p. put_of inst r p \<and> l' = put r p l \<and> (\<forall>k. agree inst l k \<longrightarrow>
      bindE (g k) (\<lambda>(v, m). bindE (set_reg k (dest inst) v) (\<lambda>l'. Inr (l', m))) = Inr (put r p k, m'))"
    by blast
qed

lemma local_step_set_pred:
  assumes d: "has_dest inst" "0 \<le> dest inst" "upper (opcode inst) = ''CMPP''"
    and g: "\<And>l k. agree inst l k \<Longrightarrow> g k = g l"
  shows "local_step inst (\<lambda>l. bindE (g l) (\<lambda>v. bindE (set_pred l (dest inst) v) (\<lambda>l'. Inr (l', m))))"
  unfolding local_step_def
proof (intro allI impI)
  fix l l' m' assume "bindE (g l) (\<lambda>v. bindE (set_pred l (dest inst) v) (\<lambda>l'. Inr (l', m))) = Inr (l', m')"
  then obtain v where v: "g l = Inr v" "set_pred l (dest inst) v = Inr l'" and m: "m' = m"
    by (auto simp: bindE_Inr_iff)
  have "l' = put None (Some (nat (dest inst), v)) l" using set_pred_put [OF v(2) d(2) refl] by simp
  moreover have "\<forall>k. agree inst l k \<longrightarrow>
      bindE (g k) (\<lambda>v. bindE (set_pred k (dest inst) v) (\<lambda>l'. Inr (l', m))) =
      Inr (put None (Some (nat (dest inst), v)) k, m')"
    using g v(1) set_pred_put [OF v(2) d(2) agree_id(7)] m by auto
  moreover have "put_of inst None (Some (nat (dest inst), v))"
    using d by (simp add: put_of_def writes_def)
  ultimately show "\<exists>r p. put_of inst r p \<and> l' = put r p l \<and> (\<forall>k. agree inst l k \<longrightarrow>
      bindE (g k) (\<lambda>v. bindE (set_pred k (dest inst) v) (\<lambda>l'. Inr (l', m))) = Inr (put r p k, m'))"
    by blast
qed

lemma local_step_keep:
  assumes "\<And>l k. agree inst l k \<Longrightarrow> g k = g l"
  shows "local_step inst (\<lambda>l. bindE (g l) (\<lambda>m. Inr (l, m)))"
  unfolding local_step_def
proof (intro allI impI)
  fix l l' m' assume "bindE (g l) (\<lambda>m. Inr (l, m)) = Inr (l', m')"
  then have "g l = Inr m'" "l' = put None None l" by (auto simp: bindE_Inr_iff)
  moreover from this(1) have "\<forall>k. agree inst l k \<longrightarrow>
      bindE (g k) (\<lambda>m. Inr (k, m)) = Inr (put None None k, m')"
    using assms by auto
  moreover have "put_of inst None None" by (simp add: put_of_def)
  ultimately show "\<exists>r p. put_of inst r p \<and> l' = put r p l \<and>
      (\<forall>k. agree inst l k \<longrightarrow> bindE (g k) (\<lambda>m. Inr (k, m)) = Inr (put r p k, m'))" by blast
qed

lemma local_step_cong: "(\<And>l. f l = g l) \<Longrightarrow> local_step inst g \<Longrightarrow> local_step inst f"
  by (simp add: local_step_def)

lemma local_step_error: "local_step inst (\<lambda>l. Inl e)"
  by (simp add: local_step_def)

lemma local_step_if:
  "(c \<Longrightarrow> local_step inst f) \<Longrightarrow> (\<not> c \<Longrightarrow> local_step inst g) \<Longrightarrow>
    local_step inst (\<lambda>l. if c then f l else g l)"
  by (cases c) simp_all

definition with_mem :: "'m \<Rightarrow> (sim_error, lane_state) result \<Rightarrow> (sim_error, lane_state \<times> 'm) result" where
  "with_mem m r = bindE r (\<lambda>l. Inr (l, m))"

lemma with_mem_if: "with_mem m (if c then a else b) = (if c then with_mem m a else with_mem m b)"
  by simp

lemma local_reg_op2:
  assumes "has_dest inst" "sched_simple inst" "src1 inst \<le> 255"
  shows "local_step inst (\<lambda>l. with_mem m (reg_op2 inst l f))"
proof (rule local_step_cong [OF _ local_step_set])
  show "with_mem m (reg_op2 inst l f) =
      bindE (bindE (get_reg l (src1 inst)) (\<lambda>a. bindE (get_reg l (src2 inst)) (\<lambda>b.
        bindE (f a b) (\<lambda>v. Inr (v, m))))) (\<lambda>(v, m). bindE (set_reg l (dest inst) v) (\<lambda>l'. Inr (l', m)))" for l
    by (simp add: with_mem_def reg_op2_def bindE_assoc)
  show "bindE (get_reg k (src1 inst)) (\<lambda>a. bindE (get_reg k (src2 inst)) (\<lambda>b.
        bindE (f a b) (\<lambda>v. Inr (v, m)))) =
      bindE (get_reg l (src1 inst)) (\<lambda>a. bindE (get_reg l (src2 inst)) (\<lambda>b.
        bindE (f a b) (\<lambda>v. Inr (v, m))))" if "agree inst l k" for l k
    using assms agree_reg [OF that] by (simp add: sched_simple_def)
qed (use assms in \<open>simp_all add: sched_simple_def\<close>)

lemma local_reg_op3:
  assumes "has_dest inst" "sched_simple inst" "src1 inst \<le> 255"
  shows "local_step inst (\<lambda>l. with_mem m (reg_op3 inst l f))"
proof (rule local_step_cong [OF _ local_step_set])
  show "with_mem m (reg_op3 inst l f) =
      bindE (bindE (get_reg l (src1 inst)) (\<lambda>a. bindE (get_reg l (src2 inst)) (\<lambda>b.
        bindE (get_reg l (src3 inst)) (\<lambda>c. bindE (f a b c) (\<lambda>v. Inr (v, m))))))
        (\<lambda>(v, m). bindE (set_reg l (dest inst) v) (\<lambda>l'. Inr (l', m)))" for l
    by (simp add: with_mem_def reg_op3_def bindE_assoc)
  show "bindE (get_reg k (src1 inst)) (\<lambda>a. bindE (get_reg k (src2 inst)) (\<lambda>b.
        bindE (get_reg k (src3 inst)) (\<lambda>c. bindE (f a b c) (\<lambda>v. Inr (v, m))))) =
      bindE (get_reg l (src1 inst)) (\<lambda>a. bindE (get_reg l (src2 inst)) (\<lambda>b.
        bindE (get_reg l (src3 inst)) (\<lambda>c. bindE (f a b c) (\<lambda>v. Inr (v, m)))))"
    if "agree inst l k" for l k
    using assms agree_reg [OF that] by (simp add: sched_simple_def)
qed (use assms in \<open>simp_all add: sched_simple_def\<close>)

lemma local_const:
  assumes "has_dest inst" "sched_simple inst"
  shows "local_step inst (\<lambda>l. with_mem m (set_reg l (dest inst) v))"
proof (rule local_step_cong [OF _ local_step_set])
  show "with_mem m (set_reg l (dest inst) v) =
      bindE (Inr (v, m)) (\<lambda>(v, m). bindE (set_reg l (dest inst) v) (\<lambda>l'. Inr (l', m)))" for l
    by (simp add: with_mem_def)
qed (use assms in \<open>simp_all add: sched_simple_def\<close>)

lemma local_cpy:
  assumes "has_dest inst" "sched_simple inst" "upper (opcode inst) = ''CPY''"
  shows "local_step inst (\<lambda>l. with_mem m (execute_cpy inst l))"
proof (rule local_step_cong [OF _ local_step_set])
  show "with_mem m (execute_cpy inst l) =
      bindE (bindE (copy_value inst l) (\<lambda>v. Inr (v, m)))
        (\<lambda>(v, m). bindE (set_reg l (dest inst) v) (\<lambda>l'. Inr (l', m)))" for l
    using assms by (simp add: with_mem_def execute_cpy_def sched_simple_def uses_pair_def bindE_assoc Let_def)
  show "bindE (copy_value inst k) (\<lambda>v. Inr (v, m)) = bindE (copy_value inst l) (\<lambda>v. Inr (v, m))"
    if "agree inst l k" for l k
    using agree_reg [OF that, of "src1 inst"] agree_special [OF that] by (simp add: copy_value_def)
qed (use assms in \<open>simp_all add: sched_simple_def\<close>)

lemma local_cmpp:
  assumes "has_dest inst" "sched_simple inst" "src1 inst \<le> 255" "upper (opcode inst) = ''CMPP''"
  shows "local_step inst (\<lambda>l. with_mem m (bindE (get_reg l (src1 inst)) (\<lambda>a.
    bindE (get_reg l (src2 inst)) (\<lambda>b. bindE (c a b) (\<lambda>v. set_pred l (dest inst) v)))))"
proof (rule local_step_cong [OF _ local_step_set_pred])
  show "with_mem m (bindE (get_reg l (src1 inst)) (\<lambda>a.
      bindE (get_reg l (src2 inst)) (\<lambda>b. bindE (c a b) (\<lambda>v. set_pred l (dest inst) v)))) =
      bindE (bindE (get_reg l (src1 inst)) (\<lambda>a. bindE (get_reg l (src2 inst)) (c a)))
        (\<lambda>v. bindE (set_pred l (dest inst) v) (\<lambda>l'. Inr (l', m)))" for l
    by (simp add: with_mem_def bindE_assoc)
  show "bindE (get_reg k (src1 inst)) (\<lambda>a. bindE (get_reg k (src2 inst)) (c a)) =
      bindE (get_reg l (src1 inst)) (\<lambda>a. bindE (get_reg l (src2 inst)) (c a))"
    if "agree inst l k" for l k
    using assms agree_reg [OF that] by (simp add: sched_simple_def)
qed (use assms in \<open>simp_all add: sched_simple_def\<close>)

lemma local_load:
  assumes "has_dest inst" "sched_simple inst" "upper (opcode inst) = ''LD''"
  shows "local_step inst (\<lambda>l. execute_load inst l m)"
proof (rule local_step_cong [OF _ local_step_set])
  let ?g = "\<lambda>l. bindE (require_space inst) (\<lambda>space. bindE (get_reg l (src1 inst)) (\<lambda>a.
      bindE (type_size (dtype inst)) (\<lambda>sz. bindE (mem_read m space (a AND MASK32) sz) (\<lambda>blob.
        Inr (unpack_u32 blob, record_access AccessLD space l (a AND MASK32) sz m)))))"
  show "execute_load inst l m =
      bindE (?g l) (\<lambda>(v, m). bindE (set_reg l (dest inst) v) (\<lambda>l'. Inr (l', m)))" for l
    using assms by (simp add: execute_load_def sched_simple_def uses_pair_def bindE_assoc Let_def)
  show "?g k = ?g l" if "agree inst l k" for l k
    using assms agree_reg [OF that, of "src1 inst"] agree_record [OF that]
    by (simp add: sched_simple_def)
qed (use assms in \<open>simp_all add: sched_simple_def\<close>)

lemma local_store:
  assumes "sched_simple inst" "upper (opcode inst) = ''ST''"
  shows "local_step inst (\<lambda>l. execute_store inst l m)"
proof (rule local_step_cong [OF _ local_step_keep])
  let ?g = "\<lambda>l. bindE (require_space inst) (\<lambda>space. if space = ''pmem'' then Inl StoreToPmem else
      bindE (get_reg l (src1 inst)) (\<lambda>a. bindE (type_size (dtype inst)) (\<lambda>sz.
      bindE (get_reg l (src2 inst)) (\<lambda>v.
      bindE (mem_write m space (a AND MASK32) (to_bytes (nat sz) (v AND MASK32))) (\<lambda>m'.
        Inr (record_access AccessST space l (a AND MASK32) sz m'))))))"
  show "execute_store inst l m = bindE (?g l) (\<lambda>m. Inr (l, m))" for l
    by (cases "require_space inst") (simp_all add: execute_store_def bindE_assoc Let_def)
  show "?g k = ?g l" if "agree inst l k" for l k
    using assms agree_reg [OF that] agree_record [OF that]
    by (simp add: sched_simple_def cong: if_cong)
qed

lemma local_execute:
  assumes s: "sched_simple inst" and k: "inst_kind inst \<noteq> CONTROL"
  shows "local_step inst (\<lambda>l. execute_lane fp inst l m)"
proof -
  let ?op = "upper (opcode inst)"
  consider "?op = ''LD''" | "?op = ''ST''" | "?op \<noteq> ''LD''" "?op \<noteq> ''ST''" by blast
  then show ?thesis
  proof cases
    case 1
    then have "has_dest inst" by (simp add: has_dest_def)
    then show ?thesis using local_load [OF _ s 1] 1 by (simp add: execute_lane_def)
  next
    case 2
    then show ?thesis using local_store [OF s 2] by (simp add: execute_lane_def)
  next
    case 3
    have hd: "has_dest inst"
      using k 3 by (auto simp: has_dest_def inst_kind_def Let_def split: if_splits)
    have src: "?op \<noteq> ''CPY'' \<Longrightarrow> src1 inst \<le> 255" and np: "\<not> uses_pair inst"
      using s by (simp_all add: sched_simple_def)
    have "local_step inst (\<lambda>l. with_mem m (execute_compute fp inst l))"
    proof (cases "?op = ''CPY''")
      case True
      then show ?thesis using local_cpy [OF hd s] by (simp add: execute_compute_def)
    next
      case False
      note ls = local_reg_op2 [OF hd s src [OF False]] local_reg_op3 [OF hd s src [OF False]]
        local_const [OF hd s] local_cmpp [OF hd s src [OF False]]
      show ?thesis
        unfolding execute_compute_def Let_def with_mem_if
        by (intro local_step_if ls; use False np in \<open>simp add: uses_pair_def with_mem_def local_step_error\<close>)
    qed
    then show ?thesis using 3 by (simp add: execute_lane_def with_mem_def)
  qed
qed

lemma agree_guard: "agree inst l k \<Longrightarrow> guard_passes inst k = guard_passes inst l"
  by (cases "predicate inst") (simp_all add: guard_passes_def agree_def)

lemma local_step_lane:
  assumes "sched_simple inst" "inst_kind inst \<noteq> CONTROL"
  shows "local_step inst (\<lambda>l. step_lane fp inst l m)"
  unfolding local_step_def
proof (intro allI impI)
  fix l l' m' assume a: "step_lane fp inst l m = Inr (l', m')"
  then obtain g where g: "guard_passes inst l = Inr g"
    and e: "(if g then execute_lane fp inst l m else Inr (l, m)) = Inr (l', m')"
    by (auto simp: step_lane_def bindE_Inr_iff)
  show "\<exists>r p. put_of inst r p \<and> l' = put r p l \<and>
      (\<forall>k. agree inst l k \<longrightarrow> step_lane fp inst k m = Inr (put r p k, m'))"
  proof (cases g)
    case True
    with e have "execute_lane fp inst l m = Inr (l', m')" by simp
    with local_execute [OF assms, of fp m] obtain r p where
      rp: "put_of inst r p" "l' = put r p l" and
      ex: "\<forall>k. agree inst l k \<longrightarrow> execute_lane fp inst k m = Inr (put r p k, m')"
      unfolding local_step_def by blast
    have "step_lane fp inst k m = Inr (put r p k, m')" if "agree inst l k" for k
      using ex that agree_guard [OF that] g True by (simp add: step_lane_def)
    with rp show ?thesis by blast
  next
    case False
    have "step_lane fp inst k m = Inr (put None None k, m')" if "agree inst l k" for k
      using agree_guard [OF that] g False e by (simp add: step_lane_def)
    then show ?thesis using False e by (intro exI [of _ None]) (simp add: put_of_def)
  qed
qed

text \<open>Two independent instructions commute on a lane.\<close>

lemma writes_disjoint:
  "\<not> reg_conflict a b \<Longrightarrow> writes a (int d) \<Longrightarrow> writes b (int d') \<Longrightarrow> d \<noteq> d'"
  by (auto simp: reg_conflict_iff)

lemma put_commute:
  assumes "put_of a r p" "put_of b r' p'" "\<not> reg_conflict a b"
  shows "put r p (put r' p' l) = put r' p' (put r p l)"
proof -
  have r: "r = Some (d, v) \<Longrightarrow> r' = Some (d', v') \<Longrightarrow> d \<noteq> d'" for d v d' v'
    using writes_disjoint [OF assms(3), of d d'] assms(1,2) by (simp add: put_of_def)
  have p: "p = Some (d, v) \<Longrightarrow> p' = Some (d', v') \<Longrightarrow> d \<noteq> d'" for d v d' v'
    using writes_disjoint [OF assms(3), of d d'] assms(1,2) by (simp add: put_of_def)
  have "upd r (upd r' (registers l)) = upd r' (upd r (registers l))" by (rule upd_commute) (rule r)
  moreover have "upd p (upd p' (predicates l)) = upd p' (upd p (predicates l))"
    by (rule upd_commute) (rule p)
  ultimately show ?thesis by (simp add: put_def)
qed

lemma agree_put:
  assumes a: "put_of a r p" and b: "sched_simple b" "\<not> reg_conflict a b" "\<not> reg_conflict b a" "guard_free a b"
  shows "agree b l (put r p l)" "agree b (put r p l) l"
proof -
  have reg: "get_reg (put r p l) s = get_reg l s" if s: "s \<in> {src1 b, src2 b, src3 b}" "s \<le> 255" for s
  proof (cases r)
    case None
    then show ?thesis by (simp add: put_def get_reg_def)
  next
    case (Some dv)
    obtain d v where dv: "dv = (d, v)" by (cases dv)
    have s0: "0 \<le> s" using s(1) b(1) by (auto simp: sched_simple_def)
    have "reads b s" using s s0 by (auto simp: reads_def source_regs_def)
    moreover have "writes a (int d)" using a Some dv by (simp add: put_of_def)
    ultimately have "s \<noteq> int d" using b(2) by (auto simp: reg_conflict_iff)
    then have "nat s \<noteq> d" using s0 by auto
    then show ?thesis using s0 Some dv by (simp add: put_def get_reg_def py_get_def)
  qed
  have pred: "case predicate b of None \<Rightarrow> True | Some q \<Rightarrow> get_pred (put r p l) q = get_pred l q"
  proof (cases "predicate b")
    case (Some q)
    have q0: "0 \<le> q" using b(1) Some by (simp add: sched_simple_def)
    show ?thesis
    proof (cases p)
      case None
      then show ?thesis using Some by (simp add: put_def get_pred_def)
    next
      case (Some dv)
      obtain d v where dv: "dv = (d, v)" by (cases dv)
      have "upper (opcode a) = ''CMPP''" "dest a = int d"
        using a Some dv by (simp_all add: put_of_def writes_def)
      then have "nat q \<noteq> d" using b(4) \<open>predicate b = Some q\<close> q0 by (auto simp: guard_free_def)
      then show ?thesis using q0 Some dv \<open>predicate b = Some q\<close>
        by (simp add: put_def get_pred_def py_get_def)
    qed
  qed simp
  have len: "length (registers (put r p l)) = length (registers l)"
    "length (predicates (put r p l)) = length (predicates l)"
    by (simp_all add: put_def split: option.splits prod.splits)
  have same: "(put r p l)\<lparr>registers := registers l, predicates := predicates l\<rparr> = l"
    "l\<lparr>registers := registers (put r p l), predicates := predicates (put r p l)\<rparr> = put r p l"
    by (simp_all add: put_def)
  show "agree b l (put r p l)" "agree b (put r p l) l"
    unfolding agree_def using reg pred len same by (auto split: option.splits)
qed

lemma lane_commute:
  assumes i: "indep_insts a b" and k: "inst_kind a \<noteq> CONTROL" "inst_kind b \<noteq> CONTROL"
    and a: "step_lane fp a l m = Inr (l1, m1)" and b: "step_lane fp b l1 n = Inr (l2, n1)"
  shows "\<exists>lb. step_lane fp b l n = Inr (lb, n1) \<and> step_lane fp a lb m = Inr (l2, m1)"
proof -
  have s: "sched_simple a" "sched_simple b" "\<not> reg_conflict a b" "\<not> reg_conflict b a"
    "guard_free a b" "guard_free b a"
    using i by (auto simp: indep_insts_def reg_conflict_iff)
  obtain r p where rp: "put_of a r p" "l1 = put r p l"
    and A: "\<And>k. agree a l k \<Longrightarrow> step_lane fp a k m = Inr (put r p k, m1)"
    using local_step_lane [OF s(1) k(1), of fp m] a unfolding local_step_def by blast
  obtain r' p' where rp': "put_of b r' p'" "l2 = put r' p' l1"
    and B: "\<And>k. agree b l1 k \<Longrightarrow> step_lane fp b k n = Inr (put r' p' k, n1)"
    using local_step_lane [OF s(2) k(2), of fp n] b unfolding local_step_def by blast
  have "step_lane fp b l n = Inr (put r' p' l, n1)"
    using agree_put(2) [OF rp(1) s(2,3,4,5)] rp(2) by (intro B) simp
  moreover have "step_lane fp a (put r' p' l) m = Inr (put r p (put r' p' l), m1)"
    by (intro A agree_put(1) [OF rp'(1) s(1) s(4,3) s(6)])
  moreover have "put r p (put r' p' l) = l2"
    using put_commute [OF rp(1) rp'(1) s(3)] rp(2) rp'(2) by simp
  ultimately show ?thesis by blast
qed

end
