(* ===== verification/Scheduler_Warp.thy ===== *)
theory Scheduler_Warp
  imports Scheduler_Sem
begin

text \<open>
  Reordering on a whole warp: how an instruction depends on the memories and the access log, the
  interpretation of \<open>commuting\<close> on the lockstep execution, and the execution of scheduled blocks
  and programs.
\<close>

section \<open>Memory frames\<close>

definition add_log :: "memory_access list \<Rightarrow> mem_state \<Rightarrow> mem_state" where
  "add_log acc m = m\<lparr>accesses := accesses m @ acc\<rparr>"

definition access_log :: "access_op \<Rightarrow> string \<Rightarrow> lane_state \<Rightarrow> int \<Rightarrow> int \<Rightarrow> memory_access list" where
  "access_log op space l a sz = (if space \<noteq> ''gmem'' then [] else
     [\<lparr>acc_op = op, acc_space = space, acc_block = block l, acc_thread = thread l,
       acc_global_thread = global_thread l, acc_address = a, acc_size = sz\<rparr>])"

lemma record_access_log: "record_access op space l a sz m = add_log (access_log op space l a sz) m"
  by (simp add: record_access_def access_log_def add_log_def)

lemma add_log_simps [simp]:
  "add_log [] m = m" "add_log y (add_log x m) = add_log (x @ y) m"
  "pmem (add_log x m) = pmem m" "gmem (add_log x m) = gmem m"
  "accesses (add_log x m) = accesses m @ x"
  "memory (add_log x m) = memory m" "mem_read (add_log x m) = mem_read m"
  by (auto simp: add_log_def memory_def mem_read_def fun_eq_iff)

text \<open>The memories an instruction cannot tell apart.\<close>

definition same_view :: "aec_instruction \<Rightarrow> mem_state \<Rightarrow> mem_state \<Rightarrow> bool" where
  "same_view b m n \<longleftrightarrow> inst_kind b = COMPUTE \<or> (pmem m = pmem n \<and> gmem m = gmem n)"

lemma kind_opcode:
  "inst_kind b = COMPUTE \<Longrightarrow> upper (opcode b) \<noteq> ''LD'' \<and> upper (opcode b) \<noteq> ''ST''"
  "inst_kind b = LOAD \<longleftrightarrow> upper (opcode b) = ''LD''"
  "inst_kind b = STORE \<longleftrightarrow> upper (opcode b) = ''ST''"
  by (auto simp: inst_kind_def Let_def split: if_splits)

lemma mem_read_view: "pmem m = pmem n \<Longrightarrow> gmem m = gmem n \<Longrightarrow> mem_read m = mem_read n"
  by (simp add: mem_read_def memory_def fun_eq_iff)

text \<open>An instruction that is not a store only appends to the log.\<close>

lemma step_no_store:
  assumes "inst_kind b \<noteq> STORE" "step_lane fp b l m = Inr (l', m')"
  shows "\<exists>acc. m' = add_log acc m \<and>
    (\<forall>n. same_view b m n \<longrightarrow> step_lane fp b l n = Inr (l', add_log acc n))"
proof -
  obtain g where g: "guard_passes b l = Inr g"
    and e: "(if g then execute_lane fp b l m else Inr (l, m)) = Inr (l', m')"
    using assms(2) by (auto simp: step_lane_def bindE_Inr_iff)
  consider "\<not> g" | "g" "upper (opcode b) = ''LD''" | "g" "upper (opcode b) \<noteq> ''LD''" "upper (opcode b) \<noteq> ''ST''"
    using assms(1) kind_opcode(3) by blast
  then show ?thesis
  proof cases
    case 1
    with g e show ?thesis by (intro exI [of _ "[]"]) (simp add: step_lane_def)
  next
    case 2
    then have "execute_load b l m = Inr (l', m')" using e by (simp add: execute_lane_def)
    then obtain space a sz blob where x: "require_space b = Inr space" "get_reg l (src1 b) = Inr a"
      "type_size (dtype b) = Inr sz" "mem_read m space (a AND MASK32) sz = Inr blob"
      "(if dtype b = ''b64'' then bindE (set_reg l (dest b) (unpack_u32 (take 4 blob))) (\<lambda>l.
          set_reg l (dest b + 1) (unpack_u32 (take 4 (drop 4 blob))))
        else set_reg l (dest b) (unpack_u32 blob)) = Inr l'"
      "m' = record_access AccessLD space l (a AND MASK32) sz m"
      by (auto simp: execute_load_def bindE_Inr_iff Let_def)
    have v: "mem_read n = mem_read m" if "same_view b m n" for n
      using that 2 mem_read_view [of n m] kind_opcode(2) [of b] by (auto simp: same_view_def)
    show ?thesis
      using x v g 2
      by (intro exI [of _ "access_log AccessLD space l (a AND MASK32) sz"])
         (simp add: step_lane_def execute_lane_def execute_load_def Let_def record_access_log)
  next
    case 3
    with g e show ?thesis
      by (intro exI [of _ "[]"]) (auto simp: step_lane_def execute_lane_def bindE_Inr_iff)
  qed
qed

text \<open>Every instruction treats the log as a place to append to.\<close>

lemma step_log:
  assumes "step_lane fp a l m = Inr (l', m')"
  shows "\<exists>acc. m' = add_log acc (m\<lparr>gmem := gmem m'\<rparr>) \<and>
    (\<forall>log. step_lane fp a l (m\<lparr>accesses := log\<rparr>) =
      Inr (l', add_log acc (m\<lparr>gmem := gmem m', accesses := log\<rparr>)))"
proof (cases "inst_kind a = STORE")
  case False
  from step_no_store [OF False assms] obtain acc where
    acc: "m' = add_log acc m" "\<And>n. same_view a m n \<Longrightarrow> step_lane fp a l n = Inr (l', add_log acc n)"
    by blast
  have "same_view a m (m\<lparr>accesses := log\<rparr>)" for log by (simp add: same_view_def)
  with acc show ?thesis by (intro exI [of _ acc]) simp
next
  case True
  then have op: "upper (opcode a) = ''ST''" by (simp add: kind_opcode)
  obtain g where g: "guard_passes a l = Inr g"
    and e: "(if g then execute_lane fp a l m else Inr (l, m)) = Inr (l', m')"
    using assms by (auto simp: step_lane_def bindE_Inr_iff)
  show ?thesis
  proof (cases g)
    case False
    with g e show ?thesis by (intro exI [of _ "[]"]) (simp add: step_lane_def)
  next
    case True
    with e op have "execute_store a l m = Inr (l', m')" by (simp add: execute_lane_def)
    then obtain space x sz v m1 where x: "require_space a = Inr space" "space \<noteq> ''pmem''"
      "get_reg l (src1 a) = Inr x" "type_size (dtype a) = Inr sz" "get_reg l (src2 a) = Inr v"
      "mem_write m space (x AND MASK32) (to_bytes (nat sz) (v AND MASK32)) = Inr m1"
      "l' = l" "m' = record_access AccessST space l (x AND MASK32) sz m1"
      by (auto simp: execute_store_def bindE_Inr_iff Let_def split: if_splits)
    then have gm: "space = ''gmem''" by (auto simp: mem_write_def memory_def split: if_splits)
    have m1: "m1 = m\<lparr>gmem := gmem m1\<rparr>" and w: "mem_write (m\<lparr>accesses := log\<rparr>) space (x AND MASK32)
        (to_bytes (nat sz) (v AND MASK32)) = Inr (m\<lparr>gmem := gmem m1, accesses := log\<rparr>)" for log
      using x(6) by (auto simp: gm mem_write_def memory_def Let_def split: if_splits)
    show ?thesis
      using x g True op m1 w
      by (intro exI [of _ "access_log AccessST space l (x AND MASK32) sz"])
         (simp add: step_lane_def execute_lane_def execute_store_def Let_def record_access_log)
  qed
qed

section \<open>One warp\<close>

lemma exec_no_store:
  assumes "inst_kind b \<noteq> STORE" "exec_lanes fp b ls m = Inr (ls', m')"
  shows "\<exists>acc. m' = add_log acc m \<and>
    (\<forall>n. same_view b m n \<longrightarrow> exec_lanes fp b ls n = Inr (ls', add_log acc n))"
  using assms(2)
proof (induction ls arbitrary: m ls')
  case Nil
  then show ?case by (intro exI [of _ "[]"]) simp
next
  case (Cons l ls)
  then obtain l1 m1 ls1 where x: "step_lane fp b l m = Inr (l1, m1)"
    "exec_lanes fp b ls m1 = Inr (ls1, m')" "ls' = l1 # ls1"
    by (auto simp: bindE_Inr_iff)
  from step_no_store [OF assms(1) x(1)] obtain acc where
    acc: "m1 = add_log acc m" "\<And>n. same_view b m n \<Longrightarrow> step_lane fp b l n = Inr (l1, add_log acc n)"
    by blast
  from Cons.IH [OF x(2)] obtain acc' where acc': "m' = add_log acc' m1"
    "\<And>n. same_view b m1 n \<Longrightarrow> exec_lanes fp b ls n = Inr (ls1, add_log acc' n)" by blast
  have "same_view b m1 (add_log acc n)" if "same_view b m n" for n
    using that acc(1) by (auto simp: same_view_def)
  with acc acc' x(3) show ?case by (intro exI [of _ "acc @ acc'"]) simp
qed

lemma exec_log:
  assumes "exec_lanes fp a ls m = Inr (ls', m')"
  shows "\<exists>acc. m' = add_log acc (m\<lparr>gmem := gmem m'\<rparr>) \<and>
    (\<forall>log. exec_lanes fp a ls (m\<lparr>accesses := log\<rparr>) =
      Inr (ls', add_log acc (m\<lparr>gmem := gmem m', accesses := log\<rparr>)))"
  using assms
proof (induction ls arbitrary: m ls')
  case Nil
  then show ?case by (intro exI [of _ "[]"]) simp
next
  case (Cons l ls)
  then obtain l1 m1 ls1 where x: "step_lane fp a l m = Inr (l1, m1)"
    "exec_lanes fp a ls m1 = Inr (ls1, m')" "ls' = l1 # ls1"
    by (auto simp: bindE_Inr_iff)
  from step_log [OF x(1)] obtain acc where acc: "m1 = add_log acc (m\<lparr>gmem := gmem m1\<rparr>)"
    "\<And>log. step_lane fp a l (m\<lparr>accesses := log\<rparr>) =
      Inr (l1, add_log acc (m\<lparr>gmem := gmem m1, accesses := log\<rparr>))" by blast
  from Cons.IH [OF x(2)] obtain acc' where acc': "m' = add_log acc' (m1\<lparr>gmem := gmem m'\<rparr>)"
    "\<And>log. exec_lanes fp a ls (m1\<lparr>accesses := log\<rparr>) =
      Inr (ls1, add_log acc' (m1\<lparr>gmem := gmem m', accesses := log\<rparr>))" by blast
  have eq: "m1\<lparr>accesses := log @ acc\<rparr> = add_log acc (m\<lparr>gmem := gmem m1, accesses := log\<rparr>)" for log
    by (subst acc(1)) (simp add: add_log_def)
  have "m' = add_log (acc @ acc') (m\<lparr>gmem := gmem m'\<rparr>)"
    by (subst acc'(1), subst acc(1)) (simp add: add_log_def)
  moreover have "exec_lanes fp a (l # ls) (m\<lparr>accesses := log\<rparr>) =
      Inr (ls', add_log (acc @ acc') (m\<lparr>gmem := gmem m', accesses := log\<rparr>))" for log
    using acc(2) [of log] acc'(2) [of "log @ acc"] x(3) unfolding eq
    by (subst (asm) acc(1)) (simp add: add_log_def)
  ultimately show ?case by blast
qed

lemma exec_commute:
  assumes i: "indep_insts a b" and k: "inst_kind a \<noteq> CONTROL" "inst_kind b \<noteq> CONTROL"
    and a: "exec_lanes fp a ls m = Inr (ls1, m1)" and b: "exec_lanes fp b ls1 n = Inr (ls2, n1)"
  shows "\<exists>lsb. exec_lanes fp b ls n = Inr (lsb, n1) \<and> exec_lanes fp a lsb m = Inr (ls2, m1)"
  using a b
proof (induction ls arbitrary: m n ls1 ls2)
  case Nil
  then show ?case by simp
next
  case (Cons l ls)
  from Cons.prems(1) obtain l1 ms ls1' where x: "step_lane fp a l m = Inr (l1, ms)"
    "exec_lanes fp a ls ms = Inr (ls1', m1)" "ls1 = l1 # ls1'" by (auto simp: bindE_Inr_iff)
  from Cons.prems(2) x(3) obtain l2 ns ls2' where y: "step_lane fp b l1 n = Inr (l2, ns)"
    "exec_lanes fp b ls1' ns = Inr (ls2', n1)" "ls2 = l2 # ls2'" by (auto simp: bindE_Inr_iff)
  from lane_commute [OF i k x(1) y(1)] obtain lb where
    "step_lane fp b l n = Inr (lb, ns)" "step_lane fp a lb m = Inr (l2, ms)" by blast
  moreover from Cons.IH [OF x(2) y(2)] obtain lsb where
    "exec_lanes fp b ls ns = Inr (lsb, n1)" "exec_lanes fp a lsb ms = Inr (ls2', m1)" by blast
  ultimately show ?case using y(3) by simp
qed

text \<open>Warps and memories up to the order of the access log.\<close>

definition eqv_mem :: "mem_state \<Rightarrow> mem_state \<Rightarrow> bool" where
  "eqv_mem m n \<longleftrightarrow> pmem m = pmem n \<and> gmem m = gmem n \<and> mset (accesses m) = mset (accesses n)"

definition exec_warp ::
    "'f fpu \<Rightarrow> aec_instruction \<Rightarrow> lane_state list \<times> mem_state \<Rightarrow>
     (sim_error, lane_state list \<times> mem_state) result" where
  "exec_warp fp inst s = exec_lanes fp inst (fst s) (snd s)"

definition eqv_warp :: "lane_state list \<times> mem_state \<Rightarrow> lane_state list \<times> mem_state \<Rightarrow> bool" where
  "eqv_warp s t \<longleftrightarrow> fst s = fst t \<and> eqv_mem (snd s) (snd t)"

definition swappable :: "aec_instruction \<Rightarrow> aec_instruction \<Rightarrow> bool" where
  "swappable a b \<longleftrightarrow> indep_insts a b \<and> inst_kind a \<noteq> CONTROL \<and> inst_kind b \<noteq> CONTROL"

lemma exec_eqv:
  assumes "eqv_mem m n" "exec_lanes fp a ls m = Inr (ls', m')"
  shows "\<exists>n'. exec_lanes fp a ls n = Inr (ls', n') \<and> eqv_mem m' n'"
proof -
  from exec_log [OF assms(2)] obtain acc where acc: "m' = add_log acc (m\<lparr>gmem := gmem m'\<rparr>)"
    "exec_lanes fp a ls (m\<lparr>accesses := accesses n\<rparr>) =
      Inr (ls', add_log acc (m\<lparr>gmem := gmem m', accesses := accesses n\<rparr>))" by blast
  have n: "m\<lparr>accesses := accesses n\<rparr> = n" using assms(1) by (cases m; cases n) (simp add: eqv_mem_def)
  have "mset (accesses m') = mset (accesses m) + mset acc" "pmem m' = pmem m"
    by (subst acc(1), simp)+
  with acc(2) assms(1) show ?thesis unfolding n by (simp add: eqv_mem_def)
qed

lemma warp_commute:
  assumes s: "swappable a b" and a: "exec_lanes fp a ls m = Inr (ls1, m1)"
    and b: "exec_lanes fp b ls1 m1 = Inr (ls2, m2)"
  shows "\<exists>lsb mb m2'. exec_lanes fp b ls m = Inr (lsb, mb) \<and> exec_lanes fp a lsb mb = Inr (ls2, m2') \<and>
    eqv_mem m2 m2'"
proof -
  have i: "indep_insts a b" and k: "inst_kind a \<noteq> CONTROL" "inst_kind b \<noteq> CONTROL" "inst_kind b \<noteq> STORE"
    and ab: "\<not> (inst_kind a = STORE \<and> inst_kind b = LOAD)"
    using s by (simp_all add: swappable_def indep_insts_def)
  from exec_no_store [OF k(3) b] obtain acc where acc: "m2 = add_log acc m1"
    "\<And>n. same_view b m1 n \<Longrightarrow> exec_lanes fp b ls1 n = Inr (ls2, add_log acc n)" by blast
  have "same_view b m1 m"
  proof (cases "inst_kind b = COMPUTE")
    case False
    with k ab have "inst_kind a \<noteq> STORE" by (cases "inst_kind b") auto
    from exec_no_store [OF this a] show ?thesis by (auto simp: same_view_def)
  qed (simp add: same_view_def)
  from exec_commute [OF i k(1,2) a acc(2) [OF this]] obtain lsb where
    lsb: "exec_lanes fp b ls m = Inr (lsb, add_log acc m)" "exec_lanes fp a lsb m = Inr (ls2, m1)" by blast
  from exec_log [OF lsb(2)] obtain acc' where acc': "m1 = add_log acc' (m\<lparr>gmem := gmem m1\<rparr>)"
    "exec_lanes fp a lsb (m\<lparr>accesses := accesses m @ acc\<rparr>) =
      Inr (ls2, add_log acc' (m\<lparr>gmem := gmem m1, accesses := accesses m @ acc\<rparr>))" by blast
  have "accesses m1 = accesses m @ acc'" "pmem m1 = pmem m" by (subst acc'(1), simp)+
  then have "eqv_mem m2 (add_log acc' (m\<lparr>gmem := gmem m1, accesses := accesses m @ acc\<rparr>))"
    using acc(1) by (simp add: eqv_mem_def)
  with lsb(1) acc'(2) show ?thesis by (auto simp: add_log_def)
qed

interpretation warp: commuting "exec_warp fp" eqv_warp swappable for fp
proof
  show "\<exists>t'. exec_warp fp i t = Inr t' \<and> eqv_warp s' t'"
    if "eqv_warp s t" "exec_warp fp i s = Inr s'" for s t i s'
    using that exec_eqv [of "snd s" "snd t" fp i "fst s"]
    by (cases s') (auto simp: eqv_warp_def exec_warp_def)
  show "\<exists>t1 t2. exec_warp fp b s = Inr t1 \<and> exec_warp fp a t1 = Inr t2 \<and> eqv_warp s2 t2"
    if "swappable a b" "exec_warp fp a s = Inr s1" "exec_warp fp b s1 = Inr s2" for a b s s1 s2
    using that warp_commute [of a b fp "fst s" "snd s" "fst s1" "snd s1" "fst s2" "snd s2"]
    by (cases s1; cases s2) (auto simp: eqv_warp_def exec_warp_def)
qed (auto simp: eqv_warp_def eqv_mem_def)

end
