(* ===== verification/Scheduler_Program.thy ===== *)
theory Scheduler_Program
  imports Scheduler_Warp
begin

text \<open>
  Scheduling a whole program: \<open>schedule_lowered\<close> permutes every block in place, and the simulated
  launch of the scheduled program does what the launch of the original does.
\<close>

section \<open>Blocks of a program\<close>

definition segment :: "nat \<Rightarrow> nat \<Rightarrow> 'a list \<Rightarrow> 'a list" where
  "segment a b xs = take (b - a) (drop a xs)"

fun ranges :: "nat list \<Rightarrow> nat \<Rightarrow> (nat \<times> nat) list" where
  "ranges [] n = []"
| "ranges (s # rest) n = (s, case rest of [] \<Rightarrow> n | e # _ \<Rightarrow> e) # ranges rest n"

lemma length_segment: "b \<le> length xs \<Longrightarrow> length (segment a b xs) = b - a"
  by (simp add: segment_def)

lemma nth_segment: "b \<le> length xs \<Longrightarrow> i < b - a \<Longrightarrow> segment a b xs ! i = xs ! (a + i)"
  by (simp add: segment_def)

lemma segment_nth_eqI:
  "b \<le> length xs \<Longrightarrow> b \<le> length ys \<Longrightarrow> (\<And>i. a \<le> i \<Longrightarrow> i < b \<Longrightarrow> xs ! i = ys ! i) \<Longrightarrow>
    segment a b xs = segment a b ys"
  by (rule nth_equalityI) (auto simp: length_segment nth_segment)

text \<open>Strictly increasing leaders below the length of the program.\<close>

definition leaders_ok :: "nat list \<Rightarrow> nat \<Rightarrow> bool" where
  "leaders_ok ls n \<longleftrightarrow> sorted_wrt (<) ls \<and> (\<forall>l \<in> set ls. l < n)"

lemma leaders_ok_Cons:
  "leaders_ok (s # rest) n \<Longrightarrow> leaders_ok rest n \<and> s < n \<and> (\<forall>l \<in> set rest. s < l)"
  by (auto simp: leaders_ok_def)

lemma ranges_bounds:
  "leaders_ok ls n \<Longrightarrow> (a, b) \<in> set (ranges ls n) \<Longrightarrow>
    a \<in> set ls \<and> a < b \<and> b \<le> n \<and> (b = n \<or> b \<in> set ls) \<and> (\<forall>l \<in> set ls. \<not> (a < l \<and> l < b))"
proof (induction ls)
  case (Cons s rest)
  note ok = leaders_ok_Cons [OF Cons.prems(1)]
  show ?case
  proof (cases "(a, b) \<in> set (ranges rest n)")
    case True
    with Cons.IH ok have ih: "a \<in> set rest \<and> a < b \<and> b \<le> n \<and> (b = n \<or> b \<in> set rest) \<and>
      (\<forall>l \<in> set rest. \<not> (a < l \<and> l < b))" by blast
    then have "s < a" using ok by blast
    with ih show ?thesis by auto
  next
    case False
    with Cons.prems(2) have a: "a = s" "b = (case rest of [] \<Rightarrow> n | e # _ \<Rightarrow> e)" by auto
    show ?thesis
    proof (cases rest)
      case Nil
      with a ok show ?thesis by auto
    next
      case (Cons e r)
      with a ok leaders_ok_Cons [of e r n] show ?thesis by auto
    qed
  qed
qed simp

lemma ranges_start: "a \<in> set ls \<Longrightarrow> \<exists>b. (a, b) \<in> set (ranges ls n)"
  by (induction ls) auto

lemma schedule_small:
  "\<exists>out. (if length blk \<le> 2 then Inr blk else schedule_block blk) = Inr (map ((!) blk) out) \<and>
    block_permutation blk out"
  using schedule_block_order [of blk] by (auto simp: schedule_block_def)

text \<open>Each block of the result is a permutation of the same block of the program.\<close>

definition blockwise :: "nat list \<Rightarrow> aec_instruction list \<Rightarrow> aec_instruction list \<Rightarrow> bool" where
  "blockwise ls insts res \<longleftrightarrow> length res = length insts \<and>
     (\<forall>(a, b) \<in> set (ranges ls (length insts)).
        \<exists>out. block_permutation (segment a b insts) out \<and>
          segment a b res = map ((!) (segment a b insts)) out)"

lemma schedule_ranges_blockwise:
  assumes "leaders_ok ls (length insts)" "n = length insts"
  shows "\<exists>res. schedule_ranges ls n insts = Inr res \<and> blockwise ls insts res \<and>
    (\<forall>k. k < length insts \<longrightarrow> (\<forall>l \<in> set ls. k < l) \<longrightarrow> res ! k = insts ! k)"
  using assms
proof (induction ls arbitrary: insts)
  case Nil
  then show ?case by (simp add: blockwise_def)
next
  case (Cons s rest)
  note ok = leaders_ok_Cons [OF Cons.prems(1)]
  define e where "e = (case rest of [] \<Rightarrow> n | e # _ \<Rightarrow> e)"
  have se: "s < e" "e \<le> n" "\<forall>l \<in> set rest. e \<le> l"
    using ok Cons.prems by (auto simp: e_def leaders_ok_def less_imp_le split: list.splits)
  let ?blk = "segment s e insts"
  from schedule_small [of ?blk] obtain out where
    out: "(if length ?blk \<le> 2 then Inr ?blk else schedule_block ?blk) = Inr (map ((!) ?blk) out)"
      "block_permutation ?blk out" by blast
  define insts' where "insts' = take s insts @ map ((!) ?blk) out @ drop e insts"
  have lo: "length out = e - s"
    using block_permutation_length [OF out(2)] se Cons.prems(2) by (simp add: length_segment)
  have len: "length insts' = length insts" using lo se Cons.prems(2) by (simp add: insts'_def)
  have same: "k < length insts \<Longrightarrow> k < s \<or> e \<le> k \<Longrightarrow> insts' ! k = insts ! k" for k
    using lo se Cons.prems(2) by (auto simp: insts'_def nth_append)
  have mid: "segment s e insts' = map ((!) ?blk) out"
    using lo se Cons.prems(2) by (simp add: insts'_def segment_def)
  have unfold: "schedule_ranges (s # rest) n insts = schedule_ranges rest n insts'"
  proof (cases "length ?blk \<le> 2")
    case True
    with out(1) have "map ((!) ?blk) out = ?blk" by simp
    then have "insts' = insts"
      using se Cons.prems(2) unfolding insts'_def segment_def
      by (metis append_take_drop_id drop_drop le_add_diff_inverse2 less_imp_le)
    with True show ?thesis by (simp add: Let_def e_def [symmetric] segment_def [symmetric])
  next
    case False
    with out(1) show ?thesis
      by (simp add: Let_def e_def [symmetric] segment_def [symmetric] insts'_def)
  qed
  from Cons.IH [of insts'] ok Cons.prems(2) len obtain res where
    res: "schedule_ranges rest n insts' = Inr res" "blockwise rest insts' res"
      "\<forall>k. k < length insts' \<longrightarrow> (\<forall>l \<in> set rest. k < l) \<longrightarrow> res ! k = insts' ! k" by auto
  have rl: "length res = length insts" using res(2) len by (simp add: blockwise_def)
  have fst: "segment s e res = map ((!) ?blk) out"
  proof -
    have "segment s e res = segment s e insts'"
    proof (rule segment_nth_eqI)
      fix i assume i: "s \<le> i" "i < e"
      then have "\<forall>l \<in> set rest. i < l" using se(3) by (meson less_le_trans)
      then show "res ! i = insts' ! i" using res(3) i(2) se(2) len Cons.prems(2) by simp
    qed (use se rl len Cons.prems(2) in simp_all)
    with mid show ?thesis by simp
  qed
  have later: "\<exists>out. block_permutation (segment a b insts) out \<and> segment a b res = map ((!) (segment a b insts)) out"
    if "(a, b) \<in> set (ranges rest n)" for a b
  proof -
    have "a \<in> set rest" "b \<le> n" using ranges_bounds [OF _ that] ok Cons.prems(2) by auto
    then have "segment a b insts' = segment a b insts"
      using se len Cons.prems(2) same by (intro segment_nth_eqI) (auto intro!: same dest: bspec)
    with res(2) that len Cons.prems(2) show ?thesis by (fastforce simp: blockwise_def)
  qed
  have "blockwise (s # rest) insts res"
    using rl fst out(2) later Cons.prems(2) by (auto simp: blockwise_def e_def)
  moreover have "\<forall>k. k < length insts \<longrightarrow> (\<forall>l \<in> set (s # rest). k < l) \<longrightarrow> res ! k = insts ! k"
    using res(3) same len by auto
  ultimately show ?case using unfold res(1) by auto
qed

lemma leaders_at_bound: "l \<in> set (leaders_at insts i) \<Longrightarrow> l < length insts"
  by (auto simp: leaders_at_def Let_def split: if_splits)

lemma set_block_leaders:
  "set (block_leaders insts) = insert 0 (\<Union>i < length insts. set (leaders_at insts i))"
  unfolding block_leaders_def by (subst set_sorted_list_of_set) auto

lemma block_leaders_ok:
  assumes "0 < length insts"
  shows "leaders_ok (block_leaders insts) (length insts)"
proof -
  have "sorted_wrt (<) (block_leaders insts)"
    unfolding block_leaders_def by (rule strict_sorted_list_of_set)
  then show ?thesis
    using assms leaders_at_bound unfolding leaders_ok_def set_block_leaders by blast
qed

lemma schedule_lowered_blockwise:
  assumes "0 < length insts"
  shows "\<exists>res. schedule_lowered insts = Inr res \<and> blockwise (block_leaders insts) insts res"
proof (cases "length insts \<le> 2")
  case False
  with schedule_ranges_blockwise [OF block_leaders_ok [OF assms] refl] show ?thesis
    by (auto simp: schedule_lowered_def)
next
  case True
  have "\<exists>out. block_permutation (segment a b insts) out \<and> segment a b insts = map ((!) (segment a b insts)) out" for a b
    using block_permutation_id [of "segment a b insts"] map_nth [of "segment a b insts"] by metis
  with True show ?thesis by (auto simp: schedule_lowered_def blockwise_def)
qed

section \<open>Straight-line execution\<close>

definition skip_to :: "nat \<Rightarrow> mem_state \<Rightarrow> sim_state \<Rightarrow> sim_state" where
  "skip_to k m st = st\<lparr>mem := m, dynamic_instruction_count := dynamic_instruction_count st + k\<rparr>"

lemma skip_to_simps [simp]:
  "mem (skip_to k m st) = m" "skip_to j n (skip_to k m st) = skip_to (k + j) n st"
  "skip_to 0 (mem st) st = st"
  by (simp_all add: skip_to_def add.assoc)

lemma warp_step_plain:
  assumes "inst_kind inst \<noteq> CONTROL"
  shows "warp_step fp inst pc lanes st =
    bindE (exec_warp fp inst (lanes, mem st)) (\<lambda>(ls, m). Inr (WarpNext (pc + 1) ls (skip_to 1 m st)))"
  using assms
  by (auto simp: warp_step_def inst_kind_def Let_def exec_warp_def skip_to_def bindE_def
      split: if_splits sum.splits)

text \<open>A stretch of plain instructions is one step over the whole stretch.\<close>

lemma run_straight:
  assumes "a + k \<le> length insts" "\<forall>i < k. inst_kind (insts ! (a + i)) \<noteq> CONTROL"
    "steps + int k \<le> M" "foldE (exec_warp fp) (segment a (a + k) insts) (ls, mem st) = Inr (ls', m')"
  shows "run_warp fp insts M steps (int a) ls st =
    run_warp fp insts M (steps + int k) (int (a + k)) ls' (skip_to k m' st)"
  using assms
proof (induction k arbitrary: a steps ls st)
  case 0
  then have "ls' = ls" "m' = mem st" by (simp_all add: segment_def)
  then show ?case by simp
next
  case (Suc k)
  have sl: "segment a (a + Suc k) insts = insts ! a # segment (Suc a) (Suc a + k) insts"
    using Suc.prems(1) by (simp add: segment_def Cons_nth_drop_Suc [symmetric])
  from Suc.prems(4) sl obtain s1 where
    x: "exec_warp fp (insts ! a) (ls, mem st) = Inr s1"
      "foldE (exec_warp fp) (segment (Suc a) (Suc a + k) insts) s1 = Inr (ls', m')"
    by (auto simp: bindE_Inr_iff)
  obtain ls1 m1 where s1: "s1 = (ls1, m1)" by (cases s1)
  have plain: "inst_kind (insts ! a) \<noteq> CONTROL" using Suc.prems(2) by force
  have "run_warp fp insts M steps (int a) ls st =
      run_warp fp insts M (steps + 1) (int (Suc a)) ls1 (skip_to 1 m1 st)"
    using Suc.prems(1,3) x(1) s1
    by (subst run_warp.simps) (simp add: warp_step_plain [OF plain] add.commute)
  also have "\<dots> = run_warp fp insts M (steps + 1 + int k) (int (Suc a + k)) ls'
      (skip_to k m' (skip_to 1 m1 st))"
  proof (rule Suc.IH)
    show "\<forall>i < k. inst_kind (insts ! (Suc a + i)) \<noteq> CONTROL" using Suc.prems(2) by auto
  qed (use Suc.prems(1,3) x(2) s1 in simp_all)
  finally show ?case by (simp add: add.assoc)
qed

text \<open>A run that ends well has executed the stretch, within the step limit.\<close>

lemma run_straight_inv:
  assumes "a + k \<le> length insts" "\<forall>i < k. inst_kind (insts ! (a + i)) \<noteq> CONTROL"
    "run_warp fp insts M steps (int a) ls st = Inr st'"
  shows "\<exists>ls' m'. foldE (exec_warp fp) (segment a (a + k) insts) (ls, mem st) = Inr (ls', m') \<and>
    (0 < k \<longrightarrow> steps + int k \<le> M)"
  using assms
proof (induction k arbitrary: a steps ls st)
  case 0
  then show ?case by (simp add: segment_def)
next
  case (Suc k)
  have sl: "segment a (a + Suc k) insts = insts ! a # segment (Suc a) (Suc a + k) insts"
    using Suc.prems(1) by (simp add: segment_def Cons_nth_drop_Suc [symmetric])
  have plain: "inst_kind (insts ! a) \<noteq> CONTROL" using Suc.prems(2) by force
  from Suc.prems(1,3) have lt: "steps < M"
    by (subst (asm) run_warp.simps) (auto split: if_splits)
  from Suc.prems(1,3) lt obtain ls1 m1 where
    x: "exec_warp fp (insts ! a) (ls, mem st) = Inr (ls1, m1)"
      "run_warp fp insts M (steps + 1) (int (Suc a)) ls1 (skip_to 1 m1 st) = Inr st'"
    by (subst (asm) run_warp.simps)
       (auto simp: warp_step_plain [OF plain] bindE_def add.commute split: sum.splits if_splits)
  have pl: "\<forall>i < k. inst_kind (insts ! (Suc a + i)) \<noteq> CONTROL" using Suc.prems(2) by auto
  from Suc.IH [OF _ pl x(2)] Suc.prems(1) obtain ls' m' where
    "foldE (exec_warp fp) (segment (Suc a) (Suc a + k) insts) (ls1, m1) = Inr (ls', m')"
    "0 < k \<longrightarrow> steps + 1 + int k \<le> M" by auto
  then show ?case using sl x(1) lt by (cases "k = 0") auto
qed

section \<open>One block\<close>

text \<open>
  The blocks on which the scheduler's dependences are complete: wherever it may swap two
  instructions, neither uses a register pair and neither writes the other's guard.
\<close>

definition block_safe :: "aec_instruction list \<Rightarrow> bool" where
  "block_safe blk \<longleftrightarrow> (\<forall>j < length blk. \<forall>i < j. keeps_order blk i j \<or>
     (sched_simple (blk ! i) \<and> sched_simple (blk ! j) \<and>
      guard_free (blk ! i) (blk ! j) \<and> guard_free (blk ! j) (blk ! i)))"

definition no_calls :: "aec_instruction list \<Rightarrow> bool" where
  "no_calls insts \<longleftrightarrow>
     (\<forall>inst \<in> set insts. upper (opcode inst) \<noteq> ''CALL'' \<and> upper (opcode inst) \<noteq> ''RET'')"

definition program_safe :: "aec_instruction list \<Rightarrow> bool" where
  "program_safe insts \<longleftrightarrow>
     no_calls insts \<and>
     (\<forall>(a, b) \<in> set (ranges (block_leaders insts) (length insts)). block_safe (segment a b insts))"

lemma block_safe_swappable:
  assumes "block_safe blk" "i < j" "j < length blk" "\<not> keeps_order blk i j"
    and plain: "\<forall>k < j. inst_kind (blk ! k) \<noteq> CONTROL" "inst_kind (blk ! j) \<noteq> CONTROL"
  shows "swappable (blk ! i) (blk ! j)"
proof -
  have "sched_simple (blk ! i)" "sched_simple (blk ! j)" "guard_free (blk ! i) (blk ! j)"
    "guard_free (blk ! j) (blk ! i)"
    using assms(1-4) unfolding block_safe_def by blast+
  then show ?thesis using assms(2-6) by (auto simp: swappable_def indep_insts_def keeps_order_def)
qed

lemma precedes_take: "precedes (take k out) j i \<Longrightarrow> precedes out j i"
  unfolding precedes_iff by (metis length_take less_trans min_less_iff_conj nth_take)

text \<open>The plain part of a scheduled block does what the plain part of the block does.\<close>

lemma block_body_equiv:
  assumes safe: "block_safe blk" and perm: "block_permutation blk out"
    and k: "k \<le> length blk" "\<forall>i < k. inst_kind (blk ! i) \<noteq> CONTROL"
    and body: "set (take k out) = {..<k}"
    and run: "foldE (exec_warp fp) (take k blk) s = Inr s'"
  shows "\<exists>t. foldE (exec_warp fp) (take k (map ((!) blk) out)) s = Inr t \<and> eqv_warp s' t"
proof -
  have d: "distinct out" using perm by (simp add: block_permutation_def)
  have len: "length out = length blk" by (rule block_permutation_length [OF perm])
  have "\<exists>t. foldE (exec_warp fp) (map ((!) blk) (take k out)) s = Inr t \<and> eqv_warp s' t"
  proof (rule warp.reorder [where xs = "[0 ..< k]"])
    show "foldE (exec_warp fp) (map ((!) blk) [0 ..< k]) s = Inr s'"
    proof -
      have "map ((!) blk) [0 ..< k] = take k blk" using k(1) by (intro nth_equalityI) auto
      with run show ?thesis by simp
    qed
    fix i j assume ij: "i \<in> set [0 ..< k]" "j \<in> set [0 ..< k]" "i < j" "precedes (take k out) j i"
    from ij(4) have "precedes out j i" by (rule precedes_take)
    then have "\<not> precedes out i j" by (rule precedes_asym [OF d])
    then have "\<not> keeps_order blk i j" using perm by (auto simp: block_permutation_def)
    then show "swappable (blk ! i) (blk ! j)"
      using ij k by (intro block_safe_swappable [OF safe]) auto
  qed (simp_all add: d body lessThan_atLeast0)
  then show ?thesis by (simp add: take_map)
qed

section \<open>A warp\<close>

definition eqv_sim :: "sim_state \<Rightarrow> sim_state \<Rightarrow> bool" where
  "eqv_sim s t \<longleftrightarrow> eqv_mem (mem s) (mem t) \<and> s\<lparr>mem := mem t\<rparr> = t"

lemma eqv_sim_refl [simp]: "eqv_sim s s"
  by (simp add: eqv_sim_def eqv_mem_def)

lemma eqv_sim_skip:
  "eqv_sim s t \<Longrightarrow> eqv_mem m n \<Longrightarrow> eqv_sim (skip_to k m s) (skip_to k n t)"
  by (cases s; cases t) (simp add: eqv_sim_def skip_to_def)

lemma branchx_mem:
  "branchx_next_pc inst ls pc (s\<lparr>mem := n\<rparr>) =
    bindE (branchx_next_pc inst ls pc s) (\<lambda>(pc', s'). Inr (pc', s'\<lparr>mem := n\<rparr>))"
  by (cases "predicate inst"; cases ls)
     (simp_all add: branchx_next_pc_def bindE_def Let_def split: sum.splits)

lemma branchx_keeps:
  "branchx_next_pc inst ls pc s = Inr (pc', s') \<Longrightarrow> mem s' = mem s \<and> (pc' = imm inst \<or> pc' = pc + 1)"
  by (cases "predicate inst"; cases ls)
     (auto simp: branchx_next_pc_def bindE_def Let_def split: sum.splits if_splits)

lemma branchx_eqv:
  assumes "eqv_sim s t" "branchx_next_pc inst ls pc s = Inr (pc', s')"
  shows "\<exists>t'. branchx_next_pc inst ls pc t = Inr (pc', t') \<and> eqv_sim s' t' \<and>
    (pc' = imm inst \<or> pc' = pc + 1)"
proof -
  have t: "t = s\<lparr>mem := mem t\<rparr>" and m: "eqv_mem (mem s) (mem t)" using assms(1) by (simp_all add: eqv_sim_def)
  have "branchx_next_pc inst ls pc t = Inr (pc', s'\<lparr>mem := mem t\<rparr>)"
    by (subst t) (simp add: branchx_mem assms(2))
  with branchx_keeps [OF assms(2)] m show ?thesis by (simp add: eqv_sim_def)
qed

text \<open>Where a run goes after a control instruction.\<close>

definition next_pcs :: "aec_instruction \<Rightarrow> int \<Rightarrow> int set" where
  "next_pcs inst pc = (let op = upper (opcode inst) in
     if op = ''BR'' then {imm inst} else if op = ''BRX'' then {imm inst, pc + 1} else {})"

lemma warp_step_control:
  assumes "upper (opcode inst) \<in> {''BR'', ''BRX'', ''HALT''}" "eqv_sim s t"
    "warp_step fp inst pc ls s = Inr out"
  shows "(\<exists>s' t'. out = WarpHalted s' \<and> warp_step fp inst pc ls t = Inr (WarpHalted t') \<and> eqv_sim s' t') \<or>
    (\<exists>pc' s' t'. out = WarpNext pc' ls s' \<and> warp_step fp inst pc ls t = Inr (WarpNext pc' ls t') \<and>
      eqv_sim s' t' \<and> pc' \<in> next_pcs inst pc)"
proof -
  let ?inc = "\<lambda>s. s\<lparr>dynamic_instruction_count := dynamic_instruction_count s + 1\<rparr>"
  have e: "eqv_sim (?inc s) (?inc t)" using assms(2) by (cases s; cases t) (simp add: eqv_sim_def)
  consider "upper (opcode inst) = ''HALT''" | "upper (opcode inst) = ''BR''" | "upper (opcode inst) = ''BRX''"
    using assms(1) by blast
  then show ?thesis
  proof cases
    case 3
    with assms(3) obtain pc' s' where b: "branchx_next_pc inst ls pc (?inc s) = Inr (pc', s')"
      "out = WarpNext pc' ls s'"
      by (auto simp: warp_step_def Let_def bindE_Inr_iff)
    from branchx_eqv [OF e b(1)] 3 b(2) show ?thesis
      by (auto simp: warp_step_def Let_def next_pcs_def)
  qed (use assms(3) e in \<open>auto simp: warp_step_def Let_def next_pcs_def split: if_splits\<close>)
qed

text \<open>Control goes from a block to a leader or out of the program.\<close>

lemma branch_target_leader:
  assumes "i < length insts" "upper (opcode (insts ! i)) \<in> {''BR'', ''BRX''}"
    "pc \<in> next_pcs (insts ! i) (int i)" "0 \<le> pc" "pc < int (length insts)"
  shows "nat pc \<in> set (block_leaders insts)"
proof -
  have "nat pc \<in> set (leaders_at insts i)"
    using assms by (auto simp: leaders_at_def next_pcs_def Let_def split: if_splits)
  with assms(1) show ?thesis by (auto simp: set_block_leaders)
qed

lemma control_ends_block:
  assumes "no_calls insts" "(a, b) \<in> set (ranges (block_leaders insts) (length insts))"
    "a \<le> i" "i < b" "inst_kind (insts ! i) = CONTROL" "0 < length insts"
  shows "i + 1 = b \<and> upper (opcode (insts ! i)) \<in> {''BR'', ''BRX'', ''HALT''}"
proof -
  note r = ranges_bounds [OF block_leaders_ok [OF assms(6)] assms(2)]
  have i: "i < length insts" using r assms(4) by auto
  then have "insts ! i \<in> set insts" by simp
  with assms(1) have "upper (opcode (insts ! i)) \<noteq> ''CALL''" "upper (opcode (insts ! i)) \<noteq> ''RET''"
    unfolding no_calls_def by blast+
  with assms(5) have op: "upper (opcode (insts ! i)) \<in> {''BR'', ''BRX'', ''HALT''}"
    by (auto simp: inst_kind_def Let_def split: if_splits)
  have "i + 1 = b"
  proof (rule ccontr)
    assume "i + 1 \<noteq> b"
    with assms(3,4) r have "a < i + 1" "i + 1 < b" "i + 1 < length insts" by auto
    moreover from this op have "i + 1 \<in> set (leaders_at insts i)"
      by (auto simp: leaders_at_def Let_def)
    then have "i + 1 \<in> set (block_leaders insts)" using i by (auto simp: set_block_leaders)
    ultimately show False using r by blast
  qed
  with op show ?thesis by blast
qed

lemma take_set_last:
  assumes "distinct out" "set out = {..<length out}" "k \<le> length out"
    "k < length out \<Longrightarrow> Suc k = length out \<and> out ! k = k"
  shows "set (take k out) = {..<k}"
proof (cases "k < length out")
  case True
  with assms(4) have k: "Suc k = length out" "out ! k = k" by auto
  then have out: "out = take k out @ [k]" by (metis take_Suc_conv_app_nth lessI take_all order_refl)
  with assms(1,2) k have "k \<notin> set (take k out)" "insert k (set (take k out)) = {..<Suc k}"
    by (metis distinct_append disjoint_iff list.set_intros(1))
       (metis Un_insert_right append_Nil2 assms(2) k(1) list.simps(15) out set_append set_empty2 sup_bot_right)
  then show ?thesis by (auto simp: lessThan_Suc)
qed (use assms in simp)

text \<open>
  The plain part of the block at \<open>a\<close>, in the original and in the scheduled program: the same number
  of steps, the same lanes, equivalent memories, and then the same instruction, if any is left.
\<close>

lemma block_run:
  assumes safe: "program_safe insts" and bw: "blockwise (block_leaders insts) insts res"
    and n: "0 < length insts" and ab: "(a, b) \<in> set (ranges (block_leaders insts) (length insts))"
    and run: "run_warp fp insts M steps (int a) ls st = Inr st'" and st: "steps < M"
    and e: "eqv_sim st t"
  obtains k ls' s1 t1 where "a + k = b \<or> a + k + 1 = b \<and> inst_kind (insts ! (a + k)) = CONTROL"
    "run_warp fp insts M (steps + int k) (int (a + k)) ls' s1 = Inr st'"
    "run_warp fp res M steps (int a) ls t = run_warp fp res M (steps + int k) (int (a + k)) ls' t1"
    "eqv_sim s1 t1" "a + k < b \<longrightarrow> res ! (a + k) = insts ! (a + k)" "steps + int k \<le> M"
proof -
  note r = ranges_bounds [OF block_leaders_ok [OF n] ab]
  have nc: "no_calls insts" using safe by (simp add: program_safe_def)
  let ?blk = "segment a b insts"
  have lb: "length ?blk = b - a" and ln: "length res = length insts"
    using r bw by (simp_all add: length_segment blockwise_def)
  from bw ab obtain out where out: "block_permutation ?blk out" "segment a b res = map ((!) ?blk) out"
    by (auto simp: blockwise_def)
  define k where "k = (if inst_kind (insts ! (b - 1)) = CONTROL then b - a - 1 else b - a)"
  have k: "k \<le> b - a" "a + k \<le> b" using r by (auto simp: k_def)
  have nth: "i < b - a \<Longrightarrow> ?blk ! i = insts ! (a + i)" for i using r by (simp add: nth_segment)
  have plain: "inst_kind (insts ! (a + i)) \<noteq> CONTROL" if i: "i < k" for i
  proof
    assume c: "inst_kind (insts ! (a + i)) = CONTROL"
    from control_ends_block [OF nc ab _ _ c n] i k have "b = a + i + 1" by simp
    with c i show False by (simp add: k_def split: if_splits)
  qed
  have kc: "a + k = b \<or> a + k + 1 = b \<and> inst_kind (insts ! (a + k)) = CONTROL"
    using r by (auto simp: k_def)
  from run_straight_inv [OF _ _ run, of k] r k plain obtain ls' m' where
    f: "foldE (exec_warp fp) (segment a (a + k) insts) (ls, mem st) = Inr (ls', m')" and
    sk: "0 < k \<longrightarrow> steps + int k \<le> M" by auto
  have sk: "steps + int k \<le> M" using sk st by (cases "k = 0") auto
  have run': "run_warp fp insts M (steps + int k) (int (a + k)) ls' (skip_to k m' st) = Inr st'"
    using run_straight [OF _ _ sk f] r k plain run by simp
  have sl: "segment a (a + k) xs = take k (segment a b xs)" for xs :: "aec_instruction list"
    using k by (simp add: segment_def min_def)
  have d: "distinct out" "set out = {..<length out}" "length out = b - a"
    using out(1) block_permutation_length [OF out(1)] lb by (simp_all add: block_permutation_def)
  have last: "Suc k = length out \<and> out ! k = k" if "k < length out"
  proof -
    have "a + k + 1 = b" "inst_kind (insts ! (a + k)) = CONTROL" using kc that d(3) by auto
    then have "length ?blk = Suc k" "inst_kind (?blk ! k) = CONTROL" using lb nth by auto
    with block_permutation_last [OF out(1)] d(3) lb show ?thesis by simp
  qed
  have tk: "set (take k out) = {..<k}"
    using d(1,2) k d(3) last by (intro take_set_last) auto
  have "eqv_warp (ls, mem st) (ls, mem t)" using e by (simp add: eqv_warp_def eqv_sim_def)
  from warp.fold_eqv [OF this f] obtain s2 where
    s2: "foldE (exec_warp fp) (segment a (a + k) insts) (ls, mem t) = Inr s2" "eqv_warp (ls', m') s2"
    by blast
  have bsafe: "block_safe ?blk" using safe ab by (auto simp: program_safe_def)
  have "k \<le> length ?blk" "\<forall>i < k. inst_kind (?blk ! i) \<noteq> CONTROL" using k lb plain nth by auto
  from block_body_equiv [OF bsafe out(1) this tk s2(1) [unfolded sl]] obtain t2 where
    t2: "foldE (exec_warp fp) (take k (map ((!) ?blk) out)) (ls, mem t) = Inr t2" "eqv_warp s2 t2"
    by blast
  obtain n' where n': "t2 = (ls', n')" "eqv_mem m' n'"
    using warp.eqv_trans [OF s2(2) t2(2)] by (cases t2) (auto simp: eqv_warp_def)
  have fr: "foldE (exec_warp fp) (segment a (a + k) res) (ls, mem t) = Inr (ls', n')"
    using t2(1) n'(1) sl [of res] out(2) by simp
  have rn: "res ! (a + i) = ?blk ! (out ! i)" if "i < b - a" for i
  proof -
    have "segment a b res ! i = res ! (a + i)" using that r ln by (simp add: nth_segment)
    with out(2) that d(3) show ?thesis by simp
  qed
  have plain_res: "\<forall>i < k. inst_kind (res ! (a + i)) \<noteq> CONTROL"
  proof (intro allI impI)
    fix i assume i: "i < k"
    then have "out ! i \<in> set (take k out)" using k d(3) by (metis in_set_conv_nth length_take min.absorb2 nth_take)
    then have "out ! i < k" using tk by simp
    with plain [of "out ! i"] nth [of "out ! i"] rn [of i] i k show "inst_kind (res ! (a + i)) \<noteq> CONTROL"
      by simp
  qed
  have "run_warp fp res M steps (int a) ls t =
      run_warp fp res M (steps + int k) (int (a + k)) ls' (skip_to k n' t)"
    using run_straight [OF _ plain_res sk fr] r k ln by simp
  moreover have "eqv_sim (skip_to k m' st) (skip_to k n' t)" by (rule eqv_sim_skip [OF e n'(2)])
  moreover have "a + k < b \<longrightarrow> res ! (a + k) = insts ! (a + k)"
    using rn [of k] last nth [of k] d(3) by auto
  ultimately show thesis using that kc run' sk by blast
qed

lemma run_warp_at:
  "p < length insts \<Longrightarrow> steps < M \<Longrightarrow> run_warp fp insts M steps (int p) ls st =
    bindE (warp_step fp (insts ! p) (int p) ls st) (\<lambda>out. case out of WarpHalted s \<Rightarrow> Inr s
      | WarpNext pc' ls' s \<Rightarrow> run_warp fp insts M (steps + 1) pc' ls' s)"
  by (subst run_warp.simps) (auto simp: bindE_def split: sum.splits warp_outcome.splits)

lemma run_warp_scheduled:
  assumes safe: "program_safe insts" and bw: "blockwise (block_leaders insts) insts res"
    and n: "0 < length insts"
    and run: "run_warp fp insts M steps pc ls st = Inr st'" and e: "eqv_sim st t"
    and pc: "0 \<le> pc \<and> pc < int (length insts) \<longrightarrow> nat pc \<in> set (block_leaders insts)"
  shows "\<exists>t'. run_warp fp res M steps pc ls t = Inr t' \<and> eqv_sim st' t'"
  using run e pc
proof (induction "nat (M - steps)" arbitrary: steps pc ls st t rule: less_induct)
  case less
  have bounds: "0 \<le> pc" "pc < int (length insts)" "steps < M"
    using less.prems(1) by (subst (asm) run_warp.simps, simp split: if_splits)+
  define a where "a = nat pc"
  have pca: "pc = int a" using bounds by (simp add: a_def)
  from less.prems(3) bounds ranges_start obtain b where
    ab: "(a, b) \<in> set (ranges (block_leaders insts) (length insts))" unfolding a_def by blast
  note r = ranges_bounds [OF block_leaders_ok [OF n] ab]
  have ln: "length res = length insts" using bw by (simp add: blockwise_def)
  from block_run [OF safe bw n ab less.prems(1) [unfolded pca] bounds(3) less.prems(2)]
  obtain k ls' s1 t1 where k: "a + k = b \<or> a + k + 1 = b \<and> inst_kind (insts ! (a + k)) = CONTROL"
    and run1: "run_warp fp insts M (steps + int k) (int (a + k)) ls' s1 = Inr st'"
    and run2: "run_warp fp res M steps (int a) ls t = run_warp fp res M (steps + int k) (int (a + k)) ls' t1"
    and e1: "eqv_sim s1 t1" and same: "a + k < b \<longrightarrow> res ! (a + k) = insts ! (a + k)" .
  have b1: "a + k < length insts" "steps + int k < M"
    using run1 by (subst (asm) run_warp.simps, auto split: if_splits)+
  from k show ?case
  proof
    assume kb: "a + k = b"
    with b1 r have "b \<in> set (block_leaders insts)" by auto
    moreover have "nat (M - (steps + int k)) < nat (M - steps)" using kb r b1 bounds by auto
    ultimately show ?thesis
      using less.hyps [OF _ run1 e1] kb run2 pca by simp
  next
    assume kc: "a + k + 1 = b \<and> inst_kind (insts ! (a + k)) = CONTROL"
    then have op: "upper (opcode (insts ! (a + k))) \<in> {''BR'', ''BRX'', ''HALT''}"
      using control_ends_block [OF _ ab _ _ _ n, of "a + k"] safe
      by (simp add: program_safe_def)
    have rs: "res ! (a + k) = insts ! (a + k)" using same kc by simp
    from run1 b1 obtain out where w: "warp_step fp (insts ! (a + k)) (int (a + k)) ls' s1 = Inr out"
      by (auto simp: run_warp_at bindE_Inr_iff simp del: of_nat_add)
    from warp_step_control [OF op e1 w] show ?thesis
    proof (elim disjE exE conjE)
      fix s' t' assume h: "out = WarpHalted s'" "eqv_sim s' t'"
        "warp_step fp (insts ! (a + k)) (int (a + k)) ls' t1 = Inr (WarpHalted t')"
      have "st' = s'" using run1 b1 w h(1) by (simp add: run_warp_at del: of_nat_add)
      moreover have "run_warp fp res M (steps + int k) (int (a + k)) ls' t1 = Inr t'"
        using b1 h(3) rs ln by (simp add: run_warp_at del: of_nat_add)
      ultimately show ?thesis using h(2) run2 pca by simp
    next
      fix pc' s' t' assume h: "out = WarpNext pc' ls' s'" "eqv_sim s' t'"
        "warp_step fp (insts ! (a + k)) (int (a + k)) ls' t1 = Inr (WarpNext pc' ls' t')"
        "pc' \<in> next_pcs (insts ! (a + k)) (int (a + k))"
      have r1: "run_warp fp insts M (steps + int k + 1) pc' ls' s' = Inr st'"
        using run1 b1 w h(1) by (simp add: run_warp_at del: of_nat_add)
      have r2: "run_warp fp res M (steps + int k) (int (a + k)) ls' t1 =
          run_warp fp res M (steps + int k + 1) pc' ls' t'"
        using b1 h(3) rs ln by (simp add: run_warp_at del: of_nat_add)
      have "0 \<le> pc' \<and> pc' < int (length insts) \<longrightarrow> nat pc' \<in> set (block_leaders insts)"
        using branch_target_leader [of "a + k" insts pc'] h(4) b1 op
        by (auto simp: next_pcs_def Let_def split: if_splits)
      with less.hyps [OF _ r1 h(2)] b1 bounds r2 run2 pca show ?thesis by simp
    qed
  qed
qed

text \<open>Without register pairs and comparisons every program is safe.\<close>

lemma program_safe_simple:
  assumes nc: "no_calls insts"
    and all: "\<forall>x \<in> set insts. inst_kind x \<noteq> CONTROL \<longrightarrow> sched_simple x \<and> upper (opcode x) \<noteq> ''CMPP''"
  shows "program_safe insts"
proof (cases "insts = []")
  case False
  then have n: "0 < length insts" by simp
  have "block_safe (segment a b insts)" if ab: "(a, b) \<in> set (ranges (block_leaders insts) (length insts))" for a b
    unfolding block_safe_def
  proof (intro allI impI)
    fix i j assume ij: "j < length (segment a b insts)" "i < j"
    let ?x = "segment a b insts ! i" and ?y = "segment a b insts ! j"
    note r = ranges_bounds [OF block_leaders_ok [OF n] ab]
    have idx: "i < b - a" "j < b - a" using ij r by (simp_all add: length_segment)
    then have nth: "?x = insts ! (a + i)" "?y = insts ! (a + j)" "a + i < length insts" "a + j < length insts"
      using r by (auto simp: nth_segment)
    show "keeps_order (segment a b insts) i j \<or> (sched_simple ?x \<and> sched_simple ?y \<and>
      guard_free ?x ?y \<and> guard_free ?y ?x)"
    proof (cases "inst_kind ?y = CONTROL")
      case True
      with ij show ?thesis by (simp add: keeps_order_def)
    next
      case False
      have "inst_kind ?x \<noteq> CONTROL"
      proof
        assume "inst_kind ?x = CONTROL"
        with nth(1) control_ends_block [OF nc ab, of "a + i"] idx n have "a + i + 1 = b" by simp
        with idx ij show False by simp
      qed
      with False nth all have "sched_simple ?x" "sched_simple ?y" "upper (opcode ?x) \<noteq> ''CMPP''"
        "upper (opcode ?y) \<noteq> ''CMPP''" by simp_all
      then show ?thesis by (simp add: guard_free_def)
    qed
  qed
  with nc show ?thesis by (auto simp: program_safe_def)
qed (simp add: program_safe_def no_calls_def block_safe_def block_leaders_def segment_def)

section \<open>A launch\<close>

lemma foldE_simulates:
  assumes "foldE f xs s = Inr s'" "R s t"
    and "\<And>x s s' t. f x s = Inr s' \<Longrightarrow> R s t \<Longrightarrow> \<exists>t'. g x t = Inr t' \<and> R s' t'"
  shows "\<exists>t'. foldE g xs t = Inr t' \<and> R s' t'"
  using assms(1,2)
proof (induction xs arbitrary: s t)
  case (Cons x xs)
  then obtain s1 where s1: "f x s = Inr s1" "foldE f xs s1 = Inr s'" by (auto simp: bindE_Inr_iff)
  from assms(3) [OF s1(1) Cons.prems(2)] obtain t1 where "g x t = Inr t1" "R s1 t1" by blast
  with Cons.IH [OF s1(2)] show ?case by auto
qed simp

definition with_program :: "simulator \<Rightarrow> aec_instruction list \<Rightarrow> simulator" where
  "with_program s insts = s\<lparr>sim_instructions := insts\<rparr>"

lemma with_program_simps [simp]:
  "sim_instructions (with_program s insts) = insts"
  "sim_block_dim (with_program s insts) = sim_block_dim s"
  "sim_grid_dim (with_program s insts) = sim_grid_dim s"
  "sim_warp_size (with_program s insts) = sim_warp_size s"
  "sim_max_steps (with_program s insts) = sim_max_steps s"
  "warp_lanes (with_program s insts) = warp_lanes s"
  by (auto simp: with_program_def warp_lanes_def fun_eq_iff)

lemma run_block_scheduled:
  assumes "program_safe insts" "blockwise (block_leaders insts) insts res" "0 < length insts"
    "run_block fp (with_program s insts) b st = Inr st'" "eqv_sim st t"
  shows "\<exists>t'. run_block fp (with_program s res) b t = Inr t' \<and> eqv_sim st' t'"
proof -
  obtain starts where st: "py_range 0 (dim_total (sim_block_dim s)) (sim_warp_size s) = Inr starts"
    using assms(4) by (auto simp: run_block_def bindE_Inr_iff)
  have "nat 0 \<in> set (block_leaders insts)" by (simp add: set_block_leaders)
  then have w: "\<exists>t'. run_warp fp res (sim_max_steps s) 0 0 (warp_lanes s b ws) t = Inr t' \<and> eqv_sim st' t'"
    if "run_warp fp insts (sim_max_steps s) 0 0 (warp_lanes s b ws) st = Inr st'" "eqv_sim st t"
    for ws st st' t
    using run_warp_scheduled [OF assms(1-3) that] by simp
  have "\<exists>t'. foldE (\<lambda>ws. run_warp fp res (sim_max_steps s) 0 0 (warp_lanes s b ws)) starts t = Inr t' \<and>
      eqv_sim st' t'"
    by (rule foldE_simulates [where R = eqv_sim, OF _ assms(5) w])
       (use assms(4) st in \<open>simp add: run_block_def\<close>)
  then show ?thesis using st by (simp add: run_block_def)
qed

section \<open>Properties\<close>

text \<open>A program the scheduler reorders: the load has the best priority and comes first.\<close>

definition load_late :: "aec_instruction list" where
  "load_late =
     [(AECInstruction ''CPY'')\<lparr>dtype := ''u32'', dest := 1, src1 := 0x100\<rparr>,
      (AECInstruction ''LOADI'')\<lparr>dest := 2, imm := 2\<rparr>,
      (AECInstruction ''SHL'')\<lparr>dtype := ''u32'', dest := 3, src1 := 1, src2 := 2\<rparr>,
      (AECInstruction ''LD'')\<lparr>dtype := ''u32'', dest := 4, src1 := 5, memory_space := Some ''gmem''\<rparr>,
      (AECInstruction ''ADD'')\<lparr>dtype := ''u32'', dest := 6, src1 := 4, src2 := 1\<rparr>,
      (AECInstruction ''ST'')\<lparr>dtype := ''u32'', src1 := 3, src2 := 6, memory_space := Some ''gmem''\<rparr>,
      AECInstruction ''HALT'']"

definition load_late_gmem :: "byte list" where "load_late_gmem = [9, 0, 0, 0, 0, 0, 0, 0]"

text \<open>
  C8. Scheduling a whole lowered program never fails and works block by block: the result has the
  length of the program, each block holds the same instructions as before, and every branch and
  every \<open>HALT\<close> that ends its block is still at the same index, so no branch target moves.
\<close>

theorem schedule_lowered_in_place:
  "\<exists>res. schedule_lowered insts = Inr res \<and> length res = length insts \<and>
    (\<forall>(a, b) \<in> set (ranges (block_leaders insts) (length insts)).
       0 < length insts \<longrightarrow> mset (segment a b res) = mset (segment a b insts) \<and>
       (inst_kind (insts ! (b - 1)) = CONTROL \<longrightarrow> res ! (b - 1) = insts ! (b - 1)))"
proof (cases "insts = []")
  case True
  then show ?thesis by (simp add: schedule_lowered_def)
next
  case False
  then have n: "0 < length insts" by simp
  from schedule_lowered_blockwise [OF n] obtain res where
    res: "schedule_lowered insts = Inr res" "blockwise (block_leaders insts) insts res" by blast
  have "mset (segment a b res) = mset (segment a b insts) \<and>
      (inst_kind (insts ! (b - 1)) = CONTROL \<longrightarrow> res ! (b - 1) = insts ! (b - 1))"
    if ab: "(a, b) \<in> set (ranges (block_leaders insts) (length insts))" for a b
  proof -
    note r = ranges_bounds [OF block_leaders_ok [OF n] ab]
    from res(2) ab obtain out where
      out: "block_permutation (segment a b insts) out" "segment a b res = map ((!) (segment a b insts)) out"
      by (auto simp: blockwise_def)
    have ln: "length res = length insts" using res(2) by (simp add: blockwise_def)
    have lb: "length (segment a b insts) = Suc (b - a - 1)" using r by (auto simp: length_segment)
    have nth: "segment a b xs ! (b - a - 1) = xs ! (b - 1)" if "length xs = length insts"
      for xs :: "aec_instruction list"
    proof -
      have "b - a - 1 < b - a" "a + (b - a - 1) = b - 1" "b \<le> length xs" using r that by auto
      then show ?thesis by (simp only: nth_segment)
    qed
    have "res ! (b - 1) = insts ! (b - 1)" if c: "inst_kind (insts ! (b - 1)) = CONTROL"
    proof -
      have o: "out ! (b - a - 1) = b - a - 1"
        using block_permutation_last [OF out(1) lb] nth [OF refl] c by simp
      have "segment a b res ! (b - a - 1) = segment a b insts ! (out ! (b - a - 1))"
        using out(2) lb block_permutation_length [OF out(1)] by simp
      then show ?thesis using o nth [OF ln] nth [OF refl] by simp
    qed
    with out block_permutation_mset [OF out(1)] show ?thesis by simp
  qed
  with res show ?thesis by (auto simp: blockwise_def)
qed

theorem schedule_lowered_in_place_witness:
  "\<exists>res. schedule_lowered load_late = Inr res \<and> length res = 7 \<and>
    mset (segment 0 7 res) = mset (segment 0 7 load_late) \<and> res ! 6 = load_late ! 6"
proof -
  have r: "ranges (block_leaders load_late) (length load_late) = [(0, 7)]" "length load_late = 7"
    "inst_kind (load_late ! 6) = CONTROL"
    by code_simp+
  with schedule_lowered_in_place [of load_late] show ?thesis by (auto simp del: One_nat_def)
qed



text \<open>A program with a guarded load, and what a launch of it stores in the second word.\<close>

definition guarded_load :: "aec_instruction list" where
  "guarded_load =
     [(AECInstruction ''LOADI'')\<lparr>dest := 2, imm := 1\<rparr>,
      (AECInstruction ''LOADI'')\<lparr>dest := 7, imm := 4\<rparr>,
      (AECInstruction ''CMPP'')\<lparr>dtype := ''u32'', dest := 1, src1 := 5, src2 := 2, compare := Some ''lt''\<rparr>,
      (AECInstruction ''LD'')\<lparr>dtype := ''u32'', dest := 4, src1 := 5, memory_space := Some ''gmem'',
        predicate := Some 1\<rparr>,
      (AECInstruction ''ST'')\<lparr>dtype := ''u32'', src1 := 7, src2 := 4, memory_space := Some ''gmem''\<rparr>,
      AECInstruction ''HALT'']"

definition stored :: "aec_instruction list \<Rightarrow> byte list option" where
  "stored insts = (case simulate int_fpu (with_program sample_launch insts) [] load_late_gmem of
     Inl _ \<Rightarrow> None | Inr st \<Rightarrow> Some (drop 4 (gmem (mem st))))"


end
