(* ===== verification/Ptx.thy ===== *)
theory Ptx
  imports PyStr
begin

text \<open>
  The PTX parser, \<open>ptx.py\<close>, and the module it fills (\<open>ir/model.py\<close>): the program, the regular
  expressions as recursive matchers (each is deterministic: no choice of a greedy repetition can be
  undone by backtracking), and one state transformer per source line.
\<close>

section \<open>Programs\<close>

record parameter =
  par_name :: string
  par_dtype :: string

record register_decl =
  reg_prefix :: string
  reg_dtype :: string
  reg_count :: int

record ptx_instruction =
  pi_opcode :: string
  pi_operands :: "string list"
  pi_predicate :: "string option"
  pi_negated :: bool
  pi_line :: nat

datatype item = Label string | Inst ptx_instruction

record ptx_program =
  kernel_name :: string
  parameters :: "parameter list"
  reg_decls :: "register_decl list"
  items :: "item list"

datatype parse_error = EntryNotFound

text \<open>The defaults of the dataclass.\<close>

definition PTXInstruction :: "string \<Rightarrow> string list \<Rightarrow> ptx_instruction" where
  "PTXInstruction op ops =
     \<lparr>pi_opcode = op, pi_operands = ops, pi_predicate = None, pi_negated = False, pi_line = 0\<rparr>"

section \<open>Lines and regular expressions\<close>

definition is_linebreak :: "char \<Rightarrow> bool" where
  "is_linebreak c \<longleftrightarrow> (of_char c :: nat) \<in> {10, 11, 12, 13, 28, 29, 30}"

text \<open>\<open>str.splitlines\<close>; the accumulator is the current line, reversed.\<close>

fun splitlines_from :: "string \<Rightarrow> string \<Rightarrow> string list" where
  "splitlines_from acc [] = (if acc = [] then [] else [rev acc])"
| "splitlines_from acc [c] = (if is_linebreak c then [rev acc] else [rev (c # acc)])"
| "splitlines_from acc (c # d # cs) =
     (if c = CHR 13 \<and> d = CHR 10 then rev acc # splitlines_from [] cs
      else if is_linebreak c then rev acc # splitlines_from [] (d # cs)
      else splitlines_from (c # acc) (d # cs))"

definition splitlines :: "string \<Rightarrow> string list" where
  "splitlines s = splitlines_from [] s"

text \<open>\<open>raw_line.split("//", 1)[0]\<close>.\<close>

fun strip_comment :: "string \<Rightarrow> string" where
  "strip_comment [] = []"
| "strip_comment (c # cs) = (if startswith (c # cs) ''//'' then [] else c # strip_comment cs)"

definition is_alpha :: "char \<Rightarrow> bool" where
  "is_alpha c \<longleftrightarrow> (let n = (of_char c :: nat) in (65 \<le> n \<and> n \<le> 90) \<or> (97 \<le> n \<and> n \<le> 122))"

definition is_word :: "char \<Rightarrow> bool" where
  "is_word c \<longleftrightarrow> is_alpha c \<or> is_digit c \<or> c = CHR ''_''"

definition rx_lit :: "string \<Rightarrow> string \<Rightarrow> string option" where
  "rx_lit p s = (if startswith s p then Some (drop (length p) s) else None)"

definition rx_plus :: "(char \<Rightarrow> bool) \<Rightarrow> string \<Rightarrow> (string \<times> string) option" where
  "rx_plus P s = (case s of [] \<Rightarrow> None
     | c # cs \<Rightarrow> if P c then Some (takeWhile P s, dropWhile P s) else None)"

definition rx_spaces :: "string \<Rightarrow> string option" where
  "rx_spaces s = map_option snd (rx_plus is_space s)"

fun rx_search :: "(string \<Rightarrow> 'a option) \<Rightarrow> string \<Rightarrow> 'a option" where
  "rx_search f [] = f []"
| "rx_search f (c # cs) = (case f (c # cs) of Some x \<Rightarrow> Some x | None \<Rightarrow> rx_search f cs)"

definition PARAM_RE :: "string \<Rightarrow> (string \<times> string) option" where
  "PARAM_RE s =
     Option.bind (rx_lit ''.param'' s) (\<lambda>s. Option.bind (rx_spaces s) (\<lambda>s.
     Option.bind (rx_lit ''.'' s) (\<lambda>s. Option.bind (rx_plus is_word s) (\<lambda>(dt, s).
     Option.bind (rx_spaces s) (\<lambda>s. Option.bind (rx_plus is_word s) (\<lambda>(name, _).
       Some (dt, name)))))))"

definition ENTRY_RE :: "string \<Rightarrow> string option" where
  "ENTRY_RE s =
     Option.bind (rx_lit ''.entry'' s) (\<lambda>s. Option.bind (rx_spaces s) (\<lambda>s.
     Option.bind (rx_plus is_word s) (\<lambda>(name, s).
     Option.bind (rx_lit ''('' (dropWhile is_space s)) (\<lambda>_. Some name))))"

definition rx_count :: "string \<Rightarrow> string option" where
  "rx_count s = Option.bind (rx_lit ''<'' s) (\<lambda>s. Option.bind (rx_plus is_digit s) (\<lambda>(n, s).
     Option.bind (rx_lit ''>'' s) (\<lambda>_. Some n)))"

definition REG_RE :: "string \<Rightarrow> (string \<times> string \<times> string option) option" where
  "REG_RE s =
     Option.bind (rx_lit ''.reg'' s) (\<lambda>s. Option.bind (rx_spaces s) (\<lambda>s.
     Option.bind (rx_lit ''.'' s) (\<lambda>s. Option.bind (rx_plus is_word s) (\<lambda>(dt, s).
     Option.bind (rx_spaces s) (\<lambda>s. Option.bind (rx_lit ''%'' s) (\<lambda>s.
     Option.bind (rx_plus is_alpha s) (\<lambda>(pfx, s). Some (dt, pfx, rx_count s))))))))"

definition PRED_RE :: "string \<Rightarrow> (bool \<times> string \<times> string) option" where
  "PRED_RE s =
     Option.bind (rx_lit ''@'' s) (\<lambda>s.
       let neg = startswith s ''!''; s1 = (if neg then drop 1 s else s) in
     Option.bind (rx_lit ''%'' s1) (\<lambda>s. Option.bind (rx_lit ''p'' s) (\<lambda>s.
       let name = CHR ''p'' # takeWhile is_digit s in
     Option.bind (rx_spaces (dropWhile is_digit s)) (\<lambda>rest. Some (neg, name, rest)))))"

section \<open>Instructions\<close>

text \<open>The loop of \<open>_split_operands\<close>: bracket depth, current operand, operands so far.\<close>

fun split_operands_from :: "int \<Rightarrow> string \<Rightarrow> string list \<Rightarrow> string \<Rightarrow> string list" where
  "split_operands_from depth current operands [] =
     (if current = [] then operands else operands @ [strip current])"
| "split_operands_from depth current operands (c # cs) =
     (let depth' = (if c = CHR ''['' then depth + 1 else if c = CHR '']'' then depth - 1 else depth) in
      if c = CHR '','' \<and> depth' = 0
      then split_operands_from depth' [] (operands @ [strip current]) cs
      else split_operands_from depth' (current @ [c]) operands cs)"

definition split_operands :: "string \<Rightarrow> string list" where
  "split_operands text = split_operands_from 0 [] [] text"

text \<open>\<open>line.split(None, 1)\<close> of a stripped, non-empty line.\<close>

definition split_instruction :: "string \<Rightarrow> string \<times> string list" where
  "split_instruction line =
     (let opcode = takeWhile (\<lambda>c. \<not> is_space c) line;
          rest = lstrip (dropWhile (\<lambda>c. \<not> is_space c) line) in
      (opcode, if rest = [] then [] else split_operands rest))"

section \<open>The parser\<close>

record parse_state =
  ps_kernel :: string
  ps_params :: "parameter list"
  ps_regs :: "register_decl list"
  ps_items :: "item list"
  ps_in_body :: bool

definition parse_init :: parse_state where
  "parse_init = \<lparr>ps_kernel = [], ps_params = [], ps_regs = [], ps_items = [], ps_in_body = False\<rparr>"

definition add_item :: "item \<Rightarrow> parse_state \<Rightarrow> parse_state" where
  "add_item it st = st\<lparr>ps_items := ps_items st @ [it]\<rparr>"

text \<open>The last part of the loop body: a label or an instruction of the kernel's body.\<close>

definition parse_body_line :: "nat \<Rightarrow> string \<Rightarrow> parse_state \<Rightarrow> parse_state" where
  "parse_body_line line_no line0 st =
     (if endswith line0 '':'' then add_item (Label (butlast line0)) st
      else (let line1 = (if endswith line0 '';'' then strip (butlast line0) else line0);
                (pred, neg, line2) =
                  (case PRED_RE line1 of
                     None \<Rightarrow> (None, False, line1)
                   | Some (neg, name, rest) \<Rightarrow> (Some name, neg, strip rest)) in
            if line2 = [] then st
            else (let (opcode, operands) = split_instruction line2 in
                  add_item (Inst \<lparr>pi_opcode = opcode, pi_operands = operands, pi_predicate = pred,
                    pi_negated = neg, pi_line = line_no\<rparr>) st)))"

definition reg_decl_of :: "string \<times> string \<times> string option \<Rightarrow> register_decl" where
  "reg_decl_of m = (case m of (dt, pfx, cnt) \<Rightarrow>
     \<lparr>reg_prefix = pfx, reg_dtype = dt,
      reg_count = (case cnt of None \<Rightarrow> 1 | Some n \<Rightarrow> the (py_int 10 n))\<rparr>)"

definition parse_line :: "nat \<Rightarrow> string \<Rightarrow> parse_state \<Rightarrow> parse_state" where
  "parse_line line_no raw_line st0 =
     (let line = strip (strip_comment raw_line) in
      if line = [] then st0 else
      let st = (if ps_kernel st0 = [] then
                  (case rx_search ENTRY_RE line of None \<Rightarrow> st0 | Some name \<Rightarrow> st0\<lparr>ps_kernel := name\<rparr>)
                else st0);
          param = rx_search PARAM_RE line in
      if param \<noteq> None \<and> \<not> ps_in_body st then
        st\<lparr>ps_params := ps_params st @ [\<lparr>par_name = snd (the param), par_dtype = fst (the param)\<rparr>]\<rparr>
      else if line = ''{'' then st\<lparr>ps_in_body := True\<rparr>
      else if line = ''}'' then st\<lparr>ps_in_body := False\<rparr>
      else if \<not> ps_in_body st then st
      else (case REG_RE (rev (dropWhile (\<lambda>c. c = CHR '';'') (rev line))) of
              Some m \<Rightarrow> st\<lparr>ps_regs := ps_regs st @ [reg_decl_of m]\<rparr>
            | None \<Rightarrow> parse_body_line line_no line st))"

fun parse_lines :: "nat \<Rightarrow> string list \<Rightarrow> parse_state \<Rightarrow> parse_state" where
  "parse_lines n [] st = st"
| "parse_lines n (l # ls) st = parse_lines (Suc n) ls (parse_line n l st)"

definition parse_ptx :: "string \<Rightarrow> (parse_error, ptx_program) result" where
  "parse_ptx text =
     (let st = parse_lines 1 (splitlines text) parse_init in
      if ps_kernel st = [] then Inl EntryNotFound
      else Inr \<lparr>kernel_name = ps_kernel st, parameters = ps_params st, reg_decls = ps_regs st,
                items = ps_items st\<rparr>)"

section \<open>The module\<close>

record ir_block =
  irb_name :: string
  irb_count :: nat
  irb_preds :: "string list"
  irb_succs :: "string list"

record ir_function =
  fn_name :: string
  program :: ptx_program
  fn_blocks :: "ir_block list"

text \<open>The entries of the metadata the passes write: counts and register mappings.\<close>

record ir_module =
  source_text :: string
  ir_fn :: ir_function
  metadata :: "(string, (string, int) dict) dict"

definition module_from_program :: "string \<Rightarrow> ptx_program \<Rightarrow> ir_module" where
  "module_from_program text p =
     \<lparr>source_text = text, ir_fn = \<lparr>fn_name = kernel_name p, program = p, fn_blocks = []\<rparr>, metadata = []\<rparr>"

definition rebuild_program :: "ptx_program \<Rightarrow> item list \<Rightarrow> ptx_program" where
  "rebuild_program p kept = p\<lparr>items := kept\<rparr>"

end
