(* ===== verification/Numerals.thy ===== *)
theory Numerals
  imports PyStr
begin

text \<open>
  Printing and parsing numbers: the decimal and the zero-padded hexadecimal format are read back by
  \<open>int(s, 10)\<close> and \<open>int(s, 16)\<close>.
\<close>

lemma digits_of_step:
  "2 \<le> b \<Longrightarrow> n < b \<Longrightarrow> digits_of b n = [digit_char n]"
  "2 \<le> b \<Longrightarrow> \<not> n < b \<Longrightarrow> digits_of b n = digits_of b (n div b) @ [digit_char (n mod b)]"
  by (simp_all add: digits_of.simps)

lemma digit_char_code: "d < 36 \<Longrightarrow> (of_char (digit_char d) :: nat) = (if d < 10 then 48 + d else 87 + d)"
  by (simp add: digit_char_def)

text \<open>The digits of a base, as the printer writes them: lower case.\<close>

definition is_numeral_char :: "nat \<Rightarrow> char \<Rightarrow> bool" where
  "is_numeral_char b c \<longleftrightarrow> (let n = (of_char c :: nat) in
     (48 \<le> n \<and> n \<le> 57 \<and> n < 48 + b) \<or> (97 \<le> n \<and> n \<le> 122 \<and> n < 87 + b))"

lemma digit_char_props:
  assumes "d < b" "b \<le> 36"
  shows "digit_value (digit_char d) = Some (int d)" "is_numeral_char b (digit_char d)"
proof -
  have "d < 36" using assms by simp
  note code = digit_char_code [OF this]
  show "digit_value (digit_char d) = Some (int d)"
    using code \<open>d < 36\<close> by (cases "d < 10") (simp_all add: digit_value_def Let_def)
  show "is_numeral_char b (digit_char d)"
    using code assms by (cases "d < 10") (simp_all add: is_numeral_char_def Let_def)
qed

lemma numeral_char_not:
  "\<not> is_numeral_char b CHR ''_''" "\<not> is_numeral_char b CHR ''-''" "\<not> is_numeral_char b CHR ''+''"
  "\<not> is_numeral_char b CHR ''%''" "\<not> is_numeral_char b CHR ''X''" "b \<le> 16 \<Longrightarrow> \<not> is_numeral_char b CHR ''x''"
  "is_numeral_char b c \<Longrightarrow> \<not> is_space c"
  by (auto simp: is_numeral_char_def is_space_def Let_def)

lemma digits_of_ne: "2 \<le> b \<Longrightarrow> digits_of b n \<noteq> []"
  by (cases "n < b") (simp_all add: digits_of_step)

lemma digits_of_chars: "2 \<le> b \<Longrightarrow> b \<le> 36 \<Longrightarrow> list_all (is_numeral_char b) (digits_of b n)"
proof (induction n rule: less_induct)
  case (less n)
  show ?case
  proof (cases "n < b")
    case True
    then show ?thesis using less.prems digit_char_props(2) [of n b] by (simp add: digits_of_step(1))
  next
    case False
    then have "n div b < n" using less.prems by (simp add: div_less_dividend)
    then have ih: "list_all (is_numeral_char b) (digits_of b (n div b))" using less by simp
    have "n mod b < b" using less.prems by simp
    then show ?thesis using ih digit_char_props(2) [of "n mod b" b] less.prems(2)
      unfolding digits_of_step(2) [OF less.prems(1) False] by simp
  qed
qed

lemma parse_digits_snoc:
  "list_all (is_numeral_char b) xs \<Longrightarrow> d < b \<Longrightarrow> b \<le> 36 \<Longrightarrow> parse_digits (int b) prev acc xs = Some v \<Longrightarrow> xs \<noteq> [] \<Longrightarrow>
    parse_digits (int b) prev acc (xs @ [digit_char d]) = Some (v * int b + int d)"
proof (induction xs arbitrary: prev acc)
  case (Cons x xs)
  have us: "x \<noteq> CHR ''_''" using Cons.prems(1) numeral_char_not(1) by auto
  from Cons.prems(4) us obtain e where e: "digit_value x = Some e" "e < int b"
    "parse_digits (int b) True (acc * int b + e) xs = Some v"
    by (auto split: if_splits option.splits)
  have d: "digit_char d \<noteq> CHR ''_''" "digit_value (digit_char d) = Some (int d)"
    using digit_char_props [OF Cons.prems(2,3)] numeral_char_not(1) by auto
  show ?case
  proof (cases "xs = []")
    case True
    with e us d Cons.prems(2) show ?thesis by simp
  next
    case False
    with Cons.IH [OF _ Cons.prems(2,3) e(3)] e us Cons.prems(1) show ?thesis by simp
  qed
qed simp

lemma parse_digits_of:
  assumes "2 \<le> b" "b \<le> 36"
  shows "parse_digits (int b) False 0 (digits_of b n) = Some (int n)"
proof (induction n rule: less_induct)
  case (less n)
  show ?case
  proof (cases "n < b")
    case True
    have "digit_char n \<noteq> CHR ''_''" "digit_value (digit_char n) = Some (int n)"
      using digit_char_props [OF True assms(2)] numeral_char_not(1) by auto
    then show ?thesis unfolding digits_of_step(1) [OF assms(1) True] using True by simp
  next
    case False
    then have "n div b < n" using assms by (simp add: div_less_dividend)
    then have ih: "parse_digits (int b) False 0 (digits_of b (n div b)) = Some (int (n div b))" by (rule less)
    have "n mod b < b" using assms by simp
    from parse_digits_snoc [OF digits_of_chars [OF assms] this assms(2) ih digits_of_ne [OF assms(1)]]
    have "parse_digits (int b) False 0 (digits_of b n) = Some (int (n div b) * int b + int (n mod b))"
      unfolding digits_of_step(2) [OF assms(1) False] .
    moreover have "int (n div b) * int b + int (n mod b) = int n"
      by (metis div_mult_mod_eq of_nat_add of_nat_mult)
    ultimately show ?thesis by simp
  qed
qed

lemma parse_digits_prev:
  "xs \<noteq> [] \<Longrightarrow> hd xs \<noteq> CHR ''_'' \<Longrightarrow> parse_digits b prev acc xs = parse_digits b prev' acc xs"
  by (cases xs) auto

lemma parse_digits_zeros:
  "1 < b \<Longrightarrow> xs \<noteq> [] \<Longrightarrow> hd xs \<noteq> CHR ''_'' \<Longrightarrow>
    parse_digits b prev 0 (replicate k CHR ''0'' @ xs) = parse_digits b prev 0 xs"
proof (induction k arbitrary: prev)
  case (Suc k)
  have "digit_value CHR ''0'' = Some 0" by (simp add: digit_value_def)
  then have "parse_digits b prev 0 (replicate (Suc k) CHR ''0'' @ xs) = parse_digits b True 0 (replicate k CHR ''0'' @ xs)"
    using Suc.prems(1) by simp
  also have "\<dots> = parse_digits b True 0 xs" using Suc by simp
  also have "\<dots> = parse_digits b prev 0 xs" using Suc.prems by (intro parse_digits_prev)
  finally show ?case .
qed simp

lemma startswith_set: "startswith s p \<Longrightarrow> c \<in> set p \<Longrightarrow> c \<in> set s"
  unfolding startswith_def by (metis in_set_takeD)

text \<open>A string of digits has no sign, no base prefix and no white space.\<close>

lemma py_int_numeral:
  assumes "list_all (is_numeral_char b) s" "s \<noteq> []" "b = 10 \<or> b = 16"
  shows "py_int (int b) s = parse_digits (int b) False 0 s"
proof -
  have no: "CHR ''x'' \<notin> set s" "CHR ''X'' \<notin> set s" "CHR ''-'' \<notin> set s" "CHR ''+'' \<notin> set s"
    using assms numeral_char_not [of b] by (auto simp: list_all_iff)
  have st: "strip s = s"
    using assms(1) numeral_char_not(7) by (intro strip_no_space) (auto simp: list_all_iff)
  obtain c cs where c: "s = c # cs" using assms(2) by (cases s) auto
  have "c \<noteq> CHR ''-''" "c \<noteq> CHR ''+''" using no(3,4) c by auto
  then have "py_int (int b) s = parse_body (int b) s" using st c by (simp add: py_int_def)
  moreover have "\<not> startswith s ''0x''" "\<not> startswith s ''0X''"
    using startswith_set [of s "''0x''" "CHR ''x''"] startswith_set [of s "''0X''" "CHR ''X''"] no(1,2) by auto
  then have "prefix_base s \<noteq> Some 16" "prefix_base s \<noteq> Some 10"
    by (simp_all add: prefix_base_def)
  ultimately show ?thesis using assms(3) by (auto simp: parse_body_def)
qed

lemma py_int_dec_str:
  assumes "0 \<le> i"
  shows "py_int 10 (dec_str i) = Some i"
proof -
  have "py_int 10 (digits_of 10 (nat i)) = parse_digits 10 False 0 (digits_of 10 (nat i))"
    using py_int_numeral [OF digits_of_chars digits_of_ne, of 10 "nat i"] by simp
  also have "\<dots> = Some i" using parse_digits_of [of 10 "nat i"] assms by simp
  finally show ?thesis using assms by (simp add: dec_str_def)
qed

lemma py_int_hex_pad:
  assumes "0 \<le> v"
  shows "py_int 16 (hex_pad w v) = Some v"
proof -
  let ?s = "digits_of 16 (nat v)" and ?k = "w - length (digits_of 16 (nat v))"
  have s: "list_all (is_numeral_char 16) ?s" "?s \<noteq> []"
    using digits_of_chars [of 16] digits_of_ne [of 16] by simp_all
  then have h: "hd ?s \<noteq> CHR ''_''" using numeral_char_not(1) [of 16] by (cases ?s) auto
  have "list_all (is_numeral_char 16) (replicate ?k CHR ''0'' @ ?s)"
    using s(1) by (auto simp: list_all_iff is_numeral_char_def)
  from py_int_numeral [OF this] s(2)
  have "py_int 16 (hex_pad w v) = parse_digits 16 False 0 (replicate ?k CHR ''0'' @ ?s)"
    by (simp add: hex_pad_def Let_def)
  also have "\<dots> = parse_digits 16 False 0 ?s" using s(2) h by (intro parse_digits_zeros) simp_all
  also have "\<dots> = Some v" using parse_digits_of [of 16 "nat v"] assms by simp
  finally show ?thesis .
qed

lemma digits_of_decimal: "list_all is_digit (digits_of 10 n)"
proof -
  have "is_numeral_char 10 c \<Longrightarrow> is_digit c" for c
    by (auto simp: is_numeral_char_def is_digit_def Let_def)
  with digits_of_chars [of 10 n] show ?thesis by (auto simp: list_all_iff)
qed

end
