(* ===== verification/Ptx_Roundtrip.thy ===== *)
theory Ptx_Roundtrip
  imports Ptx Numerals
begin

text \<open>
  A printer for PTX programs and the proof that the parser reads back what it prints.
\<close>

section \<open>Characters and tokens\<close>

lemma char_classes:
  "is_alpha c \<Longrightarrow> is_word c" "is_digit c \<Longrightarrow> is_word c"
  "is_word c \<Longrightarrow> \<not> is_space c" "is_linebreak c \<Longrightarrow> is_space c" "is_digit c \<Longrightarrow> \<not> is_alpha c"
  by (auto simp: is_word_def is_alpha_def is_digit_def is_space_def is_linebreak_def Let_def)

lemma char_values [token_simps]:
  "is_space CHR '' ''" "\<not> is_space CHR ''.''" "\<not> is_space CHR ''%''" "\<not> is_space CHR '':''" "\<not> is_space CHR '';''"
  "\<not> is_space CHR ''@''" "\<not> is_space CHR ''!''" "\<not> is_space CHR ''p''" "\<not> is_space CHR ''$''"
  "\<not> is_word CHR '' ''" "\<not> is_word CHR ''.''" "\<not> is_word CHR ''%''" "\<not> is_word CHR ''(''" "\<not> is_word CHR ''<''"
  "\<not> is_alpha CHR ''<''" "\<not> is_alpha CHR ''.''" "\<not> is_alpha CHR ''$''" "\<not> is_alpha CHR '' ''" "\<not> is_digit CHR ''>''" "\<not> is_digit CHR '' ''"
  "\<not> is_word CHR ''/''" "\<not> is_word CHR ''@''" "\<not> is_word CHR ''$''" "\<not> is_word CHR '';''" "\<not> is_word CHR '':''"
  "\<not> is_linebreak CHR '' ''" "\<not> is_linebreak CHR '',''" "is_word CHR ''p''" "is_digit CHR ''0''" "\<not> is_digit CHR ''_''"
  by (simp_all add: is_space_def is_word_def is_alpha_def is_digit_def is_linebreak_def Let_def)

lemma strip_id:
  assumes "s \<noteq> []" "\<not> is_space (hd s)" "\<not> is_space (last s)"
  shows "strip s = s"
proof -
  have "lstrip s = s" using assms by (cases s) (auto simp: lstrip_def)
  moreover have "dropWhile is_space (rev s) = rev s"
    using assms by (cases "rev s") (auto simp: hd_rev [symmetric])
  ultimately show ?thesis by (simp add: strip_def rstrip_def)
qed

lemma strip_space: "is_space c \<Longrightarrow> strip (c # s) = strip s"
  by (simp add: strip_def lstrip_def)

lemma rx_plus_all:
  assumes "w \<noteq> []" "list_all P w" "rest = [] \<or> \<not> P (hd rest)"
  shows "rx_plus P (w @ rest) = Some (w, rest)"
proof -
  have "takeWhile P (w @ rest) = w" "dropWhile P (w @ rest) = rest"
    using assms by (auto simp: list_all_iff dropWhile_append takeWhile_append intro: takeWhile_eq_Nil_iff [THEN iffD2]
        split: if_splits) (cases rest, auto)+
  then show ?thesis using assms(1,2) by (cases w) (auto simp: rx_plus_def)
qed

lemma rx_lit_append [token_simps]: "rx_lit p (p @ s) = Some s"
  by (simp add: rx_lit_def)

lemma rx_lit_Cons [token_simps]:
  "rx_lit (c # p) (d # s) = (if c = d then rx_lit p s else None)" "rx_lit [] s = Some s"
  "rx_lit (c # p) [] = None"
  by (auto simp: rx_lit_def startswith_def)

lemma rx_spaces_one [token_simps]:
  "\<not> is_space (hd s) \<Longrightarrow> s \<noteq> [] \<Longrightarrow> rx_spaces (CHR '' '' # s) = Some s"
  by (cases s) (auto simp: rx_spaces_def rx_plus_def token_simps)

lemma digits_of_digits: "list_all is_digit (digits_of 10 n) \<and> digits_of 10 n \<noteq> []"
  using digits_of_decimal digits_of_ne by simp

section \<open>Operands\<close>

text \<open>No comma at bracket depth 0, and the brackets close.\<close>

fun balanced :: "int \<Rightarrow> string \<Rightarrow> bool" where
  "balanced d [] \<longleftrightarrow> d = 0"
| "balanced d (c # cs) \<longleftrightarrow>
     (let d' = (if c = CHR ''['' then d + 1 else if c = CHR '']'' then d - 1 else d) in
      \<not> (c = CHR '','' \<and> d' = 0) \<and> balanced d' cs)"

definition wf_operand :: "string \<Rightarrow> bool" where
  "wf_operand s \<longleftrightarrow> s \<noteq> [] \<and> \<not> is_space (hd s) \<and> \<not> is_space (last s) \<and> balanced 0 s \<and>
     list_all (\<lambda>c. c \<noteq> CHR ''/'' \<and> \<not> is_linebreak c) s"

fun join_operands :: "string list \<Rightarrow> string" where
  "join_operands [] = []"
| "join_operands [x] = x"
| "join_operands (x # y # ys) = x @ '', '' @ join_operands (y # ys)"

lemma split_operands_balanced:
  "balanced d s \<Longrightarrow> split_operands_from d cur out (s @ rest) = split_operands_from 0 (cur @ s) out rest"
  by (induction s arbitrary: d cur) (auto simp: Let_def split: if_splits)

lemma split_operands_join_gen:
  assumes "list_all wf_operand (x # xs)" "list_all is_space cur"
  shows "split_operands_from 0 cur out (join_operands (x # xs)) = out @ x # xs"
  using assms
proof (induction xs arbitrary: x cur out)
  case Nil
  have st: "strip (cur @ x) = x" using Nil
    by (induction cur) (auto simp: strip_space wf_operand_def strip_id)
  have "split_operands_from 0 cur out (x @ []) = split_operands_from 0 (cur @ x) out []"
    using Nil by (intro split_operands_balanced) (simp add: wf_operand_def)
  with Nil st show ?case by (auto simp: wf_operand_def)
next
  case (Cons y ys)
  have st: "strip (cur @ x) = x" using Cons.prems
    by (induction cur) (auto simp: strip_space wf_operand_def strip_id)
  have "split_operands_from 0 cur out (x @ '', '' @ join_operands (y # ys)) =
      split_operands_from 0 (cur @ x) out ('', '' @ join_operands (y # ys))"
    using Cons.prems by (intro split_operands_balanced) (simp add: wf_operand_def)
  also have "\<dots> = split_operands_from 0 '' '' (out @ [x]) (join_operands (y # ys))"
    using st by simp
  also have "\<dots> = (out @ [x]) @ y # ys"
    using Cons.prems by (intro Cons.IH) (auto simp: token_simps)
  finally show ?case by simp
qed

lemma split_operands_join:
  "list_all wf_operand ops \<Longrightarrow> split_operands (join_operands ops) = ops"
  using split_operands_join_gen [of "hd ops" "tl ops" "[]" "[]"]
  by (cases ops) (auto simp: split_operands_def)

section \<open>The printer\<close>

definition render_param :: "parameter \<Rightarrow> string" where
  "render_param p = ''.param .'' @ par_dtype p @ '' '' @ par_name p"

definition render_reg :: "register_decl \<Rightarrow> string" where
  "render_reg r = ''.reg .'' @ reg_dtype r @ '' %'' @ reg_prefix r @ ''<'' @ dec_str (reg_count r) @ ''>;''"

definition render_guard :: "ptx_instruction \<Rightarrow> string" where
  "render_guard i = (case pi_predicate i of None \<Rightarrow> []
     | Some p \<Rightarrow> ''@'' @ (if pi_negated i then ''!'' else []) @ ''%'' @ p @ '' '')"

definition render_inst :: "ptx_instruction \<Rightarrow> string" where
  "render_inst i = pi_opcode i @
     (if pi_operands i = [] then [] else '' '' @ join_operands (pi_operands i))"

definition render_item :: "item \<Rightarrow> string" where
  "render_item it = (case it of Label l \<Rightarrow> l @ '':'' | Inst i \<Rightarrow> render_guard i @ render_inst i @ '';'')"

definition render_lines :: "ptx_program \<Rightarrow> string list" where
  "render_lines p = [''.visible .entry '' @ kernel_name p @ ''(''] @ map render_param (parameters p) @
     [CHR '')'' # [], CHR ''{'' # []] @ map render_reg (reg_decls p) @ map render_item (items p) @ [CHR ''}'' # []]"

definition render :: "ptx_program \<Rightarrow> string" where
  "render p = concat (map (\<lambda>l. l @ [CHR 10]) (render_lines p))"

definition wf_name :: "string \<Rightarrow> bool" where
  "wf_name s \<longleftrightarrow> s \<noteq> [] \<and> list_all is_word s"

definition wf_ptx_inst :: "ptx_instruction \<Rightarrow> bool" where
  "wf_ptx_inst i \<longleftrightarrow>
     (case pi_opcode i of [] \<Rightarrow> False | c # cs \<Rightarrow> is_alpha c \<and> list_all (\<lambda>c. is_word c \<or> c = CHR ''.'') cs) \<and>
     list_all wf_operand (pi_operands i) \<and>
     (case pi_predicate i of None \<Rightarrow> \<not> pi_negated i
      | Some p \<Rightarrow> (case p of [] \<Rightarrow> False | c # cs \<Rightarrow> c = CHR ''p'' \<and> list_all is_digit cs))"

definition wf_item :: "item \<Rightarrow> bool" where
  "wf_item it = (case it of
     Label l \<Rightarrow> l \<noteq> [] \<and> list_all (\<lambda>c. is_word c \<or> c = CHR ''$'') l
   | Inst i \<Rightarrow> wf_ptx_inst i)"

definition wf_ptx :: "ptx_program \<Rightarrow> bool" where
  "wf_ptx p \<longleftrightarrow> wf_name (kernel_name p) \<and>
     list_all (\<lambda>q. wf_name (par_name q) \<and> wf_name (par_dtype q)) (parameters p) \<and>
     list_all (\<lambda>r. wf_name (reg_dtype r) \<and> reg_prefix r \<noteq> [] \<and> list_all is_alpha (reg_prefix r) \<and>
       0 \<le> reg_count r) (reg_decls p) \<and>
     list_all wf_item (items p)"

section \<open>Lines\<close>

definition plain_char :: "char \<Rightarrow> bool" where
  "plain_char c \<longleftrightarrow> c \<noteq> CHR ''/'' \<and> \<not> is_linebreak c"

definition plain_line :: "string \<Rightarrow> bool" where
  "plain_line l \<longleftrightarrow> l \<noteq> [] \<and> \<not> is_space (hd l) \<and> \<not> is_space (last l) \<and> list_all plain_char l"

lemma splitlines_from_char:
  "\<not> is_linebreak c \<Longrightarrow> splitlines_from acc (c # cs) = splitlines_from (c # acc) cs"
  by (cases cs) (auto simp: is_linebreak_def)

lemma splitlines_from_newline: "splitlines_from acc (CHR 10 # cs) = rev acc # splitlines_from [] cs"
  by (cases cs) (auto simp: is_linebreak_def)

lemma splitlines_from_line:
  "list_all plain_char l \<Longrightarrow>
    splitlines_from acc (l @ CHR 10 # rest) = (rev acc @ l) # splitlines_from [] rest"
  by (induction l arbitrary: acc)
     (auto simp: splitlines_from_char splitlines_from_newline plain_char_def)

lemma splitlines_lines:
  "list_all plain_line ls \<Longrightarrow> splitlines (concat (map (\<lambda>l. l @ [CHR 10]) ls)) = ls"
  unfolding splitlines_def
  by (induction ls) (auto simp: plain_line_def splitlines_from_line)

lemma strip_comment_plain: "list_all plain_char l \<Longrightarrow> strip_comment l = l"
  by (induction l) (auto simp: plain_char_def startswith_def)

lemma plain_line_strip: "plain_line l \<Longrightarrow> strip (strip_comment l) = l"
  by (simp add: plain_line_def strip_comment_plain strip_id)

lemma plain_word: "is_word c \<Longrightarrow> plain_char c"
  using char_classes(3,4) token_simps by (auto simp: plain_char_def)

lemma plain_words: "list_all is_word s \<Longrightarrow> list_all plain_char s"
  by (auto simp: list_all_iff plain_word)

lemma plain_chars [token_simps]:
  "plain_char CHR ''p''" "plain_char CHR ''a''" "plain_char CHR ''r''" "plain_char CHR ''m''"
  "plain_char CHR ''e''" "plain_char CHR ''g''"
  "plain_char CHR ''.''" "plain_char CHR '' ''" "plain_char CHR ''%''" "plain_char CHR ''<''"
  "plain_char CHR ''>''" "plain_char CHR '';''" "plain_char CHR '':''" "plain_char CHR ''@''"
  "plain_char CHR ''!''" "plain_char CHR ''(''" "plain_char CHR '')''" "plain_char CHR ''{''"
  "plain_char CHR ''}''" "plain_char CHR '',''" "plain_char CHR ''$''" "plain_char CHR ''-''"
  by (simp_all add: plain_char_def is_linebreak_def)

lemma more_spaces [token_simps]:
  "\<not> is_space CHR ''(''" "\<not> is_space CHR '')''" "\<not> is_space CHR ''{''" "\<not> is_space CHR ''}''"
  "\<not> is_space CHR ''>''" "\<not> is_space CHR ''<''"
  by (simp_all add: is_space_def)

lemma word_ends:
  "s \<noteq> [] \<Longrightarrow> list_all is_word s \<Longrightarrow> \<not> is_space (hd s) \<and> \<not> is_space (last s)"
  using char_classes(3) by (auto simp: list_all_iff)

text \<open>A line of the entry header or of the body, in a state that has the kernel's name.\<close>

lemma parse_line_named:
  assumes "plain_line l" "ps_kernel st \<noteq> []"
  shows "parse_line n l st =
    (if rx_search PARAM_RE l \<noteq> None \<and> \<not> ps_in_body st then
        st\<lparr>ps_params := ps_params st @ [\<lparr>par_name = snd (the (rx_search PARAM_RE l)),
          par_dtype = fst (the (rx_search PARAM_RE l))\<rparr>]\<rparr>
      else if l = ''{'' then st\<lparr>ps_in_body := True\<rparr>
      else if l = ''}'' then st\<lparr>ps_in_body := False\<rparr>
      else if \<not> ps_in_body st then st
      else (case REG_RE (rev (dropWhile (\<lambda>c. c = CHR '';'') (rev l))) of
              Some m \<Rightarrow> st\<lparr>ps_regs := ps_regs st @ [reg_decl_of m]\<rparr>
            | None \<Rightarrow> parse_body_line n l st))"
  using assms plain_line_strip [OF assms(1)]
  by (simp add: parse_line_def plain_line_def Let_def)

lemma PARAM_no_dot: "list_all (\<lambda>c. c \<noteq> CHR ''.'') s \<Longrightarrow> rx_search PARAM_RE s = None"
  by (induction s) (auto simp: PARAM_RE_def token_simps)

lemma word_no_dot: "list_all is_word s \<Longrightarrow> list_all (\<lambda>c. c \<noteq> CHR ''.'') s"
  using token_simps by (auto simp: list_all_iff)

lemma parse_header:
  assumes "wf_name nm"
  shows "parse_line n (''.visible .entry '' @ nm @ ''('') parse_init = parse_init\<lparr>ps_kernel := nm\<rparr>"
proof -
  have w: "nm \<noteq> []" "list_all is_word nm" "\<not> is_space (hd nm)"
    using assms word_ends [of nm] by (auto simp: wf_name_def)
  let ?l = "''.visible .entry '' @ nm @ ''(''"
  have pl: "plain_line ?l"
    using w by (simp add: plain_line_def token_simps plain_words plain_char_def is_linebreak_def)
  have e: "ENTRY_RE (''.entry '' @ nm @ ''('') = Some nm"
    using w rx_plus_all [of nm is_word "''(''"]
    by (simp add: ENTRY_RE_def token_simps)
  have s: "rx_search ENTRY_RE ?l = Some nm"
    using e by (simp add: ENTRY_RE_def token_simps)
  have "rx_search PARAM_RE (nm @ ''('') = None"
    using w(2) word_no_dot by (intro PARAM_no_dot) (auto simp: list_all_iff)
  then have p: "rx_search PARAM_RE ?l = None"
    by (simp add: PARAM_RE_def token_simps)
  show ?thesis
    using s p plain_line_strip [OF pl] w(1)
    by (simp add: parse_line_def parse_init_def)
qed

lemma parse_param:
  assumes "wf_name (par_name q)" "wf_name (par_dtype q)" "ps_kernel st \<noteq> []" "\<not> ps_in_body st"
  shows "parse_line n (render_param q) st = st\<lparr>ps_params := ps_params st @ [q]\<rparr>"
proof -
  have w: "par_name q \<noteq> []" "list_all is_word (par_name q)" "par_dtype q \<noteq> []" "list_all is_word (par_dtype q)"
    "\<not> is_space (hd (par_name q))" "\<not> is_space (last (par_name q))"
    using assms word_ends by (auto simp: wf_name_def)
  have pl: "plain_line (render_param q)"
    using w by (simp add: plain_line_def render_param_def token_simps plain_words)
  have "PARAM_RE (render_param q) = Some (par_dtype q, par_name q)"
    using w rx_plus_all [of "par_dtype q" is_word "'' '' @ par_name q"] rx_plus_all [of "par_name q" is_word "[]"]
    by (simp add: PARAM_RE_def render_param_def token_simps)
  then have "rx_search PARAM_RE (render_param q) = Some (par_dtype q, par_name q)"
    by (simp add: render_param_def)
  then show ?thesis using assms(3,4) by (simp add: parse_line_named [OF pl])
qed

lemma parse_reg:
  assumes "wf_name (reg_dtype r)" "reg_prefix r \<noteq> []" "list_all is_alpha (reg_prefix r)" "0 \<le> reg_count r"
    "ps_kernel st \<noteq> []" "ps_in_body st"
  shows "parse_line n (render_reg r) st = st\<lparr>ps_regs := ps_regs st @ [r]\<rparr>"
proof -
  let ?d = "dec_str (reg_count r)"
  have d: "list_all is_digit ?d" "?d \<noteq> []" using assms(4) digits_of_digits by (auto simp: dec_str_def)
  have w: "reg_dtype r \<noteq> []" "list_all is_word (reg_dtype r)" using assms(1) by (auto simp: wf_name_def)
  have pa: "list_all plain_char (reg_prefix r)" "list_all plain_char ?d"
    using assms(3) d(1) char_classes(1,2) plain_word by (auto simp: list_all_iff)
  have pl: "plain_line (render_reg r)"
    using w pa by (simp add: plain_line_def render_reg_def token_simps plain_words)
  have rs: "rev (dropWhile (\<lambda>c. c = CHR '';'') (rev (render_reg r))) =
      ''.reg .'' @ reg_dtype r @ '' %'' @ reg_prefix r @ ''<'' @ ?d @ ''>''"
    by (simp add: render_reg_def)
  have c: "rx_count (''<'' @ ?d @ ''>'') = Some ?d"
    using rx_plus_all [of ?d is_digit "''>''"] d by (simp add: rx_count_def token_simps)
  have "REG_RE (''.reg .'' @ reg_dtype r @ '' %'' @ reg_prefix r @ ''<'' @ ?d @ ''>'') =
      Some (reg_dtype r, reg_prefix r, Some ?d)"
    using w assms(2,3) c rx_plus_all [of "reg_dtype r" is_word "'' %'' @ reg_prefix r @ ''<'' @ ?d @ ''>''"]
      rx_plus_all [of "reg_prefix r" is_alpha "''<'' @ ?d @ ''>''"]
    by (simp add: REG_RE_def token_simps)
  then show ?thesis
    using assms(4-6) rs by (simp add: parse_line_named [OF pl] reg_decl_of_def py_int_dec_str)
       (simp add: render_reg_def)
qed

lemma REG_RE_not_dot: "s = [] \<or> hd s \<noteq> CHR ''.'' \<Longrightarrow> REG_RE s = None"
  by (cases s) (simp_all add: REG_RE_def token_simps)

text \<open>A line of the body that does not start with a dot and is not a single brace.\<close>

lemma parse_line_body:
  assumes "plain_line l" "ps_kernel st \<noteq> []" "ps_in_body st" "hd l \<noteq> CHR ''.''" "hd l \<noteq> CHR ''{''" "hd l \<noteq> CHR ''}''"
  shows "parse_line n l st = parse_body_line n l st"
proof -
  let ?r = "rev (dropWhile (\<lambda>c. c = CHR '';'') (rev l))"
  have "?r = [] \<or> hd ?r = hd l"
  proof (cases "?r = []")
    case False
    have "\<exists>k. ?r = take k l"
    proof -
      have "l = ?r @ rev (takeWhile (\<lambda>c. c = CHR '';'') (rev l))"
        by (metis rev_append rev_rev_ident takeWhile_dropWhile_id)
      then have "?r = take (length ?r) l" by (metis append_eq_conv_conj)
      then show ?thesis by blast
    qed
    then obtain k where "?r = take k l" by blast
    with False have "hd ?r = hd l" by (cases l; cases k) auto
    then show ?thesis by simp
  qed simp
  then have "REG_RE ?r = None" using assms(4) by (intro REG_RE_not_dot) auto
  then show ?thesis using assms by (auto simp: parse_line_named)
qed

lemma parse_label:
  assumes "wf_item (Label l)" "ps_kernel st \<noteq> []" "ps_in_body st"
  shows "parse_line n (render_item (Label l)) st = add_item (Label l) st"
proof -
  have w: "l \<noteq> []" "list_all (\<lambda>c. is_word c \<or> c = CHR ''$'') l" using assms(1) by (simp_all add: wf_item_def)
  then have h: "is_word (hd l) \<or> hd l = CHR ''$''" by (cases l) auto
  have pc: "list_all plain_char l" using w(2) plain_word token_simps by (auto simp: list_all_iff)
  have pl: "plain_line (l @ '':'')"
    using w h pc char_classes(3) by (auto simp: plain_line_def token_simps)
  have "hd (l @ '':'') \<noteq> CHR ''.''" "hd (l @ '':'') \<noteq> CHR ''{''" "hd (l @ '':'') \<noteq> CHR ''}''"
    using h w(1) by (auto simp: is_word_def is_alpha_def is_digit_def)
  from parse_line_body [OF pl assms(2,3) this]
  have "parse_line n (l @ '':'') st = parse_body_line n (l @ '':'') st" .
  moreover have "parse_body_line n (l @ '':'') st = add_item (Label l) st"
    by (simp add: parse_body_line_def endswith_def startswith_def)
  ultimately show ?thesis by (simp add: render_item_def)
qed

lemma split_instruction_render:
  assumes "wf_ptx_inst i"
  shows "split_instruction (render_inst i) = (pi_opcode i, pi_operands i)"
proof -
  let ?op = "pi_opcode i"
  have o: "?op \<noteq> []" "list_all (\<lambda>c. \<not> is_space c) ?op"
    using assms char_classes by (auto simp: wf_ptx_inst_def list_all_iff token_simps split: list.splits)
  have tw: "takeWhile (\<lambda>c. \<not> is_space c) (?op @ rest) = ?op @ takeWhile (\<lambda>c. \<not> is_space c) rest"
    "dropWhile (\<lambda>c. \<not> is_space c) (?op @ rest) = dropWhile (\<lambda>c. \<not> is_space c) rest" for rest
    using o(2) by (auto simp: list_all_iff takeWhile_append dropWhile_append)
  have ops: "list_all wf_operand (pi_operands i)" using assms by (simp add: wf_ptx_inst_def)
  show ?thesis
  proof (cases "pi_operands i")
    case Nil
    have d: "dropWhile (\<lambda>c. \<not> is_space c) ?op = []" "takeWhile (\<lambda>c. \<not> is_space c) ?op = ?op"
      using o(2) by (simp_all add: list_all_iff)
    show ?thesis
      unfolding split_instruction_def render_inst_def lstrip_def Nil
      by (simp only: if_True append_Nil2 d dropWhile.simps Let_def refl)
  next
    case (Cons x xs)
    have x: "x \<noteq> []" "\<not> is_space (hd x)" using ops Cons by (simp_all add: wf_operand_def)
    have j: "join_operands (x # xs) \<noteq> []" "\<not> is_space (hd (join_operands (x # xs)))"
      using x by (cases xs; simp)+
    have "lstrip (CHR '' '' # join_operands (x # xs)) = join_operands (x # xs)"
      using j by (cases "join_operands (x # xs)") (auto simp: lstrip_def token_simps)
    with tw [of "'' '' @ join_operands (x # xs)"] split_operands_join [OF ops] Cons j(1) show ?thesis
      by (simp add: split_instruction_def render_inst_def token_simps)
  qed
qed

lemma wf_operand_plain:
  "wf_operand s \<Longrightarrow> s \<noteq> []" "wf_operand s \<Longrightarrow> \<not> is_space (last s)" "wf_operand s \<Longrightarrow> list_all plain_char s"
  by (auto simp: wf_operand_def plain_char_def list_all_iff)

lemma inst_chars:
  assumes "wf_ptx_inst i"
  shows "render_inst i \<noteq> []" "is_alpha (hd (render_inst i))" "\<not> is_space (last (render_inst i))"
    "list_all plain_char (render_inst i)"
proof -
  let ?op = "pi_opcode i"
  obtain c cs where op: "?op = c # cs" "is_alpha c" "list_all (\<lambda>c. is_word c \<or> c = CHR ''.'') cs"
    using assms by (auto simp: wf_ptx_inst_def split: list.splits)
  have ops: "list_all wf_operand (pi_operands i)" using assms by (simp add: wf_ptx_inst_def)
  have ol: "\<not> is_space (last ?op)" "list_all plain_char ?op"
  proof -
    have "\<forall>d \<in> set ?op. is_word d \<or> d = CHR ''.''" using op char_classes(1) by (auto simp: list_all_iff)
    moreover have "last ?op \<in> set ?op" using op(1) by simp
    ultimately show "\<not> is_space (last ?op)" "list_all plain_char ?op"
      using char_classes(3) plain_word token_simps by (metis, auto simp: list_all_iff)
  qed
  show "render_inst i \<noteq> []" "is_alpha (hd (render_inst i))" using op by (simp_all add: render_inst_def)
  have j: "list_all wf_operand xs \<Longrightarrow> xs \<noteq> [] \<Longrightarrow>
      join_operands xs \<noteq> [] \<and> \<not> is_space (last (join_operands xs)) \<and> list_all plain_char (join_operands xs)" for xs
    by (induction xs rule: join_operands.induct) (simp_all add: wf_operand_plain token_simps)
  show "\<not> is_space (last (render_inst i))" "list_all plain_char (render_inst i)"
    using ol j [OF ops] by (auto simp: render_inst_def token_simps)
qed

lemma guard_of_render:
  assumes "wf_ptx_inst i"
  shows "(case PRED_RE (render_guard i @ render_inst i) of None \<Rightarrow> (None, False, render_guard i @ render_inst i)
      | Some (neg, name, rest) \<Rightarrow> (Some name, neg, strip rest)) = (pi_predicate i, pi_negated i, render_inst i)"
proof -
  note ic = inst_chars [OF assms]
  have hs: "\<not> is_space (hd (render_inst i))" using ic(2) char_classes by blast
  show ?thesis
  proof (cases "pi_predicate i")
    case None
    then have n: "\<not> pi_negated i" using assms by (simp add: wf_ptx_inst_def)
    have "hd (render_inst i) \<noteq> CHR ''@''" using ic(2) by (auto simp: is_alpha_def)
    then have "PRED_RE (render_inst i) = None"
      using ic(1) by (cases "render_inst i") (simp_all add: PRED_RE_def token_simps)
    with None n show ?thesis by (simp add: render_guard_def)
  next
    case (Some p)
    then obtain ds where p: "p = CHR ''p'' # ds" "list_all is_digit ds"
      using assms by (auto simp: wf_ptx_inst_def split: list.splits)
    have tw: "takeWhile is_digit (ds @ '' '' @ rest) = ds" "dropWhile is_digit (ds @ '' '' @ rest) = '' '' @ rest" for rest
      using p(2) by (simp_all add: list_all_iff takeWhile_append2 dropWhile_append2 token_simps)
    have st: "strip (render_inst i) = render_inst i" using ic hs by (intro strip_id)
    have "PRED_RE (render_guard i @ render_inst i) = Some (pi_negated i, p, render_inst i)"
      using Some p(1) tw ic(1) hs
      by (cases "pi_negated i") (simp_all add: PRED_RE_def render_guard_def token_simps Let_def startswith_def)
    with Some st show ?thesis by simp
  qed
qed

lemma parse_inst:
  assumes "wf_item (Inst i)" "ps_kernel st \<noteq> []" "ps_in_body st"
  shows "parse_line n (render_item (Inst i)) st = add_item (Inst (i\<lparr>pi_line := n\<rparr>)) st"
proof -
  have wf: "wf_ptx_inst i" using assms(1) by (simp add: wf_item_def)
  note ic = inst_chars [OF wf]
  let ?b = "render_guard i @ render_inst i" and ?l = "render_item (Inst i)"
  have l: "?l = ?b @ '';''" by (simp add: render_item_def)
  have g: "list_all plain_char (render_guard i)"
    using wf plain_word char_classes(2) by (auto simp: render_guard_def wf_ptx_inst_def token_simps list_all_iff split: option.splits list.splits)
  have h: "hd ?l \<in> {hd (render_inst i), CHR ''@''}" using ic(1) by (auto simp: l render_guard_def split: option.splits)
  have hd: "\<not> is_space (hd ?l)" "hd ?l \<noteq> CHR ''.''" "hd ?l \<noteq> CHR ''{''" "hd ?l \<noteq> CHR ''}''"
    using h ic(2) char_classes(1,3) token_simps by (auto simp: is_alpha_def)
  have "plain_line ?l" using g ic(4) hd(1) by (simp add: plain_line_def l token_simps)
  from parse_line_body [OF this assms(2,3) hd(2-4)]
  have 1: "parse_line n ?l st = parse_body_line n ?l st" .
  have e: "\<not> endswith ?l '':''" "endswith ?l '';''" by (simp_all add: l endswith_def startswith_def)
  have hb: "hd ?b = hd ?l" "?b \<noteq> []" "last ?b = last (render_inst i)" using ic(1) by (simp_all add: l hd_append)
  have st: "strip (butlast ?l) = ?b"
    using hb hd(1) ic(3) by (simp add: l butlast_append strip_id)
  have rec: "\<lparr>pi_opcode = pi_opcode i, pi_operands = pi_operands i, pi_predicate = pi_predicate i,
      pi_negated = pi_negated i, pi_line = n\<rparr> = i\<lparr>pi_line := n\<rparr>" by (cases i) simp
  show ?thesis
    unfolding 1 parse_body_line_def
    using e st guard_of_render [OF wf] ic(1) split_instruction_render [OF wf]
    by (simp add: Let_def rec)
qed

section \<open>Whole programs\<close>

definition place :: "item \<Rightarrow> nat \<Rightarrow> item" where
  "place it n = (case it of Label l \<Rightarrow> Label l | Inst i \<Rightarrow> Inst (i\<lparr>pi_line := n\<rparr>))"

lemma parse_lines_append:
  "parse_lines n (xs @ ys) st = parse_lines (n + length xs) ys (parse_lines n xs st)"
  by (induction xs arbitrary: n st) simp_all

lemma parse_params:
  assumes "list_all (\<lambda>q. wf_name (par_name q) \<and> wf_name (par_dtype q)) qs" "ps_kernel st \<noteq> []" "\<not> ps_in_body st"
  shows "parse_lines n (map render_param qs) st = st\<lparr>ps_params := ps_params st @ qs\<rparr>"
  using assms by (induction qs arbitrary: n st) (simp_all add: parse_param)

lemma parse_regs:
  assumes "list_all (\<lambda>r. wf_name (reg_dtype r) \<and> reg_prefix r \<noteq> [] \<and> list_all is_alpha (reg_prefix r) \<and>
       0 \<le> reg_count r) rs" "ps_kernel st \<noteq> []" "ps_in_body st"
  shows "parse_lines n (map render_reg rs) st = st\<lparr>ps_regs := ps_regs st @ rs\<rparr>"
  using assms by (induction rs arbitrary: n st) (simp_all add: parse_reg)

lemma parse_items:
  assumes "list_all wf_item its" "ps_kernel st \<noteq> []" "ps_in_body st"
  shows "parse_lines n (map render_item its) st =
    st\<lparr>ps_items := ps_items st @ map2 place its [n ..< n + length its]\<rparr>"
  using assms
proof (induction its arbitrary: n st)
  case (Cons it its)
  have "parse_line n (render_item it) st = add_item (place it n) st"
    using Cons.prems by (cases it) (simp_all add: parse_label parse_inst place_def)
  moreover have "[n ..< n + length (it # its)] = n # [Suc n ..< Suc n + length its]"
    by (simp add: upt_rec)
  ultimately show ?case using Cons by (simp add: add_item_def)
qed simp

lemma plain_items:
  assumes "wf_item it"
  shows "plain_line (render_item it)"
proof (cases it)
  case (Label l)
  then have w: "l \<noteq> []" "list_all (\<lambda>c. is_word c \<or> c = CHR ''$'') l" using assms by (simp_all add: wf_item_def)
  then have "is_word (hd l) \<or> hd l = CHR ''$''" by (cases l) auto
  moreover have "list_all plain_char l" using w(2) plain_word token_simps by (auto simp: list_all_iff)
  ultimately show ?thesis using w(1) char_classes(3) by (auto simp: Label render_item_def plain_line_def token_simps)
next
  case (Inst i)
  then have wf: "wf_ptx_inst i" using assms by (simp add: wf_item_def)
  note ic = inst_chars [OF wf]
  have "list_all plain_char (render_guard i)"
    using wf plain_word char_classes(2) by (auto simp: render_guard_def wf_ptx_inst_def token_simps list_all_iff split: option.splits list.splits)
  moreover have "\<not> is_space (hd (render_guard i @ render_inst i @ '';''))"
    using ic(1,2) char_classes(1,3) by (auto simp: render_guard_def token_simps split: option.splits)
  ultimately show ?thesis using ic by (simp add: Inst render_item_def plain_line_def token_simps)
qed

lemma plain_render_lines:
  assumes "wf_ptx p"
  shows "list_all plain_line (render_lines p)"
proof -
  have nm: "wf_name (kernel_name p)" using assms by (simp add: wf_ptx_def)
  then have h: "plain_line (''.visible .entry '' @ kernel_name p @ ''('')"
    by (simp add: wf_name_def plain_line_def token_simps plain_words plain_char_def is_linebreak_def)
  have ps: "plain_line (render_param q)" if "q \<in> set (parameters p)" for q
  proof -
    have "wf_name (par_name q)" "wf_name (par_dtype q)"
      using assms that by (auto simp: wf_ptx_def list_all_iff)
    then show ?thesis using word_ends [of "par_name q"]
      by (simp add: wf_name_def plain_line_def render_param_def token_simps plain_words)
  qed
  have rs: "plain_line (render_reg r)" if "r \<in> set (reg_decls p)" for r
  proof -
    have w: "wf_name (reg_dtype r)" "list_all is_alpha (reg_prefix r)" "0 \<le> reg_count r"
      using assms that by (auto simp: wf_ptx_def list_all_iff)
    have "list_all is_digit (dec_str (reg_count r))" using w(3) digits_of_digits by (auto simp: dec_str_def)
    then have "list_all plain_char (reg_prefix r)" "list_all plain_char (dec_str (reg_count r))"
      using w(2) char_classes(1,2) plain_word by (auto simp: list_all_iff)
    then show ?thesis using w(1)
      by (simp add: wf_name_def plain_line_def render_reg_def token_simps plain_words)
  qed
  have its: "plain_line (render_item it)" if "it \<in> set (items p)" for it
    using assms that plain_items by (auto simp: wf_ptx_def list_all_iff)
  have "plain_line '')''" "plain_line ''{''" "plain_line ''}''"
    by (simp_all add: plain_line_def token_simps)
  with h ps rs its show ?thesis by (auto simp: render_lines_def list_all_iff)
qed

definition first_item_line :: "ptx_program \<Rightarrow> nat" where
  "first_item_line p = 4 + length (parameters p) + length (reg_decls p)"

lemma parse_render_lines:
  assumes "wf_ptx p"
  shows "parse_lines 1 (render_lines p) parse_init =
    \<lparr>ps_kernel = kernel_name p, ps_params = parameters p, ps_regs = reg_decls p,
     ps_items = map2 place (items p) [first_item_line p ..< first_item_line p + length (items p)],
     ps_in_body = False\<rparr>"
proof -
  have wf: "wf_name (kernel_name p)" "list_all (\<lambda>q. wf_name (par_name q) \<and> wf_name (par_dtype q)) (parameters p)"
    "list_all (\<lambda>r. wf_name (reg_dtype r) \<and> reg_prefix r \<noteq> [] \<and> list_all is_alpha (reg_prefix r) \<and>
       0 \<le> reg_count r) (reg_decls p)" "list_all wf_item (items p)"
    using assms by (auto simp: wf_ptx_def)
  have k: "kernel_name p \<noteq> []" using wf(1) by (simp add: wf_name_def)
  let ?n = "Suc (Suc (length (parameters p)))"
  have brace: "plain_line '')''" "plain_line ''{''" "plain_line ''}''"
    by (simp_all add: plain_line_def token_simps)
  have np: "rx_search PARAM_RE '')'' = None" "rx_search PARAM_RE ''{'' = None" "rx_search PARAM_RE ''}'' = None"
    by (simp_all add: PARAM_RE_def token_simps)
  let ?s1 = "parse_init\<lparr>ps_kernel := kernel_name p\<rparr>"
  let ?s2 = "?s1\<lparr>ps_params := parameters p\<rparr>"
  let ?s3 = "?s2\<lparr>ps_in_body := True\<rparr>"
  let ?s4 = "?s3\<lparr>ps_regs := reg_decls p\<rparr>"
  let ?s5 = "?s4\<lparr>ps_items := map2 place (items p) [first_item_line p ..< first_item_line p + length (items p)]\<rparr>"
  have 1: "parse_line 1 (''.visible .entry '' @ kernel_name p @ ''('') parse_init = ?s1"
    by (rule parse_header [OF wf(1)])
  have 2: "parse_lines 2 (map render_param (parameters p)) ?s1 = ?s2"
    using parse_params [OF wf(2), of ?s1 2] k by (simp add: parse_init_def)
  have 3: "parse_lines ?n ['')'', ''{''] ?s2 = ?s3"
    using k np by (simp add: parse_line_named [OF brace(1)] parse_line_named [OF brace(2)] parse_init_def)
  have 4: "parse_lines (Suc (Suc ?n)) (map render_reg (reg_decls p)) ?s3 = ?s4"
    using parse_regs [OF wf(3), of ?s3 "Suc (Suc ?n)"] k by (simp add: parse_init_def)
  have 5: "parse_lines (Suc (Suc ?n) + length (reg_decls p)) (map render_item (items p)) ?s4 = ?s5"
  proof -
    have eq: "Suc (Suc ?n) + length (reg_decls p) = first_item_line p" by (simp add: first_item_line_def)
    show ?thesis
      unfolding eq using parse_items [OF wf(4), of ?s4 "first_item_line p"] k
      by (simp add: parse_init_def)
  qed
  have 6: "parse_line m ''}'' ?s5 = ?s5\<lparr>ps_in_body := False\<rparr>" for m
    using k np by (simp add: parse_line_named [OF brace(3)] parse_init_def)
  have "parse_lines 1 (render_lines p) parse_init =
      parse_lines (Suc (Suc ?n)) (map render_reg (reg_decls p) @ map render_item (items p) @ [''}'']) ?s3"
    using 1 2 3 by (simp add: render_lines_def parse_lines_append numeral_2_eq_2)
  also have "\<dots> = ?s5\<lparr>ps_in_body := False\<rparr>"
    using 4 5 6 by (simp add: parse_lines_append)
  finally show ?thesis by (simp add: parse_init_def)
qed

section \<open>Properties\<close>

text \<open>
  C11. The parser reads back every well-formed kernel: printed with one declaration, label or
  instruction to a line, a program parses to itself, each instruction with the number of the line
  it is printed on.
\<close>

theorem parse_ptx_round_trip:
  assumes "wf_ptx p"
  shows "parse_ptx (render p) = Inr (p\<lparr>items :=
    map2 place (items p) [first_item_line p ..< first_item_line p + length (items p)]\<rparr>)"
proof -
  have "splitlines (render p) = render_lines p"
    unfolding render_def by (rule splitlines_lines [OF plain_render_lines [OF assms]])
  moreover have "kernel_name p \<noteq> []" using assms by (simp add: wf_ptx_def wf_name_def)
  ultimately show ?thesis
    using parse_render_lines [OF assms] by (cases p) (simp add: parse_ptx_def)
qed

definition sample_kernel :: ptx_program where
  "sample_kernel = \<lparr>kernel_name = ''axpy'',
     parameters = [\<lparr>par_name = ''x'', par_dtype = ''u64''\<rparr>],
     reg_decls = [\<lparr>reg_prefix = ''r'', reg_dtype = ''b32'', reg_count = 12\<rparr>],
     items = [Inst (PTXInstruction ''ld.param.u64'' [''%rd1'', ''[x]'']),
       Label ''$L_0'',
       Inst ((PTXInstruction ''bra'' [''$L_0''])\<lparr>pi_predicate := Some ''p1'', pi_negated := True\<rparr>),
       Inst (PTXInstruction ''ret'' [])]\<rparr>"

theorem parse_ptx_round_trip_witness:
  "\<exists>p. parse_ptx (render sample_kernel) = Inr p \<and> length (items p) = 4 \<and>
    reg_decls p = reg_decls sample_kernel \<and> items p ! 1 = Label ''$L_0''"
proof -
  have "wf_ptx sample_kernel" by code_simp
  from parse_ptx_round_trip [OF this] show ?thesis
    by (simp add: sample_kernel_def place_def upt_conv_Cons)
qed

end
