(* ===== verification/Helpers.thy ===== *)
theory Helpers
  imports Ptx
begin

text \<open>
  \<open>passes/_helpers.py\<close>: which register an instruction defines and which it reads, which
  instructions have effects beyond their result, and constant values. Python's binary floating
  point is a parameter, as in the simulator.
\<close>

section \<open>Constants\<close>

definition PURE_RESULT_OPERAND_COUNTS :: "(string \<times> nat) list" where
  "PURE_RESULT_OPERAND_COUNTS =
     [(''add'', 3), (''and'', 3), (''cvt'', 2), (''mad'', 4), (''mov'', 2), (''mul'', 3), (''or'', 3),
      (''shl'', 3), (''shr'', 3), (''sub'', 3), (''xor'', 3)]"

definition PURE_RESULT_BASES :: "string list" where
  "PURE_RESULT_BASES = map fst PURE_RESULT_OPERAND_COUNTS"

definition DESTINATION_BASES :: "string list" where
  "DESTINATION_BASES = PURE_RESULT_BASES @ [''ld'', ''setp'']"

definition SIDE_EFFECTING_BASES :: "string list" where
  "SIDE_EFFECTING_BASES = [''ld'', ''st'', ''bra'', ''ret'', ''setp'', ''atom'', ''call'']"

definition INT32_TYPES :: "string list" where
  "INT32_TYPES = [''b32'', ''s32'', ''u32'']"

definition LOCAL_CONSTANT_FOLD_BASES :: "string list" where
  "LOCAL_CONSTANT_FOLD_BASES = [''add'', ''mov'', ''mul'', ''sub'']"

section \<open>Registers of an instruction\<close>

definition opcode_parts :: "ptx_instruction \<Rightarrow> string list" where
  "opcode_parts inst = split_on CHR ''.'' (pi_opcode inst)"

definition opcode_base :: "ptx_instruction \<Rightarrow> string" where
  "opcode_base inst = before_first CHR ''.'' (pi_opcode inst)"

text \<open>\<open>_SIDE_EFFECTING_MODIFIERS.intersection(opcode_parts[1:])\<close>, with the single modifier \<open>cc\<close>.\<close>

definition has_cc :: "ptx_instruction \<Rightarrow> bool" where
  "has_cc inst \<longleftrightarrow> ''cc'' \<in> set (tl (opcode_parts inst))"

definition destination_register :: "ptx_instruction \<Rightarrow> string option" where
  "destination_register inst =
     (case pi_operands inst of
        [] \<Rightarrow> None
      | op0 # _ \<Rightarrow>
          if opcode_base inst \<notin> set DESTINATION_BASES then None
          else (let d = strip op0 in if is_reg_token d then Some d else None))"

definition predicate_reads :: "ptx_instruction \<Rightarrow> string list" where
  "predicate_reads inst = (case pi_predicate inst of
     None \<Rightarrow> []
   | Some p \<Rightarrow> (let q = strip p in [if startswith q ''%'' then q else CHR ''%'' # q]))"

definition source_operands :: "ptx_instruction \<Rightarrow> string list" where
  "source_operands inst =
     (if opcode_base inst \<in> set DESTINATION_BASES \<and> pi_operands inst \<noteq> [] then tl (pi_operands inst)
      else pi_operands inst)"

definition instruction_read_registers :: "ptx_instruction \<Rightarrow> string set" where
  "instruction_read_registers inst =
     set (predicate_reads inst @ concat (map find_regs (source_operands inst)))"

definition item_reads :: "item \<Rightarrow> string set" where
  "item_reads it = (case it of Label _ \<Rightarrow> {} | Inst i \<Rightarrow> instruction_read_registers i)"

definition collect_read_registers :: "item list \<Rightarrow> string set" where
  "collect_read_registers its = (\<Union>it \<in> set its. item_reads it)"

text \<open>The counter counts the instructions that read a register: each adds a set.\<close>

definition collect_read_register_counts :: "item list \<Rightarrow> string \<Rightarrow> nat" where
  "collect_read_register_counts its r = length (filter (\<lambda>it. r \<in> item_reads it) its)"

text \<open>\<open>".cc" in opcode\<close>.\<close>

fun has_substring :: "string \<Rightarrow> string \<Rightarrow> bool" where
  "has_substring [] p \<longleftrightarrow> p = []"
| "has_substring (c # cs) p \<longleftrightarrow> startswith (c # cs) p \<or> has_substring cs p"

definition is_side_effecting :: "ptx_instruction \<Rightarrow> bool" where
  "is_side_effecting inst =
     (if pi_predicate inst \<noteq> None then True
      else if has_substring (pi_opcode inst) ''.cc'' \<or> ''cc'' \<in> set (tl (opcode_parts inst)) then True
      else if opcode_base inst \<in> set SIDE_EFFECTING_BASES then True
      else if opcode_base inst = ''setp'' then True
      else if (case destination_register inst of None \<Rightarrow> False | Some d \<Rightarrow> startswith d ''%p'') then True
      else if ''pred'' \<in> set (opcode_parts inst) then True
      else opcode_base inst \<notin> set PURE_RESULT_BASES)"

section \<open>Constant values\<close>

type_synonym known_const = "string \<times> int"

definition constant_type_matches :: "string \<Rightarrow> string \<Rightarrow> bool" where
  "constant_type_matches known requested =
     (if requested = ''f32'' then known = ''f32''
      else if requested \<in> set INT32_TYPES then known \<in> set INT32_TYPES
      else known = requested)"

definition mask32 :: "int \<Rightarrow> int" where
  "mask32 v = v mod 2 ^ 32"

definition coerce_constant_value :: "int \<Rightarrow> string \<Rightarrow> int" where
  "coerce_constant_value value ptx_type =
     (if ptx_type \<in> set INT32_TYPES \<or> ptx_type = ''f32'' then mask32 value else value)"

definition parse_immediate_constant :: "string \<Rightarrow> string \<Rightarrow> known_const option" where
  "parse_immediate_constant token0 ptx_type =
     (let token = strip token0 in
      if ptx_type = ''f32'' then
        (if \<not> startswith token ''0f'' then None
         else map_option (\<lambda>v. (''f32'', mask32 v)) (py_int 16 (drop 2 token)))
      else if ptx_type \<in> set INT32_TYPES then
        (if startswith token ''0f'' then None
         else map_option (\<lambda>v. (ptx_type, mask32 v)) (py_int 0 token))
      else None)"

definition resolve_constant ::
    "string \<Rightarrow> string \<Rightarrow> (string \<rightharpoonup> known_const) \<Rightarrow> known_const option" where
  "resolve_constant operand0 ptx_type constants =
     (let operand = strip operand0 in
      if is_reg_token operand then
        (case constants operand of
           None \<Rightarrow> None
         | Some known \<Rightarrow>
             if \<not> constant_type_matches (fst known) ptx_type then None
             else Some (ptx_type, coerce_constant_value (snd known) ptx_type))
      else parse_immediate_constant operand ptx_type)"

text \<open>\<open>None\<close> is the \<open>ValueError\<close> of another operation.\<close>

definition evaluate_u32 :: "string \<Rightarrow> int \<Rightarrow> int \<Rightarrow> int option" where
  "evaluate_u32 base lhs rhs =
     (if base = ''add'' then Some (mask32 (lhs + rhs))
      else if base = ''sub'' then Some (mask32 (lhs - rhs))
      else if base = ''mul'' then Some (mask32 (lhs * rhs))
      else None)"

text \<open>
  Python's floats: conversions of bit patterns, addition, multiplication and \<open>math.isfinite\<close>;
  \<open>pack32\<close> is \<open>None\<close> where packing overflows.
\<close>

record 'f pyfloat =
  unpack32 :: "int \<Rightarrow> 'f"
  pack32 :: "'f \<Rightarrow> int option"
  f_add :: "'f \<Rightarrow> 'f \<Rightarrow> 'f"
  f_mul :: "'f \<Rightarrow> 'f \<Rightarrow> 'f"
  f_finite :: "'f \<Rightarrow> bool"

definition scalar_bits_to_f32 :: "'f pyfloat \<Rightarrow> int \<Rightarrow> 'f" where
  "scalar_bits_to_f32 fl bits = unpack32 fl (mask32 bits)"

definition evaluate_f32 :: "'f pyfloat \<Rightarrow> string \<Rightarrow> int \<Rightarrow> int \<Rightarrow> int option" where
  "evaluate_f32 fl base lhs_bits rhs_bits =
     (let lhs = scalar_bits_to_f32 fl lhs_bits; rhs = scalar_bits_to_f32 fl rhs_bits in
      case (if base = ''add'' then Some (f_add fl lhs rhs)
            else if base = ''mul'' then Some (f_mul fl lhs rhs) else None) of
        None \<Rightarrow> None
      | Some value \<Rightarrow> if \<not> f_finite fl value then None else pack32 fl value)"

definition format_constant :: "known_const \<Rightarrow> string" where
  "format_constant known =
     (if fst known = ''f32'' then ''0f'' @ hex_pad 8 (mask32 (snd known)) else dec_str (mask32 (snd known)))"

text \<open>\<open>_strip_brackets\<close> of \<open>legacy_lowering.py\<close>; the analyses spell it out inline.\<close>

definition strip_brackets :: "string \<Rightarrow> string" where
  "strip_brackets token0 =
     (let token = strip token0 in
      if startswith token ''['' \<and> endswith token '']'' then strip (butlast (drop 1 token)) else token)"

definition is_immediate :: "string \<Rightarrow> bool" where
  "is_immediate operand0 =
     (let operand = strip operand0 in
      if startswith operand ''0f'' \<or> startswith operand ''0x'' then True
      else if startswith operand ''-'' then str_isdigit (drop 1 operand)
      else str_isdigit operand)"

section \<open>Pass results\<close>

text \<open>What a pass reports: the entries of its \<open>details\<close> dictionary, and what it invalidates.\<close>

datatype detail = DInt int | DStr string | DStrs "string list" | DBool bool

record pass_result =
  pr_changed :: bool
  pr_details :: "(string \<times> detail) list"
  pr_invalidated :: "string list"

definition unchanged_result :: "(string \<times> detail) list \<Rightarrow> pass_result" where
  "unchanged_result ds = \<lparr>pr_changed = False, pr_details = ds, pr_invalidated = []\<rparr>"

definition changed_result :: "(string \<times> detail) list \<Rightarrow> pass_result" where
  "changed_result ds = \<lparr>pr_changed = True, pr_details = ds, pr_invalidated = [''cfg'', ''uniformity'']\<rparr>"

section \<open>Facts shared by the passes\<close>

lemma base_is_hd: "opcode_base inst = hd (opcode_parts inst)"
  by (simp add: opcode_base_def opcode_parts_def hd_split_on)

lemma destination_in_bases:
  "destination_register inst = Some d \<Longrightarrow> opcode_base inst \<in> set DESTINATION_BASES \<and> is_reg_token d \<and>
    pi_operands inst \<noteq> [] \<and> d = strip (hd (pi_operands inst))"
  by (auto simp: destination_register_def Let_def split: list.splits if_splits)

lemma collect_reads_counts:
  "r \<in> collect_read_registers its \<longleftrightarrow> collect_read_register_counts its r \<noteq> 0"
  by (auto simp: collect_read_registers_def collect_read_register_counts_def filter_empty_conv)

end
