(* ===== verification/Ptx_Sem.thy ===== *)
theory Ptx_Sem
  imports Helpers
begin

text \<open>
  A reference semantics of PTX kernels for the passes that rewrite them, parametric in everything
  the sources do not define: what the pure operations other than the folded ones compute, and what
  memory, control and predicate instructions do. An instruction sees the values of the registers it
  reads, so two instructions with the same text and the same register values do the same.
\<close>

section \<open>Operands\<close>

text \<open>\<open>_parse_immediate\<close> of \<open>legacy_lowering.py\<close>: the value the compiled program loads.\<close>

definition parse_immediate :: "string \<Rightarrow> int option" where
  "parse_immediate token0 =
     (let token = strip token0 in
      if startswith token ''0f'' then py_int 16 (drop 2 token)
      else if startswith token ''0x'' then py_int 16 token
      else py_int 10 token)"

text \<open>
  An operand is a register, a 32-bit immediate, or other text (an address, a special register, a
  label) in which register names stand for their values.
\<close>

datatype operand_value = Value int | Text string "int list"

definition text_template :: "string \<Rightarrow> string" where
  "text_template s = sub_regs (\<lambda>_. ''%'') s"

definition operand_value :: "(string \<Rightarrow> int) \<Rightarrow> string \<Rightarrow> operand_value" where
  "operand_value env op0 =
     (let op = strip op0 in
      if is_reg_token op then Value (env op)
      else (case parse_immediate op of
              Some n \<Rightarrow> if find_regs op = [] then Value (mask32 n) else Text (text_template op) (map env (find_regs op))
            | None \<Rightarrow> Text (text_template op) (map env (find_regs op))))"

lemma parse_immediate_strip [simp]: "parse_immediate (strip op) = parse_immediate op"
  by (simp add: parse_immediate_def)

lemma operand_value_strip [simp]: "operand_value e (strip op) = operand_value e op"
  by (simp add: operand_value_def)

section \<open>Machines\<close>

datatype 'm outcome = Next int 'm | Jump string 'm | Exit 'm | Fault

record ('f, 'm) ptx_machine =
  fl :: "'f pyfloat"
  pure_other :: "string \<Rightarrow> operand_value list \<Rightarrow> int"
  other_op :: "string \<Rightarrow> operand_value list \<Rightarrow> 'm \<Rightarrow> 'm outcome"

record 'm pstate =
  env :: "string \<Rightarrow> int"
  pmemory :: 'm

text \<open>
  The pure operations: 32-bit moves, \<open>u32\<close> arithmetic modulo \<open>2 ^ 32\<close>, finite \<open>f32\<close> sums and
  products; every other pure operation is the machine's.
\<close>

definition pure_value :: "('f, 'm) ptx_machine \<Rightarrow> string \<Rightarrow> operand_value list \<Rightarrow> int" where
  "pure_value M opc vs =
     (case vs of
        [Value v] \<Rightarrow>
          if opc \<in> {''mov.u32'', ''mov.s32'', ''mov.b32'', ''mov.f32''} then mask32 v
          else pure_other M opc vs
      | [Value a, Value b] \<Rightarrow>
          (if opc = ''add.u32'' then mask32 (a + b)
           else if opc = ''sub.u32'' then mask32 (a - b)
           else if opc = ''mul.u32'' then mask32 (a * b)
           else if opc = ''add.f32'' then
             (case evaluate_f32 (fl M) ''add'' a b of Some v \<Rightarrow> mask32 v | None \<Rightarrow> pure_other M opc vs)
           else if opc = ''mul.f32'' then
             (case evaluate_f32 (fl M) ''mul'' a b of Some v \<Rightarrow> mask32 v | None \<Rightarrow> pure_other M opc vs)
           else pure_other M opc vs)
      | _ \<Rightarrow> pure_other M opc vs)"

text \<open>An instruction whose only effect is its result: a pure opcode, well formed, without carry.\<close>

definition pure_dest :: "ptx_instruction \<Rightarrow> string option" where
  "pure_dest i =
     (if has_cc i then None
      else (case map_of PURE_RESULT_OPERAND_COUNTS (opcode_base i) of
              None \<Rightarrow> None
            | Some n \<Rightarrow> if length (pi_operands i) = n then destination_register i else None))"

definition guard_holds :: "ptx_instruction \<Rightarrow> (string \<Rightarrow> int) \<Rightarrow> bool" where
  "guard_holds i e = (case predicate_reads i of
     [] \<Rightarrow> True
   | q # _ \<Rightarrow> (if pi_negated i then e q = 0 else e q \<noteq> 0))"

definition source_values :: "ptx_instruction \<Rightarrow> (string \<Rightarrow> int) \<Rightarrow> operand_value list" where
  "source_values i e = map (operand_value e) (source_operands i)"

definition set_dest :: "string option \<Rightarrow> int \<Rightarrow> (string \<Rightarrow> int) \<Rightarrow> string \<Rightarrow> int" where
  "set_dest d v e = (case d of None \<Rightarrow> e | Some r \<Rightarrow> e(r := v))"

definition inst_outcome :: "('f, 'm) ptx_machine \<Rightarrow> ptx_instruction \<Rightarrow> 'm pstate \<Rightarrow> 'm outcome" where
  "inst_outcome M i st =
     (if pure_dest i \<noteq> None then Next (pure_value M (pi_opcode i) (source_values i (env st))) (pmemory st)
      else other_op M (pi_opcode i) (source_values i (env st)) (pmemory st))"

section \<open>Programs\<close>

datatype 'm run_result = Finished "'m pstate" | OutOfFuel "'m pstate" | BadLabel string | Faulted

text \<open>The code after the last definition of a label.\<close>

fun after_label :: "item list \<Rightarrow> string \<Rightarrow> item list option" where
  "after_label [] l = None"
| "after_label (it # its) l =
     (case after_label its l of
        Some r \<Rightarrow> Some r
      | None \<Rightarrow> if it = Label l then Some its else None)"

text \<open>The fuel bounds the taken jumps; straight-line code needs none.\<close>

function exec ::
    "('f, 'm) ptx_machine \<Rightarrow> item list \<Rightarrow> nat \<Rightarrow> item list \<Rightarrow> 'm pstate \<Rightarrow> 'm run_result" where
  "exec M p k [] st = Finished st"
| "exec M p k (Label l # rest) st = exec M p k rest st"
| "exec M p k (Inst i # rest) st =
     (if \<not> guard_holds i (env st) then exec M p k rest st
      else (case inst_outcome M i st of
              Next v m \<Rightarrow>
                exec M p k rest \<lparr>env = set_dest (destination_register i) v (env st), pmemory = m\<rparr>
            | Jump l m \<Rightarrow>
                (case k of
                   0 \<Rightarrow> OutOfFuel \<lparr>env = env st, pmemory = m\<rparr>
                 | Suc k' \<Rightarrow>
                     (case after_label p l of
                        None \<Rightarrow> BadLabel l
                      | Some rest' \<Rightarrow> exec M p k' rest' \<lparr>env = env st, pmemory = m\<rparr>))
            | Exit m \<Rightarrow> Finished \<lparr>env = env st, pmemory = m\<rparr>
            | Fault \<Rightarrow> Faulted))"
  by pat_completeness auto
termination
  by (relation "measures [\<lambda>(M, p, k, rest, st). k, \<lambda>(M, p, k, rest, st). length rest]") auto

definition run_kernel ::
    "('f, 'm) ptx_machine \<Rightarrow> nat \<Rightarrow> item list \<Rightarrow> 'm pstate \<Rightarrow> 'm run_result" where
  "run_kernel M k p st = exec M p k p st"

section \<open>What an instruction depends on\<close>

text \<open>Stripping keeps the register names of an operand.\<close>

lemma match_reg_space: "is_space c \<Longrightarrow> match_reg (c # s) = None"
  by (auto simp: match_reg_def reg_class_def startswith_def is_space_def)

lemma find_regs_lstrip: "find_regs (lstrip s) = find_regs s"
proof (induction s)
  case (Cons c cs)
  then show ?case
    by (cases "is_space c") (auto simp: lstrip_def find_regs.simps [of "c # cs"] match_reg_space)
qed (simp add: lstrip_def)

lemma startswith_spaces:
  "list_all is_space w \<Longrightarrow> list_all (\<lambda>c. \<not> is_space c) p \<Longrightarrow> startswith (s @ w) p = startswith s p"
proof (induction p arbitrary: s)
  case (Cons c p)
  show ?case
  proof (cases s)
    case Nil
    with Cons.prems show ?thesis by (cases w) (auto simp: startswith_def)
  next
    case (Cons d s')
    with Cons.IH [of s'] Cons.prems show ?thesis by (simp add: startswith_def)
  qed
qed (simp add: startswith_def)

lemma reg_class_length: "reg_class s = Some k \<Longrightarrow> k \<le> length s"
  by (auto simp: reg_class_def startswith_def split: if_split_asm dest!: arg_cong [where f = length])

lemma digit_not_space: "is_digit c \<Longrightarrow> \<not> is_space c"
  by (auto simp: is_digit_def is_space_def Let_def)

lemma match_reg_spaces:
  assumes "list_all is_space w"
  shows "match_reg (s @ w) = map_option (\<lambda>(m, r). (m, r @ w)) (match_reg s)"
proof -
  have c: "reg_class (s @ w) = reg_class s"
    unfolding reg_class_def using assms by (simp add: startswith_spaces is_space_def)
  show ?thesis
  proof (cases "reg_class s")
    case (Some k)
    have w: "takeWhile is_digit w = []" "dropWhile is_digit w = w"
      using assms digit_not_space by (cases w; auto)+
    have "takeWhile is_digit (x @ w) = takeWhile is_digit x" "dropWhile is_digit (x @ w) = dropWhile is_digit x @ w" for x
      using w by (induction x) auto
    then show ?thesis using reg_class_length [OF Some] by (simp add: match_reg_def c Some)
  qed (simp add: match_reg_def c)
qed

lemma find_regs_spaces: "list_all is_space w \<Longrightarrow> find_regs w = []"
  by (induction w) (auto simp: find_regs.simps match_reg_space)

lemma find_regs_trailing: "list_all is_space w \<Longrightarrow> find_regs (s @ w) = find_regs s"
proof (induction s rule: find_regs.induct)
  case (1 s)
  show ?case
  proof (cases s)
    case Nil
    with 1 show ?thesis by (simp add: find_regs_spaces)
  next
    case (Cons c cs)
    with 1 show ?thesis
      using match_reg_spaces [OF "1.prems", of "c # cs"]
      by (simp add: find_regs.simps [of "c # cs"] find_regs.simps [of "c # cs @ w"] split: option.split)
  qed
qed

lemma strip_suffix: "\<exists>w. list_all is_space w \<and> lstrip s = strip s @ w"
proof -
  let ?l = "lstrip s"
  have "rev ?l = takeWhile is_space (rev ?l) @ dropWhile is_space (rev ?l)" by simp
  then have "?l = rev (dropWhile is_space (rev ?l)) @ rev (takeWhile is_space (rev ?l))"
    by (metis rev_append rev_rev_ident)
  moreover have "list_all is_space (rev (takeWhile is_space (rev ?l)))"
    by (auto simp: list_all_iff dest: set_takeWhileD)
  ultimately show ?thesis unfolding strip_def rstrip_def by blast
qed

lemma find_regs_strip [simp]: "find_regs (strip s) = find_regs s"
  using strip_suffix [of s] find_regs_trailing [of _ "strip s"] find_regs_lstrip [of s] by auto

lemma find_regs_strip_token: "is_reg_token (strip op) \<Longrightarrow> find_regs op = [strip op]"
  using find_regs_token [of "strip op"] by simp

lemma operand_value_agree:
  assumes "\<And>r. r \<in> set (find_regs op) \<Longrightarrow> e r = e' r"
  shows "operand_value e op = operand_value e' op"
proof -
  have "map e (find_regs op) = map e' (find_regs op)" using assms by simp
  then show ?thesis
    using assms find_regs_strip_token [of op] by (auto simp: operand_value_def Let_def split: option.split)
qed

section \<open>Frames\<close>

text \<open>States that differ only in the registers of a set.\<close>

definition agree_off :: "string set \<Rightarrow> (string \<Rightarrow> int) \<Rightarrow> (string \<Rightarrow> int) \<Rightarrow> bool" where
  "agree_off D e e' \<longleftrightarrow> (\<forall>r. r \<notin> D \<longrightarrow> e r = e' r)"

lemma agree_off_refl [simp]: "agree_off D e e"
  by (simp add: agree_off_def)

lemma agree_off_set: "agree_off D e e' \<Longrightarrow> agree_off D (set_dest d v e) (set_dest d v e')"
  by (auto simp: agree_off_def set_dest_def split: option.splits)

lemma agree_off_dead: "agree_off D e e' \<Longrightarrow> d \<in> D \<Longrightarrow> agree_off D (set_dest (Some d) v e) e'"
  by (auto simp: agree_off_def set_dest_def)

lemma source_values_agree:
  assumes "agree_off D e e'" "instruction_read_registers i \<inter> D = {}"
  shows "source_values i e = source_values i e'"
  unfolding source_values_def
proof (rule map_cong [OF refl])
  fix op assume "op \<in> set (source_operands i)"
  then have "set (find_regs op) \<subseteq> instruction_read_registers i"
    by (auto simp: instruction_read_registers_def)
  with assms show "operand_value e op = operand_value e' op"
    by (intro operand_value_agree) (auto simp: agree_off_def)
qed

lemma guard_agree:
  assumes "agree_off D e e'" "instruction_read_registers i \<inter> D = {}"
  shows "guard_holds i e = guard_holds i e'"
proof (cases "predicate_reads i")
  case (Cons q qs)
  then have "q \<in> instruction_read_registers i" by (simp add: instruction_read_registers_def)
  with assms have "e q = e' q" by (auto simp: agree_off_def)
  with Cons show ?thesis by (simp add: guard_holds_def)
qed (simp add: guard_holds_def)

definition same_result :: "string set \<Rightarrow> 'm run_result \<Rightarrow> 'm run_result \<Rightarrow> bool" where
  "same_result D r r' \<longleftrightarrow>
     (case (r, r') of
        (Finished s, Finished t) \<Rightarrow> agree_off D (env s) (env t) \<and> pmemory s = pmemory t
      | (OutOfFuel s, OutOfFuel t) \<Rightarrow> agree_off D (env s) (env t) \<and> pmemory s = pmemory t
      | _ \<Rightarrow> r = r')"

lemma pure_dest_Some:
  "pure_dest i = Some d \<Longrightarrow> destination_register i = Some d \<and> \<not> has_cc i \<and>
    opcode_base i \<in> set PURE_RESULT_BASES"
  by (auto simp: pure_dest_def PURE_RESULT_BASES_def split: if_splits option.splits
      dest!: map_of_SomeD intro!: image_eqI)

lemma after_label_filter:
  assumes "\<And>l. keep (Label l)"
  shows "after_label (filter keep its) l = map_option (filter keep) (after_label its l)"
  using assms by (induction its) (auto split: option.splits)

lemma after_label_set: "after_label its l = Some r \<Longrightarrow> set r \<subseteq> set its"
  by (induction its) (auto split: option.splits if_splits)

end
