(* ===== verification/Dead_Code.thy ===== *)
theory Dead_Code
  imports Ptx_Sem
begin

text \<open>
  The two passes that remove dead results: conservative dead result elimination
  (\<open>passes/local_scalar.py\<close>) and worklist-based dead code elimination (\<open>passes/global_dce.py\<close>).
  Both delete pure instructions whose destination nobody reads; the locale \<open>dead_removal\<close> states
  that shape once, and the runs of the program before and after agree.
\<close>

section \<open>Removing dead results\<close>

text \<open>
  \<open>D\<close> are the dead registers: what is removed only writes them, what stays does not read them.
\<close>

locale dead_removal =
  fixes p :: "item list" and keep :: "item \<Rightarrow> bool" and D :: "string set"
  assumes keep_label: "keep (Label l)"
    and removed: "Inst i \<in> set p \<Longrightarrow> \<not> keep (Inst i) \<Longrightarrow>
      predicate_reads i = [] \<and> (\<exists>d \<in> D. pure_dest i = Some d)"
    and kept: "Inst i \<in> set p \<Longrightarrow> keep (Inst i) \<Longrightarrow> instruction_read_registers i \<inter> D = {}"
begin

lemma outcome_agree:
  assumes "Inst i \<in> set p" "keep (Inst i)" "agree_off D (env st) (env st')" "pmemory st = pmemory st'"
  shows "inst_outcome M i st = inst_outcome M i st'"
  using assms source_values_agree [OF assms(3) kept [OF assms(1,2)]] by (simp add: inst_outcome_def)

end

text \<open>
  The run of the remaining program, by induction over the run: a removed instruction changes a dead
  register only, every other instruction sees the same values.
\<close>

lemma exec_dead_removal:
  assumes "dead_removal p keep D" "set rest \<subseteq> set p" "agree_off D (env st) (env st')"
    "pmemory st = pmemory st'"
  shows "same_result D (exec M p k rest st) (exec M (filter keep p) k (filter keep rest) st')"
  using assms
proof (induction M p k rest st arbitrary: st' rule: exec.induct)
  case (1 M p k st)
  then show ?case by (simp add: same_result_def)
next
  case (2 M p k l rest st)
  then show ?case by (simp add: dead_removal.keep_label)
next
  case (3 M p k i rest st)
  note removed = dead_removal.removed [OF "3.prems"(1)] and kept = dead_removal.kept [OF "3.prems"(1)]
    and keep_label = dead_removal.keep_label [OF "3.prems"(1)]
  have i: "Inst i \<in> set p" and rest: "set rest \<subseteq> set p" using "3.prems"(2) by auto
  note agr = "3.prems"(3,4)
  show ?case
  proof (cases "keep (Inst i)")
    case False
    from removed [OF i False] obtain d where d: "predicate_reads i = []" "d \<in> D" "pure_dest i = Some d" by blast
    have g: "guard_holds i (env st)" using d(1) by (simp add: guard_holds_def)
    let ?st = "\<lparr>env = set_dest (destination_register i) (pure_value M (pi_opcode i) (source_values i (env st))) (env st),
      pmemory = pmemory st\<rparr>"
    have out: "inst_outcome M i st = Next (pure_value M (pi_opcode i) (source_values i (env st))) (pmemory st)"
      using d(3) by (simp add: inst_outcome_def)
    have "agree_off D (env ?st) (env st')"
      using agr d pure_dest_Some [OF d(3)] by (simp add: agree_off_dead)
    then have "same_result D (exec M p k rest ?st) (exec M (filter keep p) k (filter keep rest) st')"
      using "3.IH"(2) [OF _ out "3.prems"(1) rest] g agr by simp
    then show ?thesis using False g out by simp
  next
    case True
    have same: "guard_holds i (env st) = guard_holds i (env st')"
      "inst_outcome M i st = inst_outcome M i st'"
      using guard_agree [OF agr(1) kept [OF i True]] dead_removal.outcome_agree [OF "3.prems"(1) i True agr]
      by simp_all
    show ?thesis
    proof (cases "guard_holds i (env st)")
      case False
      with "3.IH"(1) [OF _ "3.prems"(1) rest agr] True same show ?thesis by simp
    next
      case g: True
      show ?thesis
      proof (cases "inst_outcome M i st")
        case (Next v m)
        then have n: "inst_outcome M i st' = Next v m" using same(2) by simp
        let ?n = "\<lambda>s. \<lparr>env = set_dest (destination_register i) v (env s), pmemory = m\<rparr>"
        have "agree_off D (env (?n st)) (env (?n st'))" using agr(1) by (simp add: agree_off_set)
        from "3.IH"(2) [OF _ Next "3.prems"(1) rest this] g True same(1) Next n show ?thesis by simp
      next
        case (Jump l m)
        then have j: "inst_outcome M i st' = Jump l m" using same(2) by simp
        show ?thesis
        proof (cases k)
          case 0
          with Jump j g True same(1) agr show ?thesis by (simp add: same_result_def)
        next
          case (Suc k')
          show ?thesis
          proof (cases "after_label p l")
            case None
            with Suc Jump j g True same(1) show ?thesis
              by (simp add: after_label_filter keep_label same_result_def)
          next
            case (Some rest')
            have "set rest' \<subseteq> set p" by (rule after_label_set [OF Some])
            from "3.IH"(3) [OF _ Jump Suc Some "3.prems"(1) this, of "\<lparr>env = env st', pmemory = m\<rparr>"] agr Some Suc Jump j g True same(1) show ?thesis
              by (simp add: after_label_filter keep_label)
          qed
        qed
      next
        case (Exit m)
        then have "inst_outcome M i st' = Exit m" using same(2) by simp
        with Exit g True same(1) agr show ?thesis by (simp add: same_result_def)
      next
        case Fault
        then have "inst_outcome M i st' = Fault" using same(2) by simp
        with Fault g True same(1) show ?thesis by (simp add: same_result_def)
      qed
    qed
  qed
qed

context dead_removal
begin

lemma run_agree: "same_result D (run_kernel M k p st) (run_kernel M k (filter keep p) st)"
  unfolding run_kernel_def
  by (rule exec_dead_removal) (simp_all add: dead_removal_axioms)

end

section \<open>Conservative dead result elimination\<close>

definition is_removable_dead_result :: "ptx_instruction \<Rightarrow> string set \<Rightarrow> bool" where
  "is_removable_dead_result inst read_registers \<longleftrightarrow>
     (if pi_predicate inst \<noteq> None \<or> pi_operands inst = [] then False
      else (case map_of PURE_RESULT_OPERAND_COUNTS (opcode_base inst) of
              None \<Rightarrow> False
            | Some n \<Rightarrow>
                if length (pi_operands inst) \<noteq> n then False
                else if has_cc inst then False
                else (let d = strip (hd (pi_operands inst)) in
                      if \<not> is_reg_token d then False
                      else if startswith d ''%p'' then False
                      else d \<notin> read_registers)))"

definition dre_keep :: "item list \<Rightarrow> item \<Rightarrow> bool" where
  "dre_keep p it = (case it of Label _ \<Rightarrow> True
     | Inst i \<Rightarrow> \<not> is_removable_dead_result i (collect_read_registers p))"

definition dre_removed :: "item list \<Rightarrow> string list" where
  "dre_removed p = concat (map (\<lambda>it. case it of Label _ \<Rightarrow> []
     | Inst i \<Rightarrow> if dre_keep p it then [] else [strip (hd (pi_operands i))]) p)"

text \<open>\<open>ConservativeDeadResultEliminationPass.run\<close>.\<close>

definition dead_result_elimination :: "ptx_program \<Rightarrow> ptx_program \<times> pass_result" where
  "dead_result_elimination prog =
     (let removed = dre_removed (items prog);
          details = [(''removed_destinations'', DStrs (sorted_list_of_set (set removed))),
                     (''removed_instruction_count'', DInt (int (length removed))),
                     (''transforms_applied'', DInt (int (length removed)))] in
      if removed = [] then (prog, unchanged_result details)
      else (rebuild_program prog (filter (dre_keep (items prog)) (items prog)), changed_result details))"

lemma removable_pure_dest:
  assumes "is_removable_dead_result i R"
  shows "predicate_reads i = []" "pure_dest i = Some (strip (hd (pi_operands i)))"
    "strip (hd (pi_operands i)) \<notin> R" "\<not> startswith (strip (hd (pi_operands i))) ''%p''"
proof -
  let ?d = "strip (hd (pi_operands i))"
  from assms obtain n where x: "pi_predicate i = None" "pi_operands i \<noteq> []"
    "map_of PURE_RESULT_OPERAND_COUNTS (opcode_base i) = Some n" "length (pi_operands i) = n"
    "\<not> has_cc i" "is_reg_token ?d" "?d \<notin> R" "\<not> startswith ?d ''%p''"
    unfolding is_removable_dead_result_def by (auto simp: Let_def split: if_splits option.splits)
  from x(3) have "opcode_base i \<in> set PURE_RESULT_BASES"
    unfolding PURE_RESULT_BASES_def by (force dest: map_of_SomeD)
  then have "destination_register i = Some ?d"
    using x(2,6) by (cases "pi_operands i") (auto simp: destination_register_def DESTINATION_BASES_def)
  then show "predicate_reads i = []" "pure_dest i = Some ?d" "?d \<notin> R" "\<not> startswith ?d ''%p''"
    using x by (simp_all add: predicate_reads_def pure_dest_def)
qed

interpretation dre: dead_removal p "dre_keep p" "set (dre_removed p)" for p
proof
  show "dre_keep p (Label l)" for l by (simp add: dre_keep_def)
  show "predicate_reads i = [] \<and> (\<exists>d \<in> set (dre_removed p). pure_dest i = Some d)"
    if "Inst i \<in> set p" "\<not> dre_keep p (Inst i)" for i
  proof -
    have r: "is_removable_dead_result i (collect_read_registers p)" using that(2) by (simp add: dre_keep_def)
    have "strip (hd (pi_operands i)) \<in> set (dre_removed p)"
      using that by (force simp: dre_removed_def)
    with removable_pure_dest [OF r] show ?thesis by blast
  qed
  show "instruction_read_registers i \<inter> set (dre_removed p) = {}" if "Inst i \<in> set p" "dre_keep p (Inst i)" for i
  proof -
    have "d \<notin> collect_read_registers p" if "d \<in> set (dre_removed p)" for d
    proof -
      from that obtain it where "it \<in> set p" "d \<in> set (case it of Label _ \<Rightarrow> []
          | Inst i \<Rightarrow> if dre_keep p it then [] else [strip (hd (pi_operands i))])"
        by (auto simp: dre_removed_def)
      then show ?thesis
        by (cases it) (auto simp: dre_keep_def dest: removable_pure_dest(3) split: if_split_asm)
    qed
    moreover have "instruction_read_registers i \<subseteq> collect_read_registers p"
      using that(1) by (force simp: collect_read_registers_def item_reads_def)
    ultimately show ?thesis by blast
  qed
qed

lemma dre_items:
  "items (fst (dead_result_elimination prog)) = filter (dre_keep (items prog)) (items prog)"
proof (cases "dre_removed (items prog) = []")
  case True
  then have "\<forall>it \<in> set (items prog). dre_keep (items prog) it"
    by (force simp: dre_removed_def dre_keep_def split: item.split_asm if_split_asm item.split)
  with True show ?thesis by (simp add: dead_result_elimination_def Let_def)
qed (simp add: dead_result_elimination_def rebuild_program_def Let_def)

section \<open>Global dead code elimination\<close>

text \<open>\<open>def_map.get(r, ())\<close>: the indices of the instructions that define \<open>r\<close>.\<close>

definition def_indices :: "item list \<Rightarrow> string \<Rightarrow> nat list" where
  "def_indices its r = filter (\<lambda>i. case its ! i of Label _ \<Rightarrow> False
     | Inst x \<Rightarrow> destination_register x = Some r \<and> \<not> startswith r ''%p'') [0 ..< length its]"

text \<open>
  \<open>use_map[idx]\<close>. The source iterates over a set, in an order Python does not fix; the live set
  does not depend on it.
\<close>

definition use_list :: "item list \<Rightarrow> nat \<Rightarrow> string list" where
  "use_list its idx = (case its ! idx of Label _ \<Rightarrow> []
     | Inst x \<Rightarrow> remdups (predicate_reads x @ concat (map find_regs (source_operands x))))"

definition dce_successors :: "item list \<Rightarrow> nat \<Rightarrow> nat list" where
  "dce_successors its idx = concat (map (def_indices its) (use_list its idx))"

lemma dce_successors_bound: "j \<in> set (dce_successors its idx) \<Longrightarrow> j < length its"
  by (auto simp: dce_successors_def def_indices_def)

function dce_loop :: "item list \<Rightarrow> nat set \<times> nat list \<Rightarrow> nat set" where
  "dce_loop its s =
     (if snd s = [] then fst s
      else dce_loop its (mark_all (dce_successors its (last (snd s))) (fst s, butlast (snd s))))"
  by pat_completeness auto
termination
proof (relation "measure (\<lambda>(its, s). card ({..<length its} - fst s) + length (snd s))")
  fix its and s :: "nat set \<times> nat list" assume "snd s \<noteq> []"
  moreover have "set (dce_successors its (last (snd s))) \<subseteq> {..<length its}" using dce_successors_bound by auto
  ultimately show "((its, mark_all (dce_successors its (last (snd s))) (fst s, butlast (snd s))), (its, s)) \<in>
      measure (\<lambda>(its, s). card ({..<length its} - fst s) + length (snd s))"
    using mark_all_decreases [of "{..<length its}" "dce_successors its (last (snd s))" s] by simp
qed simp

declare dce_loop.simps [simp del]

definition dce_seeds :: "item list \<Rightarrow> nat list" where
  "dce_seeds its = filter (\<lambda>i. case its ! i of Label _ \<Rightarrow> False | Inst x \<Rightarrow> is_side_effecting x) [0 ..< length its]"

definition dce_live :: "item list \<Rightarrow> nat set" where
  "dce_live its = dce_loop its (mark_all (dce_seeds its) ({}, []))"

definition is_label :: "item \<Rightarrow> bool" where
  "is_label it = (case it of Label _ \<Rightarrow> True | Inst _ \<Rightarrow> False)"

text \<open>\<open>GlobalDeadCodeEliminationPass.run\<close>.\<close>

definition global_dce :: "ptx_program \<Rightarrow> ptx_program \<times> pass_result" where
  "global_dce prog =
     (let its = items prog; live = dce_live its;
          dead = filter (\<lambda>i. \<not> is_label (its ! i) \<and> i \<notin> live) [0 ..< length its] in
      if dead = [] then
        (prog, unchanged_result [(''removed_instruction_count'', DInt 0),
           (''live_count'', DInt (int (card live))), (''transforms_applied'', DInt 0)])
      else (rebuild_program prog (map ((!) its) (filter (\<lambda>i. i \<notin> set dead) [0 ..< length its])),
            changed_result [(''removed_instruction_count'', DInt (int (length dead))),
              (''live_count'', DInt (int (card live))), (''transforms_applied'', DInt (int (length dead)))]))"

text \<open>The specification of the live set: what side effects need, transitively.\<close>

inductive_set needed :: "item list \<Rightarrow> nat set" for its where
  seed: "i < length its \<Longrightarrow> its ! i = Inst x \<Longrightarrow> is_side_effecting x \<Longrightarrow> i \<in> needed its"
| dep: "i \<in> needed its \<Longrightarrow> its ! i = Inst x \<Longrightarrow> r \<in> instruction_read_registers x \<Longrightarrow>
    j < length its \<Longrightarrow> its ! j = Inst y \<Longrightarrow> destination_register y = Some r \<Longrightarrow> \<not> startswith r ''%p'' \<Longrightarrow>
    j \<in> needed its"

lemma set_dce_successors:
  "j \<in> set (dce_successors its i) \<longleftrightarrow> (\<exists>x r y. its ! i = Inst x \<and> r \<in> instruction_read_registers x \<and>
    j < length its \<and> its ! j = Inst y \<and> destination_register y = Some r \<and> \<not> startswith r ''%p'')"
  by (cases "its ! i"; cases "its ! j")
     (auto simp: dce_successors_def use_list_def def_indices_def instruction_read_registers_def)

lemma dce_loop_spec:
  assumes "fst s \<subseteq> needed its" "set (snd s) \<subseteq> fst s"
    "\<forall>i \<in> fst s. i \<in> set (snd s) \<or> set (dce_successors its i) \<subseteq> fst s"
  shows "fst s \<subseteq> dce_loop its s \<and> dce_loop its s \<subseteq> needed its \<and>
    (\<forall>i \<in> dce_loop its s. set (dce_successors its i) \<subseteq> dce_loop its s)"
  using assms
proof (induction its s rule: dce_loop.induct)
  case (1 its s)
  show ?case
  proof (cases "snd s = []")
    case True
    with 1(2-4) show ?thesis by (subst (1 2 3 4) dce_loop.simps) auto
  next
    case False
    let ?l = "last (snd s)"
    let ?s = "mark_all (dce_successors its ?l) (fst s, butlast (snd s))"
    obtain new where n: "fst ?s = fst s \<union> set (dce_successors its ?l)" "snd ?s = butlast (snd s) @ new"
      "set new = set (dce_successors its ?l) - fst s"
      using mark_all_spec [of "dce_successors its ?l" "(fst s, butlast (snd s))"] by auto
    have l: "?l \<in> fst s" using False 1(3) by auto
    have "set (dce_successors its ?l) \<subseteq> needed its"
    proof
      fix j assume "j \<in> set (dce_successors its ?l)"
      then obtain x r y where j: "its ! ?l = Inst x" "r \<in> instruction_read_registers x" "j < length its"
        "its ! j = Inst y" "destination_register y = Some r" "\<not> startswith r ''%p''"
        unfolding set_dce_successors by blast
      from l 1(2) have "?l \<in> needed its" by blast
      from this j show "j \<in> needed its" by (rule needed.dep)
    qed
    then have a: "fst ?s \<subseteq> needed its" using n(1) 1(2) by auto
    have b: "set (snd ?s) \<subseteq> fst ?s" using n 1(3) by (auto dest: in_set_butlastD)
    have snd_s: "set (snd s) = insert ?l (set (butlast (snd s)))"
      using False by (metis Un_insert_right append_butlast_last_id list.simps(15) set_append list.set(1) sup_bot_right)
    have c: "\<forall>i \<in> fst ?s. i \<in> set (snd ?s) \<or> set (dce_successors its i) \<subseteq> fst ?s"
    proof
      fix i assume "i \<in> fst ?s"
      then consider "i \<in> set new" | "i \<in> fst s" using n(1,3) by blast
      then show "i \<in> set (snd ?s) \<or> set (dce_successors its i) \<subseteq> fst ?s"
      proof cases
        case 2
        with 1(4) snd_s consider "i = ?l" | "i \<in> set (butlast (snd s))" | "set (dce_successors its i) \<subseteq> fst s"
          by blast
        then show ?thesis using n(1,2) by cases auto
      qed (simp add: n(2))
    qed
    from 1(1) [OF False a b c] n(1) False show ?thesis
      by (subst (1 2 3 4) dce_loop.simps) auto
  qed
qed

lemma dce_live_needed: "dce_live its = needed its"
proof -
  let ?s = "mark_all (dce_seeds its) ({}, [])"
  obtain new where n: "fst ?s = set (dce_seeds its)" "snd ?s = new" "set new = set (dce_seeds its)"
    using mark_all_spec [of "dce_seeds its" "({}, [])"] by auto
  have sub: "fst ?s \<subseteq> needed its"
    unfolding n(1) by (auto simp: dce_seeds_def split: item.split_asm intro: needed.seed)
  have spec: "fst ?s \<subseteq> dce_live its" "dce_live its \<subseteq> needed its"
    "\<And>i. i \<in> dce_live its \<Longrightarrow> set (dce_successors its i) \<subseteq> dce_live its"
    using dce_loop_spec [OF sub] n unfolding dce_live_def by auto
  have "i \<in> dce_live its" if "i \<in> needed its" for i
    using that
  proof induction
    case (seed i x)
    then have "i \<in> fst ?s" unfolding n(1) by (simp add: dce_seeds_def)
    with spec(1) show ?case by blast
  next
    case (dep i x r j y)
    then have "j \<in> set (dce_successors its i)" by (auto simp: set_dce_successors)
    with dep spec(3) show ?case by blast
  qed
  with spec(2) show ?thesis by blast
qed

lemma needed_inst: "i \<in> needed its \<Longrightarrow> i < length its \<and> (\<exists>x. its ! i = Inst x)"
  by (induction rule: needed.induct) auto

text \<open>Whether an instruction stays depends on its text alone.\<close>

definition dce_reads :: "item list \<Rightarrow> string set" where
  "dce_reads its = {r. \<exists>i x. i \<in> needed its \<and> its ! i = Inst x \<and> r \<in> instruction_read_registers x}"

definition dce_keep :: "item list \<Rightarrow> item \<Rightarrow> bool" where
  "dce_keep its it \<longleftrightarrow> (case it of Label _ \<Rightarrow> True
     | Inst x \<Rightarrow> is_side_effecting x \<or>
         (\<exists>d. destination_register x = Some d \<and> \<not> startswith d ''%p'' \<and> d \<in> dce_reads its))"

lemma needed_keep:
  assumes "j < length its" "its ! j = Inst y"
  shows "j \<in> needed its \<longleftrightarrow> dce_keep its (Inst y)"
proof
  assume "j \<in> needed its"
  then show "dce_keep its (Inst y)" using assms
    by (cases rule: needed.cases) (auto simp: dce_keep_def dce_reads_def)
next
  assume "dce_keep its (Inst y)"
  then show "j \<in> needed its" using assms
    by (auto simp: dce_keep_def dce_reads_def intro: needed.intros)
qed

lemma filter_upt_nth: "map ((!) xs) (filter (\<lambda>i. P (xs ! i)) [0 ..< length xs]) = filter P xs"
  by (metis comp_apply filter_cong filter_map map_nth)

lemma dce_items: "items (fst (global_dce prog)) = filter (dce_keep (items prog)) (items prog)"
proof -
  let ?its = "items prog"
  let ?dead = "filter (\<lambda>i. \<not> is_label (?its ! i) \<and> i \<notin> dce_live ?its) [0 ..< length ?its]"
  have stay: "i \<notin> set ?dead \<longleftrightarrow> dce_keep ?its (?its ! i)" if "i < length ?its" for i
    using that needed_keep [OF that]
    by (cases "?its ! i") (auto simp: is_label_def dce_live_needed dce_keep_def)
  have "filter (\<lambda>i. i \<notin> set ?dead) [0 ..< length ?its] = filter (\<lambda>i. dce_keep ?its (?its ! i)) [0 ..< length ?its]"
    using stay by (intro filter_cong) auto
  then have f: "map ((!) ?its) (filter (\<lambda>i. i \<notin> set ?dead) [0 ..< length ?its]) = filter (dce_keep ?its) ?its"
    by (simp only: filter_upt_nth)
  show ?thesis
  proof (cases "?dead = []")
    case True
    then have "filter (dce_keep ?its) ?its = ?its" using f map_nth [of ?its] by simp
    with True show ?thesis by (simp add: global_dce_def Let_def)
  next
    case False
    with f show ?thesis by (simp only: global_dce_def Let_def if_False fst_conv rebuild_program_def) simp
  qed
qed

text \<open>Every instruction without effects is well formed: no unsupported form of a pure opcode.\<close>

definition pure_wf :: "item list \<Rightarrow> bool" where
  "pure_wf its \<longleftrightarrow> (\<forall>it \<in> set its. case it of Label _ \<Rightarrow> True
     | Inst x \<Rightarrow> is_side_effecting x \<or> pure_dest x \<noteq> None)"

lemma dce_removal:
  assumes "pure_wf p"
  shows "dead_removal p (dce_keep p) (- dce_reads p)"
proof
  show "dce_keep p (Label l)" for l by (simp add: dce_keep_def)
  show "predicate_reads i = [] \<and> (\<exists>d \<in> - dce_reads p. pure_dest i = Some d)"
    if i: "Inst i \<in> set p" "\<not> dce_keep p (Inst i)" for i
  proof -
    have s: "\<not> is_side_effecting i" using i(2) by (simp add: dce_keep_def)
    with assms i(1) obtain d where d: "pure_dest i = Some d" by (force simp: pure_wf_def)
    then have dr: "destination_register i = Some d" using pure_dest_Some by blast
    then have "\<not> startswith d ''%p''" using s by (auto simp: is_side_effecting_def split: if_split_asm)
    then have "d \<notin> dce_reads p" using i(2) dr by (simp add: dce_keep_def)
    moreover have "predicate_reads i = []"
      using s by (auto simp: is_side_effecting_def predicate_reads_def split: if_split_asm)
    ultimately show ?thesis using d by blast
  qed
  show "instruction_read_registers i \<inter> - dce_reads p = {}" if i: "Inst i \<in> set p" "dce_keep p (Inst i)" for i
  proof -
    obtain j where j: "j < length p" "p ! j = Inst i" using i(1) by (auto simp: in_set_conv_nth)
    with needed_keep [OF j] i(2) have "j \<in> needed p" by simp
    with j(2) show ?thesis by (auto simp: dce_reads_def)
  qed
qed

section \<open>Properties\<close>

text \<open>
  C12. Conservative dead result elimination preserves every run: for all machines, fuels and initial
  states, the program it returns ends like the original, with the same memory and the same value in
  every register except the removed destinations, which no instruction of the original reads.
\<close>

theorem dead_result_elimination_correct:
  "same_result (set (dre_removed (items prog)))
     (run_kernel M k (items prog) st)
     (run_kernel M k (items (fst (dead_result_elimination prog))) st) \<and>
   set (dre_removed (items prog)) \<inter> collect_read_registers (items prog) = {}"
proof -
  have "d \<notin> collect_read_registers (items prog)" if "d \<in> set (dre_removed (items prog))" for d
  proof -
    from that obtain it where "it \<in> set (items prog)" "d \<in> set (case it of Label _ \<Rightarrow> []
        | Inst i \<Rightarrow> if dre_keep (items prog) it then [] else [strip (hd (pi_operands i))])"
      by (auto simp: dre_removed_def)
    then show ?thesis
      by (cases it) (auto simp: dre_keep_def dest: removable_pure_dest(3) split: if_split_asm)
  qed
  then show ?thesis using dre.run_agree unfolding dre_items by blast
qed

text \<open>
  C13. The worklist of global dead code elimination terminates with exactly the instructions that
  side effects need, directly or through definitions of the registers they read.
\<close>

theorem dce_live_is_needed: "dce_live its = needed its"
  by (rule dce_live_needed)


definition dce_sample :: ptx_program where
  "dce_sample = \<lparr>kernel_name = ''k'', parameters = [], reg_decls = [],
     items = [Inst (PTXInstruction ''mov.u32'' [''%r1'', ''7'']), Inst (PTXInstruction ''add.u32'' [''%r2'', ''%r1'', ''%r1'']),
       Inst (PTXInstruction ''add.u32'' [''%r3'', ''%r2'', ''%r2'']), Inst (PTXInstruction ''st.global.u32'' [''[%rd1]'', ''%r1'']),
       Inst (PTXInstruction ''ret'' [])]\<rparr>"

definition trace_machine :: "(int, operand_value list list) ptx_machine" where
  "trace_machine = \<lparr>fl = \<lparr>unpack32 = id, pack32 = Some, f_add = (+), f_mul = (*), f_finite = (\<lambda>_. True)\<rparr>,
     pure_other = (\<lambda>_ _. 0),
     other_op = (\<lambda>op vs m. if op = ''ret'' then Exit m else Next 0 (m @ [vs]))\<rparr>"

definition zero_state :: "'m \<Rightarrow> 'm pstate" where
  "zero_state m = \<lparr>env = (\<lambda>_. 0), pmemory = m\<rparr>"


text \<open>
  An instruction the lowering rejects (\<open>mov\<close> with three operands) is removed without a message, even
  though a store reads its result: its first operand is not a register, so nothing marks it live.
\<close>

definition vector_move :: ptx_program where
  "vector_move = \<lparr>kernel_name = ''k'', parameters = [], reg_decls = [],
     items = [Inst (PTXInstruction ''mov.b64'' [''{%r1'', ''%r2}'', ''%rd2'']),
       Inst (PTXInstruction ''st.global.u32'' [''[%rd1]'', ''%r1'']), Inst (PTXInstruction ''ret'' [])]\<rparr>"

lemma dce_drops_vector_move:
  "items (fst (global_dce vector_move)) =
    [Inst (PTXInstruction ''st.global.u32'' [''[%rd1]'', ''%r1'']), Inst (PTXInstruction ''ret'' [])]"
  by code_simp

end
