(* ===== verification/Cfg.thy ===== *)
theory Cfg
  imports Helpers "HOL-Library.While_Combinator"
begin

text \<open>
  The control-flow graph of a program, \<open>analysis/cfg.py\<close>: leaders, blocks, edges, depth-first
  order, dominators, back edges and natural loops. A Python set is a set; where the source iterates
  over one in an order Python does not fix, the model takes the sorted order.
\<close>

section \<open>Blocks and graphs\<close>

datatype cfg_error =
    DuplicateLabel string
  | DuplicateBlock string
  | BranchArity nat
  | UndefinedTarget nat string
  | NoBlocks

record basic_block =
  bb_instructions :: "ptx_instruction list"
  bb_item_indices :: "nat list"
  bb_labels :: "string list"
  bb_predecessors :: "string set"
  bb_successors :: "string set"
  bb_branch_successors :: "string set"
  bb_fallthrough :: "string option"

record natural_loop =
  nl_header :: string
  nl_tail :: string
  nl_blocks :: "string set"

record cfg =
  blocks :: "(string, basic_block) dict"
  entry :: string
  label_to_block :: "(string, string) dict"
  item_to_block :: "nat \<rightharpoonup> string"
  block_order :: "string list"

datatype terminator = ConditionalBranch | UnconditionalBranch | Return | Fallthrough

definition terminator_kind :: "ptx_instruction option \<Rightarrow> terminator" where
  "terminator_kind inst =
     (case inst of
        None \<Rightarrow> Fallthrough
      | Some i \<Rightarrow>
          if opcode_base i = ''bra'' then
            (if pi_predicate i \<noteq> None then ConditionalBranch else UnconditionalBranch)
          else if opcode_base i = ''ret'' then Return
          else Fallthrough)"

definition is_branch_kind :: "terminator \<Rightarrow> bool" where
  "is_branch_kind k \<longleftrightarrow> k = ConditionalBranch \<or> k = UnconditionalBranch"

definition block_terminator :: "basic_block \<Rightarrow> ptx_instruction option" where
  "block_terminator b =
     (if bb_instructions b = [] then None
      else if terminator_kind (Some (last (bb_instructions b))) \<noteq> Fallthrough
      then Some (last (bb_instructions b)) else None)"

section \<open>Labels and leaders\<close>

fun collect_labels_from ::
    "nat \<Rightarrow> item list \<Rightarrow> (string, nat) dict \<Rightarrow> (cfg_error, (string, nat) dict) result" where
  "collect_labels_from index [] labels = Inr labels"
| "collect_labels_from index (Label l # its) labels =
     (if has_key labels l then Inl (DuplicateLabel l)
      else collect_labels_from (Suc index) its (AList.update l index labels))"
| "collect_labels_from index (Inst i # its) labels = collect_labels_from (Suc index) its labels"

definition collect_labels :: "item list \<Rightarrow> (cfg_error, (string, nat) dict) result" where
  "collect_labels its = collect_labels_from 0 its []"

fun find_leaders_from ::
    "nat \<Rightarrow> item list \<Rightarrow> (string, nat) dict \<Rightarrow> nat set \<Rightarrow> (cfg_error, nat set) result" where
  "find_leaders_from index [] labels leaders = Inr leaders"
| "find_leaders_from index (Label l # its) labels leaders =
     find_leaders_from (Suc index) its labels (insert index leaders)"
| "find_leaders_from index (Inst i # its) labels leaders =
     (let next = (if its \<noteq> [] then {Suc index} else {}) in
      if is_branch_kind (terminator_kind (Some i)) then
        (case pi_operands i of
           [target] \<Rightarrow>
             (case map_of labels target of
                None \<Rightarrow> Inl (UndefinedTarget (pi_line i) target)
              | Some j \<Rightarrow> find_leaders_from (Suc index) its labels (leaders \<union> {j} \<union> next))
         | _ \<Rightarrow> Inl (BranchArity (pi_line i)))
      else if terminator_kind (Some i) = Return then
        find_leaders_from (Suc index) its labels (leaders \<union> next)
      else find_leaders_from (Suc index) its labels leaders)"

definition find_leaders ::
    "item list \<Rightarrow> (string, nat) dict \<Rightarrow> (cfg_error, nat set) result" where
  "find_leaders its labels = find_leaders_from 0 its labels {0}"

section \<open>Blocks\<close>

record block_build =
  cb_blocks :: "(string, basic_block) dict"
  cb_labels :: "(string, string) dict"
  cb_items :: "nat \<rightharpoonup> string"
  cb_order :: "string list"
  cb_synthetic :: nat

definition labels_between :: "item list \<Rightarrow> nat \<Rightarrow> nat \<Rightarrow> string list" where
  "labels_between its a b =
     concat (map (\<lambda>k. case its ! k of Label l \<Rightarrow> [l] | Inst _ \<Rightarrow> []) [a..<b])"

definition indices_between :: "item list \<Rightarrow> nat \<Rightarrow> nat \<Rightarrow> nat list" where
  "indices_between its a b =
     filter (\<lambda>k. case its ! k of Label _ \<Rightarrow> False | Inst _ \<Rightarrow> True) [a..<b]"

definition instructions_between :: "item list \<Rightarrow> nat \<Rightarrow> nat \<Rightarrow> ptx_instruction list" where
  "instructions_between its a b =
     concat (map (\<lambda>k. case its ! k of Label _ \<Rightarrow> [] | Inst i \<Rightarrow> [i]) [a..<b])"

definition block_name :: "nat \<Rightarrow> string list \<Rightarrow> nat \<Rightarrow> string" where
  "block_name leader labels synthetic =
     (if leader = 0 \<and> labels = [] then ''entry''
      else (case labels of l # _ \<Rightarrow> l | [] \<Rightarrow> ''block_'' @ dec_str (int synthetic)))"

definition map_labels ::
    "string \<Rightarrow> string list \<Rightarrow> (string, string) dict \<Rightarrow> (cfg_error, (string, string) dict) result" where
  "map_labels name labels m =
     foldE (\<lambda>l m. if has_key m l then Inl (DuplicateLabel l) else Inr (AList.update l name m)) labels m"

definition add_block ::
    "item list \<Rightarrow> nat \<Rightarrow> nat \<Rightarrow> block_build \<Rightarrow> (cfg_error, block_build) result" where
  "add_block its a b st =
     (let labels = labels_between its a b;
          indices = indices_between its a b;
          name = block_name a labels (cb_synthetic st) in
      if has_key (cb_blocks st) name then Inl (DuplicateBlock name)
      else
        bindE (map_labels name labels (cb_labels st)) (\<lambda>m.
          Inr \<lparr>cb_blocks = AList.update name
                 \<lparr>bb_instructions = instructions_between its a b, bb_item_indices = indices,
                  bb_labels = labels, bb_predecessors = {}, bb_successors = {},
                  bb_branch_successors = {}, bb_fallthrough = None\<rparr> (cb_blocks st),
               cb_labels = m,
               cb_items = foldl (\<lambda>f k. f(k \<mapsto> name)) (cb_items st) indices,
               cb_order = cb_order st @ [name],
               cb_synthetic =
                 (if \<not> (a = 0 \<and> labels = []) \<and> labels = [] then Suc (cb_synthetic st)
                  else cb_synthetic st)\<rparr>))"

fun add_blocks ::
    "item list \<Rightarrow> nat list \<Rightarrow> block_build \<Rightarrow> (cfg_error, block_build) result" where
  "add_blocks its [] st = Inr st"
| "add_blocks its (l # ls) st =
     bindE (add_block its l (case ls of [] \<Rightarrow> length its | e # _ \<Rightarrow> e) st) (add_blocks its ls)"

section \<open>Edges\<close>

text \<open>The edges out of one block; \<open>next\<close> is the block after it in \<open>block_order\<close>.\<close>

definition block_edges ::
    "(string, string) dict \<Rightarrow> string option \<Rightarrow> basic_block \<Rightarrow> (cfg_error, basic_block) result" where
  "block_edges labels next b =
     (let fall = b\<lparr>bb_successors := set_option next \<union> bb_successors b, bb_fallthrough := next\<rparr> in
      case block_terminator b of
        None \<Rightarrow> Inr (if next \<noteq> None then fall else b)
      | Some t \<Rightarrow>
          if is_branch_kind (terminator_kind (Some t)) then
            (case map_of labels (hd (pi_operands t)) of
               None \<Rightarrow> Inl (UndefinedTarget (pi_line t) (hd (pi_operands t)))
             | Some target \<Rightarrow>
                 (let b1 = (if terminator_kind (Some t) = ConditionalBranch \<and> next \<noteq> None then fall else b) in
                  Inr (b1\<lparr>bb_successors := insert target (bb_successors b1),
                          bb_branch_successors := insert target (bb_branch_successors b1)\<rparr>)))
          else Inr b)"

fun connect_successors ::
    "(string, string) dict \<Rightarrow> (string, basic_block) dict \<Rightarrow>
     (cfg_error, (string, basic_block) dict) result" where
  "connect_successors labels [] = Inr []"
| "connect_successors labels ((name, b) # bs) =
     bindE (block_edges labels (case bs of [] \<Rightarrow> None | (n, _) # _ \<Rightarrow> Some n) b) (\<lambda>b'.
     bindE (connect_successors labels bs) (\<lambda>bs'. Inr ((name, b') # bs')))"

text \<open>The second loop: the block \<open>name\<close> becomes a predecessor of its successors.\<close>

definition add_predecessor ::
    "string \<Rightarrow> string set \<Rightarrow> (string, basic_block) dict \<Rightarrow> (string, basic_block) dict" where
  "add_predecessor name succs bs =
     map (\<lambda>(n, b). (n, if n \<in> succs then b\<lparr>bb_predecessors := insert name (bb_predecessors b)\<rparr> else b)) bs"

definition connect_predecessors :: "(string, basic_block) dict \<Rightarrow> (string, basic_block) dict" where
  "connect_predecessors bs =
     foldl (\<lambda>acc nb. add_predecessor (fst nb) (bb_successors (snd nb)) acc) bs bs"

definition connect_edges ::
    "(string, string) dict \<Rightarrow> (string, basic_block) dict \<Rightarrow>
     (cfg_error, (string, basic_block) dict) result" where
  "connect_edges labels bs = bindE (connect_successors labels bs) (\<lambda>bs'. Inr (connect_predecessors bs'))"

definition build_start :: block_build where
  "build_start = \<lparr>cb_blocks = [], cb_labels = [], cb_items = (\<lambda>_. None), cb_order = [], cb_synthetic = 0\<rparr>"

definition build_cfg :: "ptx_program \<Rightarrow> (cfg_error, cfg) result" where
  "build_cfg prog =
     (let its = items prog in
      bindE (collect_labels its) (\<lambda>labels.
      bindE (find_leaders its labels) (\<lambda>leaders.
      bindE (add_blocks its (sorted_list_of_set leaders) build_start) (\<lambda>st.
        if cb_blocks st = [] then Inl NoBlocks
        else
          bindE (connect_edges (cb_labels st) (cb_blocks st)) (\<lambda>bs.
            Inr \<lparr>blocks = bs,
                 entry = (if has_key (cb_blocks st) ''entry'' then ''entry'' else hd (cb_order st)),
                 label_to_block = cb_labels st, item_to_block = cb_items st,
                 block_order = cb_order st\<rparr>)))))"

end
