(* ===== verification/Cfg_Graph.thy ===== *)
theory Cfg_Graph
  imports Cfg
begin

text \<open>
  The graph algorithms of the class \<open>CFG\<close>: reverse postorder, dominators, back edges and natural
  loops, with what they compute: the reachable blocks, dominance over all paths, and the blocks that
  reach the tail of a back edge without passing its header.
\<close>

section \<open>Successors and predecessors\<close>

definition successors_of :: "cfg \<Rightarrow> string \<Rightarrow> string set" where
  "successors_of g n = (case map_of (blocks g) n of None \<Rightarrow> {} | Some b \<Rightarrow> bb_successors b)"

definition predecessors_of :: "cfg \<Rightarrow> string \<Rightarrow> string set" where
  "predecessors_of g n = (case map_of (blocks g) n of None \<Rightarrow> {} | Some b \<Rightarrow> bb_predecessors b)"

text \<open>What \<open>build_cfg\<close> guarantees of a graph.\<close>

definition wf_cfg :: "cfg \<Rightarrow> bool" where
  "wf_cfg g \<longleftrightarrow>
     distinct (map fst (blocks g)) \<and> map fst (blocks g) = block_order g \<and>
     entry g \<in> set (block_order g) \<and>
     (\<forall>n b. map_of (blocks g) n = Some b \<longrightarrow> finite (bb_successors b) \<and> finite (bb_predecessors b)) \<and>
     (\<forall>m n. n \<in> successors_of g m \<longleftrightarrow> m \<in> predecessors_of g n)"

lemma wf_cfg_edge: "wf_cfg g \<Longrightarrow> m \<in> predecessors_of g n \<longleftrightarrow> n \<in> successors_of g m"
  unfolding wf_cfg_def by blast

lemma wf_cfg_distinct: "wf_cfg g \<Longrightarrow> distinct (map fst (blocks g))"
  unfolding wf_cfg_def by blast

lemma finite_successors: "wf_cfg g \<Longrightarrow> finite (successors_of g n)"
  by (auto simp: wf_cfg_def successors_of_def split: option.split)

lemma finite_predecessors: "wf_cfg g \<Longrightarrow> finite (predecessors_of g n)"
  by (auto simp: wf_cfg_def predecessors_of_def split: option.split)

section \<open>Reverse postorder\<close>

text \<open>\<open>visit\<close> over a list of names; the state is the visited set and the postorder.\<close>

function (domintros) visit_all ::
    "cfg \<Rightarrow> string list \<Rightarrow> string set \<times> string list \<Rightarrow> string set \<times> string list" where
  "visit_all g [] s = s"
| "visit_all g (n # ns) s =
     (if n \<in> fst s then visit_all g ns s
      else (let s' = visit_all g (sorted_list_of_set (successors_of g n)) (insert n (fst s), snd s) in
            visit_all g ns (fst s', snd s' @ [n])))"
  by pat_completeness auto

lemma visit_all_grows: "visit_all_dom (g, ns, s) \<Longrightarrow> fst s \<subseteq> fst (visit_all g ns s)"
proof (induction rule: visit_all.pinduct)
  case (1 g s)
  then show ?case by (simp add: visit_all.psimps)
next
  case (2 g n ns s)
  show ?case
  proof (cases "n \<in> fst s")
    case True
    with 2 show ?thesis by (simp add: visit_all.psimps)
  next
    case False
    let ?s = "visit_all g (sorted_list_of_set (successors_of g n)) (insert n (fst s), snd s)"
    have "insert n (fst s) \<subseteq> fst ?s" using "2.IH"(2) [OF False] by simp
    moreover have "fst ?s \<subseteq> fst (visit_all g ns (fst ?s, snd ?s @ [n]))"
      using "2.IH"(3) [OF False refl] by simp
    ultimately show ?thesis using "2.hyps" False by (auto simp: visit_all.psimps Let_def)
  qed
qed

termination visit_all
proof (relation "measures [\<lambda>(g, ns, s). card (fst ` set (blocks g) - fst s), \<lambda>(g, ns, s). length ns]", goal_cases)
  case (3 g n ns s)
  show ?case
  proof (cases "n \<in> fst ` set (blocks g)")
    case True
    have "fst ` set (blocks g) - insert n (fst s) \<subset> fst ` set (blocks g) - fst s" using True 3 by auto
    then show ?thesis by (auto intro: psubset_card_mono)
  next
    case False
    then have "map_of (blocks g) n = None" by (simp add: map_of_eq_None_iff)
    then have "successors_of g n = {}" by (simp add: successors_of_def)
    moreover have "fst ` set (blocks g) - insert n (fst s) = fst ` set (blocks g) - fst s" using False by auto
    ultimately show ?thesis by simp
  qed
next
  case (4 g n ns s s')
  from visit_all_grows [OF 4(3)] have "fst s \<subseteq> fst s'" using 4(2) by auto
  then have "fst ` set (blocks g) - fst s' \<subseteq> fst ` set (blocks g) - fst s" by auto
  then have "card (fst ` set (blocks g) - fst s') \<le> card (fst ` set (blocks g) - fst s)"
    by (intro card_mono) auto
  then show ?case by auto
qed auto

definition postorder :: "cfg \<Rightarrow> string list" where
  "postorder g = snd (visit_all g [entry g] ({}, []))"

definition reverse_postorder :: "cfg \<Rightarrow> string list" where
  "reverse_postorder g = rev (postorder g)"

text \<open>Reachability over the edges of the graph.\<close>

definition edges :: "cfg \<Rightarrow> (string \<times> string) set" where
  "edges g = {(m, n). n \<in> successors_of g m}"

lemma edges_iff [simp]: "(m, n) \<in> edges g \<longleftrightarrow> n \<in> successors_of g m"
  by (simp add: edges_def)

lemma visit_all_spec:
  assumes "wf_cfg g"
  shows "let s' = visit_all g ns s in
    fst s \<subseteq> fst s' \<and> set ns \<subseteq> fst s' \<and>
    fst s' \<subseteq> fst s \<union> (edges g)\<^sup>* `` set ns \<and>
    (\<forall>x \<in> fst s' - fst s. successors_of g x \<subseteq> fst s') \<and>
    (\<exists>new. snd s' = snd s @ new \<and> set new = fst s' - fst s \<and> distinct new)"
  using assms
proof (induction g ns s rule: visit_all.induct)
  case (1 g s)
  then show ?case by simp
next
  case (2 g n ns s)
  show ?case
  proof (cases "n \<in> fst s")
    case True
    let ?s = "visit_all g ns s"
    from "2.IH"(1) [OF True "2.prems"] obtain new where IH:
      "fst s \<subseteq> fst ?s" "set ns \<subseteq> fst ?s" "fst ?s \<subseteq> fst s \<union> (edges g)\<^sup>* `` set ns"
      "\<forall>x \<in> fst ?s - fst s. successors_of g x \<subseteq> fst ?s"
      "snd ?s = snd s @ new" "set new = fst ?s - fst s" "distinct new"
      unfolding Let_def by blast
    have eq: "visit_all g (n # ns) s = ?s" using True by simp
    have "set (n # ns) \<subseteq> fst ?s" using True IH(1,2) by auto
    moreover have "fst ?s \<subseteq> fst s \<union> (edges g)\<^sup>* `` set (n # ns)" using IH(3) by auto
    ultimately show ?thesis unfolding Let_def eq using IH(1,4-7) by blast
  next
    case False
    let ?s1 = "visit_all g (sorted_list_of_set (successors_of g n)) (insert n (fst s), snd s)"
    let ?s2 = "visit_all g ns (fst ?s1, snd ?s1 @ [n])"
    have set_succ: "set (sorted_list_of_set (successors_of g n)) = successors_of g n"
      using finite_successors [OF "2.prems"] by simp
    from "2.IH"(2) [OF False "2.prems"] obtain new1 where a:
      "insert n (fst s) \<subseteq> fst ?s1" "successors_of g n \<subseteq> fst ?s1"
      "fst ?s1 \<subseteq> insert n (fst s) \<union> (edges g)\<^sup>* `` successors_of g n"
      "\<forall>x \<in> fst ?s1 - insert n (fst s). successors_of g x \<subseteq> fst ?s1"
      "snd ?s1 = snd s @ new1" "set new1 = fst ?s1 - insert n (fst s)" "distinct new1"
      unfolding Let_def set_succ fst_conv snd_conv by blast
    from "2.IH"(3) [OF False refl "2.prems"] obtain new2 where b:
      "fst ?s1 \<subseteq> fst ?s2" "set ns \<subseteq> fst ?s2" "fst ?s2 \<subseteq> fst ?s1 \<union> (edges g)\<^sup>* `` set ns"
      "\<forall>x \<in> fst ?s2 - fst ?s1. successors_of g x \<subseteq> fst ?s2"
      "snd ?s2 = (snd ?s1 @ [n]) @ new2" "set new2 = fst ?s2 - fst ?s1" "distinct new2"
      unfolding Let_def fst_conv snd_conv by blast
    have eq: "visit_all g (n # ns) s = ?s2" using False by (simp add: Let_def)
    have step: "(edges g)\<^sup>* `` successors_of g n \<subseteq> (edges g)\<^sup>* `` {n}"
      by (auto intro: converse_rtrancl_into_rtrancl)
    have reach: "fst ?s2 \<subseteq> fst s \<union> (edges g)\<^sup>* `` set (n # ns)"
    proof -
      have "fst ?s1 \<subseteq> fst s \<union> (edges g)\<^sup>* `` {n}" using a(3) step by auto
      with b(3) show ?thesis by auto
    qed
    have closed: "successors_of g x \<subseteq> fst ?s2" if "x \<in> fst ?s2 - fst s" for x
    proof (cases "x \<in> fst ?s1")
      case True
      with that a(2,4) have "successors_of g x \<subseteq> fst ?s1" by (cases "x = n") auto
      with b(1) show ?thesis by simp
    next
      case False
      with that b(4) show ?thesis by simp
    qed
    have new: "snd ?s2 = snd s @ (new1 @ [n] @ new2)" using a(5) b(5) by simp
    have "set (new1 @ [n] @ new2) = fst ?s2 - fst s"
      using a(1,6) b(1,6) False by auto
    moreover have "distinct (new1 @ [n] @ new2)" using a(1,6,7) b(1,6,7) by auto
    ultimately show ?thesis
      unfolding Let_def eq using a(1) b(1,2) reach closed new by auto
  qed
qed

definition reachable :: "cfg \<Rightarrow> string set" where
  "reachable g = (edges g)\<^sup>* `` {entry g}"

lemma closed_rtrancl:
  assumes "(x, y) \<in> (edges g)\<^sup>*" "x \<in> V" "\<And>z. z \<in> V \<Longrightarrow> successors_of g z \<subseteq> V"
  shows "y \<in> V"
  using assms by (induction rule: rtrancl_induct) auto

lemma postorder_spec:
  assumes "wf_cfg g"
  shows "set (postorder g) = reachable g \<and> distinct (postorder g) \<and> last (postorder g) = entry g \<and> postorder g \<noteq> []"
proof -
  let ?s = "visit_all g [entry g] ({}, [])"
  from visit_all_spec [OF assms, of "[entry g]" "({}, [])"] obtain new where s:
    "entry g \<in> fst ?s" "fst ?s \<subseteq> reachable g" "\<forall>x \<in> fst ?s. successors_of g x \<subseteq> fst ?s"
    "snd ?s = new" "set new = fst ?s" "distinct new"
    unfolding Let_def reachable_def by auto
  have "reachable g \<subseteq> fst ?s"
    unfolding reachable_def using s(1,3) closed_rtrancl [of "entry g" _ g "fst ?s"] by auto
  with s have 1: "set (postorder g) = reachable g" "distinct (postorder g)"
    by (auto simp: postorder_def)
  have "postorder g = snd (visit_all g (sorted_list_of_set (successors_of g (entry g))) ({entry g}, [])) @ [entry g]"
    by (simp add: postorder_def Let_def)
  with 1 show ?thesis by simp
qed

lemma reverse_postorder_spec:
  assumes "wf_cfg g"
  shows "set (reverse_postorder g) = reachable g" "distinct (reverse_postorder g)"
    "reverse_postorder g \<noteq> []" "hd (reverse_postorder g) = entry g"
  using postorder_spec [OF assms] by (auto simp: reverse_postorder_def hd_rev)

section \<open>Dominators\<close>

type_synonym doms = "string \<rightharpoonup> string set"

definition new_dom :: "cfg \<Rightarrow> doms \<Rightarrow> string \<Rightarrow> string set" where
  "new_dom g d n =
     (let preds = Set.filter (\<lambda>p. d p \<noteq> None) (predecessors_of g n) in
      insert n (if preds = {} then {} else \<Inter> ((\<lambda>p. the (d p)) ` preds)))"

definition dom_step :: "cfg \<Rightarrow> bool \<times> doms \<Rightarrow> string \<Rightarrow> bool \<times> doms" where
  "dom_step g s n =
     (if n = entry g then s
      else if Some (new_dom g (snd s) n) \<noteq> snd s n then (True, (snd s)(n \<mapsto> new_dom g (snd s) n))
      else s)"

definition dom_round :: "cfg \<Rightarrow> doms \<Rightarrow> bool \<times> doms" where
  "dom_round g d = foldl (dom_step g) (False, d) (reverse_postorder g)"

definition dom_init :: "cfg \<Rightarrow> doms" where
  "dom_init g =
     (\<lambda>n. if n = entry g then Some {entry g}
          else if n \<in> set (reverse_postorder g) then Some (set (reverse_postorder g)) else None)"

definition dominators_loop :: "cfg \<Rightarrow> (bool \<times> doms) option" where
  "dominators_loop g = while_option fst (\<lambda>s. dom_round g (snd s)) (True, dom_init g)"

text \<open>The loop ends on every graph (lemma \<open>dominators_loop_ends\<close>).\<close>

definition dominators :: "cfg \<Rightarrow> doms" where
  "dominators g = snd (the (dominators_loop g))"

definition backedges :: "cfg \<Rightarrow> (string \<times> string) list" where
  "backedges g =
     (let d = dominators g in
      concat (map (\<lambda>(tail, b). map (Pair tail)
        (filter (\<lambda>s. case d tail of None \<Rightarrow> False | Some D \<Rightarrow> s \<in> D)
          (sorted_list_of_set (bb_successors b)))) (blocks g)))"

subsection \<open>The loop ends\<close>

text \<open>
  The invariant: a set only shrinks, because the next value of every block is within its current
  one.
\<close>

definition dom_inv :: "cfg \<Rightarrow> doms \<Rightarrow> bool" where
  "dom_inv g d \<longleftrightarrow>
     dom d = insert (entry g) (set (reverse_postorder g)) \<and> d (entry g) = Some {entry g} \<and>
     (\<forall>n \<in> dom d. n \<noteq> entry g \<longrightarrow> new_dom g d n \<subseteq> the (d n)) \<and>
     (\<forall>n \<in> dom d. the (d n) \<subseteq> insert (entry g) (set (reverse_postorder g)))"

lemma new_dom_mono:
  assumes "dom d' = dom d" "\<And>p. p \<in> dom d \<Longrightarrow> the (d' p) \<subseteq> the (d p)"
  shows "new_dom g d' n \<subseteq> new_dom g d n"
proof -
  have "Set.filter (\<lambda>p. d' p \<noteq> None) (predecessors_of g n) = Set.filter (\<lambda>p. d p \<noteq> None) (predecessors_of g n)"
    using assms(1) by (auto simp: dom_def set_eq_iff)
  moreover have "(\<Inter>p \<in> P. the (d' p)) \<subseteq> (\<Inter>p \<in> P. the (d p))" if "P \<subseteq> dom d" for P
    using assms(2) that by (intro INT_anti_mono) blast+
  moreover have "Set.filter (\<lambda>p. d p \<noteq> None) (predecessors_of g n) \<subseteq> dom d" by auto
  ultimately show ?thesis unfolding new_dom_def Let_def by (auto simp del: Set.filter_eq) 
qed

lemma dom_inv_step:
  assumes "dom_inv g (snd s)" "n \<in> set (reverse_postorder g)"
  shows "dom_inv g (snd (dom_step g s n))"
proof (cases "n \<noteq> entry g \<and> Some (new_dom g (snd s) n) \<noteq> snd s n")
  case False
  with assms show ?thesis by (auto simp: dom_step_def)
next
  case True
  let ?d = "snd s" and ?d' = "(snd s)(n \<mapsto> new_dom g (snd s) n)"
  from assms have d: "dom ?d = insert (entry g) (set (reverse_postorder g))" "n \<in> dom ?d"
    and le: "\<And>m. m \<in> dom ?d \<Longrightarrow> m \<noteq> entry g \<Longrightarrow> new_dom g ?d m \<subseteq> the (?d m)"
    and sub: "\<And>m. m \<in> dom ?d \<Longrightarrow> the (?d m) \<subseteq> insert (entry g) (set (reverse_postorder g))"
    by (auto simp: dom_inv_def)
  have dom': "dom ?d' = dom ?d" using d(2) by auto
  have less: "the (?d' m) \<subseteq> the (?d m)" if "m \<in> dom ?d" for m using le [of m] that True by auto
  have mono: "new_dom g ?d' m \<subseteq> new_dom g ?d m" for m by (rule new_dom_mono [OF dom' less])
  have "new_dom g ?d' m \<subseteq> the (?d' m)" if "m \<in> dom ?d" "m \<noteq> entry g" for m
    using mono [of m] le [OF that] by (cases "m = n") auto
  moreover have "the (?d' m) \<subseteq> insert (entry g) (set (reverse_postorder g))" if "m \<in> dom ?d" for m
    using less [OF that] sub [OF that] by blast
  moreover have "?d' (entry g) = Some {entry g}" using assms(1) True by (auto simp: dom_inv_def)
  ultimately have "dom_inv g ?d'" unfolding dom_inv_def using d dom' by simp
  then show ?thesis using True by (simp add: dom_step_def)
qed

lemma dom_inv_init: "dom_inv g (dom_init g)"
proof -
  let ?R = "insert (entry g) (set (reverse_postorder g))"
  have "new_dom g (dom_init g) n \<subseteq> set (reverse_postorder g)" if "n \<in> set (reverse_postorder g)" for n
  proof -
    have *: "the (dom_init g p) \<subseteq> set (reverse_postorder g)" if "dom_init g p \<noteq> None" for p
    proof (cases "p = entry g")
      case True
      have "entry g \<in> set (reverse_postorder g)" by (simp add: reverse_postorder_def postorder_def Let_def)
      with True show ?thesis by (simp add: dom_init_def)
    next
      case False
      with that show ?thesis by (auto simp: dom_init_def split: if_splits)
    qed
    show ?thesis
    proof (cases "Set.filter (\<lambda>p. dom_init g p \<noteq> None) (predecessors_of g n) = {}")
      case True
      with that show ?thesis by (simp add: new_dom_def Let_def)
    next
      case False
      then obtain p where p: "p \<in> predecessors_of g n" "dom_init g p \<noteq> None" by auto
      then have "new_dom g (dom_init g) n \<subseteq> insert n (the (dom_init g p))"
        by (auto simp: new_dom_def Let_def)
      with * [OF p(2)] that show ?thesis by auto
    qed
  qed
  then show ?thesis by (auto simp: dom_inv_def dom_init_def split: if_splits)
qed

definition dom_size :: "cfg \<Rightarrow> doms \<Rightarrow> nat" where
  "dom_size g d = (\<Sum>n \<in> insert (entry g) (set (reverse_postorder g)). card (the (d n)))"

lemma dom_size_step:
  assumes "dom_inv g (snd s)" "n \<in> set (reverse_postorder g)"
  shows "dom_size g (snd (dom_step g s n)) \<le> dom_size g (snd s) \<and>
    (dom_step g s n = s \<or> fst (dom_step g s n) \<and> dom_size g (snd (dom_step g s n)) < dom_size g (snd s))"
proof (cases "n \<noteq> entry g \<and> Some (new_dom g (snd s) n) \<noteq> snd s n")
  case False
  then show ?thesis by (auto simp: dom_step_def)
next
  case True
  let ?R = "insert (entry g) (set (reverse_postorder g))" and ?d = "snd s"
  from assms True obtain D where D: "?d n = Some D" "new_dom g ?d n \<subseteq> D" "D \<subseteq> ?R"
    unfolding dom_inv_def by (metis domD insertCI option.sel)
  with True have "new_dom g ?d n \<subset> D" by auto
  moreover have "finite D" using D(3) by (rule finite_subset) simp
  ultimately have "card (new_dom g ?d n) < card D" by (simp add: psubset_card_mono)
  then have "dom_size g (?d(n \<mapsto> new_dom g ?d n)) < dom_size g ?d"
    unfolding dom_size_def using D(1) assms(2) by (intro sum_strict_mono_ex1) auto
  then show ?thesis using True by (simp add: dom_step_def)
qed

lemma dom_fold:
  assumes "set ns \<subseteq> set (reverse_postorder g)" "dom_inv g (snd s)"
  shows "dom_inv g (snd (foldl (dom_step g) s ns)) \<and>
    (foldl (dom_step g) s ns = s \<or>
     fst (foldl (dom_step g) s ns) \<and> dom_size g (snd (foldl (dom_step g) s ns)) < dom_size g (snd s))"
  using assms
proof (induction ns arbitrary: s)
  case (Cons n ns)
  have n: "n \<in> set (reverse_postorder g)" using Cons.prems by simp
  let ?s = "dom_step g s n"
  have inv: "dom_inv g (snd ?s)" by (rule dom_inv_step [OF Cons.prems(2) n])
  from Cons.IH [OF _ inv] Cons.prems(1)
  have IH: "dom_inv g (snd (foldl (dom_step g) ?s ns)) \<and>
    (foldl (dom_step g) ?s ns = ?s \<or>
     fst (foldl (dom_step g) ?s ns) \<and> dom_size g (snd (foldl (dom_step g) ?s ns)) < dom_size g (snd ?s))" by simp
  show ?case
  proof (cases "?s = s")
    case True
    with IH show ?thesis by simp
  next
    case False
    with dom_size_step [OF Cons.prems(2) n] have s: "fst ?s" "dom_size g (snd ?s) < dom_size g (snd s)" by auto
    from IH show ?thesis
    proof (elim conjE disjE)
      assume "foldl (dom_step g) ?s ns = ?s" "dom_inv g (snd (foldl (dom_step g) ?s ns))"
      with s show ?thesis by simp
    next
      assume "dom_inv g (snd (foldl (dom_step g) ?s ns))" "fst (foldl (dom_step g) ?s ns)"
        "dom_size g (snd (foldl (dom_step g) ?s ns)) < dom_size g (snd ?s)"
      with s show ?thesis by simp
    qed
  qed
qed simp

lemma dom_round_spec:
  assumes "dom_inv g d"
  shows "dom_inv g (snd (dom_round g d))"
    "fst (dom_round g d) \<Longrightarrow> dom_size g (snd (dom_round g d)) < dom_size g d"
    "\<not> fst (dom_round g d) \<Longrightarrow> snd (dom_round g d) = d"
  using dom_fold [of "reverse_postorder g" g "(False, d)"] assms by (auto simp: dom_round_def)

lemma dominators_loop_ends: "\<exists>s. dominators_loop g = Some s"
  unfolding dominators_loop_def
proof (rule wf_while_option_Some [where P = "\<lambda>s. dom_inv g (snd s)"])
  let ?r = "{(s', s). (dom_inv g (snd s) \<and> fst s) \<and> s' = dom_round g (snd s)}"
  show "wf ?r"
  proof (rule wf_subset [of "measures [\<lambda>s. dom_size g (snd s), \<lambda>s. if fst s then 1 else 0]"])
    show "?r \<subseteq> measures [\<lambda>s. dom_size g (snd s), \<lambda>s. if fst s then 1 else 0]"
    proof
      fix x assume "x \<in> ?r"
      then obtain b d where x: "x = (dom_round g d, (True, d))" "dom_inv g d" by auto
      then show "x \<in> measures [\<lambda>s. dom_size g (snd s), \<lambda>s. if fst s then 1 else 0]"
        using dom_round_spec [OF x(2)] by (cases "fst (dom_round g d)") auto
    qed
  qed simp
qed (auto simp: dom_inv_init dom_round_spec)


subsection \<open>What the sets are\<close>

inductive path :: "cfg \<Rightarrow> string \<Rightarrow> string list \<Rightarrow> string \<Rightarrow> bool" for g a where
  start: "path g a [a] a"
| edge: "path g a p b \<Longrightarrow> c \<in> successors_of g b \<Longrightarrow> path g a (p @ [c]) c"

definition dominates :: "cfg \<Rightarrow> string \<Rightarrow> string \<Rightarrow> bool" where
  "dominates g m n \<longleftrightarrow> (\<forall>p. path g (entry g) p n \<longrightarrow> m \<in> set p)"

lemma path_end: "path g a p b \<Longrightarrow> b \<in> set p"
  by (cases rule: path.cases) auto

lemma path_reachable: "path g a p b \<Longrightarrow> m \<in> set p \<Longrightarrow> (a, m) \<in> (edges g)\<^sup>*"
proof (induction arbitrary: m rule: path.induct)
  case (edge p b c)
  have "(a, b) \<in> (edges g)\<^sup>*" by (rule edge.IH [OF path_end [OF edge.hyps(1)]])
  then show ?case using edge by (auto intro: rtrancl_into_rtrancl)
qed simp

lemma reachable_path: "(a, b) \<in> (edges g)\<^sup>* \<Longrightarrow> \<exists>p. path g a p b"
  by (induction rule: rtrancl_induct) (auto intro: path.intros)

lemma entry_reachable [simp]: "entry g \<in> reachable g"
  by (simp add: reachable_def)

lemma dominates_reachable: "n \<in> reachable g \<Longrightarrow> dominates g m n \<Longrightarrow> m \<in> reachable g"
  using reachable_path [of "entry g" n g] path_reachable [of g "entry g"]
  by (fastforce simp: reachable_def dominates_def)

lemma dominates_entry: "dominates g m (entry g) \<Longrightarrow> m = entry g"
  using path.start [of g "entry g"] by (auto simp: dominates_def)

lemma dominates_pred:
  "dominates g m n \<Longrightarrow> m \<noteq> n \<Longrightarrow> n \<in> successors_of g p \<Longrightarrow> dominates g m p"
  using path.edge [of g "entry g" _ p n] by (fastforce simp: dominates_def)

text \<open>The sets stay above the true dominators.\<close>

definition dom_above :: "cfg \<Rightarrow> doms \<Rightarrow> bool" where
  "dom_above g d \<longleftrightarrow> dom d = reachable g \<and> (\<forall>n \<in> reachable g. \<forall>m. dominates g m n \<longrightarrow> m \<in> the (d n))"

lemma reachable_pred:
  assumes "n \<in> reachable g" "n \<noteq> entry g"
  shows "\<exists>p \<in> reachable g. n \<in> successors_of g p"
proof -
  from assms(1) have "(entry g, n) \<in> (edges g)\<^sup>*" by (simp add: reachable_def)
  then show ?thesis using assms(2) by (cases rule: rtrancl.cases) (auto simp: reachable_def)
qed

lemma dom_above_step:
  assumes g: "wf_cfg g" and "dom_above g (snd s)" "n \<in> reachable g"
  shows "dom_above g (snd (dom_step g s n))"
proof (cases "n \<noteq> entry g \<and> Some (new_dom g (snd s) n) \<noteq> snd s n")
  case False
  with assms show ?thesis by (auto simp: dom_step_def)
next
  case True
  let ?d = "snd s"
  let ?P = "Set.filter (\<lambda>p. ?d p \<noteq> None) (predecessors_of g n)"
  from assms(2) have d: "dom ?d = reachable g" by (simp add: dom_above_def)
  obtain q where q: "q \<in> reachable g" "n \<in> successors_of g q"
    using reachable_pred [of n g] assms(3) True by blast
  then have "q \<in> ?P" using d wf_cfg_edge [OF g] by auto
  then have P: "?P \<noteq> {}" by blast
  have "m \<in> new_dom g ?d n" if m: "dominates g m n" for m
  proof (cases "m = n")
    case True
    then show ?thesis by (simp add: new_dom_def Let_def)
  next
    case False
    have "m \<in> the (?d p)" if "p \<in> ?P" for p
    proof -
      from that have "n \<in> successors_of g p" "p \<in> reachable g" using d wf_cfg_edge [OF g] by auto
      with dominates_pred [OF m False] assms(2) show ?thesis by (auto simp: dom_above_def)
    qed
    then show ?thesis using P unfolding new_dom_def Let_def by auto
  qed
  then show ?thesis using True assms(2,3) d by (auto simp: dom_above_def dom_step_def)
qed

lemma dom_above_fold:
  "wf_cfg g \<Longrightarrow> dom_above g (snd s) \<Longrightarrow> set ns \<subseteq> reachable g \<Longrightarrow> dom_above g (snd (foldl (dom_step g) s ns))"
  by (induction ns arbitrary: s) (auto simp: dom_above_step)

lemma dom_above_init: "wf_cfg g \<Longrightarrow> dom_above g (dom_init g)"
  using reverse_postorder_spec(1) [of g] dominates_reachable [of _ g] dominates_entry [of g]
  by (auto simp: dom_above_def dom_init_def split: if_splits)

text \<open>A round that changes nothing has checked the equation of every block.\<close>

lemma dom_step_flag: "fst s \<Longrightarrow> fst (foldl (dom_step g) s ns)"
  by (induction ns arbitrary: s) (auto simp: dom_step_def)

lemma dom_fold_stable:
  "\<not> fst (foldl (dom_step g) s ns) \<Longrightarrow> n \<in> set ns \<Longrightarrow> n \<noteq> entry g \<Longrightarrow> snd s n = Some (new_dom g (snd s) n)"
proof (induction ns arbitrary: s)
  case (Cons m ns)
  from Cons.prems(1) have *: "\<not> fst (foldl (dom_step g) (dom_step g s m) ns)" by simp
  with dom_step_flag have "\<not> fst (dom_step g s m)" by blast
  then have eq: "dom_step g s m = s" by (auto simp: dom_step_def split: if_split_asm)
  show ?case
  proof (cases "n = m")
    case True
    with \<open>\<not> fst (dom_step g s m)\<close> Cons.prems(3) show ?thesis by (auto simp: dom_step_def split: if_split_asm)
  next
    case False
    with Cons.IH [OF *] Cons.prems(2,3) eq show ?thesis by simp
  qed
qed simp

lemma dominators_fixpoint:
  assumes "wf_cfg g"
  shows "dom (dominators g) = reachable g" "dominators g (entry g) = Some {entry g}"
    "n \<in> reachable g \<Longrightarrow> n \<noteq> entry g \<Longrightarrow> dominators g n = Some (new_dom g (dominators g) n)"
    "n \<in> reachable g \<Longrightarrow> dominates g m n \<Longrightarrow> m \<in> the (dominators g n)"
proof -
  obtain s where s: "dominators_loop g = Some s" using dominators_loop_ends by blast
  from this have w: "while_option fst (\<lambda>s. dom_round g (snd s)) (True, dom_init g) = Some s"
    by (simp add: dominators_loop_def)
  let ?P = "\<lambda>s. dom_inv g (snd s) \<and> dom_above g (snd s) \<and>
    (\<not> fst s \<longrightarrow> (\<forall>n \<in> reachable g. n \<noteq> entry g \<longrightarrow> snd s n = Some (new_dom g (snd s) n)))"
  have "?P s"
  proof (rule while_option_rule [where P = ?P, OF _ w])
    fix s :: "bool \<times> doms" assume P: "?P s" and "fst s"
    then have inv: "dom_inv g (snd s)" and above: "dom_above g (snd s)" by auto
    have rpo: "set (reverse_postorder g) = reachable g" by (rule reverse_postorder_spec(1) [OF assms])
    have "dom_above g (snd (dom_round g (snd s)))"
      using dom_above_fold [OF assms, of "(False, snd s)" "reverse_postorder g"] above rpo by (simp add: dom_round_def)
    moreover have "snd (dom_round g (snd s)) n = Some (new_dom g (snd (dom_round g (snd s))) n)"
      if "\<not> fst (dom_round g (snd s))" "n \<in> reachable g" "n \<noteq> entry g" for n
      using dom_fold_stable [of g "(False, snd s)" "reverse_postorder g" n] that rpo dom_round_spec(3) [OF inv that(1)]
      by (simp add: dom_round_def)
    ultimately show "?P (dom_round g (snd s))" using dom_round_spec(1) [OF inv] by blast
  qed (use assms in \<open>simp add: dom_inv_init dom_above_init\<close>)
  moreover have "\<not> fst s" by (rule while_option_stop [OF w])
  moreover have "dominators g = snd s" using s by (simp add: dominators_def)
  ultimately show "dom (dominators g) = reachable g" "dominators g (entry g) = Some {entry g}"
    "n \<in> reachable g \<Longrightarrow> n \<noteq> entry g \<Longrightarrow> dominators g n = Some (new_dom g (dominators g) n)"
    "n \<in> reachable g \<Longrightarrow> dominates g m n \<Longrightarrow> m \<in> the (dominators g n)"
    unfolding dom_inv_def dom_above_def by auto
qed

lemma dominators_below:
  assumes g: "wf_cfg g" and p: "path g (entry g) p n"
  shows "m \<in> the (dominators g n) \<Longrightarrow> m \<in> set p"
  using p
proof (induction rule: path.induct)
  case start
  then show ?case using dominators_fixpoint(2) [OF g] by simp
next
  case (edge p b c)
  have b: "b \<in> reachable g" and c: "c \<in> reachable g"
    using path_reachable [OF edge.hyps(1) path_end [OF edge.hyps(1)]] edge.hyps(2)
    by (auto simp: reachable_def intro: rtrancl_into_rtrancl)
  show ?case
  proof (cases "c = entry g")
    case True
    with edge.prems dominators_fixpoint(2) [OF g] show ?thesis by simp
  next
    case False
    from edge.prems have m: "m \<in> new_dom g (dominators g) c"
      using dominators_fixpoint(3) [OF g c False] by simp
    have "b \<in> Set.filter (\<lambda>p. dominators g p \<noteq> None) (predecessors_of g c)"
      using edge.hyps(2) b dominators_fixpoint(1) [OF g] wf_cfg_edge [OF g] by auto
    with m have "m = c \<or> m \<in> the (dominators g b)"
      unfolding new_dom_def Let_def by (auto split: if_split_asm)
    with edge.IH show ?thesis by auto
  qed
qed

lemma dominators_are_dominance:
  assumes "wf_cfg g"
  shows "dominators g n = (if n \<in> reachable g then Some {m. dominates g m n} else None)"
proof (cases "n \<in> reachable g")
  case True
  then obtain D where D: "dominators g n = Some D" using dominators_fixpoint(1) [OF assms] by blast
  have "m \<in> D \<longleftrightarrow> dominates g m n" for m
    using dominators_fixpoint(4) [OF assms True, of m] dominators_below [OF assms, of _ n m] D
    by (auto simp: dominates_def)
  with D True show ?thesis by auto
next
  case False
  then show ?thesis using dominators_fixpoint(1) [OF assms] by auto
qed

section \<open>Natural loops\<close>

lemma finite_preds_union: "finite (\<Union>(n, b) \<in> set (blocks g). set (sorted_list_of_set (bb_predecessors b)))"
  by auto

definition loop_predecessors :: "cfg \<Rightarrow> string \<Rightarrow> string \<Rightarrow> string list" where
  "loop_predecessors g header n = filter (\<lambda>p. p \<noteq> header) (sorted_list_of_set (predecessors_of g n))"

lemma loop_predecessors_bound:
  "set (loop_predecessors g h n) \<subseteq> (\<Union>(n, b) \<in> set (blocks g). set (sorted_list_of_set (bb_predecessors b)))"
  by (auto simp: loop_predecessors_def predecessors_of_def dest!: map_of_SomeD split: option.splits)

function loop_collect :: "cfg \<Rightarrow> string \<Rightarrow> string set \<times> string list \<Rightarrow> string set" where
  "loop_collect g header s =
     (if snd s = [] then fst s
      else loop_collect g header
        (mark_all (loop_predecessors g header (last (snd s))) (fst s, butlast (snd s))))"
  by pat_completeness auto
termination
proof (relation "measure (\<lambda>(g, h, s). card ((\<Union>(n, b) \<in> set (blocks g). set (sorted_list_of_set (bb_predecessors b))) - fst s) + length (snd s))")
  fix g h and s :: "string set \<times> string list" assume "snd s \<noteq> []"
  then show "((g, h, mark_all (loop_predecessors g h (last (snd s))) (fst s, butlast (snd s))), (g, h, s)) \<in>
    measure (\<lambda>(g, h, s). card ((\<Union>(n, b) \<in> set (blocks g). set (sorted_list_of_set (bb_predecessors b))) - fst s) + length (snd s))"
    using mark_all_decreases [OF finite_preds_union loop_predecessors_bound, of s g h "last (snd s)"] by simp
qed simp

declare loop_collect.simps [simp del]

definition natural_loop_of :: "cfg \<Rightarrow> string \<times> string \<Rightarrow> natural_loop" where
  "natural_loop_of g e = (case e of (tail, header) \<Rightarrow>
     \<lparr>nl_header = header, nl_tail = tail,
      nl_blocks = (if tail = header then {header}
                   else loop_collect g header ({header, tail}, [tail]))\<rparr>)"

definition natural_loops :: "cfg \<Rightarrow> natural_loop list" where
  "natural_loops g = map (natural_loop_of g) (backedges g)"

text \<open>The blocks that reach the tail without passing the header.\<close>

inductive_set loop_body :: "cfg \<Rightarrow> string \<Rightarrow> string \<Rightarrow> string set" for g header tail where
  tail: "tail \<in> loop_body g header tail"
| pred: "n \<in> loop_body g header tail \<Longrightarrow> p \<in> predecessors_of g n \<Longrightarrow> p \<noteq> header \<Longrightarrow>
    p \<in> loop_body g header tail"

lemma loop_body_header: "n \<in> loop_body g h t \<Longrightarrow> t \<noteq> h \<Longrightarrow> n \<noteq> h"
  by (cases rule: loop_body.cases) auto

lemma loop_collect_body:
  assumes g: "wf_cfg g"
    and "header \<in> fst s" "fst s \<subseteq> insert header (loop_body g header tail)" "set (snd s) \<subseteq> loop_body g header tail"
    "\<forall>n \<in> fst s - {header} - set (snd s). \<forall>p \<in> predecessors_of g n. p \<in> fst s" "tail \<in> fst s" "tail \<noteq> header"
    "set (snd s) \<subseteq> fst s"
  shows "loop_collect g header s = insert header (loop_body g header tail)"
  using assms
proof (induction g header s rule: loop_collect.induct)
  case (1 g header s)
  show ?case
  proof (cases "snd s = []")
    case True
    have "n \<in> fst s" if "n \<in> loop_body g header tail" for n
      using that
    proof (induction rule: loop_body.induct)
      case (pred n p)
      show ?case
      proof (cases "n = header")
        case True
        with loop_body_header [OF pred.hyps(1) "1.prems"(7)] show ?thesis by simp
      next
        case False
        have "n \<in> fst s - {header} - set (snd s)"
          using loop_body_header [OF pred.hyps(1) "1.prems"(7)] pred.IH \<open>snd s = []\<close> by simp
        with pred.hyps(2) "1.prems"(5) show ?thesis by blast
      qed
    qed (use "1.prems"(6) in simp)
    with "1.prems"(2,3) True show ?thesis by (auto simp: loop_collect.simps)
  next
    case False
    let ?n = "last (snd s)" and ?ps = "loop_predecessors g header (last (snd s))"
    let ?s = "mark_all ?ps (fst s, butlast (snd s))"
    obtain new where m: "fst ?s = fst s \<union> set ?ps" "snd ?s = butlast (snd s) @ new" "set new = set ?ps - fst s"
      using mark_all_spec [of ?ps "(fst s, butlast (snd s))"] by auto
    have n: "?n \<in> set (snd s)" using False by simp
    have ps: "set ?ps = predecessors_of g ?n - {header}"
      using finite_predecessors [OF "1.prems"(1)] by (auto simp: loop_predecessors_def)
    have body: "set ?ps \<subseteq> loop_body g header tail"
      using n "1.prems"(4) unfolding ps by (auto intro: loop_body.pred)
    have wl: "set (snd s) = insert ?n (set (butlast (snd s)))"
      using False by (cases "snd s" rule: rev_cases) auto
    have "loop_collect g header ?s = insert header (loop_body g header tail)"
    proof (rule "1.IH" [OF False "1.prems"(1)])
      show "header \<in> fst ?s" "tail \<in> fst ?s" "tail \<noteq> header" using "1.prems"(2,6,7) m by auto
      show "fst ?s \<subseteq> insert header (loop_body g header tail)" using m(1) body "1.prems"(3) by auto
      show "set (snd ?s) \<subseteq> loop_body g header tail" using m(2,3) body "1.prems"(4) wl by auto
      show "set (snd ?s) \<subseteq> fst ?s" using m "1.prems"(8) wl by auto
      show "\<forall>n \<in> fst ?s - {header} - set (snd ?s). \<forall>p \<in> predecessors_of g n. p \<in> fst ?s"
      proof (intro ballI)
        fix x p assume x: "x \<in> fst ?s - {header} - set (snd ?s)" and p: "p \<in> predecessors_of g x"
        show "p \<in> fst ?s"
        proof (cases "x = ?n")
          case True
          with p m(1) ps "1.prems"(2) show ?thesis by blast
        next
          case False
          have "x \<notin> set ?ps \<or> x \<in> fst s" using x m(2,3) by auto
          with x m(1,2) wl False have "x \<in> fst s - {header} - set (snd s)" by auto
          with "1.prems"(5) p have "p \<in> fst s" by blast
          with m(1) show ?thesis by blast
        qed
      qed
    qed
    then show ?thesis using False by (subst loop_collect.simps) simp
  qed
qed

lemma natural_loop_blocks:
  assumes "wf_cfg g"
  shows "nl_blocks (natural_loop_of g (t, h)) = (if t = h then {h} else insert h (loop_body g h t))"
proof (cases "t = h")
  case False
  have "loop_collect g h ({h, t}, [t]) = insert h (loop_body g h t)"
    by (rule loop_collect_body [OF assms]) (use False in \<open>auto intro: loop_body.tail\<close>)
  with False show ?thesis by (simp add: natural_loop_of_def)
qed (simp add: natural_loop_of_def)

lemma backedge_dominates:
  assumes "wf_cfg g" "(t, h) \<in> set (backedges g)"
  shows "t \<in> reachable g" "dominates g h t" "h \<in> successors_of g t"
proof -
  from assms(2) obtain b D where b: "(t, b) \<in> set (blocks g)" "h \<in> set (sorted_list_of_set (bb_successors b))"
    "dominators g t = Some D" "h \<in> D"
    by (auto simp: backedges_def Let_def split: option.split_asm)
  have m: "map_of (blocks g) t = Some b" by (rule map_of_is_SomeI [OF _ b(1)]) (rule wf_cfg_distinct [OF assms(1)])
  with assms(1) have "finite (bb_successors b)" by (auto simp: wf_cfg_def)
  with b(2) m show "h \<in> successors_of g t" by (simp add: successors_of_def)
  show "t \<in> reachable g" "dominates g h t"
    using b(3,4) dominators_are_dominance [OF assms(1), of t] by (auto split: if_split_asm)
qed

text \<open>Every block of a natural loop that can be entered is entered through the header.\<close>

lemma loop_body_dominated:
  assumes g: "wf_cfg g" and "dominates g h t" "t \<noteq> h" "n \<in> loop_body g h t"
  shows "dominates g h n"
  using assms(4)
proof (induction rule: loop_body.induct)
  case (pred n p)
  have "n \<in> successors_of g p" using pred.hyps(2) wf_cfg_edge [OF g] by simp
  moreover have "h \<noteq> n" using loop_body_header [OF pred.hyps(1) assms(3)] by simp
  ultimately show ?case using dominates_pred [OF pred.IH] by simp
qed (rule assms(2))

end
