(* ===== verification/Cfg_Build.thy ===== *)
theory Cfg_Build
  imports Cfg_Graph Numerals
begin

text \<open>
  What \<open>build_cfg\<close> builds: its blocks partition the program at every label and after every
  terminator, its edges are recorded on both ends, and it succeeds on every program whose labels and
  branches are well formed and do not use the names of the generated blocks.
\<close>

section \<open>Labels and leaders\<close>

lemma collect_labels_from_spec:
  assumes "collect_labels_from i its m = Inr labels"
  shows "map_of labels l = Some k \<longleftrightarrow> map_of m l = Some k \<or> (\<exists>j < length its. its ! j = Label l \<and> k = i + j)"
  using assms
proof (induction its arbitrary: i m)
  case (Cons it its)
  have ex: "(\<exists>j < length (it # its). (it # its) ! j = Label l \<and> k = i + j) \<longleftrightarrow>
      (it = Label l \<and> k = i) \<or> (\<exists>j < length its. its ! j = Label l \<and> k = Suc i + j)"
    by (simp only: length_Cons Ex_less_Suc2) simp
  show ?case
  proof (cases it)
    case (Label x)
    with Cons.prems have new: "\<not> has_key m x" and
      rec: "collect_labels_from (Suc i) its (AList.update x i m) = Inr labels" by (auto split: if_split_asm)
    have "map_of m x = None" using new by (auto simp: has_key_iff map_of_eq_None_iff)
    with Cons.IH [OF rec] Label show ?thesis unfolding ex by (auto simp: map_of_update_iff)
  next
    case (Inst x)
    with Cons.prems Cons.IH [of "Suc i" m] show ?thesis unfolding ex by simp
  qed
qed simp

lemma collect_labels_spec:
  assumes "collect_labels its = Inr labels"
  shows "map_of labels l = Some k \<longleftrightarrow> k < length its \<and> its ! k = Label l"
  using collect_labels_from_spec [of 0 its "[]" labels l k] assms by (auto simp: collect_labels_def)

definition labels_of :: "item list \<Rightarrow> string list" where
  "labels_of its = concat (map (\<lambda>it. case it of Label l \<Rightarrow> [l] | Inst _ \<Rightarrow> []) its)"

lemma collect_labels_from_ok:
  "(\<exists>labels. collect_labels_from i its m = Inr labels) \<longleftrightarrow>
    distinct (labels_of its) \<and> (\<forall>l \<in> set (labels_of its). \<not> has_key m l)"
  by (induction i its m rule: collect_labels_from.induct) (auto simp: labels_of_def)

lemma collect_labels_ok: "(\<exists>labels. collect_labels its = Inr labels) \<longleftrightarrow> distinct (labels_of its)"
  unfolding collect_labels_def collect_labels_from_ok by (simp add: has_key_def)

lemma in_labels_of: "l \<in> set (labels_of its) \<longleftrightarrow> Label l \<in> set its"
  by (force simp: labels_of_def split: item.splits)

text \<open>What a branch instruction needs.\<close>

definition branch_ok :: "(string, nat) dict \<Rightarrow> ptx_instruction \<Rightarrow> bool" where
  "branch_ok labels i \<longleftrightarrow> (is_branch_kind (terminator_kind (Some i)) \<longrightarrow>
     (\<exists>t. pi_operands i = [t] \<and> map_of labels t \<noteq> None))"

text \<open>The items that must start a block.\<close>

definition starts_block :: "item list \<Rightarrow> nat \<Rightarrow> bool" where
  "starts_block its k \<longleftrightarrow> k = 0 \<or> k < length its \<and>
     ((\<exists>l. its ! k = Label l) \<or>
      (\<exists>x. its ! (k - 1) = Inst x \<and> terminator_kind (Some x) \<noteq> Fallthrough))"

lemma find_leaders_from_spec:
  assumes "find_leaders_from i its labels L0 = Inr L"
  shows "L0 \<subseteq> L \<and>
    (\<forall>k < length its. (\<forall>l. its ! k = Label l \<longrightarrow> i + k \<in> L) \<and>
      (\<forall>x. its ! k = Inst x \<longrightarrow> branch_ok labels x \<and>
        (terminator_kind (Some x) \<noteq> Fallthrough \<and> Suc k < length its \<longrightarrow> Suc (i + k) \<in> L))) \<and>
    (\<forall>k \<in> L. k \<in> L0 \<or> (\<exists>j < length its. \<exists>l. its ! j = Label l \<and> k = i + j) \<or> (\<exists>t. map_of labels t = Some k) \<or>
      (\<exists>j < length its. \<exists>x. its ! j = Inst x \<and> terminator_kind (Some x) \<noteq> Fallthrough \<and> k = Suc (i + j) \<and> Suc j < length its))"
  using assms
proof (induction its arbitrary: i L0)
  case (Cons it its)
  note all = All_less_Suc2 and ex = Ex_less_Suc2
  show ?case
  proof (cases it)
    case (Label l)
    with Cons.prems have "find_leaders_from (Suc i) its labels (insert i L0) = Inr L" by simp
    from Cons.IH [OF this] Label show ?thesis by (simp only: length_Cons all ex) auto
  next
    case (Inst x)
    let ?next = "if its \<noteq> [] then {Suc i} else {}"
    obtain L1 where rec: "find_leaders_from (Suc i) its labels (L0 \<union> L1) = Inr L" and ok: "branch_ok labels x"
      and L1: "L1 \<subseteq> {k. \<exists>t. map_of labels t = Some k} \<union> (if terminator_kind (Some x) \<noteq> Fallthrough then ?next else {})"
      and nx: "terminator_kind (Some x) \<noteq> Fallthrough \<Longrightarrow> ?next \<subseteq> L1"
    proof (cases "is_branch_kind (terminator_kind (Some x))")
      case True
      with Cons.prems Inst obtain t j where t: "pi_operands x = [t]" "map_of labels t = Some j"
        "find_leaders_from (Suc i) its labels (L0 \<union> {j} \<union> ?next) = Inr L"
        by (auto split: list.split_asm option.split_asm)
      show ?thesis
      proof (rule that [of "{j} \<union> ?next"])
        show "find_leaders_from (Suc i) its labels (L0 \<union> ({j} \<union> ?next)) = Inr L" using t(3) by (simp add: Un_assoc)
        show "branch_ok labels x" using t by (simp add: branch_ok_def)
        have "terminator_kind (Some x) \<noteq> Fallthrough" using True by (auto simp: is_branch_kind_def)
        then show "{j} \<union> ?next \<subseteq> {k. \<exists>t. map_of labels t = Some k} \<union>
            (if terminator_kind (Some x) \<noteq> Fallthrough then ?next else {})" using t(2) by auto
      qed auto
    next
      case False
      show ?thesis
      proof (cases "terminator_kind (Some x) = Return")
        case True
        with False Cons.prems Inst show ?thesis
          by (intro that [of ?next]) (auto simp: Let_def branch_ok_def)
      next
        case ret: False
        then have "terminator_kind (Some x) = Fallthrough"
          using False by (cases "terminator_kind (Some x)") (auto simp: is_branch_kind_def)
        with False ret Cons.prems Inst show ?thesis
          by (intro that [of "{}"]) (auto simp: Let_def branch_ok_def)
      qed
    qed
    note IH = Cons.IH [OF rec]
    have sub: "L0 \<union> L1 \<subseteq> L" using IH by blast
    have each: "(\<forall>l. (it # its) ! k = Label l \<longrightarrow> i + k \<in> L) \<and>
      (\<forall>y. (it # its) ! k = Inst y \<longrightarrow> branch_ok labels y \<and>
        (terminator_kind (Some y) \<noteq> Fallthrough \<and> Suc k < length (it # its) \<longrightarrow> Suc (i + k) \<in> L))"
      if "k < length (it # its)" for k
    proof (cases k)
      case 0
      then show ?thesis using Inst ok nx sub by (auto split: if_split_asm)
    next
      case (Suc j)
      with that have "j < length its" by simp
      with IH show ?thesis unfolding Suc by simp
    qed
    have origin: "k \<in> L0 \<or> (\<exists>j < length (it # its). \<exists>l. (it # its) ! j = Label l \<and> k = i + j) \<or> (\<exists>t. map_of labels t = Some k) \<or>
      (\<exists>j < length (it # its). \<exists>y. (it # its) ! j = Inst y \<and> terminator_kind (Some y) \<noteq> Fallthrough \<and>
        k = Suc (i + j) \<and> Suc j < length (it # its))" if "k \<in> L" for k
    proof -
      from IH that consider "k \<in> L0" | "k \<in> L1" | j l where "j < length its" "its ! j = Label l" "k = Suc i + j"
        | "(\<exists>t. map_of labels t = Some k)" | j y where "j < length its" "its ! j = Inst y"
            "terminator_kind (Some y) \<noteq> Fallthrough" "k = Suc (Suc i + j)" "Suc j < length its"
        by blast
      then show ?thesis
      proof cases
        case 2
        show ?thesis
        proof (cases "\<exists>t. map_of labels t = Some k")
          case False
          with 2 L1 have "terminator_kind (Some x) \<noteq> Fallthrough" "its \<noteq> []" "k = Suc i" by (auto split: if_split_asm)
          with Inst show ?thesis by (intro disjI2 exI [of _ 0]) simp
        qed simp
      next
        case (3 j l)
        then show ?thesis by (intro disjI2 disjI1 exI [of _ "Suc j"]) auto
      next
        case (5 j y)
        then show ?thesis by (intro disjI2 exI [of _ "Suc j"]) auto
      qed auto
    qed
    show ?thesis using sub each origin by blast
  qed
qed simp

lemma leaders_spec:
  assumes "collect_labels its = Inr labels" "find_leaders its labels = Inr L"
  shows "L = {k. starts_block its k}" "\<And>x. Inst x \<in> set its \<Longrightarrow> branch_ok labels x"
proof -
  note spec = find_leaders_from_spec [OF assms(2) [unfolded find_leaders_def]]
  show "branch_ok labels x" if "Inst x \<in> set its" for x
    using that spec by (auto simp: in_set_conv_nth)
  show "L = {k. starts_block its k}"
  proof (intro set_eqI iffI CollectI)
    fix k assume "k \<in> L"
    with spec consider "k = 0" | l where "k < length its" "its ! k = Label l" | t where "map_of labels t = Some k"
      | j x where "its ! j = Inst x" "terminator_kind (Some x) \<noteq> Fallthrough" "k = Suc j" "Suc j < length its" by auto
    then show "starts_block its k"
      by cases (auto simp: starts_block_def collect_labels_spec [OF assms(1)])
  next
    fix k assume "k \<in> {k. starts_block its k}"
    then consider "k = 0" | l where "k < length its" "its ! k = Label l"
      | x where "k \<noteq> 0" "k < length its" "its ! (k - 1) = Inst x" "terminator_kind (Some x) \<noteq> Fallthrough"
      by (auto simp: starts_block_def)
    then show "k \<in> L"
    proof cases
      case (3 x)
      then have "k - 1 < length its" "Suc (k - 1) < length its" "Suc (k - 1) = k" by auto
      with 3 spec show ?thesis by (metis add_0)
    qed (use spec in auto)
  qed
qed

lemma find_leaders_from_ok:
  "(\<forall>x. Inst x \<in> set its \<longrightarrow> branch_ok labels x) \<Longrightarrow> \<exists>L. find_leaders_from i its labels L0 = Inr L"
proof (induction its arbitrary: i L0)
  case (Cons it its)
  then have IH: "\<exists>L. find_leaders_from i its labels L0 = Inr L" for i L0 by simp
  show ?case
  proof (cases it)
    case (Inst x)
    with Cons.prems have "branch_ok labels x" by simp
    then show ?thesis using IH Inst unfolding branch_ok_def
      by (cases "is_branch_kind (terminator_kind (Some x))") (auto simp: Let_def simp del: Un_insert_right)
  qed (simp add: IH)
qed simp

section \<open>Blocks\<close>

lemma between_split:
  assumes "a \<le> b" "b \<le> c"
  shows "labels_between its a c = labels_between its a b @ labels_between its b c"
    "indices_between its a c = indices_between its a b @ indices_between its b c"
    "instructions_between its a c = instructions_between its a b @ instructions_between its b c"
proof -
  have u: "[a..<c] = [a..<b] @ [b..<c]" using assms by (metis le_Suc_ex upt_add_eq_append)
  show "labels_between its a c = labels_between its a b @ labels_between its b c"
    "indices_between its a c = indices_between its a b @ indices_between its b c"
    "instructions_between its a c = instructions_between its a b @ instructions_between its b c"
    unfolding labels_between_def indices_between_def instructions_between_def u by simp_all
qed

lemma indices_instructions: "map Inst (instructions_between its a b) = map ((!) its) (indices_between its a b)"
  by (induction b) (auto simp: indices_between_def instructions_between_def split: item.split)

lemma map_labels_spec:
  "map_labels name ls m = Inr m' \<Longrightarrow>
    map_of m' l = (if l \<in> set ls then Some name else map_of m l) \<and> (\<forall>l \<in> set ls. \<not> has_key m l) \<and> distinct ls"
proof (induction ls arbitrary: m)
  case (Cons x xs)
  then have "\<not> has_key m x" "map_labels name xs (AList.update x name m) = Inr m'"
    by (auto simp: map_labels_def split: if_split_asm)
  with Cons.IH [of "AList.update x name m"] show ?case by (auto simp: map_of_update_iff)
qed (simp add: map_labels_def)

lemma map_labels_ok:
  "distinct ls \<Longrightarrow> \<forall>l \<in> set ls. \<not> has_key m l \<Longrightarrow> \<exists>m'. map_labels name ls m = Inr m'"
proof (induction ls arbitrary: m)
  case (Cons a ls)
  then have "\<forall>l \<in> set ls. \<not> has_key (AList.update a name m) l" by auto
  with Cons show ?case by (simp add: map_labels_def)
qed (simp add: map_labels_def)

lemma foldl_upd: "foldl (\<lambda>f k. f(k \<mapsto> v)) f ks x = (if x \<in> set ks then Some v else f x)"
  by (induction ks arbitrary: f) auto

text \<open>A block is the run of items between two consecutive starts.\<close>

definition block_of_run :: "item list \<Rightarrow> basic_block \<Rightarrow> nat \<Rightarrow> nat \<Rightarrow> bool" where
  "block_of_run its b lo hi \<longleftrightarrow> lo \<le> hi \<and> hi \<le> length its \<and> starts_block its lo \<and>
     (\<forall>k. lo < k \<and> k < hi \<longrightarrow> \<not> starts_block its k) \<and>
     bb_instructions b = instructions_between its lo hi \<and>
     bb_item_indices b = indices_between its lo hi \<and> bb_labels b = labels_between its lo hi"

definition build_inv :: "item list \<Rightarrow> nat \<Rightarrow> block_build \<Rightarrow> bool" where
  "build_inv its hi st \<longleftrightarrow>
     map fst (cb_blocks st) = cb_order st \<and> distinct (cb_order st) \<and>
     concat (map (\<lambda>(n, b). bb_item_indices b) (cb_blocks st)) = indices_between its 0 hi \<and>
     concat (map (\<lambda>(n, b). bb_labels b) (cb_blocks st)) = labels_between its 0 hi \<and>
     (\<forall>l n. map_of (cb_labels st) l = Some n \<longleftrightarrow> (\<exists>b. (n, b) \<in> set (cb_blocks st) \<and> l \<in> set (bb_labels b))) \<and>
     (\<forall>k n. cb_items st k = Some n \<longleftrightarrow> (\<exists>b. (n, b) \<in> set (cb_blocks st) \<and> k \<in> set (bb_item_indices b))) \<and>
     (\<forall>(n, b) \<in> set (cb_blocks st). bb_predecessors b = {} \<and> bb_successors b = {} \<and>
        bb_branch_successors b = {} \<and> bb_fallthrough b = None \<and> (\<exists>a e. block_of_run its b a e))"

lemma build_invD:
  assumes "build_inv its hi st"
  shows "concat (map (\<lambda>(n, b). bb_item_indices b) (cb_blocks st)) = indices_between its 0 hi"
    "concat (map (\<lambda>(n, b). bb_labels b) (cb_blocks st)) = labels_between its 0 hi"
    "\<forall>l n. map_of (cb_labels st) l = Some n \<longleftrightarrow> (\<exists>b. (n, b) \<in> set (cb_blocks st) \<and> l \<in> set (bb_labels b))"
    "\<forall>k n. cb_items st k = Some n \<longleftrightarrow> (\<exists>b. (n, b) \<in> set (cb_blocks st) \<and> k \<in> set (bb_item_indices b))"
  using assms unfolding build_inv_def by - (elim conjE, assumption)+

lemma add_block_Inr:
  assumes "add_block its lo hi st = Inr st'"
  obtains m name b where "\<not> has_key (cb_blocks st) name"
    "map_labels name (labels_between its lo hi) (cb_labels st) = Inr m"
    "cb_blocks st' = cb_blocks st @ [(name, b)]" "cb_labels st' = m"
    "cb_items st' = foldl (\<lambda>f k. f(k \<mapsto> name)) (cb_items st) (indices_between its lo hi)"
    "cb_order st' = cb_order st @ [name]"
    "bb_instructions b = instructions_between its lo hi" "bb_item_indices b = indices_between its lo hi"
    "bb_labels b = labels_between its lo hi"
    "bb_predecessors b = {}" "bb_successors b = {}" "bb_branch_successors b = {}" "bb_fallthrough b = None"
proof -
  let ?name = "block_name lo (labels_between its lo hi) (cb_synthetic st)"
  let ?b = "\<lparr>bb_instructions = instructions_between its lo hi, bb_item_indices = indices_between its lo hi,
    bb_labels = labels_between its lo hi, bb_predecessors = {}, bb_successors = {},
    bb_branch_successors = {}, bb_fallthrough = None\<rparr>"
  from assms obtain m where new: "\<not> has_key (cb_blocks st) ?name"
    and m: "map_labels ?name (labels_between its lo hi) (cb_labels st) = Inr m"
    and st': "cb_blocks st' = cb_blocks st @ [(?name, ?b)]" "cb_labels st' = m"
      "cb_items st' = foldl (\<lambda>f k. f(k \<mapsto> ?name)) (cb_items st) (indices_between its lo hi)"
      "cb_order st' = cb_order st @ [?name]"
    by (auto simp: add_block_def Let_def bindE_Inr_iff update_new split: if_split_asm)
  show thesis by (rule that [OF new m st']) simp_all
qed

lemma add_block_inv:
  assumes "build_inv its lo st" "lo \<le> hi" "hi \<le> length its" "starts_block its lo"
    "\<forall>k. lo < k \<and> k < hi \<longrightarrow> \<not> starts_block its k" "add_block its lo hi st = Inr st'"
  shows "build_inv its hi st'"
proof -
  have old_labels: "map_of (cb_labels st) l = Some n \<longleftrightarrow> (\<exists>b. (n, b) \<in> set (cb_blocks st) \<and> l \<in> set (bb_labels b))" for l n
    using assms(1) unfolding build_inv_def by blast
  have old_items: "cb_items st k = Some n \<longleftrightarrow> (\<exists>b. (n, b) \<in> set (cb_blocks st) \<and> k \<in> set (bb_item_indices b))" for k n
    using assms(1) unfolding build_inv_def by blast
  obtain m name b where new: "\<not> has_key (cb_blocks st) name"
    and m: "map_labels name (labels_between its lo hi) (cb_labels st) = Inr m"
    and st': "cb_blocks st' = cb_blocks st @ [(name, b)]" "cb_labels st' = m"
      "cb_items st' = foldl (\<lambda>f k. f(k \<mapsto> name)) (cb_items st) (indices_between its lo hi)"
      "cb_order st' = cb_order st @ [name]"
    and b: "bb_instructions b = instructions_between its lo hi" "bb_item_indices b = indices_between its lo hi"
      "bb_labels b = labels_between its lo hi"
    and e: "bb_predecessors b = {}" "bb_successors b = {}" "bb_branch_successors b = {}" "bb_fallthrough b = None"
    by (rule add_block_Inr [OF assms(6)])
  have run: "block_of_run its b lo hi" using assms b by (simp add: block_of_run_def)
  have "name \<notin> set (cb_order st)"
    using new assms(1) unfolding has_key_iff build_inv_def by (simp only: set_map [symmetric]) simp
  moreover have "map_of m l = Some n \<longleftrightarrow> (\<exists>b. (n, b) \<in> set (cb_blocks st') \<and> l \<in> set (bb_labels b))" for l n
  proof (cases "l \<in> set (labels_between its lo hi)")
    case True
    then have "map_of m l = Some name" "map_of (cb_labels st) l = None"
      using map_labels_spec [OF m, of l] by (auto simp: has_key_map_of)
    moreover from this(2) have "l \<notin> set (bb_labels b)" if "(n', b) \<in> set (cb_blocks st)" for n' b
      using that old_labels [of l n'] by auto
    ultimately show ?thesis using True b(3) unfolding st'(1) by auto
  next
    case False
    then have "map_of m l = map_of (cb_labels st) l" using map_labels_spec [OF m, of l] by simp
    with old_labels [of l n] False b(3) show ?thesis unfolding st'(1) by auto
  qed
  moreover have "cb_items st' k = Some n \<longleftrightarrow> (\<exists>b. (n, b) \<in> set (cb_blocks st') \<and> k \<in> set (bb_item_indices b))" for k n
  proof (cases "k \<in> set (indices_between its lo hi)")
    case True
    then have "lo \<le> k" by (simp add: indices_between_def)
    have "k \<notin> set (bb_item_indices b)" if "(n', b) \<in> set (cb_blocks st)" for n' b
    proof
      assume "k \<in> set (bb_item_indices b)"
      with that have "k \<in> set (concat (map (\<lambda>(n, b). bb_item_indices b) (cb_blocks st)))" by force
      with assms(1) have "k \<in> set (indices_between its 0 lo)" by (simp add: build_inv_def)
      with \<open>lo \<le> k\<close> show False by (simp add: indices_between_def)
    qed
    with True b(2) show ?thesis unfolding st'(1,3) foldl_upd by auto
  next
    case False
    with old_items [of k n] b(2) show ?thesis unfolding st'(1,3) foldl_upd by auto
  qed
  moreover have "map fst (cb_blocks st') = cb_order st'" using assms(1) st' by (simp add: build_inv_def)
  moreover have "concat (map (\<lambda>(n, b). bb_item_indices b) (cb_blocks st')) = indices_between its 0 hi"
    "concat (map (\<lambda>(n, b). bb_labels b) (cb_blocks st')) = labels_between its 0 hi"
    using assms(1) st' b between_split [of 0 lo hi its] assms(2) by (simp_all add: build_inv_def)
  moreover have "\<forall>(n, b) \<in> set (cb_blocks st'). bb_predecessors b = {} \<and> bb_successors b = {} \<and>
      bb_branch_successors b = {} \<and> bb_fallthrough b = None \<and> (\<exists>a e. block_of_run its b a e)"
    using assms(1) run e unfolding build_inv_def st'(1) by auto
  moreover have "distinct (cb_order st')" using assms(1) st'(4) calculation(1) by (simp add: build_inv_def)
  ultimately show ?thesis unfolding build_inv_def st'(2) by (intro conjI allI)
qed

definition run_end :: "item list \<Rightarrow> nat list \<Rightarrow> nat" where
  "run_end its ls = (case ls of [] \<Rightarrow> length its | e # _ \<Rightarrow> e)"

text \<open>The leaders that remain are the starts from the end of the last block on.\<close>

definition remaining :: "item list \<Rightarrow> nat list \<Rightarrow> bool" where
  "remaining its ls \<longleftrightarrow> sorted_wrt (<) ls \<and> (\<forall>k \<in> set ls. starts_block its k) \<and>
     (\<forall>k. run_end its ls \<le> k \<and> k < length its \<and> starts_block its k \<longrightarrow> k \<in> set ls)"

lemma starts_block_le: "starts_block its k \<Longrightarrow> k \<le> length its"
  by (auto simp: starts_block_def)

lemma remaining_Cons:
  assumes "remaining its (l # ls)"
  shows "remaining its ls" "l \<le> run_end its ls" "run_end its ls \<le> length its" "starts_block its l"
    "\<forall>k. l < k \<and> k < run_end its ls \<longrightarrow> \<not> starts_block its k"
proof -
  have s: "sorted_wrt (<) ls" "\<forall>k \<in> set ls. l < k" "\<forall>k \<in> set (l # ls). starts_block its k"
    and all: "\<And>k. l \<le> k \<Longrightarrow> k < length its \<Longrightarrow> starts_block its k \<Longrightarrow> k \<in> set (l # ls)"
    using assms by (auto simp: remaining_def run_end_def)
  show "starts_block its l" using s by simp
  then have "l \<le> length its" by (rule starts_block_le)
  then show le: "l \<le> run_end its ls" using s by (cases ls) (auto simp: run_end_def)
  show end_le: "run_end its ls \<le> length its"
    using s starts_block_le by (cases ls) (auto simp: run_end_def)
  show "\<forall>k. l < k \<and> k < run_end its ls \<longrightarrow> \<not> starts_block its k"
  proof (intro allI impI notI)
    fix k assume k: "l < k \<and> k < run_end its ls" "starts_block its k"
    with end_le all [of k] have "k \<in> set ls" by auto
    with s(1) k(1) show False by (cases ls) (auto simp: run_end_def)
  qed
  have "k \<in> set ls" if "run_end its ls \<le> k" "k < length its" "starts_block its k" for k
  proof -
    from le that all [of k] have "k \<in> set (l # ls)" by simp
    moreover have "l < run_end its ls \<or> ls = []" using s by (cases ls) (auto simp: run_end_def)
    ultimately show ?thesis using that by (auto simp: run_end_def)
  qed
  then show "remaining its ls" using s by (auto simp: remaining_def)
qed

lemma add_blocks_inv:
  "remaining its ls \<Longrightarrow> build_inv its (run_end its ls) st \<Longrightarrow> add_blocks its ls st = Inr st' \<Longrightarrow>
    build_inv its (length its) st'"
proof (induction ls arbitrary: st)
  case Nil
  then show ?case by (simp add: run_end_def)
next
  case (Cons l ls)
  from Cons.prems(3) obtain st1 where st1: "add_block its l (run_end its ls) st = Inr st1"
    "add_blocks its ls st1 = Inr st'" by (auto simp: bindE_Inr_iff run_end_def)
  note r = remaining_Cons [OF Cons.prems(1)]
  have "build_inv its l st" using Cons.prems(2) by (simp add: run_end_def)
  from add_block_inv [OF this r(2-5) st1(1)] Cons.IH [OF r(1)] st1(2) show ?case by blast
qed

lemma leaders_remaining:
  assumes "L = {k. starts_block its k}"
  shows "remaining its (sorted_list_of_set L)" "build_inv its (run_end its (sorted_list_of_set L)) build_start"
proof -
  have "L \<subseteq> {..length its}" using assms starts_block_le by auto
  then have fin: "finite L" by (rule finite_subset) simp
  have zero: "0 \<in> L" using assms by (simp add: starts_block_def)
  show "remaining its (sorted_list_of_set L)"
    using assms fin by (auto simp: remaining_def)
  obtain l ls where ls: "sorted_list_of_set L = l # ls"
    using zero fin by (cases "sorted_list_of_set L") auto
  have "sorted (l # ls)" "0 \<in> set (l # ls)" using ls zero fin by (metis sorted_sorted_list_of_set, metis set_sorted_list_of_set)
  then have "l = 0" by auto
  then show "build_inv its (run_end its (sorted_list_of_set L)) build_start"
    by (simp add: ls run_end_def build_inv_def build_start_def indices_between_def labels_between_def)
qed

section \<open>Edges\<close>

definition same_body :: "basic_block \<Rightarrow> basic_block \<Rightarrow> bool" where
  "same_body b b' \<longleftrightarrow> bb_instructions b' = bb_instructions b \<and> bb_item_indices b' = bb_item_indices b \<and>
     bb_labels b' = bb_labels b"

lemma block_edges_spec:
  "block_edges labels nx b = Inr b' \<Longrightarrow> same_body b b' \<and> bb_predecessors b' = bb_predecessors b \<and>
    bb_successors b' \<subseteq> bb_successors b \<union> set_option nx \<union> {n. \<exists>l. map_of labels l = Some n} \<and>
    (finite (bb_successors b) \<longrightarrow> finite (bb_successors b'))"
  unfolding block_edges_def Let_def same_body_def
  by (auto split: option.split_asm if_split_asm)

lemma connect_successors_spec:
  "connect_successors labels bs = Inr bs' \<Longrightarrow>
    list_all2 (\<lambda>(n, b) (n', b'). n = n' \<and> same_body b b' \<and> bb_predecessors b' = bb_predecessors b \<and>
      bb_successors b' \<subseteq> bb_successors b \<union> fst ` set bs \<union> {n. \<exists>l. map_of labels l = Some n} \<and>
      (finite (bb_successors b) \<longrightarrow> finite (bb_successors b'))) bs bs'"
proof (induction labels bs arbitrary: bs' rule: connect_successors.induct)
  case (2 labels name b bs)
  let ?nx = "case bs of [] \<Rightarrow> None | (n, _) # _ \<Rightarrow> Some n"
  from "2.prems" obtain b' bs'' where b: "block_edges labels ?nx b = Inr b'"
    "connect_successors labels bs = Inr bs''" "bs' = (name, b') # bs''"
    by (auto simp: bindE_Inr_iff)
  have nx: "set_option ?nx \<subseteq> fst ` set bs" by (auto split: list.split prod.split)
  have "list_all2 (\<lambda>(n, b) (n', b'). n = n' \<and> same_body b b' \<and> bb_predecessors b' = bb_predecessors b \<and>
      bb_successors b' \<subseteq> bb_successors b \<union> fst ` set ((name, b) # bs) \<union> {n. \<exists>l. map_of labels l = Some n} \<and>
      (finite (bb_successors b) \<longrightarrow> finite (bb_successors b'))) bs bs''"
    by (rule list_all2_mono [OF "2.IH" [OF b(1,2)]]) auto
  with block_edges_spec [OF b(1)] nx b(3) show ?case by auto
qed simp

lemma add_predecessors_spec:
  "foldl (\<lambda>acc nb. add_predecessor (fst nb) (bb_successors (snd nb)) acc) acc bs =
    map (\<lambda>(n, b). (n, b\<lparr>bb_predecessors := {m. \<exists>c. (m, c) \<in> set bs \<and> n \<in> bb_successors c} \<union> bb_predecessors b\<rparr>)) acc"
proof (induction bs arbitrary: acc)
  case (Cons nb bs)
  obtain m c where nb: "nb = (m, c)" by (cases nb)
  have step: "add_predecessor m S acc =
      map (\<lambda>(n, b). (n, b\<lparr>bb_predecessors := (if n \<in> S then {m} else {}) \<union> bb_predecessors b\<rparr>)) acc" for S
    by (auto simp: add_predecessor_def)
  have sets: "{ma. \<exists>ca. (ma, ca) \<in> set bs \<and> n \<in> bb_successors ca} \<union> ((if n \<in> bb_successors c then {m} else {}) \<union> P) =
      {ma. \<exists>ca. (ma, ca) \<in> set (nb # bs) \<and> n \<in> bb_successors ca} \<union> P" for n P
    using nb by auto
  show ?case
    by (simp only: foldl_Cons Cons.IH nb fst_conv snd_conv step map_map comp_def case_prod_beta)
       (simp add: sets [unfolded nb] del: list.set insert_iff)
qed (simp add: case_prod_beta)

lemma list_all2_member: "list_all2 P xs ys \<Longrightarrow> y \<in> set ys \<Longrightarrow> \<exists>x \<in> set xs. P x y"
  by (induction rule: list_all2_induct) auto

lemma list_all2_keys: "list_all2 (\<lambda>(n, b) (n', b'). n = n' \<and> P n b b') xs ys \<Longrightarrow> map fst ys = map fst xs"
  by (induction rule: list_all2_induct) auto

lemma build_cfg_blocks:
  assumes "build_cfg prog = Inr g"
  obtains st bs where "build_inv (items prog) (length (items prog)) st" "cb_blocks st \<noteq> []"
    "connect_successors (cb_labels st) (cb_blocks st) = Inr bs" "blocks g = connect_predecessors bs"
    "entry g = (if has_key (cb_blocks st) ''entry'' then ''entry'' else hd (cb_order st))"
    "label_to_block g = cb_labels st" "item_to_block g = cb_items st" "block_order g = cb_order st"
proof -
  from assms obtain labels L st bs where
    l: "collect_labels (items prog) = Inr labels" "find_leaders (items prog) labels = Inr L"
    and st: "add_blocks (items prog) (sorted_list_of_set L) build_start = Inr st" "cb_blocks st \<noteq> []"
    and bs: "connect_successors (cb_labels st) (cb_blocks st) = Inr bs"
    and g: "g = \<lparr>blocks = connect_predecessors bs,
      entry = (if has_key (cb_blocks st) ''entry'' then ''entry'' else hd (cb_order st)),
      label_to_block = cb_labels st, item_to_block = cb_items st, block_order = cb_order st\<rparr>"
    by (auto simp: build_cfg_def Let_def bindE_Inr_iff connect_edges_def split: if_split_asm)
  note start = leaders_remaining [OF leaders_spec(1) [OF l]]
  have "build_inv (items prog) (length (items prog)) st"
    by (rule add_blocks_inv [OF start st(1)])
  then show thesis using st(2) bs by (rule that) (simp_all add: g)
qed

lemma connected_blocks:
  assumes "build_inv its (length its) st" "connect_successors (cb_labels st) (cb_blocks st) = Inr bs"
  shows "map fst (connect_predecessors bs) = cb_order st"
    "list_all2 (\<lambda>(n, b) (n', b'). n = n' \<and> same_body b b') (cb_blocks st) (connect_predecessors bs)"
    "(n, b') \<in> set (connect_predecessors bs) \<Longrightarrow> bb_successors b' \<subseteq> set (cb_order st) \<and> finite (bb_successors b') \<and>
      bb_predecessors b' = {m. \<exists>c. (m, c) \<in> set (connect_predecessors bs) \<and> n \<in> bb_successors c}"
proof -
  note s = connect_successors_spec [OF assms(2)]
  have p: "connect_predecessors bs = map (\<lambda>(n, b). (n, b\<lparr>bb_predecessors :=
      {m. \<exists>c. (m, c) \<in> set bs \<and> n \<in> bb_successors c} \<union> bb_predecessors b\<rparr>)) bs"
    unfolding connect_predecessors_def by (rule add_predecessors_spec)
  have names: "map fst (cb_blocks st) = cb_order st" using assms(1) by (simp add: build_inv_def)
  have "map fst bs = map fst (cb_blocks st)"
    by (rule list_all2_keys [OF s])
  then show "map fst (connect_predecessors bs) = cb_order st" using names p by (simp add: comp_def case_prod_beta)
  show "list_all2 (\<lambda>(n, b) (n', b'). n = n' \<and> same_body b b') (cb_blocks st) (connect_predecessors bs)"
    unfolding p list_all2_map2 by (rule list_all2_mono [OF s]) (auto simp: same_body_def)
  have same_succ: "(m, c) \<in> set bs \<longleftrightarrow> (\<exists>c'. (m, c') \<in> set (connect_predecessors bs) \<and> c' = c\<lparr>bb_predecessors :=
      {m'. \<exists>c. (m', c) \<in> set bs \<and> m \<in> bb_successors c} \<union> bb_predecessors c\<rparr> \<and> (m, c) \<in> set bs)" for m c
    unfolding p by force
  show "bb_successors b' \<subseteq> set (cb_order st) \<and> finite (bb_successors b') \<and>
      bb_predecessors b' = {m. \<exists>c. (m, c) \<in> set (connect_predecessors bs) \<and> n \<in> bb_successors c}"
    if "(n, b') \<in> set (connect_predecessors bs)"
  proof -
    from that p obtain b1 where b1: "(n, b1) \<in> set bs" "b' = b1\<lparr>bb_predecessors :=
        {m. \<exists>c. (m, c) \<in> set bs \<and> n \<in> bb_successors c} \<union> bb_predecessors b1\<rparr>" by auto
    from s b1(1) obtain b0 where b0: "(n, b0) \<in> set (cb_blocks st)" "bb_predecessors b1 = bb_predecessors b0"
      "bb_successors b1 \<subseteq> bb_successors b0 \<union> fst ` set (cb_blocks st) \<union> {n. \<exists>l. map_of (cb_labels st) l = Some n}"
      "finite (bb_successors b0) \<longrightarrow> finite (bb_successors b1)"
      by (auto dest: list_all2_member)
    have e: "bb_predecessors b0 = {}" "bb_successors b0 = {}"
      using assms(1) b0(1) by (auto simp: build_inv_def)
    have lab: "n' \<in> set (cb_order st)" if "map_of (cb_labels st) l = Some n'" for l n'
    proof -
      have "\<exists>b. (n', b) \<in> set (cb_blocks st)" using that assms(1) unfolding build_inv_def by blast
      then show ?thesis using names by (force simp: names [symmetric])
    qed
    have "fst ` set (cb_blocks st) = set (cb_order st)" by (simp add: names [symmetric])
    with b0 e b1(2) lab have "bb_successors b' \<subseteq> set (cb_order st)" "finite (bb_successors b')" by auto
    moreover have "bb_predecessors b' = {m. \<exists>c. (m, c) \<in> set bs \<and> n \<in> bb_successors c}"
      using b1(2) b0(2) e by simp
    moreover have "{m. \<exists>c. (m, c) \<in> set bs \<and> n \<in> bb_successors c} =
        {m. \<exists>c. (m, c) \<in> set (connect_predecessors bs) \<and> n \<in> bb_successors c}"
      unfolding p by force
    ultimately show ?thesis by simp
  qed
qed

lemma build_cfg_wf_edges:
  assumes "build_cfg prog = Inr g"
  shows "wf_cfg g" "successors_of g n \<subseteq> set (block_order g)"
proof -
  obtain st bs where inv: "build_inv (items prog) (length (items prog)) st" and ne: "cb_blocks st \<noteq> []"
    and bs: "connect_successors (cb_labels st) (cb_blocks st) = Inr bs"
    and g: "blocks g = connect_predecessors bs"
      "entry g = (if has_key (cb_blocks st) ''entry'' then ''entry'' else hd (cb_order st))"
      "label_to_block g = cb_labels st" "item_to_block g = cb_items st" "block_order g = cb_order st"
    by (rule build_cfg_blocks [OF assms])
  note c = connected_blocks [OF inv bs]
  have names: "map fst (blocks g) = block_order g" using c(1) g by simp
  have dist: "distinct (map fst (blocks g))" using inv names g by (simp add: build_inv_def)
  have key: "map_of (blocks g) n = Some b \<longleftrightarrow> (n, b) \<in> set (blocks g)" for n b
    using dist by simp
  have succ: "m \<in> successors_of g n \<longleftrightarrow> (\<exists>c. (n, c) \<in> set (blocks g) \<and> m \<in> bb_successors c)" for m n
    unfolding successors_of_def by (auto simp: key [symmetric] split: option.split)
  show sub: "successors_of g n \<subseteq> set (block_order g)" for n
    unfolding g(5) using c(3) [folded g(1)] succ [of _ n] by blast
  have order: "map fst (cb_blocks st) = cb_order st" using inv by (simp add: build_inv_def)
  have pred: "m \<in> predecessors_of g n \<longleftrightarrow> n \<in> successors_of g m" for m n
  proof (cases "map_of (blocks g) n")
    case None
    then have "n \<notin> set (block_order g)" using names by (metis map_of_eq_None_iff set_map)
    then show ?thesis using None sub [of m] by (auto simp: predecessors_of_def)
  next
    case (Some b)
    then have "(n, b) \<in> set (connect_predecessors bs)" using key g by simp
    from c(3) [OF this] have "bb_predecessors b = {m. \<exists>c. (m, c) \<in> set (blocks g) \<and> n \<in> bb_successors c}"
      using g by simp
    then show ?thesis unfolding succ by (simp add: predecessors_of_def Some)
  qed
  have fin: "finite (bb_successors b) \<and> finite (bb_predecessors b)" if "map_of (blocks g) n = Some b" for n b
  proof -
    have nb: "(n, b) \<in> set (connect_predecessors bs)" using that key g by simp
    have "bb_predecessors b \<subseteq> fst ` set (connect_predecessors bs)" using c(3) [OF nb] by force
    with c(3) [OF nb] show ?thesis by (auto intro: finite_subset)
  qed
  have keys: "set (cb_order st) = fst ` set (cb_blocks st)" by (simp add: order [symmetric])
  have "cb_order st \<noteq> []" using ne order by auto
  then have "entry g \<in> set (block_order g)"
    unfolding g(2,5) by (cases "has_key (cb_blocks st) ''entry''") (simp_all add: has_key_iff keys [symmetric])
  then show "wf_cfg g" unfolding wf_cfg_def using dist names fin pred by blast
qed

section \<open>When a graph is built\<close>

text \<open>Labels are distinct and are not names of generated blocks; branches have one defined target.\<close>

definition wf_control :: "item list \<Rightarrow> bool" where
  "wf_control its \<longleftrightarrow> distinct (labels_of its) \<and>
     list_all (\<lambda>l. l \<noteq> ''entry'' \<and> \<not> startswith l ''block_'') (labels_of its) \<and>
     list_all (\<lambda>it. case it of Label _ \<Rightarrow> True
       | Inst i \<Rightarrow> is_branch_kind (terminator_kind (Some i)) \<longrightarrow>
           (case pi_operands i of [t] \<Rightarrow> t \<in> set (labels_of its) | _ \<Rightarrow> False)) its"

lemma labels_between_all: "labels_between its 0 (length its) = labels_of its"
proof -
  have "map (\<lambda>k. case its ! k of Label l \<Rightarrow> [l] | Inst _ \<Rightarrow> []) [0..<length its] =
      map (\<lambda>it. case it of Label l \<Rightarrow> [l] | Inst _ \<Rightarrow> []) its"
    by (rule nth_equalityI) simp_all
  then show ?thesis by (simp only: labels_between_def labels_of_def)
qed

lemma dec_str_inj:
  assumes "dec_str (int a) = dec_str (int b)"
  shows "a = b"
proof -
  have "Some (int a) = py_int 10 (dec_str (int a))" by (rule py_int_dec_str [symmetric]) simp
  also have "\<dots> = py_int 10 (dec_str (int b))" by (simp only: assms)
  also have "\<dots> = Some (int b)" by (rule py_int_dec_str) simp
  finally show ?thesis by simp
qed

definition name_inv :: "item list \<Rightarrow> nat list \<Rightarrow> block_build \<Rightarrow> bool" where
  "name_inv its ls st \<longleftrightarrow> (\<forall>n \<in> fst ` set (cb_blocks st).
     n \<in> set (labels_between its 0 (run_end its ls)) \<or> (n = ''entry'' \<and> 0 \<notin> set ls) \<or>
     (\<exists>k < cb_synthetic st. n = ''block_'' @ dec_str (int k)))"

lemma add_blocks_ok:
  assumes "wf_control its"
  shows "remaining its ls \<Longrightarrow> build_inv its (run_end its ls) st \<Longrightarrow> name_inv its ls st \<Longrightarrow>
    \<exists>st'. add_blocks its ls st = Inr st'"
proof (induction ls arbitrary: st)
  case (Cons l ls)
  note r = remaining_Cons [OF Cons.prems(1)]
  let ?hi = "run_end its ls"
  let ?labels = "labels_between its l ?hi"
  let ?name = "block_name l ?labels (cb_synthetic st)"
  have inv: "build_inv its l st" using Cons.prems(2) by (simp add: run_end_def)
  have labs: "labels_of its = labels_between its 0 l @ ?labels @ labels_between its ?hi (length its)"
    using r(2,3) between_split(1) [of 0 l "length its" its] between_split(1) [of l ?hi "length its" its]
    by (simp add: labels_between_all)
  have dist: "distinct (labels_of its)" and plain: "\<And>x. x \<in> set (labels_of its) \<Longrightarrow> x \<noteq> ''entry'' \<and> \<not> startswith x ''block_''"
    using assms by (auto simp: wf_control_def list_all_iff)
  have old: "n \<in> set (labels_between its 0 l) \<or> (n = ''entry'' \<and> l \<noteq> 0) \<or>
      (\<exists>k < cb_synthetic st. n = ''block_'' @ dec_str (int k))" if "n \<in> fst ` set (cb_blocks st)" for n
    using Cons.prems(3) that by (auto simp: name_inv_def run_end_def)
  have "\<not> has_key (cb_blocks st) ?name"
  proof
    assume "has_key (cb_blocks st) ?name"
    then have n: "?name \<in> fst ` set (cb_blocks st)" by (simp add: has_key_iff)
    show False
    proof (cases ?labels)
      case Nil
      show False
      proof (cases "l = 0")
        case True
        with n Nil have "''entry'' \<in> set (labels_between its 0 l) \<or> (\<exists>k. ''entry'' = ''block_'' @ dec_str (int k))"
          using old [OF n] by (auto simp: block_name_def)
        with labs plain show False by auto
      next
        case False
        with Nil have name: "?name = ''block_'' @ dec_str (int (cb_synthetic st))" by (simp add: block_name_def)
        with old [OF n] consider "?name \<in> set (labels_between its 0 l)"
          | k where "k < cb_synthetic st" "?name = ''block_'' @ dec_str (int k)" by auto
        then show False
        proof cases
          case 1
          then have "\<not> startswith ?name ''block_''" using labs plain by auto
          then show False unfolding name by (simp only: startswith_append not_True_eq_False)
        next
          case (2 k)
          then show False unfolding name using dec_str_inj by auto
        qed
      qed
    next
      case (Cons x xs)
      then have name: "?name = x" by (simp add: block_name_def)
      have x: "x \<in> set (labels_of its)" "x \<notin> set (labels_between its 0 l)"
        using labs dist Cons by (auto simp del: labels_between_all)
      with old [OF n] plain [OF x(1)] name show False
        using startswith_append [of "''block_''", simplified] by auto
    qed
  qed
  moreover have "\<exists>m. map_labels ?name ?labels (cb_labels st) = Inr m"
  proof (rule map_labels_ok)
    show "distinct ?labels" using dist unfolding labs by simp
    have "x \<in> set (labels_between its 0 l)" if "has_key (cb_labels st) x" for x
    proof -
      from that obtain n b where "(n, b) \<in> set (cb_blocks st)" "x \<in> set (bb_labels b)"
        using inv unfolding has_key_map_of build_inv_def by blast
      then have "x \<in> set (concat (map (\<lambda>(n, b). bb_labels b) (cb_blocks st)))" by force
      with inv show ?thesis by (simp add: build_inv_def)
    qed
    then show "\<forall>x \<in> set ?labels. \<not> has_key (cb_labels st) x" using dist unfolding labs by auto
  qed
  ultimately obtain st1 where st1: "add_block its l ?hi st = Inr st1"
    by (auto simp: add_block_def Let_def)
  have blocks1: "fst ` set (cb_blocks st1) = insert ?name (fst ` set (cb_blocks st))"
    "cb_synthetic st1 = (if \<not> (l = 0 \<and> ?labels = []) \<and> ?labels = [] then Suc (cb_synthetic st) else cb_synthetic st)"
    using st1 by (auto simp: add_block_def Let_def bindE_Inr_iff update_new split: if_split_asm)
  have "name_inv its ls st1"
    unfolding name_inv_def
  proof
    fix n assume "n \<in> fst ` set (cb_blocks st1)"
    then consider "n = ?name" | "n \<in> fst ` set (cb_blocks st)" using blocks1(1) by blast
    then show "n \<in> set (labels_between its 0 (run_end its ls)) \<or> (n = ''entry'' \<and> 0 \<notin> set ls) \<or>
       (\<exists>k < cb_synthetic st1. n = ''block_'' @ dec_str (int k))"
    proof cases
      case 1
      have "0 \<notin> set ls" using Cons.prems(1) by (auto simp: remaining_def)
      with 1 blocks1(2) between_split(1) [of 0 l ?hi its] r(2) show ?thesis
        by (cases ?labels) (auto simp: block_name_def)
    next
      case 2
      have "0 \<notin> set ls" using Cons.prems(1) by (auto simp: remaining_def)
      have more: "cb_synthetic st \<le> cb_synthetic st1" unfolding blocks1(2) by simp
      from old [OF 2] consider "n \<in> set (labels_between its 0 l)" | "n = ''entry''"
        | k where "k < cb_synthetic st" "n = ''block_'' @ dec_str (int k)" by blast
      then show ?thesis
      proof cases
        case 1
        with between_split(1) [of 0 l ?hi its] r(2) show ?thesis by simp
      next
        case 2
        with \<open>0 \<notin> set ls\<close> show ?thesis by simp
      next
        case (3 k)
        with more show ?thesis by (intro disjI2 exI [of _ k]) simp
      qed
    qed
  qed
  with Cons.IH [OF r(1) add_block_inv [OF inv r(2-5) st1]] st1 show ?case by (simp add: run_end_def)
qed simp

lemma connect_successors_ok:
  assumes "\<And>n b t. (n, b) \<in> set bs \<Longrightarrow> block_terminator b = Some t \<Longrightarrow> is_branch_kind (terminator_kind (Some t)) \<Longrightarrow>
    map_of labels (hd (pi_operands t)) \<noteq> None"
  shows "\<exists>bs'. connect_successors labels bs = Inr bs'"
  using assms
proof (induction labels bs rule: connect_successors.induct)
  case (2 labels name b bs)
  have "\<exists>b'. block_edges labels nx b = Inr b'" for nx
    using "2.prems" [of name b] by (auto simp: block_edges_def Let_def split: option.split)
  then obtain b' where b: "block_edges labels (case bs of [] \<Rightarrow> None | (n, _) # _ \<Rightarrow> Some n) b = Inr b'" by blast
  have "\<exists>bs'. connect_successors labels bs = Inr bs'" by (rule "2.IH" [OF b]) (use "2.prems" in auto)
  with b show ?case by auto
qed simp

section \<open>Properties\<close>

definition loop_items :: "item list" where
  "loop_items =
     [Inst (PTXInstruction ''mov.u32'' [''%r1'', ''0'']),
      Label ''L'',
      Inst (PTXInstruction ''add.u32'' [''%r1'', ''%r1'', ''1'']),
      Inst (PTXInstruction ''setp.lt.u32'' [''%p1'', ''%r1'', ''10'']),
      Inst ((PTXInstruction ''bra'' [''L''])\<lparr>pi_predicate := Some ''p1''\<rparr>),
      Inst (PTXInstruction ''ret'' [])]"

definition sample_program :: "item list \<Rightarrow> ptx_program" where
  "sample_program its = \<lparr>kernel_name = ''k'', parameters = [], reg_decls = [], items = its\<rparr>"

definition loop_cfg :: cfg where
  "loop_cfg = (case build_cfg (sample_program loop_items) of Inr g \<Rightarrow> g
     | Inl _ \<Rightarrow> \<lparr>blocks = [], entry = [], label_to_block = [], item_to_block = Map.empty, block_order = []\<rparr>)"

lemma loop_cfg: "build_cfg (sample_program loop_items) = Inr loop_cfg"
proof -
  have "\<not> isl (build_cfg (sample_program loop_items))" by code_simp
  then show ?thesis by (auto simp: loop_cfg_def isl_def split: sum.split)
qed

lemma build_cfg_tables:
  assumes "build_cfg prog = Inr g"
  shows "concat (map (\<lambda>(n, b). bb_item_indices b) (blocks g)) = indices_between (items prog) 0 (length (items prog))"
    "concat (map (\<lambda>(n, b). bb_labels b) (blocks g)) = labels_of (items prog)"
    "(n, b) \<in> set (blocks g) \<Longrightarrow> \<exists>lo hi. block_of_run (items prog) b lo hi"
    "item_to_block g k = Some n \<longleftrightarrow> (\<exists>b. (n, b) \<in> set (blocks g) \<and> k \<in> set (bb_item_indices b))"
    "map_of (label_to_block g) l = Some n \<longleftrightarrow> (\<exists>b. (n, b) \<in> set (blocks g) \<and> l \<in> set (bb_labels b))"
proof -
  obtain st bs where inv: "build_inv (items prog) (length (items prog)) st"
    and bs: "connect_successors (cb_labels st) (cb_blocks st) = Inr bs" "blocks g = connect_predecessors bs"
    and g: "label_to_block g = cb_labels st" "item_to_block g = cb_items st"
    by (rule build_cfg_blocks [OF assms])
  have same: "list_all2 (\<lambda>(n, b) (n', b'). n = n' \<and> same_body b b') (cb_blocks st) (blocks g)"
    unfolding bs(2) by (rule connected_blocks(2) [OF inv bs(1)])
  have idx: "map (\<lambda>(n, b). bb_item_indices b) (blocks g) = map (\<lambda>(n, b). bb_item_indices b) (cb_blocks st)"
    and lab: "map (\<lambda>(n, b). bb_labels b) (blocks g) = map (\<lambda>(n, b). bb_labels b) (cb_blocks st)"
    using same by (induction rule: list_all2_induct) (auto simp: same_body_def)
  have pairs: "map (\<lambda>(n, b). (n, bb_item_indices b)) (blocks g) = map (\<lambda>(n, b). (n, bb_item_indices b)) (cb_blocks st)"
    "map (\<lambda>(n, b). (n, bb_labels b)) (blocks g) = map (\<lambda>(n, b). (n, bb_labels b)) (cb_blocks st)"
    using same by (induction rule: list_all2_induct) (auto simp: same_body_def)
  have flat: "(\<exists>b. (n, b) \<in> set bs \<and> x \<in> set (sel b)) \<longleftrightarrow>
      (\<exists>ys. (n, ys) \<in> set (map (\<lambda>(n, b). (n, sel b)) bs) \<and> x \<in> set ys)"
    for n x bs and sel :: "basic_block \<Rightarrow> 'a list" by force
  have items: "(\<exists>b. (n, b) \<in> set (blocks g) \<and> k \<in> set (bb_item_indices b)) \<longleftrightarrow>
      (\<exists>b. (n, b) \<in> set (cb_blocks st) \<and> k \<in> set (bb_item_indices b))" for n k
    unfolding flat pairs ..
  have labels: "(\<exists>b. (n, b) \<in> set (blocks g) \<and> l \<in> set (bb_labels b)) \<longleftrightarrow>
      (\<exists>b. (n, b) \<in> set (cb_blocks st) \<and> l \<in> set (bb_labels b))" for n l
    unfolding flat pairs ..
  have runs: "\<exists>lo hi. block_of_run (items prog) b lo hi" if "(n, b) \<in> set (blocks g)" for n b
  proof -
    from list_all2_member [OF same that] obtain b0 where "(n, b0) \<in> set (cb_blocks st)" "same_body b0 b" by auto
    with inv show ?thesis by (fastforce simp: build_inv_def block_of_run_def same_body_def)
  qed
  show "concat (map (\<lambda>(n, b). bb_item_indices b) (blocks g)) = indices_between (items prog) 0 (length (items prog))"
    "concat (map (\<lambda>(n, b). bb_labels b) (blocks g)) = labels_of (items prog)"
    unfolding idx lab using build_invD [OF inv] labels_between_all [of "items prog"] by simp_all
  show "(n, b) \<in> set (blocks g) \<Longrightarrow> \<exists>lo hi. block_of_run (items prog) b lo hi" by (rule runs)
  show "item_to_block g k = Some n \<longleftrightarrow> (\<exists>b. (n, b) \<in> set (blocks g) \<and> k \<in> set (bb_item_indices b))"
    unfolding g items using build_invD(4) [OF inv] by blast
  show "map_of (label_to_block g) l = Some n \<longleftrightarrow> (\<exists>b. (n, b) \<in> set (blocks g) \<and> l \<in> set (bb_labels b))"
    unfolding g labels using build_invD(3) [OF inv] by blast
qed

text \<open>
  C15. The graph of a program is built exactly from its items: every label opens a block, every
  branch and return closes one, the blocks in order hold every instruction and every label once, and
  the two lookup tables name the block that holds an instruction or a label.
\<close>

theorem build_cfg_partition:
  assumes "build_cfg prog = Inr g"
  shows "concat (map (\<lambda>(n, b). bb_item_indices b) (blocks g)) = indices_between (items prog) 0 (length (items prog)) \<and>
    concat (map (\<lambda>(n, b). bb_labels b) (blocks g)) = labels_of (items prog) \<and>
    (\<forall>(n, b) \<in> set (blocks g). \<exists>lo hi. block_of_run (items prog) b lo hi) \<and>
    (\<forall>k n. item_to_block g k = Some n \<longleftrightarrow> (\<exists>b. (n, b) \<in> set (blocks g) \<and> k \<in> set (bb_item_indices b))) \<and>
    (\<forall>l n. map_of (label_to_block g) l = Some n \<longleftrightarrow> (\<exists>b. (n, b) \<in> set (blocks g) \<and> l \<in> set (bb_labels b)))"
  using build_cfg_tables [OF assms] by (intro conjI) auto

theorem build_cfg_partition_witness:
  "concat (map (\<lambda>(n, b). bb_item_indices b) (blocks loop_cfg)) = indices_between loop_items 0 (length loop_items) \<and>
    map fst (blocks loop_cfg) = [''entry'', ''L'', ''block_0'']"
proof
  show "concat (map (\<lambda>(n, b). bb_item_indices b) (blocks loop_cfg)) =
      indices_between loop_items 0 (length loop_items)"
    using build_cfg_partition [OF loop_cfg] by (simp add: sample_program_def)
  show "map fst (blocks loop_cfg) = [''entry'', ''L'', ''block_0'']" by code_simp
qed

lemma add_blocks_nonempty:
  "add_blocks its ls st = Inr st' \<Longrightarrow> cb_blocks st \<noteq> [] \<or> ls \<noteq> [] \<Longrightarrow> cb_blocks st' \<noteq> []"
proof (induction ls arbitrary: st)
  case (Cons l ls)
  then obtain st1 where st1: "add_block its l (case ls of [] \<Rightarrow> length its | e # _ \<Rightarrow> e) st = Inr st1"
    "add_blocks its ls st1 = Inr st'" by (auto simp: bindE_Inr_iff)
  have "cb_blocks st1 \<noteq> []" by (rule add_block_Inr [OF st1(1)]) simp
  with Cons.IH [OF st1(2)] show ?case by blast
qed simp

lemma leaders_nonempty: "sorted_list_of_set {k. starts_block its k} \<noteq> []"
proof -
  have "{k. starts_block its k} \<subseteq> {..length its}" using starts_block_le by auto
  then have "finite {k. starts_block its k}" by (rule finite_subset) simp
  moreover have "0 \<in> {k. starts_block its k}" by (simp add: starts_block_def)
  ultimately show ?thesis by auto
qed

lemma instructions_between_items:
  assumes "t \<in> set (instructions_between its lo hi)" "hi \<le> length its"
  shows "Inst t \<in> set its"
proof -
  from assms(1) have "Inst t \<in> set (map Inst (instructions_between its lo hi))" by simp
  then obtain k where "k \<in> set (indices_between its lo hi)" "Inst t = its ! k"
    unfolding indices_instructions by auto
  with assms(2) show ?thesis by (auto simp: indices_between_def)
qed

text \<open>
  C16. A graph is built for every program whose labels are distinct and do not use the generated
  names, and whose branches have one defined target; its edges lead to its own blocks and are
  recorded at both ends.
\<close>

theorem build_cfg_succeeds:
  assumes "wf_control (items prog)"
  shows "\<exists>g. build_cfg prog = Inr g \<and> wf_cfg g \<and> (\<forall>n. successors_of g n \<subseteq> set (block_order g))"
proof -
  let ?its = "items prog"
  have branches: "\<exists>t. pi_operands i = [t] \<and> t \<in> set (labels_of ?its)"
    if "Inst i \<in> set ?its" "is_branch_kind (terminator_kind (Some i))" for i
  proof -
    from assms have "\<forall>it \<in> set ?its. case it of Label _ \<Rightarrow> True
        | Inst i \<Rightarrow> is_branch_kind (terminator_kind (Some i)) \<longrightarrow>
            (case pi_operands i of [t] \<Rightarrow> t \<in> set (labels_of ?its) | _ \<Rightarrow> False)"
      by (simp add: wf_control_def list_all_iff)
    from bspec [OF this that(1)] that(2) show ?thesis by (simp split: list.split_asm)
  qed
  obtain labels where l: "collect_labels ?its = Inr labels"
    using assms collect_labels_ok by (auto simp: wf_control_def)
  have lab: "map_of labels t \<noteq> None" if "t \<in> set (labels_of ?its)" for t
  proof -
    from that have "Label t \<in> set ?its" by (simp add: in_labels_of)
    then obtain k where "k < length ?its" "?its ! k = Label t" by (auto simp: in_set_conv_nth)
    then have "map_of labels t = Some k" using collect_labels_spec [OF l, of t k] by blast
    then show ?thesis by simp
  qed
  have "\<forall>x. Inst x \<in> set ?its \<longrightarrow> branch_ok labels x"
    using branches lab unfolding branch_ok_def by blast
  from find_leaders_from_ok [OF this] obtain L where L: "find_leaders ?its labels = Inr L"
    unfolding find_leaders_def by blast
  note start = leaders_remaining [OF leaders_spec(1) [OF l L]]
  have "name_inv ?its (sorted_list_of_set L) build_start" by (simp add: name_inv_def build_start_def)
  from add_blocks_ok [OF assms start this] obtain st where
    st: "add_blocks ?its (sorted_list_of_set L) build_start = Inr st" by blast
  note inv = add_blocks_inv [OF start st]
  have ne: "cb_blocks st \<noteq> []"
    by (rule add_blocks_nonempty [OF st]) (use leaders_spec(1) [OF l L] start(2) in \<open>simp add: leaders_nonempty\<close>)
  have "\<exists>bs. connect_successors (cb_labels st) (cb_blocks st) = Inr bs"
  proof (rule connect_successors_ok)
    fix n b t assume b: "(n, b) \<in> set (cb_blocks st)" and t: "block_terminator b = Some t"
      "is_branch_kind (terminator_kind (Some t))"
    show "map_of (cb_labels st) (hd (pi_operands t)) \<noteq> None"
    proof -
      have "t \<in> set (bb_instructions b)" using t(1) by (auto simp: block_terminator_def split: if_split_asm)
      moreover obtain lo hi where "bb_instructions b = instructions_between ?its lo hi" "hi \<le> length ?its"
        using inv b unfolding build_inv_def block_of_run_def by blast
      ultimately have "Inst t \<in> set ?its" using instructions_between_items by metis
      with branches t(2) obtain x where x: "pi_operands t = [x]" "x \<in> set (labels_of ?its)" by blast
      then have "x \<in> set (concat (map (\<lambda>(n, b). bb_labels b) (cb_blocks st)))"
        by (simp only: build_invD(2) [OF inv] labels_between_all)
      then obtain n' b' where "(n', b') \<in> set (cb_blocks st)" "x \<in> set (bb_labels b')" by auto
      with build_invD(3) [OF inv] x(1) show ?thesis by auto
    qed
  qed
  then obtain bs where "connect_successors (cb_labels st) (cb_blocks st) = Inr bs" by blast
  with l L st ne obtain g where g: "build_cfg prog = Inr g" by (simp add: build_cfg_def connect_edges_def)
  with build_cfg_wf_edges show ?thesis by blast
qed

theorem build_cfg_succeeds_witness:
  "\<exists>g. build_cfg (sample_program loop_items) = Inr g \<and> wf_cfg g \<and> (\<forall>n. successors_of g n \<subseteq> set (block_order g))"
  by (rule build_cfg_succeeds) code_simp

text \<open>
  C17. The dominator loop ends, and gives each reachable block exactly the blocks that lie on every
  path from the entry to it; the reverse postorder it runs over lists the reachable blocks once each,
  from the entry.
\<close>

theorem dominators_correct:
  assumes "build_cfg prog = Inr g"
  shows "(\<exists>s. dominators_loop g = Some s) \<and>
    dominators g n = (if n \<in> reachable g then Some {m. dominates g m n} else None) \<and>
    set (reverse_postorder g) = reachable g \<and> distinct (reverse_postorder g) \<and> hd (reverse_postorder g) = entry g"
  using dominators_loop_ends [of g] dominators_are_dominance [OF build_cfg_wf_edges(1) [OF assms], of n]
    reverse_postorder_spec [OF build_cfg_wf_edges(1) [OF assms]] by blast

theorem dominators_correct_witness:
  "dominators loop_cfg ''block_0'' = Some {m. dominates loop_cfg m ''block_0''} \<and>
    dominators loop_cfg ''block_0'' = Some {''entry'', ''L'', ''block_0''}"
proof
  have "''block_0'' \<in> set (reverse_postorder loop_cfg)" by code_simp
  then show "dominators loop_cfg ''block_0'' = Some {m. dominates loop_cfg m ''block_0''}"
    using dominators_correct [OF loop_cfg, of "''block_0''"] by simp
  show "dominators loop_cfg ''block_0'' = Some {''entry'', ''L'', ''block_0''}" by code_simp
qed

text \<open>
  C18. Every natural loop belongs to an edge from its tail back to its header, holds the header and
  the blocks that reach the tail without passing it, and its header dominates every block of it.
\<close>

theorem natural_loops_correct:
  assumes "build_cfg prog = Inr g" "L \<in> set (natural_loops g)"
  shows "nl_header L \<in> successors_of g (nl_tail L) \<and>
    nl_blocks L = insert (nl_header L)
      (if nl_tail L = nl_header L then {} else loop_body g (nl_header L) (nl_tail L)) \<and>
    (\<forall>n \<in> nl_blocks L. dominates g (nl_header L) n)"
proof -
  note g = build_cfg_wf_edges(1) [OF assms(1)]
  from assms(2) obtain t h where e: "(t, h) \<in> set (backedges g)" "L = natural_loop_of g (t, h)"
    by (auto simp: natural_loops_def)
  have L: "nl_header L = h" "nl_tail L = t" by (simp_all add: e(2) natural_loop_of_def)
  have blocks: "nl_blocks L = (if t = h then {h} else insert h (loop_body g h t))"
    unfolding e(2) by (rule natural_loop_blocks [OF g])
  have "dominates g h h" by (simp add: dominates_def path_end)
  with blocks backedge_dominates [OF g e(1)] loop_body_dominated [OF g, of h t] L show ?thesis
    by (auto split: if_split_asm)
qed

theorem natural_loops_correct_witness:
  "natural_loops loop_cfg = [\<lparr>nl_header = ''L'', nl_tail = ''L'', nl_blocks = {''L''}\<rparr>] \<and> dominates loop_cfg ''L'' ''L''"
proof
  show loops: "natural_loops loop_cfg = [\<lparr>nl_header = ''L'', nl_tail = ''L'', nl_blocks = {''L''}\<rparr>]" by code_simp
  show "dominates loop_cfg ''L'' ''L''"
    using natural_loops_correct [OF loop_cfg, of "\<lparr>nl_header = ''L'', nl_tail = ''L'', nl_blocks = {''L''}\<rparr>"] loops by simp
qed

text \<open>
  A label named \<open>entry\<close> takes over: the program below starts at \<open>L0\<close>, but the graph is entered at
  the last block, and the first one is unreachable in it.
\<close>

definition entry_label_items :: "item list" where
  "entry_label_items = [Label ''L0'', Inst (PTXInstruction ''mov.u32'' [''%r1'', ''0'']),
     Label ''entry'', Inst (PTXInstruction ''ret'' [])]"

lemma entry_label_takes_over:
  "case build_cfg (sample_program entry_label_items) of
     Inl _ \<Rightarrow> False
   | Inr g \<Rightarrow> entry g = ''entry'' \<and> ''L0'' \<notin> set (reverse_postorder g)"
  by code_simp

end
