(* ===== verification/Liveness.thy ===== *)
theory Liveness
  imports Helpers
begin

text \<open>
  The liveness analysis, \<open>analysis/liveness.py\<close>: for every definition of a register the range of
  item indices up to the last use before the next definition.
\<close>

record live_range =
  lr_register :: string
  lr_first_def :: int
  lr_last_use :: int
  lr_definition_indices :: "int list"
  lr_use_indices :: "int list"

definition is_live :: "live_range \<Rightarrow> bool" where
  "is_live lr \<longleftrightarrow> 0 \<le> lr_first_def lr \<and> 0 \<le> lr_last_use lr"

definition span :: "live_range \<Rightarrow> int" where
  "span lr = (if \<not> is_live lr then 0 else lr_last_use lr - lr_first_def lr + 1)"

definition DEST_BASES :: "string list" where
  "DEST_BASES = [''ld'', ''mov'', ''add'', ''sub'', ''mul'', ''mad'', ''and'', ''or'', ''xor'', ''shl'', ''shr'', ''cvt'', ''fma'']"

definition dest_register :: "ptx_instruction \<Rightarrow> string option" where
  "dest_register inst =
     (if opcode_base inst \<in> set DEST_BASES then
        (case pi_operands inst of
           [] \<Rightarrow> None
         | op # _ \<Rightarrow> if startswith op ''%'' then Some (strip op) else None)
      else None)"

definition source_registers :: "ptx_instruction \<Rightarrow> string list" where
  "source_registers inst =
     predicate_reads inst @
     filter (\<lambda>op. startswith op ''%'') (map strip_brackets
       (if opcode_base inst \<in> set (DEST_BASES @ [''setp'']) \<and> pi_operands inst \<noteq> [] then tl (pi_operands inst)
        else pi_operands inst))"

text \<open>\<open>d.setdefault(k, []).append(x)\<close>.\<close>

definition dict_append :: "'k \<Rightarrow> 'v \<Rightarrow> ('k, 'v list) dict \<Rightarrow> ('k, 'v list) dict" where
  "dict_append k x d = AList.map_default k [x] (\<lambda>xs. xs @ [x]) d"

definition dict_get_list :: "('k, 'v list) dict \<Rightarrow> 'k \<Rightarrow> 'v list" where
  "dict_get_list d k = (case map_of d k of None \<Rightarrow> [] | Some xs \<Rightarrow> xs)"

fun collect_defs :: "nat \<Rightarrow> item list \<Rightarrow> (string, int list) dict \<Rightarrow> (string, int list) dict" where
  "collect_defs i [] d = d"
| "collect_defs i (Label _ # its) d = collect_defs (Suc i) its d"
| "collect_defs i (Inst x # its) d =
     collect_defs (Suc i) its (case dest_register x of None \<Rightarrow> d | Some r \<Rightarrow> dict_append r (int i) d)"

fun collect_uses :: "nat \<Rightarrow> item list \<Rightarrow> (string, int list) dict \<Rightarrow> (string, int list) dict" where
  "collect_uses i [] d = d"
| "collect_uses i (Label _ # its) d = collect_uses (Suc i) its d"
| "collect_uses i (Inst x # its) d =
     collect_uses (Suc i) its (foldl (\<lambda>d r. dict_append r (int i) d) d (source_registers x))"

definition last_inst_index :: "item list \<Rightarrow> int" where
  "last_inst_index its =
     (let ixs = filter (\<lambda>i. case its ! i of Label _ \<Rightarrow> False | Inst _ \<Rightarrow> True) [0..<length its] in
      if ixs = [] then - 1 else int (last ixs))"

text \<open>The range of one definition: \<open>num\<close> its number, \<open>nxt\<close> the next definition.\<close>

definition definition_range :: "string \<Rightarrow> int list \<Rightarrow> nat \<Rightarrow> int \<Rightarrow> int \<Rightarrow> live_range" where
  "definition_range key uses num d nxt =
     (let us = filter (\<lambda>u. if num = 0 then d \<le> u \<and> u \<le> nxt else d < u \<and> u < nxt) uses;
          last_use = foldl max (- 1) us in
      \<lparr>lr_register = key, lr_first_def = d, lr_last_use = (if last_use < 0 then d else last_use),
       lr_definition_indices = [d], lr_use_indices = us\<rparr>)"

definition range_key :: "string \<Rightarrow> nat \<Rightarrow> int list \<Rightarrow> string" where
  "range_key reg num defs = (if 1 < length defs then reg @ ''#'' @ dec_str (int num) else reg)"

definition register_ranges :: "int \<Rightarrow> string \<Rightarrow> int list \<Rightarrow> int list \<Rightarrow> (string \<times> live_range) list" where
  "register_ranges last_index reg defs uses =
     map (\<lambda>num. let key = range_key reg num defs;
                    nxt = (if Suc num < length defs then defs ! Suc num else last_index + 1) in
            (key, definition_range key (sort uses) num (defs ! num) nxt))
       [0..<length defs]"

definition put_all :: "('k \<times> 'v) list \<Rightarrow> ('k, 'v) dict \<Rightarrow> ('k, 'v) dict" where
  "put_all kvs d = foldl (\<lambda>d kv. AList.update (fst kv) (snd kv) d) d kvs"

definition used_only :: "(string, int list) dict \<Rightarrow> string \<times> int list \<Rightarrow>
    (string, live_range) dict \<Rightarrow> (string, live_range) dict" where
  "used_only defs ru ranges =
     (if has_key defs (fst ru) \<or> has_key ranges (fst ru) then ranges
      else AList.update (fst ru)
        \<lparr>lr_register = fst ru, lr_first_def = - 1, lr_last_use = Max (set (snd ru)),
         lr_definition_indices = [], lr_use_indices = sort (snd ru)\<rparr> ranges)"

definition analyze_liveness :: "ptx_program \<Rightarrow> (string, live_range) dict" where
  "analyze_liveness prog =
     (let its = items prog;
          defs = collect_defs 0 its [];
          uses = collect_uses 0 its [];
          ranges = foldl (\<lambda>acc rd. put_all
            (register_ranges (last_inst_index its) (fst rd) (snd rd) (dict_get_list uses (fst rd))) acc) [] defs
      in foldl (\<lambda>acc ru. used_only defs ru acc) ranges uses)"

end
