(* ===== verification/Reg_Alloc.thy ===== *)
theory Reg_Alloc
  imports Liveness Cfg_Graph
begin

text \<open>
  The linear-scan register allocator, \<open>passes/register_allocation.py\<close>. Physical registers are
  integers; \<open>free_list.pop()\<close> takes the last element.
\<close>

definition MAX_GPR :: int where "MAX_GPR = 239"

definition MAX_PRED :: int where "MAX_PRED = 7"

section \<open>Live ranges of base registers\<close>

definition base_name :: "string \<Rightarrow> string" where
  "base_name key = before_first CHR ''#'' key"

definition gpr_ranges :: "(string, live_range) dict \<Rightarrow> (string, live_range) dict" where
  "gpr_ranges ranges = filter (\<lambda>(name, lr). is_live lr \<and> \<not> startswith name ''%p'') ranges"

type_synonym intervals = "(string, int \<times> int) dict"

definition merge_range :: "intervals \<Rightarrow> string \<times> live_range \<Rightarrow> intervals" where
  "merge_range merged nl =
     (let base = base_name (fst nl); lr = snd nl in
      case map_of merged base of
        Some (fd, lu) \<Rightarrow> AList.update base (min fd (lr_first_def lr), max lu (lr_last_use lr)) merged
      | None \<Rightarrow> AList.update base (lr_first_def lr, lr_last_use lr) merged)"

definition merge_ranges :: "(string, live_range) dict \<Rightarrow> intervals" where
  "merge_ranges ranges = foldl merge_range [] ranges"

definition base_use_indices :: "(string, live_range) dict \<Rightarrow> string \<Rightarrow> int list" where
  "base_use_indices ranges base =
     concat (map (\<lambda>(name, lr). if base_name name = base then lr_use_indices lr else []) ranges)"

definition has_use_in_range :: "int list \<Rightarrow> int \<Rightarrow> int \<Rightarrow> bool" where
  "has_use_in_range uses range_start range_end = list_ex (\<lambda>u. range_start \<le> u \<and> u \<le> range_end) uses"

definition extend_loop_uses ::
    "(string, live_range) dict \<Rightarrow> (int \<times> int) option \<Rightarrow> intervals \<Rightarrow> intervals" where
  "extend_loop_uses ranges loop_range merged =
     (case loop_range of
        None \<Rightarrow> merged
      | Some (s, e) \<Rightarrow>
          map (\<lambda>(base, (fd, lu)).
            (base, if has_use_in_range (base_use_indices ranges base) s e \<and> lu < e then (fd, e) else (fd, lu)))
            merged)"

text \<open>The instructions of all loops: the least and the greatest index.\<close>

definition compute_loop_range ::
    "(cfg_error, cfg) result \<Rightarrow> item list \<Rightarrow> (int \<times> int) option" where
  "compute_loop_range cfg_result its =
     (case cfg_result of
        Inl _ \<Rightarrow> None
      | Inr g \<Rightarrow>
          (let ixs = concat (map (\<lambda>l. concat (map (\<lambda>n. case map_of (blocks g) n of
                 None \<Rightarrow> []
               | Some b \<Rightarrow> filter (\<lambda>i. case its ! i of Label _ \<Rightarrow> False | Inst _ \<Rightarrow> True) (bb_item_indices b))
               (sorted_list_of_set (nl_blocks l)))) (natural_loops g)) in
           if ixs = [] then None else Some (int (Min (set ixs)), int (Max (set ixs)))))"

section \<open>The scan\<close>

record scan_state =
  sc_mapping :: "(string, int) dict"
  sc_active :: "(int \<times> int) list"
  sc_free :: "int list"

definition remove_at :: "nat \<Rightarrow> 'a list \<Rightarrow> 'a list" where
  "remove_at i xs = take i xs @ drop (Suc i) xs"

definition expire :: "int \<Rightarrow> scan_state \<Rightarrow> scan_state" where
  "expire first_def st =
     st\<lparr>sc_active := filter (\<lambda>(e, p). \<not> e < first_def) (sc_active st),
        sc_free := sc_free st @ map snd (filter (\<lambda>(e, p). e < first_def) (sc_active st))\<rparr>"

definition is_pair_name :: "string \<Rightarrow> bool" where
  "is_pair_name vreg \<longleftrightarrow> startswith vreg ''%rd'' \<or> startswith vreg ''%bd''"

definition index_of :: "'a \<Rightarrow> 'a list \<Rightarrow> nat" where
  "index_of x xs = length (takeWhile (\<lambda>y. y \<noteq> x) xs)"

text \<open>The backward search for an even register whose successor is free as well.\<close>

fun find_pair :: "int list \<Rightarrow> nat \<Rightarrow> nat option" where
  "find_pair free 0 = None"
| "find_pair free (Suc i) =
     (if free ! i mod 2 = 0 \<and> free ! i + 1 \<in> set free then Some i else find_pair free i)"

definition take_pair :: "int list \<Rightarrow> (int \<times> int list) option" where
  "take_pair free =
     (case find_pair free (length free) of
        None \<Rightarrow> None
      | Some i \<Rightarrow>
          (let j = index_of (free ! i + 1) free in
           Some (free ! i, if i > j then remove_at j (remove_at i free) else remove_at i (remove_at j free))))"

definition assign_pair :: "string \<Rightarrow> int \<Rightarrow> int \<Rightarrow> scan_state \<Rightarrow> scan_state" where
  "assign_pair vreg last_use phys st =
     st\<lparr>sc_mapping := AList.update vreg phys (sc_mapping st),
        sc_active := sc_active st @ [(last_use, phys), (last_use, phys + 1)]\<rparr>"

text \<open>The path taken when no aligned pair is free.\<close>

definition pair_fallback :: "string \<Rightarrow> int \<Rightarrow> scan_state \<Rightarrow> scan_state" where
  "pair_fallback vreg last_use st =
     (if 2 \<le> length (sc_free st) then
        (let popped = last (sc_free st); free = butlast (sc_free st);
             phys = (if popped mod 2 = 1 \<and> 0 < popped then popped - 1 else popped) in
         if phys + 1 \<in> set free then
           (let st1 = st\<lparr>sc_free := remove1 (phys + 1) free\<rparr> in
            if 0 < phys \<and> phys mod 2 = 0 \<and> phys + 1 \<le> MAX_GPR then assign_pair vreg last_use phys st1 else st1)
         else st\<lparr>sc_free := free @ [phys]\<rparr>)
      else st)"

definition allocate_pair :: "string \<Rightarrow> int \<Rightarrow> scan_state \<Rightarrow> scan_state" where
  "allocate_pair vreg last_use st =
     (case take_pair (sc_free st) of
        Some (base, free) \<Rightarrow>
          if base \<noteq> 0 then assign_pair vreg last_use base (st\<lparr>sc_free := free\<rparr>)
          else pair_fallback vreg last_use (st\<lparr>sc_free := free\<rparr>)
      | None \<Rightarrow> pair_fallback vreg last_use st)"

definition allocate_single :: "string \<Rightarrow> int \<Rightarrow> scan_state \<Rightarrow> scan_state" where
  "allocate_single vreg last_use st =
     (if sc_free st = [] then st
      else (let phys = last (sc_free st) in
            st\<lparr>sc_free := butlast (sc_free st), sc_mapping := AList.update vreg phys (sc_mapping st),
               sc_active := sc_active st @ [(last_use, phys)]\<rparr>))"

definition scan_step :: "scan_state \<Rightarrow> string \<times> int \<times> int \<Rightarrow> scan_state" where
  "scan_step st iv =
     (case iv of (vreg, first_def, last_use) \<Rightarrow>
       let st1 = expire first_def st in
       if is_pair_name vreg then allocate_pair vreg last_use st1 else allocate_single vreg last_use st1)"

definition scan_init :: scan_state where
  "scan_init = \<lparr>sc_mapping = [], sc_active = [], sc_free = rev [1..MAX_GPR]\<rparr>"

definition linear_scan :: "intervals \<Rightarrow> (string, int) dict" where
  "linear_scan merged =
     sc_mapping (foldl scan_step scan_init (sort_key (\<lambda>iv. fst (snd iv)) merged))"

section \<open>Predicates\<close>

definition pred_step ::
    "(string, int) dict \<times> (int \<times> int) list \<times> int list \<Rightarrow> string \<times> live_range \<Rightarrow>
     (string, int) dict \<times> (int \<times> int) list \<times> int list" where
  "pred_step st nl =
     (case st of (mapping, active, free) \<Rightarrow>
       let name = base_name (fst nl); lr = snd nl;
           free1 = free @ map snd (filter (\<lambda>(e, p). e < lr_first_def lr) active);
           active1 = filter (\<lambda>(e, p). \<not> e < lr_first_def lr) active in
       if free1 = [] then (mapping, active1, free1)
       else (AList.update name (last free1) mapping, active1 @ [(lr_last_use lr, last free1)], butlast free1))"

definition predicate_scan :: "(string, live_range) dict \<Rightarrow> (string, int) dict" where
  "predicate_scan ranges =
     fst (foldl pred_step ([], [], [0..MAX_PRED])
       (sort_key (\<lambda>nl. lr_first_def (snd nl))
         (filter (\<lambda>(name, lr). is_live lr \<and> startswith name ''%p'') ranges)))"

section \<open>The pass\<close>

text \<open>
  \<open>LinearScanRegisterAllocationPass.run\<close>: the two mappings it stores in the metadata (\<open>None\<close> when
  it stores nothing) and its report.
\<close>

definition register_allocation ::
    "(string, live_range) dict \<Rightarrow> (cfg_error, cfg) result \<Rightarrow> item list \<Rightarrow>
     ((string, int) dict \<times> (string, int) dict) option \<times> pass_result" where
  "register_allocation ranges cfg_result its =
     (let gprs = gpr_ranges ranges; loop_range = compute_loop_range cfg_result its in
      if gprs = [] then (None, unchanged_result [(''allocated'', DInt 0), (''pressure'', DInt 0)])
      else
        (let mapping = linear_scan (extend_loop_uses gprs loop_range (merge_ranges gprs));
             preds = predicate_scan ranges in
         (Some (mapping, preds),
          \<lparr>pr_changed = True,
           pr_details =
             [(''allocated_gprs'', DInt (int (length mapping))), (''allocated_preds'', DInt (int (length preds))),
              (''total_virtual_regs'', DInt (int (length gprs))), (''register_pressure'', DInt (int (length mapping))),
              (''max_gpr'', DInt (if mapping = [] then 0 else Max (snd ` set mapping))), (''transforms_applied'', DInt 0),
              (''loop_extended'', DBool (loop_range \<noteq> None))],
           pr_invalidated = []\<rparr>)))"

end
