(* ===== verification/Reg_Alloc_Correct.thy ===== *)
theory Reg_Alloc_Correct
  imports Reg_Alloc
begin

text \<open>
  The linear scan under moderate pressure: every interval gets a physical register (an aligned pair
  for a 64-bit one), and intervals that overlap never share one. The bound on the pressure keeps the
  scan away from its fallback path, which can hand out a register that is in use.
\<close>

section \<open>Taking a pair\<close>

lemma mset_remove_at: "i < length xs \<Longrightarrow> mset xs = add_mset (xs ! i) (mset (remove_at i xs))"
  unfolding remove_at_def by (subst id_take_nth_drop [of i xs]) auto

lemma length_remove_at: "i < length xs \<Longrightarrow> length (remove_at i xs) = length xs - 1"
  by (simp add: remove_at_def)

lemma nth_remove_at: "j < i \<Longrightarrow> i < length xs \<Longrightarrow> remove_at i xs ! j = xs ! j"
  by (simp add: remove_at_def nth_append)

lemma index_of_spec: "x \<in> set xs \<Longrightarrow> index_of x xs < length xs \<and> xs ! index_of x xs = x"
  by (induction xs) (auto simp: index_of_def)

lemma find_pair_Some:
  "find_pair free n = Some i \<Longrightarrow> i < n \<and> free ! i mod 2 = 0 \<and> free ! i + 1 \<in> set free"
  by (induction free n rule: find_pair.induct) (auto split: if_split_asm)

lemma find_pair_None:
  "find_pair free n = None \<Longrightarrow> i < n \<Longrightarrow> free ! i mod 2 = 0 \<Longrightarrow> free ! i + 1 \<notin> set free"
  by (induction free n rule: find_pair.induct) (auto split: if_split_asm simp: less_Suc_eq)

lemma take_pair_Some:
  assumes "take_pair free = Some (base, free')"
  shows "base mod 2 = 0" "mset free = {#base, base + 1#} + mset free'"
proof -
  from assms obtain i where f: "find_pair free (length free) = Some i" and base: "base = free ! i"
    and free': "free' = (let j = index_of (free ! i + 1) free in
      if i > j then remove_at j (remove_at i free) else remove_at i (remove_at j free))"
    by (auto simp: take_pair_def Let_def split: option.split_asm)
  from find_pair_Some [OF f] have i: "i < length free" "free ! i mod 2 = 0" "free ! i + 1 \<in> set free" by auto
  define j where "j = index_of (free ! i + 1) free"
  have j: "j < length free" "free ! j = free ! i + 1" using index_of_spec [OF i(3)] by (auto simp: j_def)
  then have "i \<noteq> j" by auto
  show "base mod 2 = 0" using i(2) base by simp
  show "mset free = {#base, base + 1#} + mset free'"
  proof (cases "j < i")
    case True
    have "mset (remove_at i free) = add_mset (free ! j) (mset (remove_at j (remove_at i free)))"
      using mset_remove_at [of j "remove_at i free"] True i(1) by (simp add: length_remove_at nth_remove_at)
    with mset_remove_at [OF i(1)] True j(2) show ?thesis
      by (simp add: base free' Let_def flip: j_def)
  next
    case False
    with \<open>i \<noteq> j\<close> have "i < j" by simp
    have "mset (remove_at j free) = add_mset (free ! i) (mset (remove_at i (remove_at j free)))"
      using mset_remove_at [of i "remove_at j free"] \<open>i < j\<close> j(1) by (simp add: length_remove_at nth_remove_at)
    with mset_remove_at [OF j(1)] False j(2) show ?thesis
      by (simp add: base free' Let_def add_mset_commute flip: j_def)
  qed
qed

text \<open>With at most 118 registers in use, one of the 119 aligned pairs is free.\<close>

lemma pair_available:
  fixes used :: "int list"
  assumes "set free \<union> set used = {1..MAX_GPR}" "length used \<le> 118"
  shows "take_pair free \<noteq> None"
proof
  assume "take_pair free = None"
  then have none: "find_pair free (length free) = None" by (auto simp: take_pair_def Let_def split: option.split_asm)
  have no: "e \<notin> set free \<or> e + 1 \<notin> set free" if "e mod 2 = 0" for e
    using find_pair_None [OF none] that by (auto simp: in_set_conv_nth)
  define low where "low = (\<lambda>r :: int. r div 2)"
  have "{1..119} \<subseteq> low ` set used"
  proof
    fix k :: int assume k: "k \<in> {1..119}"
    have "2 * k \<in> set free \<union> set used" "2 * k + 1 \<in> set free \<union> set used"
      using k unfolding assms(1) by (auto simp: MAX_GPR_def)
    with no [of "2 * k"] have "2 * k \<in> set used \<or> 2 * k + 1 \<in> set used" by auto
    then show "k \<in> low ` set used" by (auto simp: low_def image_iff intro: bexI [of _ "2 * k"] bexI [of _ "2 * k + 1"])
  qed
  then have "card {1..119 :: int} \<le> card (low ` set used)" by (intro card_mono) auto
  also have "\<dots> \<le> length used" by (meson card_image_le card_length finite_set le_trans)
  finally show False using assms(2) by simp
qed

section \<open>The invariant of the scan\<close>

type_synonym interval = "string \<times> int \<times> int"

definition width :: "string \<Rightarrow> nat" where
  "width v = (if is_pair_name v then 2 else 1)"

definition registers_of :: "string \<Rightarrow> int \<Rightarrow> int list" where
  "registers_of v p = (if is_pair_name v then [p, p + 1] else [p])"

definition entries :: "(string, int) dict \<Rightarrow> interval \<Rightarrow> (int \<times> int) list" where
  "entries m iv = (case iv of (v, fd, lu) \<Rightarrow>
     (case map_of m v of None \<Rightarrow> [] | Some p \<Rightarrow> map (Pair lu) (registers_of v p)))"

definition good_register :: "string \<Rightarrow> int \<Rightarrow> bool" where
  "good_register v p \<longleftrightarrow> 1 \<le> p \<and> p + int (width v) \<le> MAX_GPR + 1 \<and> (is_pair_name v \<longrightarrow> p mod 2 = 0)"

definition disjoint_regs :: "(string, int) dict \<Rightarrow> string \<Rightarrow> string \<Rightarrow> bool" where
  "disjoint_regs m v w \<longleftrightarrow> (\<forall>p q. map_of m v = Some p \<and> map_of m w = Some q \<longrightarrow>
     set (registers_of v p) \<inter> set (registers_of w q) = {})"

definition overlap :: "interval \<Rightarrow> interval \<Rightarrow> bool" where
  "overlap a b \<longleftrightarrow> fst (snd a) \<le> snd (snd b) \<and> fst (snd b) \<le> snd (snd a)"

definition scan_inv :: "interval list \<Rightarrow> int \<Rightarrow> scan_state \<Rightarrow> bool" where
  "scan_inv ivs cur st \<longleftrightarrow>
     map fst (sc_mapping st) = map fst ivs \<and>
     distinct (sc_free st @ map snd (sc_active st)) \<and>
     set (sc_free st) \<union> set (map snd (sc_active st)) = {1..MAX_GPR} \<and>
     sc_active st = filter (\<lambda>(e, p). cur \<le> e) (concat (map (entries (sc_mapping st)) ivs)) \<and>
     (\<forall>(v, p) \<in> set (sc_mapping st). good_register v p) \<and>
     (\<forall>a \<in> set ivs. \<forall>b \<in> set ivs. a \<noteq> b \<and> overlap a b \<longrightarrow> disjoint_regs (sc_mapping st) (fst a) (fst b))"

definition pressure :: "interval list \<Rightarrow> int \<Rightarrow> nat" where
  "pressure ivs fd = sum_list (map (\<lambda>(v, _, lu). if fd \<le> lu then width v else 0) ivs)"

lemma length_registers_of [simp]: "length (registers_of v p) = width v"
  by (simp add: registers_of_def width_def)

lemma active_pressure:
  "length (filter (\<lambda>(e, p). fd \<le> e) (concat (map (entries m) ivs))) \<le> pressure ivs fd"
proof (induction ivs)
  case (Cons iv ivs)
  obtain v f lu where iv: "iv = (v, f, lu)" by (cases iv)
  have "length (filter (\<lambda>(e, p). fd \<le> e) (entries m iv)) \<le> (if fd \<le> lu then width v else 0)"
    by (auto simp: iv entries_def comp_def split: option.split intro: order.trans [OF length_filter_le])
  with Cons show ?case by (simp add: pressure_def iv)
qed (simp add: pressure_def)

lemma scan_invD:
  assumes "scan_inv ivs cur st"
  shows "map fst (sc_mapping st) = map fst ivs"
    "distinct (sc_free st @ map snd (sc_active st))"
    "set (sc_free st) \<union> set (map snd (sc_active st)) = {1..MAX_GPR}"
    "sc_active st = filter (\<lambda>(e, p). cur \<le> e) (concat (map (entries (sc_mapping st)) ivs))"
    "\<forall>(v, p) \<in> set (sc_mapping st). good_register v p"
    "\<forall>a \<in> set ivs. \<forall>b \<in> set ivs. a \<noteq> b \<and> overlap a b \<longrightarrow> disjoint_regs (sc_mapping st) (fst a) (fst b)"
  using assms unfolding scan_inv_def by - (elim conjE, assumption)+

lemma expire_inv:
  assumes "scan_inv ivs cur st" "cur \<le> fd"
  shows "scan_inv ivs fd (expire fd st)"
proof -
  let ?old = "filter (\<lambda>(e, p). e < fd) (sc_active st)" and ?keep = "filter (\<lambda>(e, p). \<not> e < fd) (sc_active st)"
  have part: "mset (map snd xs) = mset (map snd (filter (\<lambda>(e, p). e < fd) xs)) + mset (map snd (filter (\<lambda>(e, p). \<not> e < fd) xs))"
    for xs :: "(int \<times> int) list"
    by (induction xs) auto
  have "mset (sc_free st @ map snd (sc_active st)) = mset ((sc_free st @ map snd ?old) @ map snd ?keep)"
    unfolding mset_append part [of "sc_active st"] by (simp only: add.assoc)
  note same = mset_eq_imp_distinct_iff [OF this] mset_eq_setD [OF this]
  have "distinct ((sc_free st @ map snd ?old) @ map snd ?keep)"
    using scan_invD(2) [OF assms(1)] same(1) by blast
  moreover have "set (sc_free st @ map snd ?old) \<union> set (map snd ?keep) = {1..MAX_GPR}"
    using scan_invD(3) [OF assms(1)] same(2) by (simp only: set_append)
  moreover have "?keep = filter (\<lambda>(e, p). fd \<le> e) (concat (map (entries (sc_mapping st)) ivs))"
  proof -
    have "sc_active st = filter (\<lambda>(e, p). cur \<le> e) (concat (map (entries (sc_mapping st)) ivs))"
      by (rule scan_invD(4) [OF assms(1)])
    then show ?thesis using assms(2) by (simp only: filter_filter) (rule filter_cong, auto)
  qed
  ultimately show ?thesis
    using scan_invD(1,5,6) [OF assms(1)] unfolding scan_inv_def expire_def by simp
qed

lemma assign_inv:
  assumes inv: "scan_inv ivs fd st" and new: "v \<notin> fst ` set ivs" and "fd \<le> lu"
    and before: "\<forall>iv \<in> set ivs. fst (snd iv) \<le> fd"
    and free: "mset (sc_free st) = mset (registers_of v p) + mset free'" and even: "is_pair_name v \<Longrightarrow> p mod 2 = 0"
    and st': "sc_mapping st' = AList.update v p (sc_mapping st)" "sc_free st' = free'"
      "sc_active st' = sc_active st @ map (Pair lu) (registers_of v p)"
  shows "scan_inv (ivs @ [(v, fd, lu)]) fd st'"
proof -
  note D = scan_invD [OF inv]
  note names = D(1)
  have "v \<notin> fst ` set (sc_mapping st)" using names new by (metis list.set_map)
  then have m: "sc_mapping st' = sc_mapping st @ [(v, p)]"
    unfolding st'(1) by (intro update_new) (simp add: has_key_iff)
  have old: "map_of (sc_mapping st') w = map_of (sc_mapping st) w" if "w \<noteq> v" for w
    using that by (simp add: m map_add_def split: option.split)
  have old_names: "w \<noteq> v" if "(w, x) \<in> set ivs" for w x using that new by force
  have at: "map_of (sc_mapping st') v = Some p"
    by (simp add: st'(1) map_of_update_iff)
  have ents: "concat (map (entries (sc_mapping st')) ivs) = concat (map (entries (sc_mapping st)) ivs)"
    by (rule arg_cong [where f = concat], rule map_cong) (auto simp: entries_def old dest: old_names)
  have regs: "set (registers_of v p) \<subseteq> set (sc_free st)" "set free' \<subseteq> set (sc_free st)"
    using arg_cong [OF free, of set_mset] by auto
  have all: "mset (sc_free st @ map snd (sc_active st)) = mset (sc_free st' @ map snd (sc_active st'))"
    by (simp add: st' free comp_def)
  have part: "distinct (sc_free st' @ map snd (sc_active st'))"
    "set (sc_free st') \<union> set (map snd (sc_active st')) = {1..MAX_GPR}"
    using D(2,3) mset_eq_imp_distinct_iff [OF all] mset_eq_setD [OF all] unfolding set_append by blast+
  have range: "good_register v p"
  proof -
    have "set (registers_of v p) \<subseteq> {1..MAX_GPR}" using regs(1) D(3) by blast
    then show ?thesis using even by (auto simp: good_register_def registers_of_def width_def split: if_split_asm)
  qed
  have active: "sc_active st' = filter (\<lambda>(e, p). fd \<le> e) (concat (map (entries (sc_mapping st')) (ivs @ [(v, fd, lu)])))"
    using assms(3) at ents unfolding st'(3) D(4) by (simp add: entries_def comp_def)
  have fresh: "disjoint_regs (sc_mapping st') w v" if a: "(w, fa, la) \<in> set ivs" "fd \<le> la" for w fa la
    unfolding disjoint_regs_def
  proof (intro allI impI, elim conjE)
    fix q p' assume q: "map_of (sc_mapping st') w = Some q" and p': "map_of (sc_mapping st') v = Some p'"
    have "map_of (sc_mapping st) w = Some q" using q old old_names [OF a(1)] by simp
    then have "(la, r) \<in> set (sc_active st)" if "r \<in> set (registers_of w q)" for r
      using a that unfolding D(4) by (auto simp: entries_def intro!: bexI [OF _ a(1)])
    then have "set (registers_of w q) \<subseteq> set (map snd (sc_active st))" by force
    moreover have "set (sc_free st) \<inter> set (map snd (sc_active st)) = {}" using D(2) by simp
    ultimately show "set (registers_of w q) \<inter> set (registers_of v p') = {}" using p' at regs(1) by auto
  qed
  have sym: "disjoint_regs m w v \<Longrightarrow> disjoint_regs m v w" for m w by (auto simp: disjoint_regs_def)
  have disj: "disjoint_regs (sc_mapping st') (fst a) (fst b)"
    if "a \<in> set (ivs @ [(v, fd, lu)])" "b \<in> set (ivs @ [(v, fd, lu)])" "a \<noteq> b" "overlap a b" for a b
  proof -
    have old_pair: "disjoint_regs (sc_mapping st') (fst a) (fst b)" if "a \<in> set ivs" "b \<in> set ivs"
    proof -
      have "fst a \<noteq> v" "fst b \<noteq> v" using that new by force+
      moreover have "disjoint_regs (sc_mapping st) (fst a) (fst b)"
        using D(6) that \<open>a \<noteq> b\<close> \<open>overlap a b\<close> by blast
      ultimately show ?thesis by (simp add: disjoint_regs_def old)
    qed
    from that(1,2,3) consider "a \<in> set ivs" "b \<in> set ivs" | "a \<in> set ivs" "b = (v, fd, lu)"
      | "b \<in> set ivs" "a = (v, fd, lu)" by auto
    then show ?thesis
    proof cases
      case 2
      with \<open>overlap a b\<close> fresh [of "fst a" "fst (snd a)" "snd (snd a)"] show ?thesis by (simp add: overlap_def)
    next
      case 3
      with \<open>overlap a b\<close> fresh [of "fst b" "fst (snd b)" "snd (snd b)"] sym show ?thesis by (simp add: overlap_def)
    qed (rule old_pair)
  qed
  have "\<forall>(v, p) \<in> set (sc_mapping st'). good_register v p"
    using D(5) range unfolding m by auto
  moreover have "map fst (sc_mapping st') = map fst (ivs @ [(v, fd, lu)])" using names m by simp
  ultimately show ?thesis unfolding scan_inv_def using part active disj by blast
qed

lemma scan_step_inv:
  assumes "scan_inv ivs cur st" "cur \<le> fd" "v \<notin> fst ` set ivs" "fd \<le> lu"
    "\<forall>iv \<in> set ivs. fst (snd iv) \<le> fd" "pressure ivs fd \<le> 118"
  shows "scan_inv (ivs @ [(v, fd, lu)]) fd (scan_step st (v, fd, lu))"
proof -
  let ?st = "expire fd st"
  note inv = expire_inv [OF assms(1,2)]
  have few: "length (map snd (sc_active ?st)) \<le> 118"
    using active_pressure [of fd "sc_mapping ?st" ivs] assms(6) unfolding scan_invD(4) [OF inv] length_map by simp
  note all = scan_invD(3) [OF inv]
  show ?thesis
  proof (cases "is_pair_name v")
    case True
    from pair_available [OF all few] obtain base free' where t: "take_pair (sc_free ?st) = Some (base, free')" by auto
    note tp = take_pair_Some [OF t]
    have "base \<in> set (sc_free ?st)" using arg_cong [OF tp(2), of set_mset] by auto
    with all have "base \<in> {1..MAX_GPR}" by blast
    then have "base \<noteq> 0" by auto
    with t True have step: "scan_step st (v, fd, lu) = assign_pair v lu base (?st\<lparr>sc_free := free'\<rparr>)"
      by (simp add: scan_step_def allocate_pair_def)
    show ?thesis unfolding step
      by (rule assign_inv [OF inv assms(3,4,5), of base free'])
         (use tp True in \<open>simp_all add: assign_pair_def registers_of_def\<close>)
  next
    case False
    have "sc_free ?st \<noteq> []"
    proof
      assume "sc_free ?st = []"
      with all have "{1..MAX_GPR} = set (map snd (sc_active ?st))" by simp
      then have "card {1..MAX_GPR} \<le> 118" using card_length [of "map snd (sc_active ?st)"] few by simp
      then show False by (simp add: MAX_GPR_def)
    qed
    then have "mset (sc_free ?st) = {#last (sc_free ?st)#} + mset (butlast (sc_free ?st))"
      by (cases "sc_free ?st" rule: rev_cases) auto
    with False \<open>sc_free ?st \<noteq> []\<close> show ?thesis
      by (intro assign_inv [OF inv assms(3,4,5), of "last (sc_free ?st)" "butlast (sc_free ?st)"])
         (simp_all add: scan_step_def allocate_single_def registers_of_def Let_def)
  qed
qed

definition low_pressure :: "interval list \<Rightarrow> bool" where
  "low_pressure ivs \<longleftrightarrow> list_all (\<lambda>i. pressure (take i ivs) (fst (snd (ivs ! i))) \<le> 118) [0..<length ivs]"

lemma scan_fold_inv:
  assumes "distinct (map fst ivs)" "sorted (map (\<lambda>iv. fst (snd iv)) ivs)" "\<forall>(v, fd, lu) \<in> set ivs. fd \<le> lu"
    "low_pressure ivs" "ivs \<noteq> []"
  shows "scan_inv ivs (fst (snd (last ivs))) (foldl scan_step scan_init ivs)"
  using assms
proof (induction ivs rule: rev_induct)
  case (snoc iv ivs)
  obtain v fd lu where iv: "iv = (v, fd, lu)" by (cases iv)
  have p: "low_pressure ivs" "pressure ivs fd \<le> 118"
    using snoc.prems(4) by (auto simp: low_pressure_def list_all_iff iv nth_append)
  have new: "v \<notin> fst ` set ivs" "fd \<le> lu" and before: "\<forall>iv \<in> set ivs. fst (snd iv) \<le> fd"
    using snoc.prems(1-3) by (auto simp: iv sorted_append)
  show ?case
  proof (cases "ivs = []")
    case True
    have start: "scan_inv [] fd scan_init"
      by (auto simp: scan_inv_def scan_init_def)
    show ?thesis using scan_step_inv [OF start _ _ new(2)] True p(2) by (simp add: iv pressure_def)
  next
    case False
    have IH: "scan_inv ivs (fst (snd (last ivs))) (foldl scan_step scan_init ivs)"
      using snoc False p by (simp add: sorted_append)
    have "fst (snd (last ivs)) \<le> fd" using before False by simp
    from scan_step_inv [OF IH this new before p(2)] show ?thesis by (simp add: iv)
  qed
qed simp

section \<open>Properties\<close>

definition by_start :: "intervals \<Rightarrow> intervals" where
  "by_start merged = sort_key (\<lambda>iv. fst (snd iv)) merged"

text \<open>
  C19. The linear scan, while at most 118 registers are in use where an interval starts, gives every
  interval a register of its own: within R1 to R239, an even base for a pair, and different from the
  registers of every interval it overlaps.
\<close>

theorem linear_scan_correct:
  assumes "distinct (map fst merged)" "\<forall>(v, fd, lu) \<in> set merged. fd \<le> lu" "low_pressure (by_start merged)"
  shows "(\<forall>iv \<in> set merged. \<exists>p. map_of (linear_scan merged) (fst iv) = Some p \<and> good_register (fst iv) p) \<and>
    (\<forall>a \<in> set merged. \<forall>b \<in> set merged. a \<noteq> b \<and> overlap a b \<longrightarrow>
      disjoint_regs (linear_scan merged) (fst a) (fst b))"
proof (cases "merged = []")
  case False
  let ?ivs = "by_start merged"
  have set: "set ?ivs = set merged" by (simp add: by_start_def)
  have "?ivs \<noteq> []" using False set by (metis set_empty)
  moreover have "distinct (map fst ?ivs)"
  proof -
    have "mset (map fst ?ivs) = mset (map fst merged)" by (simp add: by_start_def)
    then show ?thesis using assms(1) mset_eq_imp_distinct_iff by blast
  qed
  moreover have "sorted (map (\<lambda>iv. fst (snd iv)) ?ivs)" by (simp add: by_start_def)
  ultimately have "scan_inv ?ivs (fst (snd (last ?ivs))) (foldl scan_step scan_init ?ivs)"
    using scan_fold_inv [of ?ivs] assms(2,3) set by simp
  then have inv: "scan_inv ?ivs (fst (snd (last ?ivs))) (foldl scan_step scan_init ?ivs)"
    and m: "linear_scan merged = sc_mapping (foldl scan_step scan_init ?ivs)"
    by (simp_all add: linear_scan_def by_start_def)
  note D = scan_invD [OF inv, folded m, unfolded set]
  have "\<exists>p. map_of (linear_scan merged) (fst iv) = Some p \<and> good_register (fst iv) p" if "iv \<in> set merged" for iv
  proof -
    from that have "fst iv \<in> set (map fst (linear_scan merged))" unfolding D(1) by (simp add: set)
    then obtain p where "map_of (linear_scan merged) (fst iv) = Some p"
      by (metis list.set_map map_of_eq_None_iff not_None_eq)
    with D(5) map_of_SomeD show ?thesis by fastforce
  qed
  with D(6) show ?thesis by blast
qed simp

definition sample_intervals :: intervals where
  "sample_intervals = [(''%rd1'', 0, 4), (''%r1'', 1, 2), (''%r2'', 3, 4)]"

theorem linear_scan_correct_witness:
  "disjoint_regs (linear_scan sample_intervals) ''%rd1'' ''%r1'' \<and>
    linear_scan sample_intervals = [(''%rd1'', 2), (''%r1'', 1), (''%r2'', 1)]"
proof
  have "distinct (map fst sample_intervals)" "\<forall>(v, fd, lu) \<in> set sample_intervals. fd \<le> lu"
    "low_pressure (by_start sample_intervals)" by code_simp+
  from conjunct2 [OF linear_scan_correct [OF this]]
  show "disjoint_regs (linear_scan sample_intervals) ''%rd1'' ''%r1''"
    by (fastforce simp: sample_intervals_def overlap_def)
  show "linear_scan sample_intervals = [(''%rd1'', 2), (''%r1'', 1), (''%r2'', 1)]" by code_simp
qed

text \<open>
  The fallback path: when an odd register is the last free one and no aligned pair is free, the even
  register below it is put on the free list although it is in use, and the next interval gets it.
\<close>

definition fragmented :: scan_state where
  "fragmented = \<lparr>sc_mapping = [(''%r1'', 2)], sc_active = [(100, 2)], sc_free = [5, 3]\<rparr>"

lemma fallback_reuses_live_register:
  "sc_mapping (foldl scan_step fragmented [(''%rd1'', 10, 50), (''%r2'', 11, 20)]) = [(''%r1'', 2), (''%r2'', 2)]"
  by code_simp

end
