(* ===== verification/Uniformity.thy ===== *)
theory Uniformity
  imports Helpers
begin

text \<open>
  The uniformity analysis, \<open>analysis/uniformity.py\<close>: one forward pass over the items that classifies
  what each register holds across the threads of a warp.
\<close>

section \<open>The lattice\<close>

datatype uniformity = UNKNOWN | UNIFORM | VARYING

text \<open>
  Values are ordered by what is lost in a merge: a uniform operand never changes the result of
  merging, a varying one always decides it.
\<close>

instantiation uniformity :: linorder
begin

definition uniformity_rank :: "uniformity \<Rightarrow> nat" where
  "uniformity_rank u = (case u of UNIFORM \<Rightarrow> 0 | UNKNOWN \<Rightarrow> 1 | VARYING \<Rightarrow> 2)"

definition less_eq_uniformity :: "uniformity \<Rightarrow> uniformity \<Rightarrow> bool" where
  "less_eq_uniformity a b \<longleftrightarrow> uniformity_rank a \<le> uniformity_rank b"

definition less_uniformity :: "uniformity \<Rightarrow> uniformity \<Rightarrow> bool" where
  "less_uniformity a b \<longleftrightarrow> uniformity_rank a < uniformity_rank b"

instance
  by standard
    (auto simp: less_eq_uniformity_def less_uniformity_def uniformity_rank_def split: uniformity.splits)

end

lemma uniformity_bounds [simp]: "UNIFORM \<le> u" "u \<le> VARYING" "VARYING \<le> u \<longleftrightarrow> u = VARYING" "u \<le> UNIFORM \<longleftrightarrow> u = UNIFORM"
  by (cases u; simp add: less_eq_uniformity_def uniformity_rank_def)+

definition merge_uniformity :: "uniformity list \<Rightarrow> uniformity" where
  "merge_uniformity states =
     (if VARYING \<in> set states then VARYING
      else if states \<noteq> [] \<and> list_all (\<lambda>s. s = UNIFORM) states then UNIFORM
      else UNKNOWN)"

text \<open>Merging is the maximum; merging nothing says nothing.\<close>

lemma merge_is_max: "merge_uniformity states = (if states = [] then UNKNOWN else Max (set states))"
proof (cases "states = []")
  case False
  define m where "m = Max (set states)"
  have m: "m \<in> set states" using False by (simp add: m_def)
  have ge: "u \<le> m" if "u \<in> set states" for u using that by (simp add: m_def)
  have "merge_uniformity states = m"
  proof (cases m)
    case UNKNOWN
    with ge [of VARYING] have "VARYING \<notin> set states" by auto
    with m UNKNOWN show ?thesis by (auto simp: merge_uniformity_def list_all_iff)
  next
    case UNIFORM
    with ge have "list_all (\<lambda>s. s = UNIFORM) states" by (simp add: list_all_iff)
    with False UNIFORM show ?thesis by (auto simp: merge_uniformity_def list_all_iff)
  next
    case VARYING
    with m show ?thesis by (simp add: merge_uniformity_def)
  qed
  with False m_def show ?thesis by simp
qed (simp add: merge_uniformity_def)

section \<open>Facts\<close>

record branch_uniformity =
  bu_item_index :: nat
  bu_source_line :: nat
  bu_predicate :: string
  bu_state :: uniformity

record uniformity_facts =
  uf_final_values :: "string \<rightharpoonup> uniformity"
  uf_branch_states :: "(nat, branch_uniformity) dict"
  uf_definitions :: "string \<Rightarrow> nat list"
  uf_uses :: "nat \<rightharpoonup> string list"
  uf_definitions_by_index :: "nat \<rightharpoonup> string"

section \<open>Operands\<close>

definition normalize_register :: "string \<Rightarrow> string" where
  "normalize_register r = strip r"

definition normalize_predicate :: "string \<Rightarrow> string" where
  "normalize_predicate p0 =
     (let p = strip p0 in if startswith p ''%'' then p else CHR ''%'' # p)"

definition normalize_operand :: "string \<Rightarrow> string" where
  "normalize_operand op0 =
     (let op = strip_brackets op0 in
      if startswith op ''%p'' then normalize_predicate op else normalize_register op)"

definition UNIFORM_SPECIALS :: "string list" where
  "UNIFORM_SPECIALS =
     [''%ctaid'', ''%ctaid.x'', ''%ctaid.y'', ''%ctaid.z'', ''%ntid'', ''%ntid.x'', ''%ntid.y'', ''%ntid.z'',
      ''%nctaid'', ''%nctaid.x'', ''%nctaid.y'', ''%nctaid.z'', ''%warpid'']"

definition VARYING_SPECIALS :: "string list" where
  "VARYING_SPECIALS = [''%tid'', ''%tid.x'', ''%tid.y'', ''%tid.z'', ''%laneid'']"

definition lookup_uniformity :: "(string \<rightharpoonup> uniformity) \<Rightarrow> string \<Rightarrow> uniformity" where
  "lookup_uniformity values r = (case values r of None \<Rightarrow> UNKNOWN | Some u \<Rightarrow> u)"

definition source_uniformity :: "string \<Rightarrow> (string \<rightharpoonup> uniformity) \<Rightarrow> uniformity" where
  "source_uniformity source0 values =
     (let source = normalize_register source0 in
      if source \<in> set UNIFORM_SPECIALS then UNIFORM
      else if source \<in> set VARYING_SPECIALS then VARYING
      else lookup_uniformity values source)"

definition operand_uniformity :: "string \<Rightarrow> (string \<rightharpoonup> uniformity) \<Rightarrow> uniformity" where
  "operand_uniformity operand0 values =
     (if is_immediate operand0 then UNIFORM
      else
        (let operand = (if startswith operand0 ''['' \<and> endswith operand0 '']''
                        then strip (butlast (drop 1 operand0)) else operand0) in
         if startswith operand ''%'' then source_uniformity operand values
         else lookup_uniformity values operand))"

section \<open>Instructions\<close>

definition ALU_BASES :: "string list" where
  "ALU_BASES = [''add'', ''sub'', ''mul'', ''mad'', ''fma'', ''and'', ''or'', ''xor'', ''shl'', ''shr'']"

definition result_uniformity ::
    "ptx_instruction \<Rightarrow> (string \<rightharpoonup> uniformity) \<Rightarrow> string list \<Rightarrow> uniformity" where
  "result_uniformity inst values uses =
     (let parts = opcode_parts inst; base = opcode_base inst in
      if base = ''ld'' \<and> 2 \<le> length parts \<and> parts ! 1 = ''param'' then UNIFORM
      else if base = ''ld'' \<and> 2 \<le> length parts \<and> parts ! 1 = ''global'' then VARYING
      else if base = ''mov'' then
        (case pi_operands inst of
           [_, source] \<Rightarrow>
             if is_immediate source then UNIFORM
             else if startswith source ''%'' then source_uniformity source values
             else UNKNOWN
         | _ \<Rightarrow> UNKNOWN)
      else if base \<in> set (ALU_BASES @ [''cvt'', ''setp'']) then
        merge_uniformity (map (\<lambda>u. operand_uniformity u values) uses)
      else UNKNOWN)"

definition instruction_dest :: "ptx_instruction \<Rightarrow> string option" where
  "instruction_dest inst =
     (if opcode_base inst \<in> set ([''ld'', ''mov''] @ ALU_BASES @ [''cvt'', ''setp'']) then
        (case pi_operands inst of [] \<Rightarrow> None | op # _ \<Rightarrow> Some (normalize_register op))
      else None)"

definition instruction_uses :: "ptx_instruction \<Rightarrow> string list" where
  "instruction_uses inst =
     (let base = opcode_base inst; operands = pi_operands inst in
      if base \<in> {''ld'', ''mov'', ''cvt''} then map normalize_operand (drop 1 operands)
      else if base = ''st'' then map normalize_operand operands
      else if base \<in> set (ALU_BASES @ [''setp'']) then map normalize_operand (drop 1 operands)
      else (case pi_predicate inst of
              Some p \<Rightarrow> if base = ''bra'' then [normalize_predicate p] else []
            | None \<Rightarrow> []))"

section \<open>The analysis\<close>

definition uniformity_step ::
    "nat \<Rightarrow> ptx_instruction \<Rightarrow> uniformity_facts \<Rightarrow> uniformity_facts" where
  "uniformity_step index inst facts =
     (let values = uf_final_values facts;
          uses = instruction_uses inst;
          state = result_uniformity inst values uses;
          facts1 = facts\<lparr>uf_uses := (uf_uses facts)(index \<mapsto> uses)\<rparr>;
          facts2 =
            (case instruction_dest inst of
               None \<Rightarrow> facts1
             | Some d \<Rightarrow>
                 facts1\<lparr>uf_final_values := values(d \<mapsto> state),
                   uf_definitions := (uf_definitions facts1)(d := uf_definitions facts1 d @ [index]),
                   uf_definitions_by_index := (uf_definitions_by_index facts1)(index \<mapsto> d)\<rparr>) in
      case pi_predicate inst of
        None \<Rightarrow> facts2
      | Some p \<Rightarrow>
          if opcode_base inst = ''bra'' then
            facts2\<lparr>uf_branch_states := AList.update index
              \<lparr>bu_item_index = index, bu_source_line = pi_line inst, bu_predicate = normalize_predicate p,
               bu_state = lookup_uniformity (uf_final_values facts2) (normalize_predicate p)\<rparr>
              (uf_branch_states facts2)\<rparr>
          else facts2)"

fun uniformity_from :: "nat \<Rightarrow> item list \<Rightarrow> uniformity_facts \<Rightarrow> uniformity_facts" where
  "uniformity_from index [] facts = facts"
| "uniformity_from index (Label _ # its) facts = uniformity_from (Suc index) its facts"
| "uniformity_from index (Inst i # its) facts = uniformity_from (Suc index) its (uniformity_step index i facts)"

definition uniformity_init :: "ptx_program \<Rightarrow> uniformity_facts" where
  "uniformity_init prog =
     \<lparr>uf_final_values = map_of (map (\<lambda>p. (par_name p, UNIFORM)) (parameters prog)),
      uf_branch_states = [], uf_definitions = (\<lambda>_. []), uf_uses = (\<lambda>_. None),
      uf_definitions_by_index = (\<lambda>_. None)\<rparr>"

definition analyze_uniformity :: "ptx_program \<Rightarrow> uniformity_facts" where
  "analyze_uniformity prog = uniformity_from 0 (items prog) (uniformity_init prog)"

end
