(* ===== verification/Lower_Base.thy ===== *)
theory Lower_Base
  imports Cfg_Graph Uniformity Isa
begin

text \<open>
  The lowering engine of \<open>legacy_lowering.py\<close>, part one: its tables, errors, the fallback register
  allocator, the parameter layout and the control plan. Every exception of the source is a value of
  \<open>compile_error\<close>, the ones that are not \<open>CompileError\<close> included.
\<close>

section \<open>Tables and errors\<close>

definition TYPE_SIZE :: "(string, int) dict" where
  "TYPE_SIZE = [(''u64'', 8), (''b64'', 8), (''f64'', 8), (''u32'', 4), (''b32'', 4), (''s32'', 4),
     (''f32'', 4), (''u16'', 2), (''f16'', 2)]"

definition PTX_TO_AEC_TYPE :: "(string, string) dict" where
  "PTX_TO_AEC_TYPE = [(''u64'', ''b64''), (''b64'', ''b64''), (''u32'', ''u32''), (''b32'', ''b32''),
     (''s32'', ''s32''), (''f32'', ''f32''), (''f16'', ''f16''), (''pred'', ''none'')]"

definition SPECIAL_MOVE_TYPE :: "(string, string) dict" where
  "SPECIAL_MOVE_TYPE = map (\<lambda>r. (r, ''u32''))
     [''%tid'', ''%tid.x'', ''%tid.y'', ''%tid.z'', ''%ntid'', ''%ntid.x'', ''%ntid.y'', ''%ntid.z'',
      ''%ctaid'', ''%ctaid.x'', ''%ctaid.y'', ''%ctaid.z'', ''%nctaid'', ''%nctaid.x'', ''%nctaid.y'',
      ''%nctaid.z'', ''%laneid'', ''%warpid'']"

datatype compile_error =
    OutOfRegisters
  | OutOfTemporaries int
  | UnsupportedPtx nat string
  | UnknownParameter nat string
  | MalformedOpcode nat string
  | NotProvenUniform nat
  | UnknownTarget string
  | OperandCount nat string nat nat
  | UnsupportedParameterType string
  | InvalidPredicate string
  | PredicateOutOfRange string
  | ControlFlow cfg_error
  | KeyError string
  | IndexError
  | BadInteger string
  | NoEntry

definition lookupE :: "(string, 'v) dict \<Rightarrow> string \<Rightarrow> (compile_error, 'v) result" where
  "lookupE d k = of_option (KeyError k) (map_of d k)"

definition is_pair_register_name :: "string \<Rightarrow> bool" where
  "is_pair_register_name token0 =
     (let token = strip token0 in startswith token ''%rd'' \<or> startswith token ''%bd'')"

definition is_register :: "string \<Rightarrow> bool" where
  "is_register token = is_reg_token (strip token)"

definition predicate_number :: "string \<Rightarrow> (compile_error, int) result" where
  "predicate_number token0 =
     (let t = strip token0; token = (if startswith t ''%'' then drop 1 t else t) in
      if token = ''p'' then Inr 0
      else if \<not> (startswith token ''p'' \<and> drop 1 token \<noteq> [] \<and> list_all is_digit (drop 1 token))
      then Inl (InvalidPredicate token)
      else (let number = the (py_int 10 (drop 1 token)) in
            if 0 \<le> number \<and> number \<le> 7 then Inr number else Inl (PredicateOutOfRange token)))"

text \<open>\<open>_parse_immediate\<close>; \<open>None\<close> of \<open>int\<close> is its \<open>ValueError\<close>.\<close>

definition parse_immediateE :: "string \<Rightarrow> (compile_error, int) result" where
  "parse_immediateE token0 =
     (let token = strip token0 in
      of_option (BadInteger token)
        (if startswith token ''0f'' then py_int 16 (drop 2 token)
         else if startswith token ''0x'' then py_int 16 token
         else py_int 10 token))"

definition conversion_opcode :: "string \<Rightarrow> string \<Rightarrow> string" where
  "conversion_opcode dest_type src_type =
     (let dest_is_float = startswith dest_type ''f'' \<or> dest_type = ''bf16'';
          src_is_float = startswith src_type ''f'' \<or> src_type = ''bf16'' in
      if dest_is_float \<and> src_is_float then ''CVTFF''
      else if \<not> dest_is_float \<and> src_is_float then ''CVTFI''
      else if dest_is_float \<and> \<not> src_is_float then ''CVTIF''
      else ''CVTII'')"

section \<open>The fallback allocator\<close>

record allocator =
  al_next :: int
  al_mapping :: "(string, int) dict"
  al_temp :: int
  al_reserved :: "int set"

definition needed_registers :: "int \<Rightarrow> int \<Rightarrow> int set" where
  "needed_registers width base = (if width = 1 then {base} else {base, base + 1})"

definition allocator_of :: "(string, int) dict option \<Rightarrow> allocator" where
  "allocator_of pre_mapping =
     (let pre = (case pre_mapping of None \<Rightarrow> [] | Some m \<Rightarrow> m) in
      \<lparr>al_next = 1, al_mapping = pre, al_temp = 240,
       al_reserved = (\<Union>(v, p) \<in> set pre. if is_pair_register_name v then {p, p + 1} else {p})\<rparr>)"

function find_register :: "int \<Rightarrow> int set \<Rightarrow> int \<Rightarrow> (compile_error, int) result" where
  "find_register width reserved base0 =
     (let base = (if width = 2 \<and> base0 mod 2 = 1 then base0 + 1 else base0);
          needed = needed_registers width base in
      if needed \<inter> reserved = {} \<and> Max needed < 240 then Inr base
      else if 240 \<le> base + 1 then Inl OutOfRegisters
      else find_register width reserved (base + 1))"
  by pat_completeness auto
termination
  by (relation "measure (\<lambda>(w, r, b). nat (240 - b))") (auto simp: Let_def split: if_split_asm)

declare find_register.simps [simp del]

definition allocate :: "int \<Rightarrow> allocator \<Rightarrow> (compile_error, int \<times> allocator) result" where
  "allocate width al =
     bindE (find_register width (al_reserved al) (al_next al)) (\<lambda>base.
       Inr (base, al\<lparr>al_reserved := al_reserved al \<union> needed_registers width base, al_next := base + width\<rparr>))"

definition reg :: "string \<Rightarrow> bool \<Rightarrow> allocator \<Rightarrow> (compile_error, int \<times> allocator) result" where
  "reg token0 is_pair al =
     (let token = strip token0 in
      case map_of (al_mapping al) token of
        Some r \<Rightarrow> Inr (r, al)
      | None \<Rightarrow>
          bindE (allocate (if is_pair then 2 else 1) al) (\<lambda>(r, al').
            Inr (r, al'\<lparr>al_mapping := AList.update token r (al_mapping al')\<rparr>)))"

definition temp :: "allocator \<Rightarrow> (compile_error, int \<times> allocator) result" where
  "temp al =
     (if al_temp al > 255 then Inl (OutOfTemporaries (al_temp al))
      else Inr (al_temp al, al\<lparr>al_temp := al_temp al + 1\<rparr>))"

definition reset_temps :: "allocator \<Rightarrow> allocator" where
  "reset_temps al = al\<lparr>al_temp := 240\<rparr>"

section \<open>Parameters\<close>

definition layout_step ::
    "parameter \<Rightarrow> (string, int) dict \<times> int \<Rightarrow> (compile_error, (string, int) dict \<times> int) result" where
  "layout_step param st =
     (case st of (offsets, offset0) \<Rightarrow>
        (case map_of TYPE_SIZE (par_dtype param) of
          None \<Rightarrow> Inl (UnsupportedParameterType (par_dtype param))
        | Some sz \<Rightarrow>
            (let alignment = min sz 8;
                 offset = (if offset0 mod alignment \<noteq> 0 then offset0 + (alignment - offset0 mod alignment) else offset0) in
             Inr (AList.update (par_name param) offset offsets, offset + sz))))"

definition layout_parameters :: "ptx_program \<Rightarrow> (compile_error, (string, int) dict) result" where
  "layout_parameters prog = bindE (foldE layout_step (parameters prog) ([], 0)) (\<lambda>st. Inr (fst st))"

section \<open>The control plan\<close>

record instruction_guard =
  ig_predicate :: int
  ig_negated :: bool

record control_plan =
  skip_items :: "nat set"
  item_guards :: "nat \<rightharpoonup> instruction_guard"
  uniform_branch_items :: "nat set"
  loop_backedge_branch_items :: "nat set"
  legacy_varying_branch_items :: "nat set"

fun label_indices_from :: "nat \<Rightarrow> item list \<Rightarrow> (string \<rightharpoonup> nat) \<Rightarrow> (string \<rightharpoonup> nat)" where
  "label_indices_from i [] m = m"
| "label_indices_from i (Label l # its) m = label_indices_from (Suc i) its (m(l \<mapsto> i))"
| "label_indices_from i (Inst _ # its) m = label_indices_from (Suc i) its m"

definition label_indices :: "item list \<Rightarrow> (string \<rightharpoonup> nat)" where
  "label_indices its = label_indices_from 0 its Map.empty"

definition loop_backedge_items :: "cfg \<Rightarrow> nat set" where
  "loop_backedge_items g =
     set (concat (map (\<lambda>(tail, header).
       case map_of (blocks g) tail of
         None \<Rightarrow> []
       | Some b \<Rightarrow>
           if header \<notin> bb_branch_successors b \<or> bb_item_indices b = [] then [] else [last (bb_item_indices b)])
       (backedges g)))"

text \<open>
  \<open>_collect_uniform_slice\<close>: the recursion over the definitions of the operands, with the calls still
  to be made as a list.
\<close>

definition slice_deps :: "uniformity_facts \<Rightarrow> nat list \<Rightarrow> nat \<Rightarrow> nat list" where
  "slice_deps facts region index =
     (case uf_uses facts index of
        None \<Rightarrow> []
      | Some operands \<Rightarrow> filter (\<lambda>d. d \<in> set region) (concat (map (uf_definitions facts) operands)))"

function collect_uniform_slice ::
    "uniformity_facts \<Rightarrow> nat list \<Rightarrow> nat list \<Rightarrow> nat set \<Rightarrow> nat set" where
  "collect_uniform_slice facts region [] control = control"
| "collect_uniform_slice facts region (index # rest) control =
     (if index \<in> control then collect_uniform_slice facts region rest control
      else collect_uniform_slice facts region (slice_deps facts region index @ rest) (insert index control))"
  by pat_completeness auto
termination
proof (relation "measures [\<lambda>(f, region, ixs, control). card ((set region \<union> set ixs) - control),
    \<lambda>(f, region, ixs, control). length ixs]", goal_cases)
  case (2 facts region index rest control)
  have "(set region \<union> set rest) - control \<subseteq> (set region \<union> set (index # rest)) - control" by auto
  then have "card ((set region \<union> set rest) - control) \<le> card ((set region \<union> set (index # rest)) - control)"
    by (intro card_mono) auto
  then show ?case by auto
next
  case (3 facts region index rest control)
  have "set (slice_deps facts region index) \<subseteq> set region"
    by (auto simp: slice_deps_def split: option.split)
  then have "(set region \<union> set (slice_deps facts region index @ rest)) - insert index control \<subset>
      (set region \<union> set (index # rest)) - control" using 3 by auto
  then have "card ((set region \<union> set (slice_deps facts region index @ rest)) - insert index control) <
      card ((set region \<union> set (index # rest)) - control)" by (intro psubset_card_mono) auto
  then show ?case by auto
qed simp

definition uniform_control_indices :: "nat list \<Rightarrow> uniformity_facts \<Rightarrow> nat set \<Rightarrow> nat set" where
  "uniform_control_indices region facts backedge_items =
     foldl (\<lambda>control b. collect_uniform_slice facts region [b] control) {}
       (filter (\<lambda>i. i \<in> backedge_items) (sorted_list_of_set (set region)))"

definition is_bra :: "item \<Rightarrow> bool" where
  "is_bra it = (case it of Label _ \<Rightarrow> False | Inst i \<Rightarrow> opcode_base i = ''bra'')"

definition apply_guard :: "nat \<Rightarrow> nat list \<Rightarrow> nat set \<Rightarrow> instruction_guard \<Rightarrow> control_plan \<Rightarrow> control_plan" where
  "apply_guard branch_index region control guard plan =
     plan\<lparr>skip_items := insert branch_index (skip_items plan),
          item_guards := foldl (\<lambda>m i. if i \<in> control then m else m(i \<mapsto> guard)) (item_guards plan) region\<rparr>"

definition try_legalize_forward_exit ::
    "item list \<Rightarrow> (string \<rightharpoonup> nat) \<Rightarrow> nat \<Rightarrow> uniformity_facts \<Rightarrow> control_plan \<Rightarrow>
     (compile_error, bool \<times> control_plan) result" where
  "try_legalize_forward_exit its labels branch_index facts plan =
     (case its ! branch_index of
        Label _ \<Rightarrow> Inr (False, plan)
      | Inst item \<Rightarrow>
          (case pi_predicate item of
             None \<Rightarrow> Inr (False, plan)
           | Some pred \<Rightarrow>
               if opcode_base item \<noteq> ''bra'' \<or> length (pi_operands item) \<noteq> 1 then Inr (False, plan)
               else
                 (case labels (hd (pi_operands item)) of
                    None \<Rightarrow> Inr (False, plan)
                  | Some target_index \<Rightarrow>
                      if target_index \<le> branch_index then Inr (False, plan)
                      else
                        (let region = filter (\<lambda>i. case its ! i of Label _ \<Rightarrow> False | Inst _ \<Rightarrow> True)
                                        [Suc branch_index..<target_index];
                             control = uniform_control_indices region facts (loop_backedge_branch_items plan) in
                         if region = [] then Inr (False, plan)
                         else if list_ex (\<lambda>i. is_bra (its ! i) \<and> i \<notin> control) region then Inr (False, plan)
                         else
                           bindE (predicate_number pred) (\<lambda>p.
                             let guard = \<lparr>ig_predicate = p, ig_negated = \<not> pi_negated item\<rparr> in
                             if list_ex (\<lambda>i. i \<notin> control \<and> item_guards plan i \<noteq> None \<and> item_guards plan i \<noteq> Some guard) region
                             then Inr (False, plan)
                             else Inr (True, apply_guard branch_index region control guard plan))))))"

definition plan_step ::
    "item list \<Rightarrow> (string \<rightharpoonup> nat) \<Rightarrow> uniformity_facts \<Rightarrow> nat \<times> branch_uniformity \<Rightarrow> control_plan \<Rightarrow>
     (compile_error, control_plan) result" where
  "plan_step its labels facts b plan =
     (if bu_state (snd b) = UNIFORM then Inr plan
      else
        bindE (try_legalize_forward_exit its labels (fst b) facts plan) (\<lambda>(legalised, plan').
          Inr (if \<not> legalised \<and> bu_state (snd b) = VARYING
               then plan'\<lparr>legacy_varying_branch_items := insert (fst b) (legacy_varying_branch_items plan')\<rparr>
               else plan')))"

definition build_control_plan ::
    "item list \<Rightarrow> cfg \<Rightarrow> uniformity_facts \<Rightarrow> (compile_error, control_plan) result" where
  "build_control_plan its g facts =
     foldE (plan_step its (label_indices its) facts) (uf_branch_states facts)
       \<lparr>skip_items = {}, item_guards = Map.empty,
        uniform_branch_items = fst ` set (filter (\<lambda>(_, b). bu_state b = UNIFORM) (uf_branch_states facts)),
        loop_backedge_branch_items = loop_backedge_items g, legacy_varying_branch_items = {}\<rparr>"

end
