(* ===== verification/Lowering.thy ===== *)
theory Lowering
  imports Lower_Base
begin

text \<open>
  The lowering engine of \<open>legacy_lowering.py\<close>, part two: the class \<open>Lowerer\<close>. Its mutable fields are
  the record \<open>lowerer\<close>; what it computes once before the loop is the record \<open>lower_env\<close>. Arguments
  are evaluated in the order Python evaluates them.
\<close>

section \<open>State\<close>

record lower_env =
  le_profile :: isa_profile
  le_offsets :: "(string, int) dict"
  le_plan :: control_plan

record lowerer =
  lo_regs :: allocator
  lo_instructions :: "aec_instruction list"
  lo_labels :: "string \<rightharpoonup> int"
  lo_pending :: "(nat \<times> string) list"
  lo_current :: "nat option"

record lowered_program =
  lp_instructions :: "aec_instruction list"
  lp_offsets :: "(string, int) dict"

type_synonym 'a lower = "lowerer \<Rightarrow> (compile_error, 'a \<times> lowerer) result"

definition returnL :: "'a \<Rightarrow> 'a lower" where
  "returnL x s = Inr (x, s)"

definition raiseL :: "compile_error \<Rightarrow> 'a lower" where
  "raiseL e s = Inl e"

definition bindL :: "'a lower \<Rightarrow> ('a \<Rightarrow> 'b lower) \<Rightarrow> 'b lower" where
  "bindL m f s = bindE (m s) (\<lambda>(x, s'). f x s')"

definition liftL :: "(compile_error, 'a) result \<Rightarrow> 'a lower" where
  "liftL r s = bindE r (\<lambda>x. Inr (x, s))"

definition allocL :: "(allocator \<Rightarrow> (compile_error, 'a \<times> allocator) result) \<Rightarrow> 'a lower" where
  "allocL f s = bindE (f (lo_regs s)) (\<lambda>(x, al). Inr (x, s\<lparr>lo_regs := al\<rparr>))"

definition seqL :: "'a lower \<Rightarrow> 'b lower \<Rightarrow> 'b lower" where
  "seqL m n = bindL m (\<lambda>_. n)"

section \<open>Helpers of the class\<close>

text \<open>\<open>_emit\<close>: the guard of a legalised region is attached to what has none.\<close>

definition guarded :: "control_plan \<Rightarrow> nat option \<Rightarrow> aec_instruction \<Rightarrow> aec_instruction" where
  "guarded plan current inst =
     (case current of
        None \<Rightarrow> inst
      | Some i \<Rightarrow>
          (case item_guards plan i of
             None \<Rightarrow> inst
           | Some g \<Rightarrow>
               if predicate inst = None
               then inst\<lparr>predicate := Some (ig_predicate g), predicate_negated := ig_negated g\<rparr>
               else inst))"

definition emit :: "lower_env \<Rightarrow> aec_instruction \<Rightarrow> unit lower" where
  "emit le inst s =
     Inr ((), s\<lparr>lo_instructions := lo_instructions s @ [guarded (le_plan le) (lo_current s) inst]\<rparr>)"

definition require_operands :: "ptx_instruction \<Rightarrow> nat \<Rightarrow> unit lower" where
  "require_operands inst n =
     (if length (pi_operands inst) \<noteq> n
      then raiseL (OperandCount (pi_line inst) (pi_opcode inst) n (length (pi_operands inst)))
      else returnL ())"

definition ptx_reg :: "string \<Rightarrow> bool \<Rightarrow> int lower" where
  "ptx_reg token0 is_pair =
     (let token = strip token0 in allocL (reg token (startswith token ''%rd'' \<or> is_pair)))"

definition load_imm :: "lower_env \<Rightarrow> int \<Rightarrow> int lower" where
  "load_imm le v =
     bindL (allocL temp) (\<lambda>r. seqL (emit le ((AECInstruction ''LOADI'')\<lparr>dest := r, imm := v\<rparr>)) (returnL r))"

definition operand_reg :: "lower_env \<Rightarrow> string \<Rightarrow> bool \<Rightarrow> int lower" where
  "operand_reg le token is_pair =
     (if is_register token then ptx_reg token is_pair
      else bindL (liftL (parse_immediateE token)) (load_imm le))"

text \<open>\<open>_guard\<close>: the keyword arguments an instruction with a predicate adds.\<close>

definition with_guard :: "ptx_instruction \<Rightarrow> aec_instruction \<Rightarrow> aec_instruction lower" where
  "with_guard inst out =
     (case pi_predicate inst of
        None \<Rightarrow> returnL out
      | Some p \<Rightarrow>
          bindL (liftL (predicate_number p)) (\<lambda>n.
            returnL (out\<lparr>predicate := Some n, predicate_negated := pi_negated inst\<rparr>)))"

definition emit_guarded :: "lower_env \<Rightarrow> ptx_instruction \<Rightarrow> aec_instruction \<Rightarrow> unit lower" where
  "emit_guarded le inst out = bindL (with_guard inst out) (emit le)"

definition wide_type :: "string \<Rightarrow> bool" where
  "wide_type t \<longleftrightarrow> t = ''u64'' \<or> t = ''b64''"

definition get_or :: "(string, string) dict \<Rightarrow> string \<Rightarrow> string" where
  "get_or d k = (case map_of d k of None \<Rightarrow> k | Some v \<Rightarrow> v)"

section \<open>One operation at a time\<close>

definition lower_ld_param :: "lower_env \<Rightarrow> ptx_instruction \<Rightarrow> string \<Rightarrow> unit lower" where
  "lower_ld_param le inst ptx_type =
     seqL (require_operands inst 2)
       (let d = pi_operands inst ! 0; param_name = strip_brackets (pi_operands inst ! 1) in
        case map_of (le_offsets le) param_name of
          None \<Rightarrow> raiseL (UnknownParameter (pi_line inst) param_name)
        | Some base_offset \<Rightarrow>
            bindL (ptx_reg d (wide_type ptx_type)) (\<lambda>dest_reg.
              if wide_type ptx_type then
                bindL (allocL temp) (\<lambda>tmp_lo.
                seqL (emit le ((AECInstruction ''LOADI'')\<lparr>dest := tmp_lo, imm := base_offset\<rparr>))
                (seqL (emit le ((AECInstruction ''LD'')\<lparr>dtype := ''u32'', dest := dest_reg, src1 := tmp_lo,
                   memory_space := Some ''pmem''\<rparr>))
                (bindL (allocL temp) (\<lambda>tmp_hi.
                seqL (emit le ((AECInstruction ''LOADI'')\<lparr>dest := tmp_hi, imm := base_offset + 4\<rparr>))
                (emit le ((AECInstruction ''LD'')\<lparr>dtype := ''u32'', dest := dest_reg + 1, src1 := tmp_hi,
                   memory_space := Some ''pmem''\<rparr>))))))
              else
                bindL (allocL temp) (\<lambda>tmp.
                seqL (emit le ((AECInstruction ''LOADI'')\<lparr>dest := tmp, imm := base_offset\<rparr>))
                (bindL (liftL (lookupE PTX_TO_AEC_TYPE ptx_type)) (\<lambda>t.
                emit le ((AECInstruction ''LD'')\<lparr>dtype := t, dest := dest_reg, src1 := tmp,
                  memory_space := Some ''pmem''\<rparr>))))))"

definition lower_ld_global :: "lower_env \<Rightarrow> ptx_instruction \<Rightarrow> string \<Rightarrow> unit lower" where
  "lower_ld_global le inst ptx_type =
     seqL (require_operands inst 2)
       (let d = pi_operands inst ! 0; address = pi_operands inst ! 1 in
        bindL (ptx_reg (strip_brackets address) True) (\<lambda>addr_reg.
        bindL (liftL (lookupE PTX_TO_AEC_TYPE ptx_type)) (\<lambda>t.
        bindL (ptx_reg d False) (\<lambda>dest_reg.
        emit_guarded le inst ((AECInstruction ''LD'')\<lparr>dtype := t, dest := dest_reg, src1 := addr_reg,
          memory_space := Some ''gmem''\<rparr>)))))"

definition lower_st_global :: "lower_env \<Rightarrow> ptx_instruction \<Rightarrow> string \<Rightarrow> unit lower" where
  "lower_st_global le inst ptx_type =
     seqL (require_operands inst 2)
       (let address = pi_operands inst ! 0; source = pi_operands inst ! 1 in
        bindL (liftL (lookupE PTX_TO_AEC_TYPE ptx_type)) (\<lambda>t.
        bindL (ptx_reg (strip_brackets address) True) (\<lambda>addr_reg.
        bindL (ptx_reg source False) (\<lambda>value_reg.
        emit_guarded le inst ((AECInstruction ''ST'')\<lparr>dtype := t, src1 := addr_reg, src2 := value_reg,
          memory_space := Some ''gmem''\<rparr>)))))"

definition lower_mov :: "lower_env \<Rightarrow> ptx_instruction \<Rightarrow> string \<Rightarrow> unit lower" where
  "lower_mov le inst ptx_type =
     seqL (require_operands inst 2)
       (let d = pi_operands inst ! 0; source = pi_operands inst ! 1; is_wide = wide_type ptx_type in
        bindL (ptx_reg d is_wide) (\<lambda>dest_reg.
          case map_of (special_registers (le_profile le)) source of
            Some code \<Rightarrow>
              bindL (liftL (lookupE SPECIAL_MOVE_TYPE source)) (\<lambda>t.
              emit_guarded le inst ((AECInstruction ''CPY'')\<lparr>dtype := t, dest := dest_reg, src1 := code\<rparr>))
          | None \<Rightarrow>
              if is_register source then
                bindL (ptx_reg source is_wide) (\<lambda>src.
                emit_guarded le inst ((AECInstruction ''CPY'')\<lparr>dtype := get_or PTX_TO_AEC_TYPE ptx_type,
                  dest := dest_reg, src1 := src\<rparr>))
              else
                bindL (liftL (parse_immediateE source)) (\<lambda>v.
                emit_guarded le inst ((AECInstruction (if is_wide then ''LOADI64'' else ''LOADI''))
                  \<lparr>dest := dest_reg, imm := v\<rparr>))))"

definition lower_setp :: "lower_env \<Rightarrow> ptx_instruction \<Rightarrow> string list \<Rightarrow> unit lower" where
  "lower_setp le inst parts =
     seqL (require_operands inst 3)
       (if length parts \<noteq> 3 then raiseL (MalformedOpcode (pi_line inst) (pi_opcode inst))
        else
          bindL (liftL (lookupE PTX_TO_AEC_TYPE (parts ! 2))) (\<lambda>t.
          bindL (liftL (predicate_number (pi_operands inst ! 0))) (\<lambda>p.
          bindL (operand_reg le (pi_operands inst ! 1) False) (\<lambda>a.
          bindL (operand_reg le (pi_operands inst ! 2) False) (\<lambda>b.
          emit_guarded le inst ((AECInstruction ''CMPP'')\<lparr>dtype := t, dest := p, src1 := a, src2 := b,
            compare := Some (parts ! 1)\<rparr>))))))"

definition add_pending :: "string \<Rightarrow> unit lower" where
  "add_pending target s = Inr ((), s\<lparr>lo_pending := lo_pending s @ [(length (lo_instructions s), target)]\<rparr>)"

definition lower_bra :: "lower_env \<Rightarrow> ptx_instruction \<Rightarrow> unit lower" where
  "lower_bra le inst =
     seqL (require_operands inst 1)
       (let target = pi_operands inst ! 0 in
        case pi_predicate inst of
          None \<Rightarrow> seqL (add_pending target) (emit le (AECInstruction ''BR''))
        | Some pred \<Rightarrow> (\<lambda>s.
            (if (case lo_current s of None \<Rightarrow> True
                 | Some i \<Rightarrow> i \<notin> uniform_branch_items (le_plan le) \<and> i \<notin> legacy_varying_branch_items (le_plan le))
             then raiseL (NotProvenUniform (pi_line inst))
             else
               bindL (liftL (predicate_number pred)) (\<lambda>p.
               seqL (add_pending target)
                 (emit le ((AECInstruction ''BRX'')\<lparr>predicate := Some p, predicate_negated := pi_negated inst\<rparr>)))) s))"

definition cvt_wide :: "string \<Rightarrow> bool" where
  "cvt_wide t \<longleftrightarrow> t = ''u64'' \<or> t = ''b64'' \<or> t = ''f64''"

definition lower_cvt :: "lower_env \<Rightarrow> ptx_instruction \<Rightarrow> string list \<Rightarrow> unit lower" where
  "lower_cvt le inst parts =
     seqL (require_operands inst 2)
       (if length parts \<noteq> 3 then raiseL (MalformedOpcode (pi_line inst) (pi_opcode inst))
        else
          bindL (liftL (lookupE PTX_TO_AEC_TYPE (parts ! 1))) (\<lambda>t.
          bindL (liftL (lookupE PTX_TO_AEC_TYPE (parts ! 2))) (\<lambda>st.
          bindL (ptx_reg (pi_operands inst ! 0) (cvt_wide (parts ! 1))) (\<lambda>d.
          bindL (ptx_reg (pi_operands inst ! 1) (cvt_wide (parts ! 2))) (\<lambda>a.
          emit_guarded le inst ((AECInstruction (conversion_opcode (parts ! 1) (parts ! 2)))
            \<lparr>dtype := t, cvt_src_type := Some st, dest := d, src1 := a\<rparr>))))))"

definition ALU_OPCODES :: "(string, string) dict" where
  "ALU_OPCODES = [(''add'', ''ADD''), (''sub'', ''SUB''), (''mul'', ''MUL''), (''mad'', ''MAD''), (''and'', ''AND''),
     (''or'', ''OR''), (''xor'', ''XOR''), (''shl'', ''SHL''), (''shr'', ''SHR''), (''fma'', ''FMA'')]"

text \<open>The low word and the zero high word of a 64-bit result.\<close>

definition emit_wide ::
    "lower_env \<Rightarrow> ptx_instruction \<Rightarrow> string \<Rightarrow> bool \<Rightarrow> unit lower" where
  "emit_wide le inst opc sources_wide =
     bindL (ptx_reg (pi_operands inst ! 0) True) (\<lambda>d.
     bindL (operand_reg le (pi_operands inst ! 1) sources_wide) (\<lambda>a.
     bindL (operand_reg le (pi_operands inst ! 2) sources_wide) (\<lambda>b.
     seqL (emit_guarded le inst ((AECInstruction opc)\<lparr>dtype := ''u32'', dest := d, src1 := a, src2 := b\<rparr>))
       (emit_guarded le inst ((AECInstruction ''LOADI'')\<lparr>dtype := ''u32'', dest := d + 1\<rparr>)))))"

definition lower_alu :: "lower_env \<Rightarrow> ptx_instruction \<Rightarrow> string list \<Rightarrow> unit lower" where
  "lower_alu le inst parts =
     (let base = hd parts; ternary = (base = ''mad'' \<or> base = ''fma''); ptx_type = last parts;
          ops = pi_operands inst in
      seqL (require_operands inst (if ternary then 4 else 3))
        (if base = ''mul'' \<and> 3 \<le> length parts \<and> parts ! 1 = ''wide'' then emit_wide le inst ''MUL'' False
         else
           bindL (liftL (lookupE ALU_OPCODES base)) (\<lambda>opc.
             let t = (if base = ''shl'' then ''u32'' else get_or PTX_TO_AEC_TYPE ptx_type) in
             if ternary then
               bindL (ptx_reg (ops ! 0) False) (\<lambda>d.
               bindL (operand_reg le (ops ! 1) False) (\<lambda>a.
               bindL (operand_reg le (ops ! 2) False) (\<lambda>b.
               bindL (operand_reg le (ops ! 3) False) (\<lambda>c.
               emit_guarded le inst ((AECInstruction opc)\<lparr>dtype := t, dest := d, src1 := a, src2 := b, src3 := c\<rparr>)))))
             else if base = ''add'' \<and> wide_type ptx_type then emit_wide le inst ''ADD'' True
             else
               bindL (ptx_reg (ops ! 0) False) (\<lambda>d.
               bindL (operand_reg le (ops ! 1) False) (\<lambda>a.
               bindL (operand_reg le (ops ! 2) False) (\<lambda>b.
               emit_guarded le inst ((AECInstruction opc)\<lparr>dtype := t, dest := d, src1 := a, src2 := b\<rparr>)))))))"

definition lower_instruction :: "lower_env \<Rightarrow> ptx_instruction \<Rightarrow> unit lower" where
  "lower_instruction le inst =
     (let parts = opcode_parts inst; base = hd parts in
      if base = ''ld'' \<and> 3 \<le> length parts \<and> parts ! 1 = ''param'' then lower_ld_param le inst (parts ! 2)
      else if base = ''ld'' \<and> 3 \<le> length parts \<and> parts ! 1 = ''global'' then lower_ld_global le inst (parts ! 2)
      else if base = ''st'' \<and> 3 \<le> length parts \<and> parts ! 1 = ''global'' then lower_st_global le inst (parts ! 2)
      else if base = ''mov'' then
        (if 2 \<le> length parts then lower_mov le inst (parts ! 1) else raiseL IndexError)
      else if base = ''setp'' then lower_setp le inst parts
      else if base = ''bra'' then lower_bra le inst
      else if base = ''ret'' then emit le (AECInstruction ''HALT'')
      else if base = ''cvt'' then lower_cvt le inst parts
      else if base \<in> set [''add'', ''sub'', ''mul'', ''mad'', ''and'', ''or'', ''xor'', ''shl'', ''shr'', ''fma'']
      then lower_alu le inst parts
      else raiseL (UnsupportedPtx (pi_line inst) (pi_opcode inst)))"

section \<open>The program\<close>

definition lower_item :: "lower_env \<Rightarrow> nat \<Rightarrow> item \<Rightarrow> unit lower" where
  "lower_item le index it s =
     (case it of
        Label l \<Rightarrow> Inr ((), s\<lparr>lo_labels := (lo_labels s)(l \<mapsto> int (length (lo_instructions s)))\<rparr>)
      | Inst i \<Rightarrow>
          if index \<in> skip_items (le_plan le) then Inr ((), s)
          else
            bindE (lower_instruction le i (s\<lparr>lo_current := Some index, lo_regs := reset_temps (lo_regs s)\<rparr>))
              (\<lambda>(_, s'). Inr ((), s'\<lparr>lo_current := None\<rparr>)))"

fun lower_items :: "lower_env \<Rightarrow> nat \<Rightarrow> item list \<Rightarrow> unit lower" where
  "lower_items le index [] s = Inr ((), s)"
| "lower_items le index (it # its) s =
     bindE (lower_item le index it s) (\<lambda>(_, s'). lower_items le (Suc index) its s')"

definition patch_branch ::
    "(string \<rightharpoonup> int) \<Rightarrow> nat \<times> string \<Rightarrow> aec_instruction list \<Rightarrow> (compile_error, aec_instruction list) result" where
  "patch_branch labels b insts =
     (case labels (snd b) of
        None \<Rightarrow> Inl (UnknownTarget (snd b))
      | Some i \<Rightarrow> Inr (insts[fst b := (insts ! fst b)\<lparr>imm := i\<rparr>]))"

definition patch_branches :: "lowerer \<Rightarrow> (compile_error, aec_instruction list) result" where
  "patch_branches s = foldE (patch_branch (lo_labels s)) (lo_pending s) (lo_instructions s)"

definition lowerer_init :: "(string, int) dict option \<Rightarrow> lowerer" where
  "lowerer_init register_mapping =
     \<lparr>lo_regs = allocator_of register_mapping, lo_instructions = [], lo_labels = Map.empty, lo_pending = [],
      lo_current = None\<rparr>"

text \<open>\<open>Lowerer(program, profile, register_mapping)\<close> and \<open>lower()\<close>.\<close>

definition make_env :: "ptx_program \<Rightarrow> isa_profile \<Rightarrow> (compile_error, lower_env) result" where
  "make_env prog profile =
     bindE (layout_parameters prog) (\<lambda>offsets.
     bindE (case build_cfg prog of Inl e \<Rightarrow> Inl (ControlFlow e) | Inr g \<Rightarrow> Inr g) (\<lambda>g.
     bindE (build_control_plan (items prog) g (analyze_uniformity prog)) (\<lambda>plan.
       Inr \<lparr>le_profile = profile, le_offsets = offsets, le_plan = plan\<rparr>)))"

definition lower_program ::
    "ptx_program \<Rightarrow> isa_profile \<Rightarrow> (string, int) dict option \<Rightarrow> (compile_error, lowered_program) result" where
  "lower_program prog profile register_mapping =
     bindE (make_env prog profile) (\<lambda>le.
     bindE (lower_items le 0 (items prog) (lowerer_init register_mapping)) (\<lambda>(_, s).
     bindE (patch_branches s) (\<lambda>insts.
       Inr \<lparr>lp_instructions = insts, lp_offsets = le_offsets le\<rparr>)))"

text \<open>\<open>compile_ptx\<close> of \<open>legacy_lowering.py\<close>.\<close>

definition compile_ptx :: "string \<Rightarrow> isa_profile \<Rightarrow> (compile_error, lowered_program) result" where
  "compile_ptx source profile =
     (case parse_ptx source of
        Inl EntryNotFound \<Rightarrow> Inl NoEntry
      | Inr prog \<Rightarrow> lower_program prog profile None)"

end
