(* ===== verification/Lower_Alloc.thy ===== *)
theory Lower_Alloc
  imports Lowering
begin

text \<open>
  What the lowering engine relies on of its register allocator, as the locale \<open>register_source\<close>, and
  that the fallback allocator provides it, with or without the mapping of the linear scan: registers
  it hands out stay below R240, clear of each other and of every register of the given mapping.
\<close>

section \<open>The contract\<close>

definition user_reg :: "int \<Rightarrow> bool" where
  "user_reg r \<longleftrightarrow> 0 \<le> r \<and> r \<le> 239"

definition temp_reg :: "int \<Rightarrow> bool" where
  "temp_reg r \<longleftrightarrow> 240 \<le> r \<and> r \<le> 255"

locale register_source =
  fixes ok :: "allocator \<Rightarrow> bool"
  assumes reg_law: "ok al \<Longrightarrow> reg t w al = Inr (r, al') \<Longrightarrow> (startswith (strip t) ''%rd'' \<Longrightarrow> w) \<Longrightarrow>
      ok al' \<and> user_reg r \<and> map_of (al_mapping al') (strip t) = Some r \<and>
      map_of (al_mapping al) \<subseteq>\<^sub>m map_of (al_mapping al')"
    and temp_law: "ok al \<Longrightarrow> temp al = Inr (r, al') \<Longrightarrow>
      ok al' \<and> temp_reg r \<and> al_mapping al' = al_mapping al"
    and reset_law: "ok al \<Longrightarrow> ok (reset_temps al)"

section \<open>The fallback allocator\<close>

definition regs_from :: "int \<Rightarrow> int \<Rightarrow> int set" where
  "regs_from p w = {p..<p + w}"

lemma find_register_spec:
  "find_register width R base = Inr r \<Longrightarrow> width \<in> {1, 2} \<Longrightarrow>
    base \<le> r \<and> regs_from r width \<inter> R = {} \<and> r + width \<le> 240 \<and> (width = 2 \<longrightarrow> r mod 2 = 0) \<and>
    needed_registers width r = regs_from r width"
proof (induction width R base rule: find_register.induct)
  case (1 width R base0)
  let ?b = "if width = 2 \<and> base0 mod 2 = 1 then base0 + 1 else base0"
  have even: "width = 2 \<longrightarrow> ?b mod 2 = 0" by presburger
  have need: "needed_registers width b = regs_from b width" "Max (needed_registers width b) = b + width - 1" for b
    using "1.prems"(2) by (auto simp: needed_registers_def regs_from_def)
  show ?case
  proof (cases "needed_registers width ?b \<inter> R = {} \<and> Max (needed_registers width ?b) < 240")
    case True
    with "1.prems"(1) have "r = ?b" by (subst (asm) find_register.simps) (simp add: Let_def)
    with True even need show ?thesis by (auto split: if_split_asm)
  next
    case False
    with "1.prems"(1) have "\<not> 240 \<le> ?b + 1" "find_register width R (?b + 1) = Inr r"
      by (subst (asm) find_register.simps; auto simp: Let_def split: if_split_asm)+
    with "1.IH" [OF refl refl False] "1.prems"(2) show ?thesis by (auto split: if_split_asm)
  qed
qed

text \<open>
  The invariant, over the given mapping \<open>M\<close>: it is kept, its registers are reserved, and every
  register added to it has its own interval.
\<close>

definition pre_ok :: "(string, int) dict \<Rightarrow> bool" where
  "pre_ok M \<longleftrightarrow> list_all (\<lambda>(v, p). 0 \<le> p \<and> p \<le> 239) M"

definition pre_reserved :: "(string, int) dict \<Rightarrow> int set" where
  "pre_reserved M = (\<Union>(v, p) \<in> set M. if is_pair_register_name v then {p, p + 1} else {p})"

definition slot_ok :: "(string, int) dict \<Rightarrow> int set \<Rightarrow> string \<Rightarrow> int \<Rightarrow> int \<Rightarrow> bool" where
  "slot_ok M R v n p \<longleftrightarrow> n \<in> {1, 2} \<and> (startswith v ''%rd'' \<longrightarrow> n = 2) \<and> 1 \<le> p \<and> p + n \<le> 240 \<and>
     (n = 2 \<longrightarrow> p mod 2 = 0) \<and> regs_from p n \<subseteq> R \<and> regs_from p n \<inter> pre_reserved M = {}"

definition added :: "(string, int) dict \<Rightarrow> allocator \<Rightarrow> string \<Rightarrow> int \<Rightarrow> bool" where
  "added M al v p \<longleftrightarrow> map_of (al_mapping al) v = Some p \<and> map_of M v = None"

definition width_inv :: "(string, int) dict \<Rightarrow> (string \<Rightarrow> int) \<Rightarrow> allocator \<Rightarrow> bool" where
  "width_inv M w al \<longleftrightarrow> (\<forall>v p. added M al v p \<longrightarrow> slot_ok M (al_reserved al) v (w v) p) \<and>
     (\<forall>u v p q. u \<noteq> v \<and> added M al u p \<and> added M al v q \<longrightarrow> regs_from p (w u) \<inter> regs_from q (w v) = {})"

definition alloc_inv :: "(string, int) dict \<Rightarrow> allocator \<Rightarrow> bool" where
  "alloc_inv M al \<longleftrightarrow> pre_ok M \<and> 1 \<le> al_next al \<and> 240 \<le> al_temp al \<and> al_temp al \<le> 256 \<and>
     pre_reserved M \<subseteq> al_reserved al \<and> map_of M \<subseteq>\<^sub>m map_of (al_mapping al) \<and> (\<exists>w. width_inv M w al)"

lemma alloc_inv_start: "pre_ok (case m of None \<Rightarrow> [] | Some d \<Rightarrow> d) \<Longrightarrow>
    alloc_inv (case m of None \<Rightarrow> [] | Some d \<Rightarrow> d) (allocator_of m)"
  by (auto simp: alloc_inv_def allocator_of_def width_inv_def added_def pre_reserved_def Let_def)

lemma allocate_spec:
  assumes "allocate width al = Inr (r, al')" "width \<in> {1, 2}" "1 \<le> al_next al"
  shows "regs_from r width \<inter> al_reserved al = {}" "1 \<le> r" "r + width \<le> 240" "width = 2 \<longrightarrow> r mod 2 = 0"
    "al' = al\<lparr>al_reserved := al_reserved al \<union> regs_from r width, al_next := r + width\<rparr>"
  using assms find_register_spec [of width "al_reserved al" "al_next al" r]
  by (auto simp: allocate_def bindE_Inr_iff)

lemma width_inv_new:
  assumes "width_inv M w al" "map_of (al_mapping al) v = None" "pre_reserved M \<subseteq> al_reserved al"
    and new: "width \<in> {1, 2}" "startswith v ''%rd'' \<longrightarrow> width = 2" "regs_from r width \<inter> al_reserved al = {}"
      "1 \<le> r" "r + width \<le> 240" "width = 2 \<longrightarrow> r mod 2 = 0"
    and al': "al' = al\<lparr>al_reserved := al_reserved al \<union> regs_from r width, al_next := r + width,
      al_mapping := AList.update v r (al_mapping al)\<rparr>"
  shows "width_inv M (w(v := width)) al'"
proof -
  let ?w = "w(v := width)"
  have look: "added M al' x q \<longleftrightarrow> (if x = v then q = r \<and> map_of M v = None else added M al x q)" for x q
    by (auto simp: added_def al' map_of_update_iff)
  have old: "slot_ok M (al_reserved al) x (w x) q" if "added M al x q" for x q
    using assms(1) that unfolding width_inv_def by blast
  have fresh: "regs_from r width \<inter> regs_from q (w x) = {}" if "added M al x q" for x q
    using old [OF that] new(3) by (auto simp: slot_ok_def)
  have mono: "slot_ok M (al_reserved al') x n q" if "slot_ok M (al_reserved al) x n q" for x n q
    using that by (auto simp: slot_ok_def al')
  have "slot_ok M (al_reserved al') v width r"
    using new assms(3) by (auto simp: slot_ok_def al')
  then have "slot_ok M (al_reserved al') x (?w x) q" if "added M al' x q" for x q
    using that old mono by (auto simp: look split: if_split_asm)
  moreover have "regs_from p (?w x) \<inter> regs_from q (?w y) = {}" if xy: "x \<noteq> y" "added M al' x p" "added M al' y q" for x y p q
  proof -
    consider "x = v" "p = r" "added M al y q" "y \<noteq> v" | "y = v" "q = r" "added M al x p" "x \<noteq> v"
      | "x \<noteq> v" "y \<noteq> v" "added M al x p" "added M al y q"
      using xy look by metis
    then show ?thesis
    proof cases
      case 3
      with assms(1) xy(1) show ?thesis unfolding width_inv_def by simp
    qed (use fresh in \<open>simp_all add: Int_commute\<close>)
  qed
  ultimately show ?thesis unfolding width_inv_def by blast
qed

lemma mapped_ok:
  assumes "alloc_inv M al" "map_of (al_mapping al) v = Some p"
  shows "0 \<le> p" "p \<le> 239"
proof -
  have "0 \<le> p \<and> p \<le> 239"
  proof (cases "map_of M v")
    case None
    with assms show ?thesis by (fastforce simp: alloc_inv_def width_inv_def added_def slot_ok_def)
  next
    case (Some q)
    with assms have "q = p" by (auto simp: alloc_inv_def map_le_def dom_def)
    with Some assms(1) show ?thesis by (auto simp: alloc_inv_def pre_ok_def list_all_iff dest: map_of_SomeD)
  qed
  then show "0 \<le> p" "p \<le> 239" by simp_all
qed

interpretation fallback: register_source "alloc_inv M" for M
proof
  show "alloc_inv M al' \<and> user_reg r \<and> map_of (al_mapping al') (strip t) = Some r \<and>
      map_of (al_mapping al) \<subseteq>\<^sub>m map_of (al_mapping al')"
    if ok: "alloc_inv M al" and reg: "reg t w al = Inr (r, al')" and rd: "startswith (strip t) ''%rd'' \<Longrightarrow> w" for al t w r al'
  proof (cases "map_of (al_mapping al) (strip t)")
    case (Some p)
    with reg have "r = p" "al' = al" by (auto simp: reg_def Let_def)
    with Some ok mapped_ok [OF ok Some] show ?thesis by (simp add: user_reg_def)
  next
    case None
    let ?w = "if w then 2 else 1 :: int"
    from reg None obtain al1 where a: "allocate ?w al = Inr (r, al1)"
      "al' = al1\<lparr>al_mapping := AList.update (strip t) r (al_mapping al1)\<rparr>"
      by (auto simp: reg_def Let_def bindE_Inr_iff)
    have n: "1 \<le> al_next al" using ok by (simp add: alloc_inv_def)
    note s = allocate_spec [OF a(1) _ n]
    have w12: "?w \<in> {1, 2}" by simp
    obtain wf where wf: "width_inv M wf al" using ok by (auto simp: alloc_inv_def)
    have sub: "pre_reserved M \<subseteq> al_reserved al" using ok by (simp add: alloc_inv_def)
    have al': "al' = al\<lparr>al_reserved := al_reserved al \<union> regs_from r ?w, al_next := r + ?w,
        al_mapping := AList.update (strip t) r (al_mapping al)\<rparr>"
      using a(2) s(5) w12 by simp
    have "width_inv M (wf(strip t := ?w)) al'"
      by (rule width_inv_new [OF wf None sub w12 _ s(1-4) [OF w12] al']) (simp add: rd)
    moreover have "map_of (al_mapping al) \<subseteq>\<^sub>m map_of (al_mapping al')"
      using None by (auto simp: al' map_le_def map_of_update_iff)
    ultimately show ?thesis
      using ok s(2,3) [OF w12] unfolding alloc_inv_def
      by (auto simp: al' user_reg_def map_of_update_iff intro: map_le_trans)
  qed
  have frame: "alloc_inv M (al\<lparr>al_temp := n\<rparr>)" if ok: "alloc_inv M al" and n: "240 \<le> n" "n \<le> 256" for al n
  proof -
    obtain wf where "width_inv M wf al" using ok by (auto simp: alloc_inv_def)
    moreover have "added M (al\<lparr>al_temp := n\<rparr>) v p = added M al v p" for v p by (simp add: added_def)
    ultimately have "width_inv M wf (al\<lparr>al_temp := n\<rparr>)" by (simp add: width_inv_def)
    then show ?thesis using ok n by (auto simp: alloc_inv_def)
  qed
  show "alloc_inv M al' \<and> temp_reg r \<and> al_mapping al' = al_mapping al"
    if ok: "alloc_inv M al" and t: "temp al = Inr (r, al')" for al r al'
  proof -
    from t have "al' = al\<lparr>al_temp := al_temp al + 1\<rparr>" "r = al_temp al" "al_temp al < 256"
      by (auto simp: temp_def split: if_split_asm)
    with frame [OF ok] ok show ?thesis by (auto simp: temp_reg_def alloc_inv_def)
  qed
  show "alloc_inv M (reset_temps al)" if "alloc_inv M al" for al
    using frame [OF that] by (simp add: reset_temps_def)
qed

end
