(* ===== verification/Lower_Correct.thy ===== *)
theory Lower_Correct
  imports Lower_Alloc Aecbin
begin

text \<open>
  What the lowering engine emits. The rules for \<open>keepsL\<close> follow the lowering monad: whatever provides
  registers as \<open>register_source\<close> asks, every operation but a branch appends instructions of the
  encodable shape and leaves labels and pending branches alone. On top of them: the bytes of a lowered
  program decode to it, branches reach the instruction after their label, and the layout of the
  parameters.
\<close>

section \<open>The shape of emitted instructions\<close>

definition reg_field :: "int \<Rightarrow> bool" where
  "reg_field r \<longleftrightarrow> 0 \<le> r \<and> r \<le> 255"

definition source_field :: "isa_profile \<Rightarrow> aec_instruction \<Rightarrow> bool" where
  "source_field P inst \<longleftrightarrow>
     reg_field (src1 inst) \<or> opcode inst = ''CPY'' \<and> src1 inst \<in> snd ` set (special_registers P)"

definition lowered_opcodes :: "string list" where
  "lowered_opcodes = [''LOADI'', ''LOADI64'', ''LD'', ''ST'', ''CPY'', ''CMPP'', ''BR'', ''BRX'', ''HALT'', ''ADD'', ''SUB'',
     ''MUL'', ''MAD'', ''AND'', ''OR'', ''XOR'', ''SHL'', ''SHR'', ''FMA'', ''CVTFF'', ''CVTFI'', ''CVTIF'', ''CVTII'']"

definition wf_shape :: "isa_profile \<Rightarrow> aec_instruction \<Rightarrow> bool" where
  "wf_shape P inst \<longleftrightarrow> opcode inst \<in> set lowered_opcodes \<and> reg_field (dest inst) \<and> source_field P inst \<and>
     reg_field (src2 inst) \<and> reg_field (src3 inst) \<and> (uses_immediate (opcode inst) \<longrightarrow> src2 inst = 0 \<and> src3 inst = 0) \<and>
     (\<not> uses_immediate (opcode inst) \<longrightarrow> imm inst = 0) \<and> wf_predicate inst \<and>
     (compare inst \<noteq> None \<longleftrightarrow> opcode inst = ''CMPP'') \<and>
     (memory_space inst \<noteq> None \<longleftrightarrow> opcode inst \<in> {''LD'', ''ST''}) \<and>
     (cvt_src_type inst \<noteq> None \<longleftrightarrow> startswith (opcode inst) ''CVT'') \<and> family inst = 0"

text \<open>What the shape leaves open: the names the profile has to know and the range of the immediate.\<close>

definition known_in :: "(string, int) dict \<Rightarrow> string option \<Rightarrow> bool" where
  "known_in d f = (case f of None \<Rightarrow> True | Some k \<Rightarrow> has_key d k)"

definition names_known :: "isa_profile \<Rightarrow> aec_instruction \<Rightarrow> bool" where
  "names_known P inst \<longleftrightarrow> has_key (opcodes P) (opcode inst) \<and>
     has_key (types P) (instruction_encoding_type (opcode inst) (dtype inst)) \<and>
     known_in (compare_ops P) (compare inst) \<and> known_in (memory_spaces P) (memory_space inst) \<and>
     known_in (types P) (cvt_src_type inst) \<and>
     0 \<le> imm inst \<and> imm inst < (if opcode inst = ''LOADI64'' then 2 ^ 64 else 2 ^ 32)"

definition codes_ok :: "isa_profile \<Rightarrow> bool" where
  "codes_ok P \<longleftrightarrow> list_all (\<lambda>(_, c). u16_field c) (special_registers P)"

lemma wf_shapeD:
  assumes "wf_shape P inst"
  shows "opcode inst \<in> set lowered_opcodes" "reg_field (dest inst)" "source_field P inst" "reg_field (src2 inst)"
    "reg_field (src3 inst)" "uses_immediate (opcode inst) \<Longrightarrow> src2 inst = 0 \<and> src3 inst = 0"
    "\<not> uses_immediate (opcode inst) \<Longrightarrow> imm inst = 0" "wf_predicate inst"
    "compare inst \<noteq> None \<longleftrightarrow> opcode inst = ''CMPP''" "memory_space inst \<noteq> None \<longleftrightarrow> opcode inst \<in> {''LD'', ''ST''}"
    "cvt_src_type inst \<noteq> None \<longleftrightarrow> startswith (opcode inst) ''CVT''" "family inst = 0"
  using assms unfolding wf_shape_def by blast+

lemma names_knownD:
  assumes "names_known P inst"
  shows "has_key (opcodes P) (opcode inst)" "has_key (types P) (instruction_encoding_type (opcode inst) (dtype inst))"
    "known_in (compare_ops P) (compare inst)" "known_in (memory_spaces P) (memory_space inst)"
    "known_in (types P) (cvt_src_type inst)" "0 \<le> imm inst"
    "imm inst < (if opcode inst = ''LOADI64'' then 2 ^ 64 else 2 ^ 32)"
  using assms unfolding names_known_def by blast+

lemma reg_field_u: "reg_field r \<Longrightarrow> u16_field r" "reg_field r \<Longrightarrow> u32_field r"
  by (simp_all add: reg_field_def u16_field_def u32_field_def)

lemma wf_field_known: "(f \<noteq> None \<longleftrightarrow> b) \<Longrightarrow> known_in d f \<Longrightarrow> wf_field b d f"
  by (auto simp: wf_field_def known_in_def split: option.splits)

lemma wf_shape_instruction:
  assumes s: "wf_shape P inst" and k: "names_known P inst" and "codes_ok P"
  shows "wf_instruction P inst"
proof -
  note D = wf_shapeD [OF s] and K = names_knownD [OF k]
  have "''CMP'' \<notin> set lowered_opcodes" "''LDC'' \<notin> set lowered_opcodes" by code_simp+
  with D(1) have ne: "opcode inst \<noteq> ''CMP''" "opcode inst \<noteq> ''LDC''" by metis+
  have s1: "u16_field (src1 inst)"
    using D(3) \<open>codes_ok P\<close> reg_field_u(1) by (auto simp: source_field_def codes_ok_def list_all_iff)
  have z: "u32_field 0" "uses_immediate ''LOADI64''" by (simp_all add: u32_field_def uses_immediate_def)
  have "wf_operands inst"
    unfolding wf_operands_def
    using reg_field_u(1) [OF D(2)] s1 reg_field_u(2) [OF D(4)] reg_field_u(2) [OF D(5)] D(6,7) K(6,7) z
    by (cases "opcode inst = ''LOADI64''"; cases "uses_immediate (opcode inst)") (simp_all add: u32_field_def)
  moreover have "wf_field (opcode inst \<in> {''CMP'', ''CMPP''}) (compare_ops P) (compare inst)"
    using D(9) K(3) ne(1) by (intro wf_field_known) blast+
  moreover have "wf_field (opcode inst \<in> {''LD'', ''ST'', ''LDC''}) (memory_spaces P) (memory_space inst)"
    using D(10) K(4) ne(2) by (intro wf_field_known) blast+
  moreover have "wf_field (startswith (opcode inst) ''CVT'') (types P) (cvt_src_type inst)"
    by (rule wf_field_known [OF D(11) K(5)])
  ultimately show ?thesis
    unfolding wf_instruction_def using K(1,2) D(8,12) by blast
qed

section \<open>Rules for the monad\<close>

definition plain :: "isa_profile \<Rightarrow> aec_instruction \<Rightarrow> bool" where
  "plain P inst \<longleftrightarrow> wf_shape P inst \<and> opcode inst \<notin> {''BR'', ''BRX''}"

definition extends :: "isa_profile \<Rightarrow> lowerer \<Rightarrow> lowerer \<Rightarrow> bool" where
  "extends P s s' \<longleftrightarrow> (\<exists>new. lo_instructions s' = lo_instructions s @ new \<and> list_all (plain P) new) \<and>
     lo_labels s' = lo_labels s \<and> lo_pending s' = lo_pending s \<and> lo_current s' = lo_current s \<and>
     map_of (al_mapping (lo_regs s)) \<subseteq>\<^sub>m map_of (al_mapping (lo_regs s'))"

lemma extends_refl: "lo_instructions s' = lo_instructions s \<Longrightarrow> lo_labels s' = lo_labels s \<Longrightarrow>
    lo_pending s' = lo_pending s \<Longrightarrow> lo_current s' = lo_current s \<Longrightarrow>
    map_of (al_mapping (lo_regs s)) \<subseteq>\<^sub>m map_of (al_mapping (lo_regs s')) \<Longrightarrow> extends P s s'"
  by (simp add: extends_def)

lemma extends_trans [trans]: "extends P s t \<Longrightarrow> extends P t u \<Longrightarrow> extends P s u"
  by (auto simp: extends_def intro: map_le_trans)

definition keepsL ::
    "(allocator \<Rightarrow> bool) \<Rightarrow> isa_profile \<Rightarrow> 'a lower \<Rightarrow> ('a \<Rightarrow> bool) \<Rightarrow> bool" where
  "keepsL ok P m A \<longleftrightarrow>
     (\<forall>s x s'. ok (lo_regs s) \<longrightarrow> m s = Inr (x, s') \<longrightarrow> ok (lo_regs s') \<and> extends P s s' \<and> A x)"

lemma keepsLI: "(\<And>s x s'. ok (lo_regs s) \<Longrightarrow> m s = Inr (x, s') \<Longrightarrow> ok (lo_regs s') \<and> extends P s s' \<and> A x) \<Longrightarrow>
    keepsL ok P m A"
  by (simp add: keepsL_def)

lemma keepsLD: "keepsL ok P m A \<Longrightarrow> ok (lo_regs s) \<Longrightarrow> m s = Inr (x, s') \<Longrightarrow> ok (lo_regs s') \<and> extends P s s' \<and> A x"
  by (simp add: keepsL_def)

lemma keeps_return: "A x \<Longrightarrow> keepsL ok P (returnL x) A"
  by (auto simp: keepsL_def returnL_def intro: extends_refl)

lemma keeps_raise: "keepsL ok P (raiseL e) A"
  by (simp add: keepsL_def raiseL_def)

lemma keeps_lift: "(\<And>x. r = Inr x \<Longrightarrow> A x) \<Longrightarrow> keepsL ok P (liftL r) A"
  by (auto simp: keepsL_def liftL_def bindE_Inr_iff intro: extends_refl)

lemma keeps_lift_any: "keepsL ok P (liftL r) (\<lambda>_. True)"
  by (rule keeps_lift) simp

lemma keeps_bind:
  assumes "keepsL ok P m A" "\<And>x. A x \<Longrightarrow> keepsL ok P (f x) B"
  shows "keepsL ok P (bindL m f) B"
proof (rule keepsLI)
  fix s y s'
  assume "ok (lo_regs s)" "bindL m f s = Inr (y, s')"
  moreover from this obtain x s1 where "m s = Inr (x, s1)" "f x s1 = Inr (y, s')"
    by (auto simp: bindL_def bindE_Inr_iff)
  ultimately show "ok (lo_regs s') \<and> extends P s s' \<and> B y"
    using keepsLD [OF assms(1)] keepsLD [OF assms(2)] extends_trans by metis
qed

lemma keeps_seq: "keepsL ok P m A \<Longrightarrow> keepsL ok P n B \<Longrightarrow> keepsL ok P (seqL m n) B"
  unfolding seqL_def by (rule keeps_bind)

lemma keeps_if: "(b \<Longrightarrow> keepsL ok P m A) \<Longrightarrow> (\<not> b \<Longrightarrow> keepsL ok P n A) \<Longrightarrow> keepsL ok P (if b then m else n) A"
  by simp

lemma keeps_weaken: "keepsL ok P m A \<Longrightarrow> (\<And>x. A x \<Longrightarrow> B x) \<Longrightarrow> keepsL ok P m B"
  by (simp add: keepsL_def)

definition env_ok :: "lower_env \<Rightarrow> bool" where
  "env_ok le \<longleftrightarrow> (\<forall>i g. item_guards (le_plan le) i = Some g \<longrightarrow> 0 \<le> ig_predicate g \<and> ig_predicate g < 8)"

lemma wf_shape_predicate:
  assumes "wf_shape P inst" "0 \<le> p" "p < 8"
  shows "wf_shape P (inst\<lparr>predicate := Some p, predicate_negated := n\<rparr>)"
  unfolding wf_shape_def
  by (intro conjI; use wf_shapeD [OF assms(1)] assms(2,3) in \<open>simp add: source_field_def wf_predicate_def\<close>)

lemma plain_guarded:
  assumes "env_ok le" "plain P inst"
  shows "plain P (guarded (le_plan le) c inst)"
  using assms wf_shape_predicate [of P inst]
  by (auto simp: guarded_def plain_def env_ok_def split: option.splits)

lemma keeps_emit:
  assumes "env_ok le" "plain P inst"
  shows "keepsL ok P (emit le inst) (\<lambda>_. True)"
  using plain_guarded [OF assms] by (auto simp: keepsL_def emit_def extends_def)

lemma predicate_number_bounds: "predicate_number t = Inr n \<Longrightarrow> 0 \<le> n \<and> n < 8"
  by (auto simp: predicate_number_def Let_def split: if_split_asm)

lemma keeps_predicate: "keepsL ok P (liftL (predicate_number t)) (\<lambda>n. 0 \<le> n \<and> n < 8)"
  by (rule keeps_lift) (rule predicate_number_bounds)

lemma keeps_emit_guarded:
  assumes "env_ok le" "plain P inst"
  shows "keepsL ok P (emit_guarded le i inst) (\<lambda>_. True)"
proof -
  have "keepsL ok P (with_guard i inst) (plain P)"
  proof (cases "pi_predicate i")
    case None
    with assms(2) show ?thesis by (simp add: with_guard_def keeps_return)
  next
    case (Some p)
    have "plain P (inst\<lparr>predicate := Some n, predicate_negated := pi_negated i\<rparr>)" if "0 \<le> n \<and> n < 8" for n
      using wf_shape_predicate that assms(2) by (simp add: plain_def)
    then show ?thesis
      using Some by (auto simp: with_guard_def intro!: keeps_bind [OF keeps_predicate] keeps_return)
  qed
  then show ?thesis
    unfolding emit_guarded_def by (rule keeps_bind) (rule keeps_emit [OF assms(1)])
qed

section \<open>What is emitted has the shape\<close>

lemmas shape_simps = plain_def wf_shape_def source_field_def wf_predicate_def AECInstruction_def uses_immediate_def
  lowered_opcodes_def startswith_def

lemma reg_field_intros:
  "user_reg r \<Longrightarrow> reg_field r" "user_reg r \<Longrightarrow> reg_field (r + 1)" "temp_reg r \<Longrightarrow> reg_field r" "reg_field 0"
  by (simp_all add: user_reg_def temp_reg_def reg_field_def)

lemma plain_loadi:
  "reg_field d \<Longrightarrow> plain P ((AECInstruction ''LOADI'')\<lparr>dest := d, imm := v\<rparr>)"
  "reg_field d \<Longrightarrow> plain P ((AECInstruction ''LOADI64'')\<lparr>dest := d, imm := v\<rparr>)"
  "reg_field d \<Longrightarrow> plain P ((AECInstruction ''LOADI'')\<lparr>dtype := t, dest := d\<rparr>)"
  by (simp_all add: shape_simps reg_field_intros)

lemma plain_memory:
  "reg_field d \<Longrightarrow> reg_field a \<Longrightarrow>
    plain P ((AECInstruction ''LD'')\<lparr>dtype := t, dest := d, src1 := a, memory_space := Some sp\<rparr>)"
  "reg_field a \<Longrightarrow> reg_field v \<Longrightarrow>
    plain P ((AECInstruction ''ST'')\<lparr>dtype := t, src1 := a, src2 := v, memory_space := Some sp\<rparr>)"
  by (simp_all add: shape_simps reg_field_intros)

lemma plain_cpy:
  "reg_field d \<Longrightarrow> reg_field a \<or> a \<in> snd ` set (special_registers P) \<Longrightarrow>
    plain P ((AECInstruction ''CPY'')\<lparr>dtype := t, dest := d, src1 := a\<rparr>)"
  by (simp add: shape_simps reg_field_intros)

lemma plain_cmpp:
  "0 \<le> d \<and> d < 8 \<Longrightarrow> reg_field a \<Longrightarrow> reg_field b \<Longrightarrow>
    plain P ((AECInstruction ''CMPP'')\<lparr>dtype := t, dest := d, src1 := a, src2 := b, compare := Some c\<rparr>)"
  by (simp add: shape_simps reg_field_intros) (simp add: reg_field_def)

lemma plain_halt: "plain P (AECInstruction ''HALT'')"
  by (simp add: shape_simps reg_field_intros)

lemma plain_cvt:
  "reg_field d \<Longrightarrow> reg_field a \<Longrightarrow>
    plain P ((AECInstruction (conversion_opcode dt st))\<lparr>dtype := t, cvt_src_type := Some t', dest := d, src1 := a\<rparr>)"
  by (auto simp: conversion_opcode_def Let_def shape_simps reg_field_intros)

lemma ALU_opcodes_range: "map_of ALU_OPCODES b = Some opc \<Longrightarrow>
    opc \<in> {''ADD'', ''SUB'', ''MUL'', ''MAD'', ''AND'', ''OR'', ''XOR'', ''SHL'', ''SHR'', ''FMA''}"
  by (auto simp: ALU_OPCODES_def split: if_split_asm)

lemma plain_alu:
  assumes "opc \<in> {''ADD'', ''SUB'', ''MUL'', ''MAD'', ''AND'', ''OR'', ''XOR'', ''SHL'', ''SHR'', ''FMA''}"
    and "reg_field d" "reg_field a" "reg_field b"
  shows "plain P ((AECInstruction opc)\<lparr>dtype := t, dest := d, src1 := a, src2 := b\<rparr>)"
    and "reg_field c \<Longrightarrow> plain P ((AECInstruction opc)\<lparr>dtype := t, dest := d, src1 := a, src2 := b, src3 := c\<rparr>)"
proof -
  have o: "opc \<in> set lowered_opcodes" "\<not> uses_immediate opc" "opc \<notin> {''BR'', ''BRX'', ''CMPP'', ''LD'', ''ST''}"
    "\<not> startswith opc ''CVT''"
    using assms(1) by (elim insertE emptyE; simp add: lowered_opcodes_def uses_immediate_def startswith_def)+
  then show "plain P ((AECInstruction opc)\<lparr>dtype := t, dest := d, src1 := a, src2 := b\<rparr>)"
    using assms(2-4) by (simp add: plain_def wf_shape_def source_field_def wf_predicate_def AECInstruction_def reg_field_intros)
  show "plain P ((AECInstruction opc)\<lparr>dtype := t, dest := d, src1 := a, src2 := b, src3 := c\<rparr>)" if "reg_field c"
    using that o assms(2-4) by (simp add: plain_def wf_shape_def source_field_def wf_predicate_def AECInstruction_def reg_field_intros)
qed

section \<open>Every operation but a branch\<close>

context register_source
begin

lemma keeps_reg:
  assumes rd: "startswith (strip t) ''%rd'' \<Longrightarrow> w"
  shows "keepsL ok P (allocL (reg t w)) user_reg"
proof (rule keepsLI)
  fix s r s'
  assume ok: "ok (lo_regs s)" and r: "allocL (reg t w) s = Inr (r, s')"
  from r obtain al where "reg t w (lo_regs s) = Inr (r, al)" "s' = s\<lparr>lo_regs := al\<rparr>"
    by (auto simp: allocL_def bindE_Inr_iff)
  with reg_law [OF ok this(1) rd] show "ok (lo_regs s') \<and> extends P s s' \<and> user_reg r"
    by (simp add: extends_def)
qed

lemma keeps_temp: "keepsL ok P (allocL temp) temp_reg"
proof (rule keepsLI)
  fix s r s'
  assume ok: "ok (lo_regs s)" and r: "allocL temp s = Inr (r, s')"
  from r obtain al where "temp (lo_regs s) = Inr (r, al)" "s' = s\<lparr>lo_regs := al\<rparr>"
    by (auto simp: allocL_def bindE_Inr_iff)
  with temp_law [OF ok this(1)] show "ok (lo_regs s') \<and> extends P s s' \<and> temp_reg r"
    by (simp add: extends_def)
qed

lemma keeps_ptx_reg: "keepsL ok P (ptx_reg t w) user_reg"
  unfolding ptx_reg_def Let_def by (rule keeps_reg) simp

lemma keeps_require: "keepsL ok P (require_operands i n) (\<lambda>_. True)"
  by (auto simp: require_operands_def intro: keeps_raise keeps_return)

lemma keeps_operand_reg:
  assumes "env_ok le"
  shows "keepsL ok P (operand_reg le t w) reg_field"
proof -
  have "keepsL ok P (load_imm le v) reg_field" for v
    unfolding load_imm_def
    by (rule keeps_bind [OF keeps_temp])
      (rule keeps_seq [OF keeps_emit [OF assms]], auto intro: plain_loadi keeps_return reg_field_intros)
  then show ?thesis
    unfolding operand_reg_def
    by (auto intro: keeps_weaken [OF keeps_ptx_reg] reg_field_intros keeps_bind [OF keeps_lift_any])
qed

lemma keeps_ld_param:
  assumes "env_ok le"
  shows "keepsL ok P (lower_ld_param le i t) (\<lambda>_. True)"
  unfolding lower_ld_param_def Let_def
  by (intro keeps_seq [OF keeps_require])
    (auto split: option.split intro!: keeps_raise keeps_bind [OF keeps_ptx_reg] keeps_bind [OF keeps_temp]
      keeps_bind [OF keeps_lift_any] keeps_seq [OF keeps_emit [OF assms]] keeps_emit [OF assms] plain_loadi plain_memory
      intro: reg_field_intros)

lemma keeps_ld_global:
  assumes "env_ok le"
  shows "keepsL ok P (lower_ld_global le i t) (\<lambda>_. True)"
  unfolding lower_ld_global_def Let_def
  by (intro keeps_seq [OF keeps_require] keeps_bind [OF keeps_ptx_reg] keeps_bind [OF keeps_lift_any]
      keeps_emit_guarded [OF assms] plain_memory reg_field_intros)

lemma keeps_st_global:
  assumes "env_ok le"
  shows "keepsL ok P (lower_st_global le i t) (\<lambda>_. True)"
  unfolding lower_st_global_def Let_def
  by (intro keeps_seq [OF keeps_require] keeps_bind [OF keeps_ptx_reg] keeps_bind [OF keeps_lift_any]
      keeps_emit_guarded [OF assms] plain_memory reg_field_intros)

lemma keeps_mov:
  assumes "env_ok le" "le_profile le = P"
  shows "keepsL ok P (lower_mov le i t) (\<lambda>_. True)"
proof -
  have code: "c \<in> snd ` set (special_registers P)" if "map_of (special_registers P) x = Some c" for x c
    using map_of_SomeD [OF that] by force
  show ?thesis
    unfolding lower_mov_def Let_def assms(2)
    by (intro keeps_seq [OF keeps_require] keeps_bind [OF keeps_ptx_reg])
      (auto split: option.split intro!: keeps_bind [OF keeps_lift_any] keeps_bind [OF keeps_ptx_reg]
        keeps_emit_guarded [OF assms(1)] plain_cpy plain_loadi intro: reg_field_intros code)
qed

lemma keeps_setp:
  assumes "env_ok le"
  shows "keepsL ok P (lower_setp le i parts) (\<lambda>_. True)"
  unfolding lower_setp_def
  by (rule keeps_seq [OF keeps_require])
    (intro keeps_if keeps_raise keeps_bind [OF keeps_predicate] keeps_bind [OF keeps_lift_any]
      keeps_bind [OF keeps_operand_reg [OF assms]] keeps_emit_guarded [OF assms] plain_cmpp)

lemma keeps_cvt:
  assumes "env_ok le"
  shows "keepsL ok P (lower_cvt le i parts) (\<lambda>_. True)"
  unfolding lower_cvt_def
  by (rule keeps_seq [OF keeps_require])
    (auto intro!: keeps_raise keeps_bind [OF keeps_lift_any] keeps_bind [OF keeps_ptx_reg]
      keeps_emit_guarded [OF assms] plain_cvt intro: reg_field_intros)

lemma keeps_emit_wide:
  assumes "env_ok le" "opc \<in> {''ADD'', ''MUL''}"
  shows "keepsL ok P (emit_wide le i opc w) (\<lambda>_. True)"
  unfolding emit_wide_def
  by (intro keeps_bind [OF keeps_ptx_reg] keeps_bind [OF keeps_operand_reg [OF assms(1)]]
      keeps_seq [OF keeps_emit_guarded [OF assms(1)]] keeps_emit_guarded [OF assms(1)] plain_alu plain_loadi)
    (use assms(2) in \<open>auto intro: reg_field_intros\<close>)

lemma keeps_alu:
  assumes "env_ok le"
  shows "keepsL ok P (lower_alu le i parts) (\<lambda>_. True)"
proof -
  have A: "keepsL ok P (liftL (lookupE ALU_OPCODES b))
      (\<lambda>opc. opc \<in> {''ADD'', ''SUB'', ''MUL'', ''MAD'', ''AND'', ''OR'', ''XOR'', ''SHL'', ''SHR'', ''FMA''})" for b
    by (rule keeps_lift) (rule ALU_opcodes_range, simp add: lookupE_def of_option_def split: option.splits)
  show ?thesis
    unfolding lower_alu_def Let_def
    by (intro keeps_seq [OF keeps_require] keeps_bind [OF A] keeps_if keeps_emit_wide [OF assms]
        keeps_bind [OF keeps_ptx_reg] keeps_bind [OF keeps_operand_reg [OF assms]] keeps_emit_guarded [OF assms] plain_alu)
      (simp_all add: reg_field_intros)
qed

lemma keeps_instruction:
  assumes "env_ok le" "le_profile le = P" "opcode_base i \<noteq> ''bra''"
  shows "keepsL ok P (lower_instruction le i) (\<lambda>_. True)"
  unfolding lower_instruction_def Let_def
  using assms(3) keeps_ld_param [OF assms(1)] keeps_ld_global [OF assms(1)] keeps_st_global [OF assms(1)]
    keeps_mov [OF assms(1,2)] keeps_setp [OF assms(1)] keeps_cvt [OF assms(1)] keeps_alu [OF assms(1)]
    keeps_emit [OF assms(1) plain_halt] keeps_raise
  by (intro keeps_if) (simp_all add: base_is_hd)

end

section \<open>Branches\<close>

lemma lower_bra_spec:
  assumes "lower_bra le i s = Inr ((), s')" "env_ok le"
  shows "\<exists>inst. wf_shape P inst \<and> imm inst = 0 \<and>
    opcode inst = (if pi_predicate i = None then ''BR'' else ''BRX'') \<and>
    (\<forall>p. pi_predicate i = Some p \<longrightarrow>
      (\<exists>n. predicate_number p = Inr n \<and> predicate inst = Some n \<and> predicate_negated inst = pi_negated i)) \<and>
    s' = s\<lparr>lo_instructions := lo_instructions s @ [inst],
           lo_pending := lo_pending s @ [(length (lo_instructions s), pi_operands i ! 0)]\<rparr>"
proof -
  have br: "wf_shape P (guarded (le_plan le) c (AECInstruction ''BR''))" "imm (guarded (le_plan le) c (AECInstruction ''BR'')) = 0"
    "opcode (guarded (le_plan le) c (AECInstruction ''BR'')) = ''BR''" for c
    using assms(2) wf_shape_predicate [of P "AECInstruction ''BR''"]
    by (auto simp: guarded_def env_ok_def shape_simps reg_field_intros split: option.splits)
  show ?thesis
  proof (cases "pi_predicate i")
    case None
    with assms(1) have "s' = s\<lparr>lo_instructions := lo_instructions s @
           [guarded (le_plan le) (lo_current s) (AECInstruction ''BR'')],
           lo_pending := lo_pending s @ [(length (lo_instructions s), pi_operands i ! 0)]\<rparr>"
      by (auto simp: lower_bra_def seqL_def bindL_def require_operands_def returnL_def raiseL_def add_pending_def emit_def
          Let_def split: if_split_asm)
    with None br show ?thesis
      by (intro exI [of _ "guarded (le_plan le) (lo_current s) (AECInstruction ''BR'')"]) simp
  next
    case (Some p)
    let ?b = "\<lambda>n. (AECInstruction ''BRX'')\<lparr>predicate := Some n, predicate_negated := pi_negated i\<rparr>"
    have g: "guarded (le_plan le) c (?b n) = ?b n" for c n
      by (simp add: guarded_def split: option.split)
    have w: "wf_shape P (?b n)" "imm (?b n) = 0" "opcode (?b n) = ''BRX''" if "0 \<le> n \<and> n < 8" for n
      using that by (simp_all add: shape_simps reg_field_intros)
    from assms(1) Some obtain n where n: "predicate_number p = Inr n"
      "s' = s\<lparr>lo_instructions := lo_instructions s @ [guarded (le_plan le) (lo_current s) (?b n)],
           lo_pending := lo_pending s @ [(length (lo_instructions s), pi_operands i ! 0)]\<rparr>"
      by (auto simp: lower_bra_def seqL_def bindL_def liftL_def bindE_Inr_iff require_operands_def returnL_def raiseL_def
          add_pending_def emit_def Let_def split: if_split_asm)
    with Some w [OF predicate_number_bounds [OF n(1)]] show ?thesis
      by (intro exI [of _ "?b n"]) (simp add: g)
  qed
qed

lemma lower_items_trace:
  "lower_items le k its s = Inr ((), s') \<Longrightarrow>
    \<exists>st. st 0 = s \<and> st (length its) = s' \<and>
      (\<forall>i < length its. lower_item le (k + i) (its ! i) (st i) = Inr ((), st (Suc i)))"
proof (induction its arbitrary: k s)
  case Nil
  then show ?case by auto
next
  case (Cons it its)
  then obtain s1 where s1: "lower_item le k it s = Inr ((), s1)" "lower_items le (Suc k) its s1 = Inr ((), s')"
    by (auto simp: bindE_Inr_iff)
  from Cons.IH [OF s1(2)] obtain st where st: "st 0 = s1" "st (length its) = s'"
    "\<forall>i < length its. lower_item le (Suc k + i) (its ! i) (st i) = Inr ((), st (Suc i))" by blast
  show ?case
    by (rule exI [of _ "\<lambda>i. case i of 0 \<Rightarrow> s | Suc j \<Rightarrow> st j"])
      (use s1(1) st in \<open>auto simp: nth_Cons split: nat.splits\<close>)
qed

lemma patch_branches_spec:
  "foldE (patch_branch labels) pending code = Inr out \<Longrightarrow> distinct (map fst pending) \<Longrightarrow>
    \<forall>(k, t) \<in> set pending. k < length code \<Longrightarrow>
    length out = length code \<and> (\<forall>k. k \<notin> fst ` set pending \<longrightarrow> out ! k = code ! k) \<and>
    (\<forall>(k, t) \<in> set pending. \<exists>p. labels t = Some p \<and> out ! k = (code ! k)\<lparr>imm := p\<rparr>)"
proof (induction pending arbitrary: code)
  case (Cons b pending)
  obtain k t where b: "b = (k, t)" by force
  with Cons.prems(1) obtain p where p: "labels t = Some p"
    "foldE (patch_branch labels) pending (code[k := (code ! k)\<lparr>imm := p\<rparr>]) = Inr out"
    by (cases "labels t") (simp_all add: patch_branch_def [of labels "(k, t)" code])
  have "k \<notin> fst ` set pending" "distinct (map fst pending)" "k < length code"
    using Cons.prems(2,3) b by auto
  with Cons.IH [OF p(2)] Cons.prems(3) b p(1) show ?case by (auto simp: nth_list_update)
qed auto

text \<open>The state before each item, and the invariant that ties it to the positions of the items before.\<close>

definition placed :: "lower_env \<Rightarrow> item list \<Rightarrow> (nat \<Rightarrow> nat) \<Rightarrow> aec_instruction list \<Rightarrow> nat \<Rightarrow> bool" where
  "placed le its pos code i \<longleftrightarrow>
     (case its ! i of
        Label _ \<Rightarrow> pos (Suc i) = pos i
      | Inst b \<Rightarrow>
          if i \<in> skip_items (le_plan le) then pos (Suc i) = pos i
          else if opcode_base b = ''bra'' then
            pos (Suc i) = Suc (pos i) \<and> opcode (code ! pos i) = (if pi_predicate b = None then ''BR'' else ''BRX'') \<and>
            (\<forall>p. pi_predicate b = Some p \<longrightarrow> (\<exists>n. predicate_number p = Inr n \<and>
               predicate (code ! pos i) = Some n \<and> predicate_negated (code ! pos i) = pi_negated b))
          else pos i \<le> pos (Suc i) \<and> (\<forall>k. pos i \<le> k \<and> k < pos (Suc i) \<longrightarrow> opcode (code ! k) \<notin> {''BR'', ''BRX''}))"

definition branch_places :: "lower_env \<Rightarrow> item list \<Rightarrow> (nat \<Rightarrow> nat) \<Rightarrow> nat \<Rightarrow> (nat \<times> string) list" where
  "branch_places le its pos n =
     concat (map (\<lambda>i. case its ! i of
        Label _ \<Rightarrow> []
      | Inst b \<Rightarrow> if i \<notin> skip_items (le_plan le) \<and> opcode_base b = ''bra'' then [(pos i, pi_operands b ! 0)] else [])
      [0..<n])"

lemma branch_places_Suc: "branch_places le its pos (Suc n) = branch_places le its pos n @
    (case its ! n of Label _ \<Rightarrow> [] | Inst b \<Rightarrow>
      if n \<notin> skip_items (le_plan le) \<and> opcode_base b = ''bra'' then [(pos n, pi_operands b ! 0)] else [])"
  by (simp add: branch_places_def)

lemma label_indices_from_append:
  "label_indices_from k (xs @ ys) m = label_indices_from (k + length xs) ys (label_indices_from k xs m)"
proof (induction xs arbitrary: k m)
  case (Cons x xs)
  then show ?case by (cases x) (simp_all add: fun_upd_def)
qed simp

lemma label_indices_take_Suc:
  "n < length its \<Longrightarrow> label_indices (take (Suc n) its) =
    (case its ! n of Label l \<Rightarrow> (label_indices (take n its))(l \<mapsto> n) | Inst _ \<Rightarrow> label_indices (take n its))"
  by (simp add: label_indices_def take_Suc_conv_app_nth label_indices_from_append split: item.split)

lemma placed_cong:
  assumes p: "placed le its pos code i"
    and eq: "\<And>k. pos i \<le> k \<Longrightarrow> k < pos (Suc i) \<Longrightarrow> \<exists>v. code' ! k = (code ! k)\<lparr>imm := v\<rparr>"
  shows "placed le its pos code' i"
proof (cases "its ! i")
  case (Label l)
  with p show ?thesis by (simp add: placed_def)
next
  case (Inst b)
  show ?thesis
  proof (cases "i \<in> skip_items (le_plan le)")
    case True
    with Inst p show ?thesis by (simp add: placed_def)
  next
    case ns: False
    show ?thesis
    proof (cases "opcode_base b = ''bra''")
      case True
      with p Inst ns have "pos (Suc i) = Suc (pos i)" by (simp add: placed_def)
      with eq [of "pos i"] obtain v where "code' ! pos i = (code ! pos i)\<lparr>imm := v\<rparr>" by auto
      with p Inst ns True show ?thesis by (simp add: placed_def)
    next
      case False
      have "opcode (code' ! k) = opcode (code ! k)" if "pos i \<le> k" "k < pos (Suc i)" for k
        using eq [OF that] by auto
      with p Inst ns False show ?thesis by (simp add: placed_def)
    qed
  qed
qed

lemma placed_append:
  assumes "placed le its pos code i" "pos (Suc i) \<le> length code"
  shows "placed le its pos (code @ new) i"
proof (rule placed_cong [OF assms(1)])
  fix k
  assume "k < pos (Suc i)"
  with assms(2) have "(code @ new) ! k = (code ! k)\<lparr>imm := imm (code ! k)\<rparr>" by (simp add: nth_append)
  then show "\<exists>v. (code @ new) ! k = (code ! k)\<lparr>imm := v\<rparr>" by blast
qed

definition trace_inv ::
    "lower_env \<Rightarrow> item list \<Rightarrow> (nat \<Rightarrow> nat) \<Rightarrow> nat \<Rightarrow> lowerer \<Rightarrow> bool" where
  "trace_inv le its pos n s \<longleftrightarrow> pos n = length (lo_instructions s) \<and> pos 0 = 0 \<and> lo_current s = None \<and>
     (\<forall>i < n. pos i \<le> pos (Suc i) \<and> pos (Suc i) \<le> length (lo_instructions s) \<and>
        placed le its pos (lo_instructions s) i) \<and>
     list_all (wf_shape (le_profile le)) (lo_instructions s) \<and>
     lo_labels s = map_option (\<lambda>i. int (pos i)) \<circ> label_indices (take n its) \<and>
     lo_pending s = branch_places le its pos n"

lemma trace_inv_step:
  assumes inv: "trace_inv le its pos n s" and n: "n < length its" and grow: "lo_instructions s' = lo_instructions s @ new"
    and pos: "pos (Suc n) = length (lo_instructions s')"
    and pl: "placed le its pos (lo_instructions s') n" and wf: "list_all (wf_shape (le_profile le)) new"
    and lab: "lo_labels s' = (case its ! n of Label l \<Rightarrow> (lo_labels s)(l \<mapsto> int (pos n)) | Inst _ \<Rightarrow> lo_labels s)"
    and pend: "lo_pending s' = lo_pending s @ (case its ! n of Label _ \<Rightarrow> [] | Inst b \<Rightarrow>
      if n \<notin> skip_items (le_plan le) \<and> opcode_base b = ''bra'' then [(pos n, pi_operands b ! 0)] else [])"
    and cur: "lo_current s' = None"
  shows "trace_inv le its pos (Suc n) s'"
proof -
  have old: "pos i \<le> pos (Suc i) \<and> pos (Suc i) \<le> length (lo_instructions s) \<and> placed le its pos (lo_instructions s) i"
    if "i < n" for i using inv that by (simp add: trace_inv_def)
  have "pos i \<le> pos (Suc i) \<and> pos (Suc i) \<le> length (lo_instructions s') \<and> placed le its pos (lo_instructions s') i"
    if "i < Suc n" for i
  proof (cases "i = n")
    case True
    with inv pl pos grow show ?thesis by (simp add: trace_inv_def)
  next
    case False
    with that old [of i] show ?thesis by (auto simp: grow intro: placed_append)
  qed
  moreover have "lo_labels s' = map_option (\<lambda>i. int (pos i)) \<circ> label_indices (take (Suc n) its)"
    using inv lab n by (auto simp: trace_inv_def label_indices_take_Suc fun_eq_iff split: item.split)
  moreover have "lo_pending s' = branch_places le its pos (Suc n)"
    using inv pend by (simp add: trace_inv_def branch_places_Suc)
  ultimately show ?thesis
    using inv pos grow wf cur by (simp add: trace_inv_def)
qed

lemma lower_instruction_bra: "opcode_base b = ''bra'' \<Longrightarrow> lower_instruction le b = lower_bra le b"
  by (simp add: lower_instruction_def Let_def base_is_hd)

context register_source
begin

lemma item_step:
  assumes env: "env_ok le" and ok: "ok (lo_regs s)" and inv: "trace_inv le its pos n s" and n: "n < length its"
    and step: "lower_item le n (its ! n) s = Inr ((), s')" and pos: "pos (Suc n) = length (lo_instructions s')"
  shows "ok (lo_regs s') \<and> trace_inv le its pos (Suc n) s'"
proof -
  have pn: "pos n = length (lo_instructions s)" and cur: "lo_current s = None"
    using inv by (simp_all add: trace_inv_def)
  show ?thesis
  proof (cases "its ! n")
    case (Label l)
    with step have s': "s' = s\<lparr>lo_labels := (lo_labels s)(l \<mapsto> int (length (lo_instructions s)))\<rparr>"
      by (simp add: lower_item_def)
    have "trace_inv le its pos (Suc n) s'"
      by (rule trace_inv_step [OF inv n, where new = "[]"]) (use pos pn cur Label in \<open>simp_all add: s' placed_def\<close>)
    with ok show ?thesis by (simp add: s')
  next
    case (Inst b)
    show ?thesis
    proof (cases "n \<in> skip_items (le_plan le)")
      case True
      with step Inst have s': "s' = s" by (simp add: lower_item_def)
      have "trace_inv le its pos (Suc n) s'"
        by (rule trace_inv_step [OF inv n, where new = "[]"])
          (use pos pn cur Inst True in \<open>simp_all add: s' placed_def\<close>)
      with ok show ?thesis by (simp add: s')
    next
      case ns: False
      let ?s = "s\<lparr>lo_current := Some n, lo_regs := reset_temps (lo_regs s)\<rparr>"
      from step Inst ns obtain t where t: "lower_instruction le b ?s = Inr ((), t)" "s' = t\<lparr>lo_current := None\<rparr>"
        by (auto simp: lower_item_def bindE_Inr_iff)
      have okr: "ok (lo_regs ?s)" using reset_law [OF ok] by simp
      show ?thesis
      proof (cases "opcode_base b = ''bra''")
        case True
        from lower_bra_spec [OF t(1) [unfolded lower_instruction_bra [OF True]] env, of "le_profile le"] obtain inst where
          i: "wf_shape (le_profile le) inst" "opcode inst = (if pi_predicate b = None then ''BR'' else ''BRX'')"
          "\<forall>p. pi_predicate b = Some p \<longrightarrow>
            (\<exists>n. predicate_number p = Inr n \<and> predicate inst = Some n \<and> predicate_negated inst = pi_negated b)"
          and te: "t = ?s\<lparr>lo_instructions := lo_instructions ?s @ [inst],
            lo_pending := lo_pending ?s @ [(length (lo_instructions ?s), pi_operands b ! 0)]\<rparr>" by blast
        have s': "lo_instructions s' = lo_instructions s @ [inst]" "lo_labels s' = lo_labels s" "lo_current s' = None"
          "lo_pending s' = lo_pending s @ [(pos n, pi_operands b ! 0)]" "lo_regs s' = lo_regs ?s"
          by (simp_all add: t(2) te pn)
        have "trace_inv le its pos (Suc n) s'"
          by (rule trace_inv_step [OF inv n s'(1) pos])
            (use pos pn s' i Inst ns True in \<open>simp_all add: placed_def\<close>)
        with okr s'(5) show ?thesis by simp
      next
        case False
        from keepsLD [OF keeps_instruction [OF env refl False] okr t(1)] obtain new where
          k: "ok (lo_regs t)" "lo_instructions t = lo_instructions s @ new" "list_all (plain (le_profile le)) new"
          "lo_labels t = lo_labels s" "lo_pending t = lo_pending s" by (auto simp: extends_def)
        have wf: "list_all (wf_shape (le_profile le)) new"
          and br: "opcode i \<notin> {''BR'', ''BRX''}" if "i \<in> set new" for i
          using k(3) that by (auto simp: list_all_iff plain_def)
        have new: "opcode (lo_instructions s' ! j) \<notin> {''BR'', ''BRX''}" if "pos n \<le> j" "j < pos (Suc n)" for j
        proof -
          have "lo_instructions s' ! j = new ! (j - pos n)" "j - pos n < length new"
            using that pos pn k(2) t(2) by (auto simp: nth_append)
          then show ?thesis using br nth_mem by metis
        qed
        have pl: "placed le its pos (lo_instructions s') n"
          using new pos pn k(2) t(2) Inst ns False by (simp add: placed_def)
        have "trace_inv le its pos (Suc n) s'"
          by (rule trace_inv_step [OF inv n, where new = new])
            (use pos k t(2) pl Inst False in \<open>simp_all add: list_all_iff plain_def\<close>)
        with k(1) t(2) show ?thesis by simp
      qed
    qed
  qed
qed

lemma trace_holds:
  assumes env: "env_ok le" and start: "ok (allocator_of m)" and run: "lower_items le 0 its (lowerer_init m) = Inr ((), s')"
  shows "\<exists>pos. trace_inv le its pos (length its) s' \<and> ok (lo_regs s')"
proof -
  from lower_items_trace [OF run] obtain st where st: "st 0 = lowerer_init m" "st (length its) = s'"
    "\<And>i. i < length its \<Longrightarrow> lower_item le i (its ! i) (st i) = Inr ((), st (Suc i))" by auto
  let ?pos = "\<lambda>i. length (lo_instructions (st i))"
  have "n \<le> length its \<Longrightarrow> ok (lo_regs (st n)) \<and> trace_inv le its ?pos n (st n)" for n
  proof (induction n)
    case 0
    with start show ?case
      by (simp add: st(1) lowerer_init_def trace_inv_def label_indices_def branch_places_def fun_eq_iff)
  next
    case (Suc n)
    then have n: "n < length its" by simp
    with Suc.IH item_step [OF env _ _ n st(3) [OF n], where pos = ?pos] show ?case by simp
  qed
  from this [of "length its"] st(2) show ?thesis by auto
qed

end

section \<open>The control plan guards with real predicates\<close>

definition guards_ok :: "control_plan \<Rightarrow> bool" where
  "guards_ok plan \<longleftrightarrow> (\<forall>i g. item_guards plan i = Some g \<longrightarrow> 0 \<le> ig_predicate g \<and> ig_predicate g < 8)"

lemma guard_fold: "foldl (\<lambda>m i. if i \<in> control then m else m(i \<mapsto> g)) m region =
    (\<lambda>i. if i \<in> set region \<and> i \<notin> control then Some g else m i)"
  by (induction region arbitrary: m) auto

lemma apply_guard_ok: "guards_ok plan \<Longrightarrow> 0 \<le> ig_predicate g \<Longrightarrow> ig_predicate g < 8 \<Longrightarrow>
    guards_ok (apply_guard b region control g plan)"
  by (auto simp: guards_ok_def apply_guard_def guard_fold)

lemma legalize_guards_ok:
  assumes "try_legalize_forward_exit its labels b facts plan = Inr (x, plan')" "guards_ok plan"
  shows "guards_ok plan'"
proof -
  have step: "guards_ok plan'"
    if "(if A then Inr (False, plan) else if B then Inr (False, plan)
      else bindE (predicate_number pred) (\<lambda>p. if C p then Inr (False, plan)
        else Inr (True, apply_guard b region control \<lparr>ig_predicate = p, ig_negated = n\<rparr> plan))) = Inr (x, plan')"
    for A B pred C region control n
    using that assms(2) predicate_number_bounds by (auto simp: bindE_Inr_iff intro: apply_guard_ok split: if_split_asm)
  show ?thesis
  proof (cases "its ! b")
    case (Inst i)
    show ?thesis
    proof (cases "pi_predicate i")
      case (Some pred)
      show ?thesis
      proof (cases "labels (hd (pi_operands i))")
        case None
        show ?thesis
          using assms unfolding try_legalize_forward_exit_def Inst Some None item.case option.case
          by (simp split: if_split_asm)
      next
        case (Some t)
        show ?thesis
        proof (cases "opcode_base i \<noteq> ''bra'' \<or> length (pi_operands i) \<noteq> 1 \<or> t \<le> b")
          case True
          show ?thesis
          proof (cases "opcode_base i \<noteq> ''bra'' \<or> length (pi_operands i) \<noteq> 1")
            case c: True
            show ?thesis
              using assms c unfolding try_legalize_forward_exit_def Inst \<open>pi_predicate i = Some pred\<close> item.case option.case
              by (simp only: if_True) blast
          next
            case False
            with True have "t \<le> b" by simp
            then show ?thesis
              using assms unfolding try_legalize_forward_exit_def Inst Some \<open>pi_predicate i = Some pred\<close> item.case option.case
              by (simp only: if_True if_cancel) blast
          qed
        next
          case False
          then have c: "(opcode_base i \<noteq> ''bra'' \<or> length (pi_operands i) \<noteq> 1) = False" "(t \<le> b) = False" by simp_all
          show ?thesis
            using assms(1) unfolding try_legalize_forward_exit_def Let_def Inst Some \<open>pi_predicate i = Some pred\<close>
              item.case option.case c if_False by (rule step)
        qed
      qed
    next
      case None
      show ?thesis using assms unfolding try_legalize_forward_exit_def Inst None item.case option.case by simp
    qed
  next
    case (Label l)
    show ?thesis using assms unfolding try_legalize_forward_exit_def Label item.case by simp
  qed
qed

lemma plan_guards_ok:
  assumes "build_control_plan its g facts = Inr plan"
  shows "guards_ok plan"
  using assms unfolding build_control_plan_def
proof (rule foldE_invariant)
  show "guards_ok plan'" if "guards_ok p" "plan_step its (label_indices its) facts b p = Inr plan'" for b p plan'
  proof (cases "bu_state (snd b) = UNIFORM")
    case False
    with that(2) obtain x q where q: "try_legalize_forward_exit its (label_indices its) (fst b) facts p = Inr (x, q)"
      "plan' = q \<or> (\<exists>v. plan' = q\<lparr>legacy_varying_branch_items := v\<rparr>)"
      by (auto simp: plan_step_def bindE_Inr_iff split: if_split_asm)
    have "guards_ok q" by (rule legalize_guards_ok [OF q(1) that(1)])
    with q(2) show ?thesis by (auto simp: guards_ok_def)
  qed (use that in \<open>simp add: plan_step_def\<close>)
qed (simp add: guards_ok_def)

lemma make_env_ok: "make_env prog P = Inr le \<Longrightarrow> env_ok le \<and> le_profile le = P"
  using plan_guards_ok by (auto simp: make_env_def bindE_Inr_iff env_ok_def guards_ok_def)

section \<open>The lowered program\<close>

lemma in_branch_places:
  "(k, t) \<in> set (branch_places le its pos n) \<longleftrightarrow>
    (\<exists>i < n. \<exists>b. its ! i = Inst b \<and> i \<notin> skip_items (le_plan le) \<and> opcode_base b = ''bra'' \<and>
      k = pos i \<and> t = pi_operands b ! 0)"
proof -
  have "(k, t) \<in> set (branch_places le its pos n) \<longleftrightarrow> (\<exists>i < n. (k, t) \<in> set (case its ! i of
      Label _ \<Rightarrow> [] | Inst b \<Rightarrow> if i \<notin> skip_items (le_plan le) \<and> opcode_base b = ''bra'' then [(pos i, pi_operands b ! 0)] else []))"
    by (auto simp: branch_places_def)
  moreover have "(k, t) \<in> set (case its ! i of Label _ \<Rightarrow> [] | Inst b \<Rightarrow>
        if i \<notin> skip_items (le_plan le) \<and> opcode_base b = ''bra'' then [(pos i, pi_operands b ! 0)] else []) \<longleftrightarrow>
      (\<exists>b. its ! i = Inst b \<and> i \<notin> skip_items (le_plan le) \<and> opcode_base b = ''bra'' \<and> k = pos i \<and> t = pi_operands b ! 0)" for i
    by (cases "its ! i") auto
  ultimately show ?thesis by (simp only:)
qed

lemma branch_places_distinct:
  "(\<And>i. i < n \<Longrightarrow> pos i \<le> pos (Suc i) \<and> placed le its pos code i) \<Longrightarrow>
    distinct (map fst (branch_places le its pos n)) \<and> (\<forall>k \<in> fst ` set (branch_places le its pos n). k < pos n)"
proof (induction n)
  case (Suc n)
  then have IH: "distinct (map fst (branch_places le its pos n))" "\<forall>k \<in> fst ` set (branch_places le its pos n). k < pos n"
    and n: "pos n \<le> pos (Suc n)" "placed le its pos code n" by auto
  show ?case
  proof (cases "\<exists>b. its ! n = Inst b \<and> n \<notin> skip_items (le_plan le) \<and> opcode_base b = ''bra''")
    case True
    then obtain b where b: "its ! n = Inst b" "n \<notin> skip_items (le_plan le)" "opcode_base b = ''bra''" by blast
    with n(2) have "pos (Suc n) = Suc (pos n)" by (simp add: placed_def)
    with IH b show ?thesis by (auto simp: branch_places_Suc less_Suc_eq)
  next
    case False
    then have "branch_places le its pos (Suc n) = branch_places le its pos n"
      by (auto simp: branch_places_Suc split: item.split)
    with IH n(1) show ?thesis by auto
  qed
qed (simp add: branch_places_def)

lemma label_indices_from_bound:
  "label_indices_from k its m l = Some j \<Longrightarrow> m l = Some j \<or> k \<le> j \<and> j < k + length its"
  by (induction k its m rule: label_indices_from.induct) (fastforce split: if_split_asm)+

lemma label_indices_bound: "label_indices its l = Some j \<Longrightarrow> j < length its"
  using label_indices_from_bound [of 0 its Map.empty l j] by (simp add: label_indices_def)

lemma env_code:
  assumes prog: "lower_program prog P m = Inr lp" and m: "pre_ok (case m of None \<Rightarrow> [] | Some d \<Rightarrow> d)"
  shows "\<exists>le pos s. make_env prog P = Inr le \<and> trace_inv le (items prog) pos (length (items prog)) s \<and>
    foldE (patch_branch (lo_labels s)) (lo_pending s) (lo_instructions s) = Inr (lp_instructions lp) \<and>
    lp_offsets lp = le_offsets le"
proof -
  from prog obtain le s where le: "make_env prog P = Inr le"
    "lower_items le 0 (items prog) (lowerer_init m) = Inr ((), s)" "patch_branches s = Inr (lp_instructions lp)"
    "lp_offsets lp = le_offsets le"
    by (auto simp: lower_program_def bindE_Inr_iff)
  from fallback.trace_holds [OF _ alloc_inv_start [OF m] le(2)] make_env_ok [OF le(1)]
  obtain pos where "trace_inv le (items prog) pos (length (items prog)) s" by blast
  with le show ?thesis unfolding patch_branches_def by blast
qed

text \<open>The facts both properties below start from.\<close>

lemma patched_code:
  assumes "trace_inv le its pos (length its) s"
    and "foldE (patch_branch (lo_labels s)) (lo_pending s) (lo_instructions s) = Inr out"
  shows "length out = length (lo_instructions s)"
    "k < length out \<Longrightarrow> \<exists>v. out ! k = (lo_instructions s ! k)\<lparr>imm := v\<rparr> \<and>
      (k \<notin> fst ` set (branch_places le its pos (length its)) \<longrightarrow> out ! k = lo_instructions s ! k)"
    "(k, t) \<in> set (branch_places le its pos (length its)) \<Longrightarrow>
      \<exists>j. label_indices its t = Some j \<and> j < length its \<and> imm (out ! k) = int (pos j)"
proof -
  let ?b = "branch_places le its pos (length its)"
  have T: "\<And>i. i < length its \<Longrightarrow> pos i \<le> pos (Suc i) \<and> placed le its pos (lo_instructions s) i"
    "lo_pending s = ?b" "lo_labels s = map_option (\<lambda>i. int (pos i)) \<circ> label_indices its"
    "pos (length its) = length (lo_instructions s)"
    using assms(1) by (simp_all add: trace_inv_def)
  have d: "distinct (map fst ?b)" "\<forall>k \<in> fst ` set ?b. k < length (lo_instructions s)"
    using branch_places_distinct [of "length its" pos le its "lo_instructions s"] T(1,4) by auto
  note p = patch_branches_spec [OF assms(2)[unfolded T(2)] d(1)]
  have q: "length out = length (lo_instructions s)" "\<And>k. k \<notin> fst ` set ?b \<Longrightarrow> out ! k = lo_instructions s ! k"
    "\<And>k t. (k, t) \<in> set ?b \<Longrightarrow> \<exists>v. lo_labels s t = Some v \<and> out ! k = (lo_instructions s ! k)\<lparr>imm := v\<rparr>"
    using p d(2) by fastforce+
  show "length out = length (lo_instructions s)" by (rule q(1))
  show "\<exists>v. out ! k = (lo_instructions s ! k)\<lparr>imm := v\<rparr> \<and> (k \<notin> fst ` set ?b \<longrightarrow> out ! k = lo_instructions s ! k)"
  proof (cases "k \<in> fst ` set ?b")
    case True
    then obtain t where "(k, t) \<in> set ?b" by auto
    with q(3) True show ?thesis by blast
  next
    case False
    with q(2) have "out ! k = (lo_instructions s ! k)\<lparr>imm := imm (lo_instructions s ! k)\<rparr>" by simp
    with q(2) False show ?thesis by blast
  qed
  show "\<exists>j. label_indices its t = Some j \<and> j < length its \<and> imm (out ! k) = int (pos j)" if "(k, t) \<in> set ?b"
    using q(3) [OF that] label_indices_bound by (auto simp: T(3))
qed

lemma branch_opcode:
  assumes "trace_inv le its pos (length its) s" "(k, t) \<in> set (branch_places le its pos (length its))"
  shows "opcode (lo_instructions s ! k) \<in> {''BR'', ''BRX''}"
proof -
  from assms(2) obtain i b where i: "i < length its" "its ! i = Inst b" "i \<notin> skip_items (le_plan le)"
    "opcode_base b = ''bra''" "k = pos i" by (auto simp: in_branch_places)
  with assms(1) have "placed le its pos (lo_instructions s) i" by (simp add: trace_inv_def)
  with i show ?thesis by (simp add: placed_def)
qed

lemma wf_shape_imm: "wf_shape P inst \<Longrightarrow> opcode inst \<in> {''BR'', ''BRX''} \<Longrightarrow> wf_shape P (inst\<lparr>imm := v\<rparr>)"
  unfolding wf_shape_def
  by (elim conjE, intro conjI) (auto simp: source_field_def wf_predicate_def uses_immediate_def split: option.splits)

lemma code_shape:
  assumes "lower_program prog P m = Inr lp" "pre_ok (case m of None \<Rightarrow> [] | Some d \<Rightarrow> d)"
  shows "list_all (wf_shape P) (lp_instructions lp)"
proof -
  from env_code [OF assms] obtain le pos s where le: "make_env prog P = Inr le"
    and t: "trace_inv le (items prog) pos (length (items prog)) s"
    and p: "foldE (patch_branch (lo_labels s)) (lo_pending s) (lo_instructions s) = Inr (lp_instructions lp)" by blast
  have old: "wf_shape P (lo_instructions s ! k)" if "k < length (lo_instructions s)" for k
    using t make_env_ok [OF le] that by (simp add: trace_inv_def list_all_length)
  have "wf_shape P (lp_instructions lp ! k)" if k: "k < length (lp_instructions lp)" for k
  proof (cases "k \<in> fst ` set (branch_places le (items prog) pos (length (items prog)))")
    case True
    then obtain t' where "(k, t') \<in> set (branch_places le (items prog) pos (length (items prog)))" by auto
    with patched_code(1,2) [OF t p] k wf_shape_imm [OF old branch_opcode [OF t this]] show ?thesis by metis
  next
    case False
    with patched_code(1,2) [OF t p] k old show ?thesis by metis
  qed
  then show ?thesis by (simp add: list_all_length)
qed

text \<open>
  C20. In a lowered program every item has its place: a label and a branch turned into guards emit
  nothing, a branch is one \<open>BR\<close> or \<open>BRX\<close> with the predicate of the source, whose immediate is the
  position of the label it names, and no other instruction emits a branch.
\<close>

theorem branches_reach_labels:
  assumes "lower_program prog P m = Inr lp" "pre_ok (case m of None \<Rightarrow> [] | Some d \<Rightarrow> d)"
  shows "\<exists>le pos. make_env prog P = Inr le \<and> pos 0 = 0 \<and> pos (length (items prog)) = length (lp_instructions lp) \<and>
    (\<forall>i < length (items prog). placed le (items prog) pos (lp_instructions lp) i \<and>
      (\<forall>b. items prog ! i = Inst b \<and> i \<notin> skip_items (le_plan le) \<and> opcode_base b = ''bra'' \<longrightarrow>
        (\<exists>j < length (items prog). label_indices (items prog) (pi_operands b ! 0) = Some j \<and>
          imm (lp_instructions lp ! pos i) = int (pos j))))"
proof -
  from env_code [OF assms] obtain le pos s where le: "make_env prog P = Inr le"
    and t: "trace_inv le (items prog) pos (length (items prog)) s"
    and p: "foldE (patch_branch (lo_labels s)) (lo_pending s) (lo_instructions s) = Inr (lp_instructions lp)" by blast
  note P = patched_code [OF t p]
  have T: "pos 0 = 0" "pos (length (items prog)) = length (lp_instructions lp)"
    "\<And>i. i < length (items prog) \<Longrightarrow> placed le (items prog) pos (lo_instructions s) i \<and> pos (Suc i) \<le> length (lp_instructions lp)"
    using t P(1) by (auto simp: trace_inv_def)
  have "placed le (items prog) pos (lp_instructions lp) i" if i: "i < length (items prog)" for i
    by (rule placed_cong [OF conjunct1 [OF T(3) [OF i]]]) (use P(2) T(3) [OF i] in \<open>meson order_less_le_trans\<close>)
  moreover have "\<exists>j < length (items prog). label_indices (items prog) (pi_operands b ! 0) = Some j \<and>
      imm (lp_instructions lp ! pos i) = int (pos j)"
    if "i < length (items prog)" "items prog ! i = Inst b" "i \<notin> skip_items (le_plan le)" "opcode_base b = ''bra''" for i b
    using P(3) [of "pos i" "pi_operands b ! 0"] that in_branch_places by blast
  ultimately show ?thesis using le T(1,2) by blast
qed

text \<open>A store under a varying exit, and a loop.\<close>

definition guarded_store :: ptx_program where
  "guarded_store = \<lparr>kernel_name = ''k'', parameters = [], reg_decls = [], items = [
     Inst (PTXInstruction ''mov.u32'' [''%r1'', ''%tid.x'']),
     Inst (PTXInstruction ''setp.ge.u32'' [''%p1'', ''%r1'', ''5'']),
     Inst ((PTXInstruction ''bra'' [''E''])\<lparr>pi_predicate := Some ''%p1''\<rparr>),
     Inst (PTXInstruction ''st.global.u32'' [''[%rd1]'', ''%r1'']),
     Label ''E'',
     Inst (PTXInstruction ''bra'' [''E'']),
     Inst (PTXInstruction ''ret'' [])]\<rparr>"

definition guarded_store_code :: lowered_program where
  "guarded_store_code = \<lparr>lp_instructions =
     [(AECInstruction ''CPY'')\<lparr>dtype := ''u32'', dest := 1, src1 := 256\<rparr>,
      (AECInstruction ''LOADI'')\<lparr>dest := 240, imm := 5\<rparr>,
      (AECInstruction ''CMPP'')\<lparr>dtype := ''u32'', dest := 1, src1 := 1, src2 := 240, compare := Some ''ge''\<rparr>,
      (AECInstruction ''ST'')\<lparr>dtype := ''u32'', src1 := 2, src2 := 1, memory_space := Some ''gmem'',
         predicate := Some 1, predicate_negated := True\<rparr>,
      (AECInstruction ''BR'')\<lparr>imm := 4\<rparr>,
      AECInstruction ''HALT''], lp_offsets = []\<rparr>"

lemma guarded_store_lowered: "lower_program guarded_store C1_DEFAULT None = Inr guarded_store_code"
  by code_simp

lemma no_mapping_ok: "pre_ok (case None of None \<Rightarrow> [] | Some d \<Rightarrow> d)"
  by (simp add: pre_ok_def)

theorem branches_reach_labels_witness:
  "\<exists>le pos. make_env guarded_store C1_DEFAULT = Inr le \<and> pos 0 = 0 \<and>
    pos (length (items guarded_store)) = length (lp_instructions guarded_store_code) \<and>
    (\<forall>i < length (items guarded_store). placed le (items guarded_store) pos (lp_instructions guarded_store_code) i \<and>
      (\<forall>b. items guarded_store ! i = Inst b \<and> i \<notin> skip_items (le_plan le) \<and> opcode_base b = ''bra'' \<longrightarrow>
        (\<exists>j < length (items guarded_store). label_indices (items guarded_store) (pi_operands b ! 0) = Some j \<and>
          imm (lp_instructions guarded_store_code ! pos i) = int (pos j))))"
  by (rule branches_reach_labels [OF guarded_store_lowered no_mapping_ok])

text \<open>
  C21. Every instruction of a lowered program has the encodable shape (registers within R0 to R255,
  operand and control fields as the opcode has them). If the profile knows the names it uses and the
  immediates are in range, the program encodes, and its bytes decode to it.
\<close>

theorem lowered_code_encodes:
  assumes "lower_program prog P m = Inr lp" "pre_ok (case m of None \<Rightarrow> [] | Some d \<Rightarrow> d)"
    and "profile_ok P" "codes_ok P"
  shows "list_all (wf_shape P) (lp_instructions lp) \<and>
    (list_all (names_known P) (lp_instructions lp) \<longrightarrow>
      (\<exists>blob wss. instructions_to_bytes P (lp_instructions lp) = Inr blob \<and>
        length blob = 16 * length (lp_instructions lp) \<and> bytes_to_words blob = Inr wss \<and>
        mapE (decode_words_to_instruction P) wss = Inr (map encoded_form (lp_instructions lp))))"
proof -
  have s: "list_all (wf_shape P) (lp_instructions lp)" by (rule code_shape [OF assms(1,2)])
  have "list_all (wf_instruction P) (lp_instructions lp)" if "list_all (names_known P) (lp_instructions lp)"
    using s that wf_shape_instruction [OF _ _ assms(4)] by (simp add: list_all_iff)
  with s stream_round_trip [OF assms(3)] show ?thesis by blast
qed

theorem lowered_code_encodes_witness:
  "list_all (wf_shape C1_DEFAULT) (lp_instructions guarded_store_code) \<and>
    (\<exists>blob wss. instructions_to_bytes C1_DEFAULT (lp_instructions guarded_store_code) = Inr blob \<and>
      length blob = 16 * length (lp_instructions guarded_store_code) \<and> bytes_to_words blob = Inr wss \<and>
      mapE (decode_words_to_instruction C1_DEFAULT) wss = Inr (map encoded_form (lp_instructions guarded_store_code)))"
proof -
  have c: "codes_ok C1_DEFAULT" by code_simp
  have n: "list_all (names_known C1_DEFAULT) (lp_instructions guarded_store_code)" by code_simp
  from lowered_code_encodes [OF guarded_store_lowered no_mapping_ok C1_DEFAULT_ok c] n show ?thesis by blast
qed

definition named_regs :: "string \<Rightarrow> int \<Rightarrow> int set" where
  "named_regs v p = (if startswith v ''%rd'' then {p, p + 1} else {p})"

lemma slot_named: "slot_ok M R v n p \<Longrightarrow> named_regs v p \<subseteq> regs_from p n \<and> regs_from p n \<subseteq> {1..239}"
  by (auto simp: slot_ok_def named_regs_def regs_from_def)

text \<open>
  C23. While a program is lowered, the registers given to the virtual registers that the linear scan
  left out lie in R1 to R239, clear of the registers it reserved and of each other, two for a \<open>%rd\<close>
  register, and the mapping it made is kept.
\<close>

theorem lowering_registers_apart:
  fixes m
  defines "M \<equiv> (case m of None \<Rightarrow> [] | Some d \<Rightarrow> d)"
  assumes "make_env prog P = Inr le" "lower_items le 0 (items prog) (lowerer_init m) = Inr ((), s)" "pre_ok M"
  shows "map_of M \<subseteq>\<^sub>m map_of (al_mapping (lo_regs s)) \<and>
    (\<forall>u p. added M (lo_regs s) u p \<longrightarrow> named_regs u p \<subseteq> {1..239} \<and> named_regs u p \<inter> pre_reserved M = {} \<and>
      (\<forall>v q. v \<noteq> u \<and> added M (lo_regs s) v q \<longrightarrow> named_regs u p \<inter> named_regs v q = {}))"
proof -
  from fallback.trace_holds [OF conjunct1 [OF make_env_ok [OF assms(2)]] alloc_inv_start [OF assms(4)[unfolded M_def]] assms(3)]
  have inv: "alloc_inv M (lo_regs s)" by (auto simp: M_def)
  then obtain w where w: "width_inv M w (lo_regs s)" by (auto simp: alloc_inv_def)
  have slot: "slot_ok M (al_reserved (lo_regs s)) u (w u) p" if "added M (lo_regs s) u p" for u p
    using w that by (simp add: width_inv_def)
  have "named_regs u p \<inter> named_regs v q = {}"
    if "u \<noteq> v" "added M (lo_regs s) u p" "added M (lo_regs s) v q" for u v p q
  proof -
    have "regs_from p (w u) \<inter> regs_from q (w v) = {}" using w that unfolding width_inv_def by blast
    with slot_named [OF slot [OF that(2)]] slot_named [OF slot [OF that(3)]] show ?thesis by blast
  qed
  moreover have "named_regs u p \<subseteq> {1..239} \<and> named_regs u p \<inter> pre_reserved M = {}" if "added M (lo_regs s) u p" for u p
    using slot [OF that] slot_named [OF slot [OF that]] by (auto simp: slot_ok_def)
  moreover have "map_of M \<subseteq>\<^sub>m map_of (al_mapping (lo_regs s))" using inv by (simp add: alloc_inv_def)
  ultimately show ?thesis by blast
qed

theorem lowering_registers_apart_witness:
  "\<exists>le s. make_env guarded_store C1_DEFAULT = Inr le \<and>
    lower_items le 0 (items guarded_store) (lowerer_init None) = Inr ((), s) \<and>
    (\<forall>u p. added [] (lo_regs s) u p \<longrightarrow> named_regs u p \<subseteq> {1..239} \<and>
      (\<forall>v q. v \<noteq> u \<and> added [] (lo_regs s) v q \<longrightarrow> named_regs u p \<inter> named_regs v q = {}))"
proof -
  obtain le s where e: "make_env guarded_store C1_DEFAULT = Inr le"
    "lower_items le 0 (items guarded_store) (lowerer_init None) = Inr ((), s)"
    using guarded_store_lowered by (auto simp: lower_program_def bindE_Inr_iff)
  from lowering_registers_apart [OF e no_mapping_ok] have
    "\<forall>u p. added [] (lo_regs s) u p \<longrightarrow> named_regs u p \<subseteq> {1..239} \<and>
      (\<forall>v q. v \<noteq> u \<and> added [] (lo_regs s) v q \<longrightarrow> named_regs u p \<inter> named_regs v q = {})"
    unfolding option.case by blast
  with e show ?thesis by blast
qed

end
