(* ===== verification/Lower_Layout.thy ===== *)
theory Lower_Layout
  imports Lower_Base
begin

text \<open>
  \<open>layout_parameters\<close>: every parameter is aligned to its size, within the block, and apart from the
  others. \<open>ld.param\<close> of the lowering reads at these offsets.
\<close>

definition par_size :: "parameter \<Rightarrow> int" where
  "par_size p = (case map_of TYPE_SIZE (par_dtype p) of None \<Rightarrow> 0 | Some n \<Rightarrow> n)"

lemma type_sizes: "map_of TYPE_SIZE t = Some n \<Longrightarrow> n = 2 \<or> n = 4 \<or> n = 8"
  by (auto simp: TYPE_SIZE_def split: if_split_asm)

definition layout_inv :: "parameter list \<Rightarrow> (string, int) dict \<times> int \<Rightarrow> bool" where
  "layout_inv ps st \<longleftrightarrow>
     (\<forall>p \<in> set ps. \<exists>q. map_of (fst st) (par_name p) = Some q \<and> 0 \<le> q \<and> q + par_size p \<le> snd st \<and> q mod par_size p = 0) \<and>
     (\<forall>i j p q. i < j \<and> j < length ps \<and> map_of (fst st) (par_name (ps ! i)) = Some p \<and>
        map_of (fst st) (par_name (ps ! j)) = Some q \<longrightarrow> p + par_size (ps ! i) \<le> q) \<and> 0 \<le> snd st \<and>
     (\<forall>n. map_of (fst st) n \<noteq> None \<longrightarrow> n \<in> par_name ` set ps)"

lemma layout_invD:
  assumes "layout_inv ps (offsets, x)"
  shows "\<forall>q \<in> set ps. \<exists>a. map_of offsets (par_name q) = Some a \<and> 0 \<le> a \<and> a + par_size q \<le> x \<and> a mod par_size q = 0"
    "\<forall>i j a b. i < j \<and> j < length ps \<and> map_of offsets (par_name (ps ! i)) = Some a \<and>
        map_of offsets (par_name (ps ! j)) = Some b \<longrightarrow> a + par_size (ps ! i) \<le> b"
    "0 \<le> x" "\<forall>m. map_of offsets m \<noteq> None \<longrightarrow> m \<in> par_name ` set ps"
  using assms unfolding layout_inv_def fst_conv snd_conv by - (elim conjE, assumption)+

lemma align_up:
  fixes k :: int
  assumes "0 < k" "0 \<le> x"
  shows "x \<le> (if x mod k \<noteq> 0 then x + (k - x mod k) else x)" "(if x mod k \<noteq> 0 then x + (k - x mod k) else x) mod k = 0"
proof -
  have "(x + (k - x mod k)) mod k = 0"
    by (metis add.commute add_diff_eq diff_add_cancel minus_mod_eq_mult_div mod_add_self2 mod_mult_self1_is_0 add_diff_cancel_left')
  with pos_mod_bound [OF assms(1), of x] show "x \<le> (if x mod k \<noteq> 0 then x + (k - x mod k) else x)"
    "(if x mod k \<noteq> 0 then x + (k - x mod k) else x) mod k = 0" by auto
qed

lemma layout_step_inv:
  assumes inv: "layout_inv ps st" and step: "layout_step p st = Inr st'" and fresh: "par_name p \<notin> par_name ` set ps"
  shows "layout_inv (ps @ [p]) st'"
proof -
  obtain offsets x where st: "st = (offsets, x)" by force
  from step obtain n where n: "map_of TYPE_SIZE (par_dtype p) = Some n"
    by (auto simp: layout_step_def st split: option.split_asm)
  note k = type_sizes [OF n]
  define o' where "o' = (if x mod n \<noteq> 0 then x + (n - x mod n) else x)"
  have size: "par_size p = n" using n by (simp add: par_size_def)
  have st': "st' = (AList.update (par_name p) o' offsets, o' + n)"
    using step n k by (auto simp: layout_step_def st Let_def o'_def)
  note I = layout_invD [OF inv [unfolded st]]
  have o': "x \<le> o'" "o' mod n = 0" using align_up [OF _ I(3), of n] k unfolding o'_def by fastforce+
  have old: "map_of (fst st') (par_name q) = map_of offsets (par_name q)" if "q \<in> set ps" for q
  proof -
    have "par_name q \<noteq> par_name p" using fresh that by (metis imageI)
    then show ?thesis by (simp add: st' map_of_update_iff)
  qed
  have new: "map_of (fst st') (par_name p) = Some o'" by (simp add: st' map_of_update_iff)
  have "\<exists>a. map_of (fst st') (par_name q) = Some a \<and> 0 \<le> a \<and> a + par_size q \<le> snd st' \<and> a mod par_size q = 0"
    if "q \<in> set (ps @ [p])" for q
  proof (cases "q \<in> set ps")
    case True
    with I(1) old obtain a where "map_of (fst st') (par_name q) = Some a" "0 \<le> a" "a + par_size q \<le> x" "a mod par_size q = 0"
      by force
    with o'(1) k show ?thesis by (auto simp: st')
  next
    case False
    with that new size o' I(3) show ?thesis by (auto simp: st')
  qed
  moreover have "a + par_size ((ps @ [p]) ! i) \<le> b"
    if ij: "i < j" "j < length (ps @ [p])" and a: "map_of (fst st') (par_name ((ps @ [p]) ! i)) = Some a"
      and b: "map_of (fst st') (par_name ((ps @ [p]) ! j)) = Some b" for i j a b
  proof -
    have i: "(ps @ [p]) ! i = ps ! i" "ps ! i \<in> set ps" using ij by (simp_all add: nth_append)
    have a': "map_of offsets (par_name (ps ! i)) = Some a" using a old [OF i(2)] by (simp add: i(1))
    show ?thesis
    proof (cases "j < length ps")
      case True
      with b old [of "ps ! j"] have "map_of offsets (par_name (ps ! j)) = Some b" by (simp add: nth_append)
      with I(2) True ij(1) a' i(1) show ?thesis by simp
    next
      case False
      with ij(2) b new have "b = o'" by (simp add: nth_append)
      moreover obtain a2 where "map_of offsets (par_name (ps ! i)) = Some a2" "a2 + par_size (ps ! i) \<le> x"
        using I(1) i(2) by blast
      ultimately show ?thesis using a' i(1) o'(1) by simp
    qed
  qed
  moreover have "0 \<le> snd st'" using o'(1) I(3) k by (auto simp: st')
  moreover have "m \<in> par_name ` set (ps @ [p])" if "map_of (fst st') m \<noteq> None" for m
    using that I(4) by (auto simp: st' map_of_update_iff split: if_split_asm)
  ultimately show ?thesis unfolding layout_inv_def by blast
qed

lemma layout_fold:
  "foldE layout_step ps ([], 0) = Inr st \<Longrightarrow> distinct (map par_name ps) \<Longrightarrow> layout_inv ps st"
proof (induction ps arbitrary: st rule: rev_induct)
  case Nil
  then show ?case by (auto simp: layout_inv_def)
next
  case (snoc p ps)
  from snoc.prems(1) obtain st1 where "foldE layout_step ps ([], 0) = Inr st1" "layout_step p st1 = Inr st"
    by (auto simp: foldE_append bindE_Inr_iff)
  with snoc show ?case by (auto intro: layout_step_inv)
qed

text \<open>
  C22. The parameters of a kernel with distinct names are laid out in order, each aligned to its size,
  and no two overlap.
\<close>

theorem layout_parameters_correct:
  assumes "layout_parameters prog = Inr offsets" "distinct (map par_name (parameters prog))"
  shows "(\<forall>p \<in> set (parameters prog). \<exists>q. map_of offsets (par_name p) = Some q \<and> 0 \<le> q \<and> q mod par_size p = 0) \<and>
    (\<forall>i j p q. i < j \<and> j < length (parameters prog) \<and> map_of offsets (par_name (parameters prog ! i)) = Some p \<and>
      map_of offsets (par_name (parameters prog ! j)) = Some q \<longrightarrow> p + par_size (parameters prog ! i) \<le> q)"
proof -
  from assms(1) obtain x where "foldE layout_step (parameters prog) ([], 0) = Inr (offsets, x)"
    by (auto simp: layout_parameters_def bindE_Inr_iff)
  note D = layout_invD [OF layout_fold [OF this assms(2)]]
  have "\<exists>q. map_of offsets (par_name p) = Some q \<and> 0 \<le> q \<and> q mod par_size p = 0" if p: "p \<in> set (parameters prog)" for p
  proof -
    from bspec [OF D(1) p] show ?thesis by (elim exE conjE) (intro exI conjI)
  qed
  then show ?thesis using D(2) by (intro conjI ballI) assumption+
qed

definition mixed_parameters :: ptx_program where
  "mixed_parameters = \<lparr>kernel_name = ''k'', parameters =
     [\<lparr>par_name = ''n'', par_dtype = ''u32''\<rparr>, \<lparr>par_name = ''p'', par_dtype = ''u64''\<rparr>, \<lparr>par_name = ''h'', par_dtype = ''f16''\<rparr>,
      \<lparr>par_name = ''q'', par_dtype = ''b64''\<rparr>], reg_decls = [], items = []\<rparr>"

theorem layout_parameters_correct_witness:
  "\<exists>offsets. layout_parameters mixed_parameters = Inr offsets \<and>
    offsets = [(''n'', 0), (''p'', 8), (''h'', 16), (''q'', 24)] \<and>
    list_all (\<lambda>p. case map_of offsets (par_name p) of None \<Rightarrow> False | Some q \<Rightarrow> 0 \<le> q \<and> q mod par_size p = 0)
      (parameters mixed_parameters)"
proof -
  let ?offsets = "[(''n'', 0), (''p'', 8), (''h'', 16), (''q'', 24)]"
  have l: "layout_parameters mixed_parameters = Inr ?offsets" by code_simp
  have d: "distinct (map par_name (parameters mixed_parameters))" by code_simp
  have "list_all (\<lambda>p. case map_of ?offsets (par_name p) of None \<Rightarrow> False | Some q \<Rightarrow> 0 \<le> q \<and> q mod par_size p = 0)
      (parameters mixed_parameters)"
    using layout_parameters_correct [OF l d] unfolding list_all_iff by fastforce
  with l show ?thesis by blast
qed

end
