(* ===== verification/Local_Rewrite.thy ===== *)
theory Local_Rewrite
  imports Ptx_Sem
begin

text \<open>
  Passes that rewrite a program instruction by instruction and carry facts along straight-line code,
  dropping them at every label: the locale \<open>local_rewriting\<close> says what such a pass has to promise
  for one instruction, and concludes that the rewritten kernel runs like the original.
\<close>

section \<open>One step of a kernel\<close>

datatype 'm effect = Continue "'m pstate" | GoTo string "'m pstate" | Stop "'m pstate" | Crash

definition effect :: "('f, 'm) ptx_machine \<Rightarrow> ptx_instruction \<Rightarrow> 'm pstate \<Rightarrow> 'm effect" where
  "effect M i st =
     (if \<not> guard_holds i (env st) then Continue st
      else (case inst_outcome M i st of
              Next v m \<Rightarrow> Continue \<lparr>env = set_dest (destination_register i) v (env st), pmemory = m\<rparr>
            | Jump l m \<Rightarrow> GoTo l \<lparr>env = env st, pmemory = m\<rparr>
            | Exit m \<Rightarrow> Stop \<lparr>env = env st, pmemory = m\<rparr>
            | Fault \<Rightarrow> Crash))"

lemma exec_effect:
  "exec M p k (Inst i # rest) st =
     (case effect M i st of
        Continue st' \<Rightarrow> exec M p k rest st'
      | GoTo l st' \<Rightarrow>
          (case k of
             0 \<Rightarrow> OutOfFuel st'
           | Suc k' \<Rightarrow> (case after_label p l of None \<Rightarrow> BadLabel l | Some rest' \<Rightarrow> exec M p k' rest' st'))
      | Stop st' \<Rightarrow> Finished st'
      | Crash \<Rightarrow> Faulted)"
  by (simp add: effect_def split: outcome.split nat.split)

lemma pure_effect:
  assumes "pi_predicate i = None" "pure_dest i = Some d"
  shows "effect M i st =
    Continue \<lparr>env = (env st)(d := pure_value M (pi_opcode i) (source_values i (env st))), pmemory = pmemory st\<rparr>"
  using assms pure_dest_Some [OF assms(2)]
  by (simp add: effect_def inst_outcome_def guard_holds_def predicate_reads_def set_dest_def)

text \<open>An instruction without a destination leaves the registers alone.\<close>

lemma effect_env:
  "effect M i st = Continue st' \<Longrightarrow> destination_register i = None \<Longrightarrow> env st' = env st"
  "effect M i st = Continue st' \<Longrightarrow> destination_register i = Some d \<Longrightarrow> r \<noteq> d \<Longrightarrow> env st' r = env st r"
  by (auto simp: effect_def set_dest_def split: if_split_asm outcome.split_asm)

section \<open>The contract\<close>

fun rewrite_items ::
    "('c \<Rightarrow> ptx_instruction \<Rightarrow> ptx_instruction \<times> 'c) \<Rightarrow> 'c \<Rightarrow> 'c \<Rightarrow> item list \<Rightarrow> item list" where
  "rewrite_items step c0 c [] = []"
| "rewrite_items step c0 c (Label l # its) = Label l # rewrite_items step c0 c0 its"
| "rewrite_items step c0 c (Inst i # its) = Inst (fst (step c i)) # rewrite_items step c0 (snd (step c i)) its"

lemma length_rewrite_items [simp]: "length (rewrite_items step c0 c its) = length its"
  by (induction step c0 c its rule: rewrite_items.induct) simp_all

lemma after_label_rewrite:
  "after_label (rewrite_items step c0 c its) l = map_option (rewrite_items step c0 c0) (after_label its l)"
proof (induction its arbitrary: c)
  case (Cons it its)
  then show ?case by (cases it) (simp_all split: option.split)
qed simp

text \<open>What a pass may require of the instructions it meets, given the facts it carries.\<close>

fun checked_items ::
    "('c \<Rightarrow> ptx_instruction \<Rightarrow> ptx_instruction \<times> 'c) \<Rightarrow> ('c \<Rightarrow> ptx_instruction \<Rightarrow> bool) \<Rightarrow> 'c \<Rightarrow> 'c \<Rightarrow>
     item list \<Rightarrow> bool" where
  "checked_items step good c0 c [] \<longleftrightarrow> True"
| "checked_items step good c0 c (Label l # its) \<longleftrightarrow> checked_items step good c0 c0 its"
| "checked_items step good c0 c (Inst i # its) \<longleftrightarrow> good c i \<and> checked_items step good c0 (snd (step c i)) its"

lemma checked_all: "(\<And>c i. Inst i \<in> set its \<Longrightarrow> good c i) \<Longrightarrow> checked_items step good c0 c its"
proof (induction its arbitrary: c)
  case (Cons it its)
  then show ?case by (cases it) simp_all
qed simp

lemma after_label_checked:
  "checked_items step good c0 c its \<Longrightarrow> after_label its l = Some rest \<Longrightarrow> checked_items step good c0 c0 rest"
proof (induction its arbitrary: c)
  case (Cons it its)
  then show ?case by (cases it) (auto split: option.split_asm if_split_asm)
qed simp

locale local_rewriting =
  fixes M :: "('f, 'm) ptx_machine"
    and step :: "'c \<Rightarrow> ptx_instruction \<Rightarrow> ptx_instruction \<times> 'c"
    and c0 :: 'c
    and holds :: "'c \<Rightarrow> 'm pstate \<Rightarrow> bool"
    and good :: "'c \<Rightarrow> ptx_instruction \<Rightarrow> bool"
  assumes start: "holds c0 st"
    and same: "good c i \<Longrightarrow> holds c st \<Longrightarrow> effect M (fst (step c i)) st = effect M i st"
    and keep: "good c i \<Longrightarrow> holds c st \<Longrightarrow> effect M i st = Continue st' \<Longrightarrow> holds (snd (step c i)) st'"
begin

lemma exec_rewrite:
  assumes p: "checked_items step good c0 c0 p"
  shows "checked_items step good c0 c rest \<Longrightarrow> holds c st \<Longrightarrow>
    exec M (rewrite_items step c0 c0 p) k (rewrite_items step c0 c rest) st = exec M p k rest st"
proof (induction k arbitrary: rest c st rule: less_induct)
  case (less k)
  show ?case
    using less.prems
  proof (induction rest arbitrary: c st)
    case (Cons it rest)
    show ?case
    proof (cases it)
      case (Label l)
      with Cons start show ?thesis by simp
    next
      case (Inst i)
      with Cons.prems(1) have g: "good c i" by simp
      note eff = same [OF g Cons.prems(2)]
      show ?thesis
      proof (cases "effect M i st")
        case (Continue st')
        with Cons.IH [OF _ keep [OF g Cons.prems(2) Continue]] Cons.prems(1) Inst eff show ?thesis
          by (simp only: rewrite_items.simps exec_effect) simp
      next
        case (GoTo l st')
        have "exec M (rewrite_items step c0 c0 p) k' (rewrite_items step c0 c0 rest') st' = exec M p k' rest' st'"
          if "k = Suc k'" "after_label p l = Some rest'" for k' rest'
          using that less.IH [of k' c0 rest' st'] after_label_checked [OF p that(2)] start by simp
        with GoTo Inst eff show ?thesis
          by (simp only: rewrite_items.simps exec_effect)
            (simp add: after_label_rewrite split: nat.split option.split)
      qed (use Inst eff in \<open>simp_all only: rewrite_items.simps exec_effect effect.case\<close>)
    qed
  qed simp
qed

lemma run_rewrite:
  assumes "checked_items step good c0 c0 p"
  shows "run_kernel M k (rewrite_items step c0 c0 p) st = run_kernel M k p st"
  using exec_rewrite [OF assms assms, of st k] start by (simp add: run_kernel_def)

end

end
