(* ===== verification/Local_Fold.thy ===== *)
theory Local_Fold
  imports Local_Rewrite Numerals
begin

text \<open>
  \<open>LocalConstantFoldingPass\<close> of \<open>passes/local_scalar.py\<close>, and that a kernel runs the same with its
  constants folded, provided its integer literals mean to the folding (\<open>int(s, 0)\<close>) what they mean to
  the lowering.
\<close>

section \<open>The pass\<close>

type_synonym constants = "string \<rightharpoonup> known_const"

definition is_constant_fold_boundary :: "ptx_instruction \<Rightarrow> bool" where
  "is_constant_fold_boundary inst =
     (let parts = opcode_parts inst; base = hd parts in
      if pi_predicate inst \<noteq> None then True
      else if has_cc inst then True
      else if base \<notin> set LOCAL_CONSTANT_FOLD_BASES then True
      else if base = ''mov'' then length parts \<noteq> 2 \<or> length (pi_operands inst) \<noteq> 2
      else if base \<in> {''add'', ''sub'', ''mul''} then length parts \<noteq> 2 \<or> length (pi_operands inst) \<noteq> 3
      else True)"

definition fold_local_constant_instruction ::
    "'f pyfloat \<Rightarrow> ptx_instruction \<Rightarrow> constants \<Rightarrow> ptx_instruction \<times> known_const option" where
  "fold_local_constant_instruction flt inst constants =
     (let base = hd (opcode_parts inst); ptx_type = last (opcode_parts inst); ops = pi_operands inst in
      case destination_register inst of
        None \<Rightarrow> (inst, None)
      | Some destination \<Rightarrow>
          if startswith destination ''%p'' then (inst, None)
          else if base = ''mov'' then
            (case resolve_constant (ops ! 1) ptx_type constants of
               None \<Rightarrow> (inst, None)
             | Some known \<Rightarrow> (inst\<lparr>pi_operands := [destination, format_constant known]\<rparr>, Some known))
          else
            (case (resolve_constant (ops ! 1) ptx_type constants, resolve_constant (ops ! 2) ptx_type constants) of
               (Some lhs, Some rhs) \<Rightarrow>
                 (case (if ptx_type = ''u32'' \<and> base \<in> {''add'', ''sub'', ''mul''}
                        then map_option (Pair ''u32'') (evaluate_u32 base (snd lhs) (snd rhs))
                        else if ptx_type = ''f32'' \<and> base \<in> {''add'', ''mul''}
                        then map_option (Pair ''f32'') (evaluate_f32 flt base (snd lhs) (snd rhs))
                        else None) of
                    None \<Rightarrow> (inst, None)
                  | Some known \<Rightarrow>
                      (inst\<lparr>pi_opcode := ''mov.'' @ fst known, pi_operands := [destination, format_constant known]\<rparr>,
                       Some known))
             | _ \<Rightarrow> (inst, None)))"

definition update_constants :: "string option \<Rightarrow> known_const option \<Rightarrow> constants \<Rightarrow> constants" where
  "update_constants destination known constants =
     (case destination of None \<Rightarrow> constants | Some d \<Rightarrow> constants(d := known))"

definition fold_step :: "'f pyfloat \<Rightarrow> constants \<Rightarrow> ptx_instruction \<Rightarrow> ptx_instruction \<times> constants" where
  "fold_step flt constants inst =
     (if is_constant_fold_boundary inst then (inst, Map.empty)
      else
        (let (folded, known) = fold_local_constant_instruction flt inst constants in
         (folded, update_constants (destination_register inst) known constants)))"

definition fold_items :: "'f pyfloat \<Rightarrow> item list \<Rightarrow> item list" where
  "fold_items flt its = rewrite_items (fold_step flt) Map.empty Map.empty its"

definition folded_destinations :: "item list \<Rightarrow> item list \<Rightarrow> string list" where
  "folded_destinations its its' =
     concat (map (\<lambda>(it, it').
       if it = it' then []
       else (case it of Label _ \<Rightarrow> []
             | Inst i \<Rightarrow> [case destination_register i of None \<Rightarrow> ''<unknown>'' | Some d \<Rightarrow> d]))
       (zip its its'))"

definition local_constant_folding :: "'f pyfloat \<Rightarrow> ptx_program \<Rightarrow> ptx_program \<times> pass_result" where
  "local_constant_folding flt prog =
     (let kept = fold_items flt (items prog);
          folded = folded_destinations (items prog) kept;
          details = [(''folded_destinations'', DStrs (sort folded)),
                     (''folded_instruction_count'', DInt (int (length folded))),
                     (''transforms_applied'', DInt (int (length folded)))] in
      if folded = [] then (prog, unchanged_result details)
      else (rebuild_program prog kept, changed_result details))"

section \<open>Literals\<close>

lemma startswith_Cons: "startswith (c # s) (d # p) \<longleftrightarrow> c = d \<and> startswith s p"
  by (simp add: startswith_def)

lemma find_regs_no_percent: "CHR ''%'' \<notin> set s \<Longrightarrow> find_regs s = []"
proof (induction s)
  case (Cons c s)
  then have "match_reg (c # s) = None"
    by (auto simp: match_reg_def reg_class_def startswith_Cons)
  with Cons show ?case by (simp add: find_regs.simps [of "c # s"])
qed simp

lemma no_percent_not_token: "CHR ''%'' \<notin> set s \<Longrightarrow> \<not> is_reg_token s"
  using find_regs_no_percent find_regs_token by force

lemma percent_no_digit: "digit_value CHR ''%'' = None"
  by (simp add: digit_value_def)

lemma parse_digits_no_percent: "parse_digits b prev acc s = Some v \<Longrightarrow> CHR ''%'' \<notin> set s"
  by (induction b prev acc s rule: parse_digits.induct)
    (auto simp: percent_no_digit split: if_split_asm option.split_asm)

lemma drop2_no_percent: "CHR ''%'' \<notin> set (drop 2 s) \<Longrightarrow> startswith s (p # [q]) \<Longrightarrow> p \<noteq> CHR ''%'' \<Longrightarrow> q \<noteq> CHR ''%'' \<Longrightarrow>
    CHR ''%'' \<notin> set s"
  by (cases s; cases "tl s") (auto simp: startswith_Cons startswith_def)

lemma parse_body_no_percent: "parse_body b s = Some v \<Longrightarrow> CHR ''%'' \<notin> set s"
proof -
  assume p: "parse_body b s = Some v"
  have after: "CHR ''%'' \<notin> set x" if "CHR ''%'' \<notin> set (after_prefix x)" for x
    using that by (cases x) (auto simp: after_prefix_def split: if_split_asm)
  have pre: "\<exists>q. startswith s [CHR ''0'', q] \<and> q \<noteq> CHR ''%''" if "prefix_base s = Some n" for n
    using that by (auto simp: prefix_base_def split: if_split_asm)
  have "(\<exists>n c. prefix_base s = Some n \<and> parse_digits c False 0 (after_prefix (drop 2 s)) = Some v) \<or>
      (\<exists>c. parse_digits c False 0 s = Some v)"
    using p by (auto simp: parse_body_def split: if_split_asm option.split_asm)
  then show ?thesis
  proof
    assume "\<exists>n c. prefix_base s = Some n \<and> parse_digits c False 0 (after_prefix (drop 2 s)) = Some v"
    then obtain n c where n: "prefix_base s = Some n" "parse_digits c False 0 (after_prefix (drop 2 s)) = Some v" by blast
    from pre [OF n(1)] obtain q where "startswith s [CHR ''0'', q]" "q \<noteq> CHR ''%''" by blast
    with after [OF parse_digits_no_percent [OF n(2)]] show ?thesis
      using drop2_no_percent [of s "CHR ''0''" q] by simp
  qed (auto dest: parse_digits_no_percent)
qed

lemma strip_set: "set s \<subseteq> set (strip s) \<union> {c. is_space c}"
proof -
  obtain w where w: "list_all is_space w" "lstrip s = strip s @ w" using strip_suffix by blast
  have "s = takeWhile is_space s @ lstrip s" by (simp add: lstrip_def)
  then have "set s = set (takeWhile is_space s) \<union> set (strip s) \<union> set w" by (metis set_append sup_assoc w(2))
  then show ?thesis using w(1) by (auto simp: list_all_iff dest: set_takeWhileD)
qed

lemma percent_strip: "CHR ''%'' \<notin> set (strip s) \<Longrightarrow> CHR ''%'' \<notin> set s"
  using strip_set [of s] by (auto simp: is_space_def)

lemma py_int_no_percent:
  assumes "py_int b s = Some v"
  shows "CHR ''%'' \<notin> set s"
  by (rule percent_strip)
    (use assms in \<open>auto simp: py_int_def split: list.split_asm if_split_asm dest: parse_body_no_percent\<close>)

text \<open>What the folding reads as an integer is the value the lowering loads.\<close>

definition literal_ok :: "string \<Rightarrow> bool" where
  "literal_ok op \<longleftrightarrow> (case py_int 0 (strip op) of
     None \<Rightarrow> True
   | Some n \<Rightarrow> startswith (strip op) ''0f'' \<or> map_option mask32 (parse_immediate op) = Some (mask32 n))"

definition literals_ok :: "ptx_instruction \<Rightarrow> bool" where
  "literals_ok i \<longleftrightarrow> list_all literal_ok (tl (pi_operands i))"

definition known_types :: "string set" where
  "known_types = set (''f32'' # INT32_TYPES)"

lemma known_types_cases:
  "t \<in> known_types \<Longrightarrow> (t = ''f32'' \<Longrightarrow> P) \<Longrightarrow> (t = ''b32'' \<Longrightarrow> P) \<Longrightarrow> (t = ''s32'' \<Longrightarrow> P) \<Longrightarrow> (t = ''u32'' \<Longrightarrow> P) \<Longrightarrow> P"
  by (auto simp: known_types_def INT32_TYPES_def)

lemma mask32_idem [simp]: "mask32 (mask32 v) = mask32 v"
  by (simp add: mask32_def)

lemma immediate_value:
  assumes "parse_immediate_constant op t = Some (t', v)" "literal_ok op"
  shows "t' = t \<and> t \<in> known_types \<and> mask32 v = v \<and> operand_value e op = Value v"
proof -
  have val: "operand_value e op = Value (mask32 n)" if "parse_immediate op = Some n" "CHR ''%'' \<notin> set (strip op)" for n
    using that no_percent_not_token [OF that(2)] find_regs_no_percent [OF percent_strip [OF that(2)]]
    by (simp add: operand_value_def Let_def)
  show ?thesis
  proof (cases "t = ''f32''")
    case True
    with assms(1) obtain n where n: "startswith (strip op) ''0f''" "py_int 16 (drop 2 (strip op)) = Some n" "v = mask32 n" "t' = t"
      by (auto simp: parse_immediate_constant_def Let_def split: if_split_asm)
    then have "parse_immediate op = Some n" by (simp add: parse_immediate_def Let_def)
    moreover have "CHR ''%'' \<notin> set (strip op)"
      using drop2_no_percent [OF py_int_no_percent [OF n(2)], of "CHR ''0''" "CHR ''f''"] n(1) by simp
    ultimately show ?thesis using val n True by (simp add: known_types_def)
  next
    case False
    with assms(1) obtain n where n: "t \<in> set INT32_TYPES" "\<not> startswith (strip op) ''0f''" "py_int 0 (strip op) = Some n"
      "v = mask32 n" "t' = t"
      by (auto simp: parse_immediate_constant_def Let_def split: if_split_asm)
    with assms(2) obtain k where "parse_immediate op = Some k" "mask32 k = mask32 n"
      by (auto simp: literal_ok_def)
    then show ?thesis using val [OF _ py_int_no_percent [OF n(3)]] n by (simp add: known_types_def)
  qed
qed

section \<open>Facts about registers\<close>

definition constants_hold :: "constants \<Rightarrow> 'm pstate \<Rightarrow> bool" where
  "constants_hold C st \<longleftrightarrow> (\<forall>r t v. C r = Some (t, v) \<longrightarrow> t \<in> known_types \<and> env st r = mask32 v)"

lemma resolve_value:
  assumes C: "constants_hold C st" and r: "resolve_constant op t C = Some (t', v)" and l: "literal_ok op"
  shows "t' = t \<and> t \<in> known_types \<and> mask32 v = v \<and> operand_value (env st) op = Value v"
proof (cases "is_reg_token (strip op)")
  case True
  obtain known where "C (strip op) = Some known" using r True by (cases "C (strip op)") (simp_all add: resolve_constant_def)
  then obtain t0 v0 where c: "C (strip op) = Some (t0, v0)" by (cases known) simp
  with r True have k: "C (strip op) = Some (t0, v0)" "constant_type_matches t0 t" "t' = t" "v = coerce_constant_value v0 t"
    by (auto simp: resolve_constant_def split: if_split_asm)
  with C have e: "t0 \<in> known_types" "env st (strip op) = mask32 v0" by (auto simp: constants_hold_def)
  have "t \<in> known_types"
    using k(2) e(1) by (auto simp: constant_type_matches_def known_types_def split: if_split_asm)
  then have "v = mask32 v0" using k(4) by (auto simp: coerce_constant_value_def known_types_def)
  with e k(3) True \<open>t \<in> known_types\<close> show ?thesis by (simp add: operand_value_def Let_def)
next
  case False
  with r have "parse_immediate_constant (strip op) t = Some (t', v)" by (simp add: resolve_constant_def Let_def)
  then have "parse_immediate_constant op t = Some (t', v)" by (simp add: parse_immediate_constant_def)
  from immediate_value [OF this l] show ?thesis by blast
qed

lemma numeral_operand:
  assumes "list_all (is_numeral_char b) s" "parse_immediate s = Some n"
  shows "operand_value e s = Value (mask32 n)"
proof -
  have p: "CHR ''%'' \<notin> set s" using assms(1) numeral_char_not(4) [of b] by (auto simp: list_all_iff)
  have "strip s = s" using assms(1) numeral_char_not(7) by (intro strip_no_space) (auto simp: list_all_iff)
  with p assms(2) no_percent_not_token [OF p] find_regs_no_percent [OF p] show ?thesis by (simp add: operand_value_def Let_def)
qed

lemma format_constant_value:
  assumes "t \<in> known_types"
  shows "operand_value e (format_constant (t, v)) = Value (mask32 v)"
proof -
  let ?n = "mask32 v"
  have n: "0 \<le> ?n" by (simp add: mask32_def)
  have nospace: "strip s = s" if "list_all (is_numeral_char b) s" for b s
    using that numeral_char_not(7) by (intro strip_no_space) (auto simp: list_all_iff)
  show ?thesis
  proof (cases "t = ''f32''")
    case True
    have h: "list_all (is_numeral_char 16) (hex_pad 8 ?n)"
      using digits_of_chars [of 16 "nat ?n"] by (auto simp: hex_pad_def Let_def list_all_iff is_numeral_char_def)
    then have l: "list_all (is_numeral_char 16) (''0f'' @ hex_pad 8 ?n)" by (simp add: is_numeral_char_def)
    have "parse_immediate (''0f'' @ hex_pad 8 ?n) = Some ?n"
      using nospace [OF l] py_int_hex_pad [OF n] by (simp add: parse_immediate_def startswith_def)
    with numeral_operand [OF l this] True show ?thesis by (simp add: format_constant_def)
  next
    case False
    have l: "list_all (is_numeral_char 10) (dec_str ?n)"
      using digits_of_chars [of 10 "nat ?n"] n by (simp add: dec_str_def)
    have "\<not> is_numeral_char 10 CHR ''f''" "\<not> is_numeral_char 10 CHR ''x''" by (simp_all add: is_numeral_char_def)
    with l have "CHR ''f'' \<notin> set (dec_str ?n)" "CHR ''x'' \<notin> set (dec_str ?n)" by (auto simp: list_all_iff)
    then have "\<not> startswith (dec_str ?n) ''0f''" "\<not> startswith (dec_str ?n) ''0x''"
      using startswith_set [of "dec_str ?n" "''0f''" "CHR ''f''"] startswith_set [of "dec_str ?n" "''0x''" "CHR ''x''"] by auto
    then have "parse_immediate (dec_str ?n) = Some ?n"
      using nospace [OF l] py_int_dec_str [OF n] by (simp add: parse_immediate_def Let_def)
    with numeral_operand [OF l this] False show ?thesis by (simp add: format_constant_def)
  qed
qed

section \<open>One instruction\<close>

lemma split_on_join: "split_on c s = p # ps \<Longrightarrow> s = p @ concat (map (\<lambda>q. c # q) ps)"
proof (induction s arbitrary: p ps)
  case (Cons x s)
  obtain q qs where q: "split_on c s = q # qs" using split_on_nonempty by (metis list.exhaust)
  have "x = c \<and> p = [] \<and> ps = q # qs \<or> p = x # q \<and> ps = qs" using Cons.prems q by (auto split: if_split_asm)
  moreover from Cons.IH [OF q] have "s = q @ concat (map (\<lambda>q. c # q) qs)" .
  ultimately show ?case by auto
qed auto

text \<open>The folded instruction: a move of the constant.\<close>

lemma folded_move_effect:
  assumes t: "t \<in> known_types" and opc: "pi_opcode i = ''mov.'' @ t" and ops: "pi_operands i = [d, format_constant (t, v)]"
    and d: "is_reg_token d" "strip d = d" and np: "pi_predicate i = None"
  shows "effect M i st = Continue \<lparr>env = (env st)(d := mask32 v), pmemory = pmemory st\<rparr>"
proof -
  have parts: "opcode_parts i = [''mov'', t]" "opcode_base i = ''mov''"
    using opc t by (auto simp: opcode_parts_def opcode_base_def before_first_def elim!: known_types_cases)
  have "''mov'' \<in> set DESTINATION_BASES" by (simp add: DESTINATION_BASES_def PURE_RESULT_BASES_def PURE_RESULT_OPERAND_COUNTS_def)
  then have dest: "destination_register i = Some d"
    using parts(2) ops d by (simp add: destination_register_def)
  have pure: "pure_dest i = Some d"
    using parts ops dest t by (auto simp: pure_dest_def has_cc_def PURE_RESULT_OPERAND_COUNTS_def elim!: known_types_cases)
  have vals: "source_values i (env st) = [Value (mask32 v)]"
    using parts(2) ops \<open>''mov'' \<in> set DESTINATION_BASES\<close> format_constant_value [OF t]
    by (simp add: source_values_def source_operands_def)
  have "pure_value M (pi_opcode i) [Value (mask32 v)] = mask32 v"
    unfolding opc using t by (elim known_types_cases) (simp_all add: pure_value_def)
  with pure_effect [OF np pure, of M st] vals show ?thesis by simp
qed

text \<open>What is not a boundary: a two-part opcode of a pure operation with its operands.\<close>

lemma not_boundary:
  assumes "\<not> is_constant_fold_boundary i"
  shows "pi_predicate i = None" "\<not> has_cc i"
    "(\<exists>t a b. pi_opcode i = ''mov.'' @ t \<and> opcode_parts i = [''mov'', t] \<and> pi_operands i = [a, b]) \<or>
     (\<exists>b t x y z. b \<in> {''add'', ''sub'', ''mul''} \<and> pi_opcode i = b @ ''.'' @ t \<and> opcode_parts i = [b, t] \<and>
        pi_operands i = [x, y, z])"
proof -
  let ?p = "opcode_parts i"
  have h: "pi_predicate i = None" "\<not> has_cc i" "length ?p = 2"
    "hd ?p = ''mov'' \<and> length (pi_operands i) = 2 \<or> hd ?p \<in> {''add'', ''sub'', ''mul''} \<and> length (pi_operands i) = 3"
    using assms by (auto simp: is_constant_fold_boundary_def Let_def split: if_split_asm)
  from h(3) obtain b t where p: "?p = [b, t]" by (auto simp: length_Suc_conv numeral_2_eq_2)
  then have "pi_opcode i = b @ ''.'' @ t" using split_on_join [of "CHR ''.''" "pi_opcode i" b "[t]"] by (simp add: opcode_parts_def)
  with h(4) p show "(\<exists>t a b. pi_opcode i = ''mov.'' @ t \<and> opcode_parts i = [''mov'', t] \<and> pi_operands i = [a, b]) \<or>
     (\<exists>b t x y z. b \<in> {''add'', ''sub'', ''mul''} \<and> pi_opcode i = b @ ''.'' @ t \<and> opcode_parts i = [b, t] \<and>
        pi_operands i = [x, y, z])"
    by (auto simp: length_Suc_conv numeral_2_eq_2 numeral_3_eq_3)
  show "pi_predicate i = None" "\<not> has_cc i" by (fact h)+
qed

lemma pure_original:
  assumes "\<not> is_constant_fold_boundary i" "destination_register i = Some d"
  shows "pure_dest i = Some d" "source_operands i = tl (pi_operands i)" "is_reg_token d" "strip d = d"
proof -
  note n = not_boundary [OF assms(1)]
  have b: "opcode_base i = hd (opcode_parts i)" by (rule base_is_hd)
  have "map_of PURE_RESULT_OPERAND_COUNTS (opcode_base i) = Some (length (pi_operands i))"
    using n(3) b by (auto simp: PURE_RESULT_OPERAND_COUNTS_def)
  with n(2) assms(2) show "pure_dest i = Some d" by (simp add: pure_dest_def)
  show "source_operands i = tl (pi_operands i)" "is_reg_token d" "strip d = d"
    using destination_in_bases [OF assms(2)] by (auto simp: source_operands_def)
qed

text \<open>Folding one instruction leaves its effect, and the constant it reports is what it computes.\<close>

lemma fold_instruction:
  assumes nb: "\<not> is_constant_fold_boundary i" and C: "constants_hold C st" and l: "literals_ok i"
    and f: "fold_local_constant_instruction (fl M) i C = (j, Some known)"
  shows "\<exists>d. destination_register i = Some d \<and> fst known \<in> known_types \<and>
    effect M i st = Continue \<lparr>env = (env st)(d := mask32 (snd known)), pmemory = pmemory st\<rparr> \<and> effect M j st = effect M i st"
proof -
  note n = not_boundary [OF nb]
  from f obtain d where d: "destination_register i = Some d" "\<not> startswith d ''%p''"
    by (auto simp: fold_local_constant_instruction_def Let_def split: option.split_asm if_split_asm)
  note P = pure_original [OF nb d(1)]
  note eff = pure_effect [OF n(1) P(1), of M st]
  from n(3) show ?thesis
  proof (elim disjE exE conjE)
    fix t a b
    assume i: "pi_opcode i = ''mov.'' @ t" "opcode_parts i = [''mov'', t]" "pi_operands i = [a, b]"
    obtain t' v where known: "known = (t', v)" by force
    with f d i have r: "resolve_constant b t C = Some (t', v)" "known = (t', v)"
      "j = i\<lparr>pi_operands := [d, format_constant (t', v)]\<rparr>"
      by (auto simp: fold_local_constant_instruction_def Let_def split: option.split_asm)
    have lb: "literal_ok b" using l i(3) by (simp add: literals_ok_def)
    from resolve_value [OF C r(1) lb] have v: "t' = t" "t \<in> known_types" "mask32 v = v" "operand_value (env st) b = Value v"
      by auto
    have "pure_value M (''mov.'' @ t) [Value v] = mask32 v"
      using v(2) by (elim known_types_cases) (simp_all add: pure_value_def)
    then have e: "effect M i st = Continue \<lparr>env = (env st)(d := mask32 v), pmemory = pmemory st\<rparr>"
      using eff i P(2) v(4) by (simp add: source_values_def)
    have "effect M j st = Continue \<lparr>env = (env st)(d := mask32 v), pmemory = pmemory st\<rparr>"
      by (rule folded_move_effect [OF v(2)]) (use r(3) i(1) v(1) P(3,4) n(1) in simp_all)
    with e d(1) r(2) v(1,2) show ?thesis by simp
  next
    fix b t x y z
    assume b: "b \<in> {''add'', ''sub'', ''mul''}" and i: "pi_opcode i = b @ ''.'' @ t" "opcode_parts i = [b, t]"
      "pi_operands i = [x, y, z]"
    have "b \<noteq> ''mov''" using b by auto
    with f d i obtain lhs rhs where r: "resolve_constant y t C = Some lhs" "resolve_constant z t C = Some rhs"
      "(if t = ''u32'' \<and> b \<in> {''add'', ''sub'', ''mul''} then map_option (Pair ''u32'') (evaluate_u32 b (snd lhs) (snd rhs))
        else if t = ''f32'' \<and> b \<in> {''add'', ''mul''} then map_option (Pair ''f32'') (evaluate_f32 (fl M) b (snd lhs) (snd rhs))
        else None) = Some known"
      "j = i\<lparr>pi_opcode := ''mov.'' @ fst known, pi_operands := [d, format_constant known]\<rparr>"
      by (auto simp: fold_local_constant_instruction_def Let_def split: option.split_asm)
    have ly: "literal_ok y" "literal_ok z" using l i(3) by (simp_all add: literals_ok_def)
    obtain t1 v1 t2 v2 where lr: "lhs = (t1, v1)" "rhs = (t2, v2)" by force
    from resolve_value [OF C r(1)[unfolded lr] ly(1)] resolve_value [OF C r(2)[unfolded lr] ly(2)]
    have v: "operand_value (env st) y = Value v1" "operand_value (env st) z = Value v2" by auto
    have val: "pure_value M (b @ ''.'' @ t) [Value v1, Value v2] = mask32 (snd known) \<and> fst known \<in> known_types"
      using r(3) b unfolding lr snd_conv by (auto simp: pure_value_def evaluate_u32_def known_types_def INT32_TYPES_def split: if_split_asm)
    then have e: "effect M i st = Continue \<lparr>env = (env st)(d := mask32 (snd known)), pmemory = pmemory st\<rparr>"
      using eff i P(2) v by (simp add: source_values_def)
    have "effect M j st = Continue \<lparr>env = (env st)(d := mask32 (snd known)), pmemory = pmemory st\<rparr>"
      by (rule folded_move_effect [of "fst known"]) (use r(4) val P(3,4) n(1) in simp_all)
    with e d(1) val show ?thesis by simp
  qed
qed

lemma unfolded:
  assumes "fold_local_constant_instruction flt i C = (j, None)"
  shows "j = i"
  using assms
  by (auto simp: fold_local_constant_instruction_def Let_def split: option.split_asm if_split_asm)

interpretation folding: local_rewriting M "fold_step (fl M)" Map.empty constants_hold "\<lambda>_. literals_ok"
  for M :: "('f, 'm) ptx_machine"
proof
  show "constants_hold Map.empty st" for st :: "'m pstate" by (simp add: constants_hold_def)
  fix i C and st :: "'m pstate"
  assume l: "literals_ok i" and C: "constants_hold C st"
  let ?f = "fold_local_constant_instruction (fl M) i C"
  show "effect M (fst (fold_step (fl M) C i)) st = effect M i st"
  proof (cases "is_constant_fold_boundary i")
    case False
    obtain j k where f: "?f = (j, k)" by force
    with False unfolded [of "fl M" i C j] fold_instruction [OF False C l] show ?thesis
      by (cases k) (auto simp: fold_step_def)
  qed (simp add: fold_step_def)
  fix st'
  assume eff: "effect M i st = Continue st'"
  show "constants_hold (snd (fold_step (fl M) C i)) st'"
  proof (cases "is_constant_fold_boundary i")
    case False
    obtain j k where f: "?f = (j, k)" by force
    have s: "snd (fold_step (fl M) C i) = update_constants (destination_register i) k C"
      using False f by (simp add: fold_step_def)
    show ?thesis
    proof (cases k)
      case (Some known)
      from fold_instruction [OF False C l f [unfolded Some]] eff obtain d where
        d: "destination_register i = Some d" "fst known \<in> known_types"
        "st' = \<lparr>env = (env st)(d := mask32 (snd known)), pmemory = pmemory st\<rparr>" by auto
      show ?thesis
        using C d(2) by (cases known) (auto simp: s Some d(1,3) update_constants_def constants_hold_def)
    next
      case None
      show ?thesis
        using effect_env [OF eff] C
        by (cases "destination_register i") (auto simp: s None update_constants_def constants_hold_def)
    qed
  qed (simp add: fold_step_def constants_hold_def)
qed

section \<open>The program\<close>

definition program_literals_ok :: "item list \<Rightarrow> bool" where
  "program_literals_ok its = list_all (\<lambda>it. case it of Label _ \<Rightarrow> True | Inst i \<Rightarrow> literals_ok i) its"

text \<open>
  C24. A kernel whose integer literals are decimal or hexadecimal, as the lowering reads them, runs
  with folded constants exactly like the original: same registers, same memory, same end, for every
  machine, fuel and initial state.
\<close>

theorem local_constant_folding_correct:
  assumes "program_literals_ok (items prog)"
  shows "run_kernel M k (items (fst (local_constant_folding (fl M) prog))) st = run_kernel M k (items prog) st"
proof -
  have "checked_items (fold_step (fl M)) (\<lambda>_. literals_ok) Map.empty Map.empty (items prog)"
    using assms by (intro checked_all) (auto simp: program_literals_ok_def list_all_iff)
  from folding.run_rewrite [OF this, of k st] show ?thesis
    by (simp add: local_constant_folding_def Let_def fold_items_def rebuild_program_def)
qed

definition constant_kernel :: ptx_program where
  "constant_kernel = \<lparr>kernel_name = ''k'', parameters = [], reg_decls = [], items =
     [Inst (PTXInstruction ''mov.u32'' [''%r1'', ''5'']), Inst (PTXInstruction ''add.u32'' [''%r2'', ''%r1'', ''0x10'']),
      Label ''L'', Inst (PTXInstruction ''sub.u32'' [''%r3'', ''%r2'', ''%r1'']), Inst (PTXInstruction ''ret'' [])]\<rparr>"

theorem local_constant_folding_correct_witness:
  "\<forall>M :: (int, int) ptx_machine. \<forall>k st.
    run_kernel M k (items (fst (local_constant_folding (fl M) constant_kernel))) st = run_kernel M k (items constant_kernel) st"
proof -
  have "program_literals_ok (items constant_kernel)" by code_simp
  from local_constant_folding_correct [OF this] show ?thesis by blast
qed

text \<open>What the literals are for: \<open>int(s, 0)\<close> accepts a literal that the lowering rejects.\<close>

lemma binary_literal_folded:
  "resolve_constant ''0b101'' ''u32'' Map.empty = Some (''u32'', 5) \<and> parse_immediate ''0b101'' = None"
  by code_simp

end
