(* ===== verification/Load_Reuse.thy ===== *)
theory Load_Reuse
  imports Local_Rewrite
begin

text \<open>
  \<open>RepeatedGlobalLoadReusePass\<close> of \<open>passes/experimental.py\<close>. The pass keeps no track of the register
  a cached load has written, so it is right only for kernels that do not overwrite one while it is
  cached: \<open>reuse_safe\<close> checks that, and the last section shows what happens otherwise.
\<close>

section \<open>The pass\<close>

type_synonym load_cache = "(string \<times> string, string) dict"

definition REUSE_BARRIERS :: "string list" where
  "REUSE_BARRIERS = [''st'', ''bra'', ''ret'', ''brx'', ''call'', ''atom'']"

definition is_global_load :: "ptx_instruction \<Rightarrow> bool" where
  "is_global_load inst \<longleftrightarrow> opcode_base inst = ''ld'' \<and> startswith (pi_opcode inst) ''ld.global''"

definition reuse_address :: "ptx_instruction \<Rightarrow> string" where
  "reuse_address inst = strip_brackets (pi_operands inst ! 1)"

definition reuse_load :: "load_cache \<Rightarrow> ptx_instruction \<Rightarrow> ptx_instruction \<times> load_cache" where
  "reuse_load cache inst =
     (let ptx_type = last (opcode_parts inst); dest = strip (pi_operands inst ! 0); key = (reuse_address inst, ptx_type) in
      case map_of cache key of
        Some src \<Rightarrow> (PTXInstruction (''mov.'' @ ptx_type) [dest, src], cache)
      | None \<Rightarrow> (inst, AList.update key dest cache))"

definition reuse_step :: "load_cache \<Rightarrow> ptx_instruction \<Rightarrow> ptx_instruction \<times> load_cache" where
  "reuse_step cache inst =
     (if opcode_base inst \<in> set REUSE_BARRIERS then (inst, [])
      else if pi_predicate inst \<noteq> None then (inst, [])
      else if is_global_load inst then
        (if length (opcode_parts inst) < 3 then (inst, cache) else reuse_load cache inst)
      else
        (case destination_register inst of
           None \<Rightarrow> (inst, cache)
         | Some dest \<Rightarrow> (inst, filter (\<lambda>(k, _). fst k \<noteq> dest) cache)))"

text \<open>A load with fewer than two operands raises \<open>IndexError\<close>: the pass has no result.\<close>

definition reuse_fails :: "ptx_instruction \<Rightarrow> bool" where
  "reuse_fails inst \<longleftrightarrow> opcode_base inst \<notin> set REUSE_BARRIERS \<and> pi_predicate inst = None \<and> is_global_load inst \<and>
     3 \<le> length (opcode_parts inst) \<and> length (pi_operands inst) < 2"

definition replaced_loads :: "item list \<Rightarrow> item list \<Rightarrow> nat" where
  "replaced_loads its its' = length (filter (\<lambda>(it, it'). it \<noteq> it') (zip its its'))"

definition load_reuse :: "ptx_program \<Rightarrow> (ptx_program \<times> pass_result) option" where
  "load_reuse prog =
     (if list_ex (\<lambda>it. case it of Label _ \<Rightarrow> False | Inst i \<Rightarrow> reuse_fails i) (items prog) then None
      else
        (let kept = rewrite_items reuse_step [] [] (items prog);
             n = int (replaced_loads (items prog) kept);
             details = [(''replaced_load_count'', DInt n), (''transforms_applied'', DInt n)] in
         Some (if n = 0 then (prog, unchanged_result details) else (rebuild_program prog kept, changed_result details))))"

section \<open>What the reuse relies on\<close>

text \<open>
  Of the machine: only stores, atomics and calls change the memory, loads of one type do the same
  whatever their modifiers, and moving a loaded value keeps it.
\<close>

definition loads_ok :: "('f, 'm) ptx_machine \<Rightarrow> bool" where
  "loads_ok M \<longleftrightarrow>
     (\<forall>opc vs m v m'. before_first CHR ''.'' opc \<notin> set REUSE_BARRIERS \<and> other_op M opc vs m = Next v m' \<longrightarrow> m' = m) \<and>
     (\<forall>opc opc' vs m. startswith opc ''ld.global'' \<and> startswith opc' ''ld.global'' \<and>
        last (split_on CHR ''.'' opc) = last (split_on CHR ''.'' opc') \<longrightarrow> other_op M opc vs m = other_op M opc' vs m) \<and>
     (\<forall>opc vs m v m'. startswith opc ''ld.global'' \<and> other_op M opc vs m = Next v m' \<longrightarrow>
        pure_value M (''mov.'' @ last (split_on CHR ''.'' opc)) [Value v] = v)"

text \<open>Of the kernel: no register that holds a cached load, or its address, is overwritten by a load or cached copy.\<close>

definition unused_in :: "string \<Rightarrow> load_cache \<Rightarrow> bool" where
  "unused_in d cache \<longleftrightarrow> list_all (\<lambda>((a, t), s). a \<noteq> d \<and> s \<noteq> d) cache"

definition reuse_safe :: "load_cache \<Rightarrow> ptx_instruction \<Rightarrow> bool" where
  "reuse_safe cache inst \<longleftrightarrow>
     (if opcode_base inst \<in> set REUSE_BARRIERS \<or> pi_predicate inst \<noteq> None then True
      else if is_global_load inst then
        (let d = strip (pi_operands inst ! 0); a = reuse_address inst in
         3 \<le> length (opcode_parts inst) \<and> length (pi_operands inst) = 2 \<and> is_reg_token d \<and>
         pi_operands inst ! 1 = ''['' @ a @ '']'' \<and> find_regs (pi_operands inst ! 1) = [a] \<and> a \<noteq> d \<and>
         \<not> has_cc inst \<and> unused_in d cache)
      else
        (case destination_register inst of None \<Rightarrow> True | Some d \<Rightarrow> list_all (\<lambda>(k, s). s \<noteq> d) cache))"

section \<open>Correctness\<close>

definition entry_holds :: "('f, 'm) ptx_machine \<Rightarrow> 'm pstate \<Rightarrow> (string \<times> string) \<times> string \<Rightarrow> bool" where
  "entry_holds M st ks =
     (case ks of ((a, t), s) \<Rightarrow> is_reg_token s \<and> strip s = s \<and> t \<noteq> ''cc'' \<and> find_regs (''['' @ a @ '']'') = [a] \<and>
       pure_value M (''mov.'' @ t) [Value (env st s)] = env st s \<and>
       (\<forall>opc. startswith opc ''ld.global'' \<and> last (split_on CHR ''.'' opc) = t \<longrightarrow>
          other_op M opc [operand_value (env st) (''['' @ a @ '']'')] (pmemory st) = Next (env st s) (pmemory st)))"

definition cache_holds :: "('f, 'm) ptx_machine \<Rightarrow> load_cache \<Rightarrow> 'm pstate \<Rightarrow> bool" where
  "cache_holds M cache st \<longleftrightarrow> list_all (entry_holds M st) cache"

lemma entry_keeps:
  assumes "entry_holds M st ((a, t), s)" "env st' a = env st a" "env st' s = env st s" "pmemory st' = pmemory st"
  shows "entry_holds M st' ((a, t), s)"
proof -
  have "find_regs (''['' @ a @ '']'') = [a]" using assms(1) by (simp add: entry_holds_def)
  then have "operand_value (env st') (''['' @ a @ '']'') = operand_value (env st) (''['' @ a @ '']'')"
    using assms(2) by (intro operand_value_agree) simp
  with assms show ?thesis by (simp add: entry_holds_def)
qed

lemma loads_okD:
  assumes "loads_ok M"
  shows "before_first CHR ''.'' opc \<notin> set REUSE_BARRIERS \<Longrightarrow> other_op M opc vs m = Next v m' \<Longrightarrow> m' = m"
    "startswith opc ''ld.global'' \<Longrightarrow> startswith opc' ''ld.global'' \<Longrightarrow>
      last (split_on CHR ''.'' opc) = last (split_on CHR ''.'' opc') \<Longrightarrow> other_op M opc vs m = other_op M opc' vs m"
    "startswith opc ''ld.global'' \<Longrightarrow> other_op M opc vs m = Next v m' \<Longrightarrow>
      pure_value M (''mov.'' @ last (split_on CHR ''.'' opc)) [Value v] = v"
  using assms unfolding loads_ok_def by blast+

lemma set_update_subset: "set (AList.update k v d) \<subseteq> insert (k, v) (set d)"
  by (induction d) auto

lemma ld_not_pure: "opcode_base i = ''ld'' \<Longrightarrow> pure_dest i = None"
  by (simp add: pure_dest_def PURE_RESULT_OPERAND_COUNTS_def)

text \<open>A load the pass handles.\<close>

lemma safe_load:
  assumes "reuse_safe c i" "opcode_base i \<notin> set REUSE_BARRIERS" "pi_predicate i = None" "is_global_load i"
  defines "d \<equiv> strip (pi_operands i ! 0)" and "a \<equiv> reuse_address i" and "t \<equiv> last (opcode_parts i)"
  shows "destination_register i = Some d" "source_operands i = [''['' @ a @ '']'']" "3 \<le> length (opcode_parts i)"
    "find_regs (''['' @ a @ '']'') = [a]" "a \<noteq> d" "t \<noteq> ''cc''" "unused_in d c" "is_reg_token d" "strip d = d"
    "opcode_base i = ''ld''" "startswith (pi_opcode i) ''ld.global''"
proof -
  have s: "3 \<le> length (opcode_parts i)" "length (pi_operands i) = 2" "is_reg_token d"
    "pi_operands i ! 1 = ''['' @ a @ '']''" "find_regs (pi_operands i ! 1) = [a]" "a \<noteq> d" "\<not> has_cc i" "unused_in d c"
    using assms(1-4) unfolding reuse_safe_def d_def a_def Let_def by auto
  obtain x y where o: "pi_operands i = [x, y]" using s(2) by (auto simp: length_Suc_conv numeral_2_eq_2)
  show b: "opcode_base i = ''ld''" "startswith (pi_opcode i) ''ld.global''" using assms(4) by (simp_all add: is_global_load_def)
  have db: "''ld'' \<in> set DESTINATION_BASES" by (simp add: DESTINATION_BASES_def)
  show "destination_register i = Some d" using b(1) db s(3) o by (simp add: destination_register_def d_def)
  show "source_operands i = [''['' @ a @ '']'']" using b(1) db s(4) o by (simp add: source_operands_def)
  obtain p q where parts: "opcode_parts i = p # q" "q \<noteq> []" using s(1) by (cases "opcode_parts i") fastforce+
  then have "t = last q" "last q \<in> set q" by (simp_all add: t_def)
  then show "t \<noteq> ''cc''" using s(7) parts(1) by (auto simp: has_cc_def)
  show "3 \<le> length (opcode_parts i)" "find_regs (''['' @ a @ '']'') = [a]" "a \<noteq> d" "unused_in d c" "is_reg_token d" "strip d = d"
    using s by (simp_all add: d_def)
qed

lemma load_effect:
  assumes "reuse_safe c i" "opcode_base i \<notin> set REUSE_BARRIERS" "pi_predicate i = None" "is_global_load i"
  shows "effect M i st =
    (case other_op M (pi_opcode i) [operand_value (env st) (''['' @ reuse_address i @ '']'')] (pmemory st) of
       Next v m \<Rightarrow> Continue \<lparr>env = (env st)(strip (pi_operands i ! 0) := v), pmemory = m\<rparr>
     | Jump l m \<Rightarrow> GoTo l \<lparr>env = env st, pmemory = m\<rparr>
     | Exit m \<Rightarrow> Stop \<lparr>env = env st, pmemory = m\<rparr>
     | Fault \<Rightarrow> Crash)"
  using safe_load [OF assms] ld_not_pure assms(3)
  by (simp add: effect_def inst_outcome_def guard_holds_def predicate_reads_def source_values_def set_dest_def split: outcome.split)

lemma memory_kept:
  assumes "loads_ok M" "opcode_base i \<notin> set REUSE_BARRIERS" "effect M i st = Continue st'"
  shows "pmemory st' = pmemory st"
  using assms(3) loads_okD(1) [OF assms(1)] assms(2)
  by (auto simp: effect_def inst_outcome_def opcode_base_def split: if_split_asm outcome.split_asm)

lemma entries_keep:
  assumes "list_all (entry_holds M st) c" "unused_in d c" "\<And>r. r \<noteq> d \<Longrightarrow> env st' r = env st r" "pmemory st' = pmemory st"
  shows "list_all (entry_holds M st') c"
  unfolding list_all_iff
proof
  fix e assume e: "e \<in> set c"
  obtain a t s where ats: "e = ((a, t), s)" by (metis surj_pair)
  have "a \<noteq> d" "s \<noteq> d" using assms(2) e ats by (auto simp: unused_in_def list_all_iff)
  moreover have "entry_holds M st ((a, t), s)" using assms(1) e ats by (simp add: list_all_iff)
  ultimately show "entry_holds M st' e" using assms(3,4) entry_keeps unfolding ats by metis
qed

lemma new_entry:
  assumes ok: "loads_ok M" and l: "reuse_safe c i" "opcode_base i \<notin> set REUSE_BARRIERS" "pi_predicate i = None" "is_global_load i"
    and eff: "effect M i st = Continue st'"
  shows "entry_holds M st' ((reuse_address i, last (opcode_parts i)), strip (pi_operands i ! 0))"
proof -
  let ?d = "strip (pi_operands i ! 0)" and ?a = "reuse_address i" and ?t = "last (opcode_parts i)"
  note s = safe_load [OF l]
  from eff obtain v m where v: "other_op M (pi_opcode i) [operand_value (env st) (''['' @ ?a @ '']'')] (pmemory st) = Next v m"
    "st' = \<lparr>env = (env st)(?d := v), pmemory = m\<rparr>"
    unfolding load_effect [OF l] by (auto split: outcome.split_asm)
  have m: "m = pmemory st" using memory_kept [OF ok l(2) eff] v(2) by simp
  have t: "last (split_on CHR ''.'' (pi_opcode i)) = ?t" by (simp add: opcode_parts_def)
  have same: "operand_value (env st') (''['' @ ?a @ '']'') = operand_value (env st) (''['' @ ?a @ '']'')"
    using s(4,5) v(2) by (intro operand_value_agree) simp
  have "other_op M opc [operand_value (env st') (''['' @ ?a @ '']'')] (pmemory st') = Next (env st' ?d) (pmemory st')"
    if "startswith opc ''ld.global''" "last (split_on CHR ''.'' opc) = ?t" for opc
    using loads_okD(2) [OF ok that(1) s(11), of "[operand_value (env st) (''['' @ ?a @ '']'')]" "pmemory st"] that(2) t v m same
    by simp
  moreover have "pure_value M (''mov.'' @ ?t) [Value (env st' ?d)] = env st' ?d"
    using loads_okD(3) [OF ok s(11) v(1)] t v(2) by simp
  ultimately show ?thesis using s(4,6,8,9) by (simp add: entry_holds_def)
qed

lemma split_on_no_sep: "p \<in> set (split_on c s) \<Longrightarrow> c \<notin> set p"
  by (induction s arbitrary: p) (auto split: if_split_asm list.split_asm)

lemma split_on_none: "c \<notin> set s \<Longrightarrow> split_on c s = [s]"
  by (induction s) auto

text \<open>A cached load is replaced by a move with the same effect.\<close>

lemma reused_effect:
  assumes l: "reuse_safe c i" "opcode_base i \<notin> set REUSE_BARRIERS" "pi_predicate i = None" "is_global_load i"
    and e: "entry_holds M st ((reuse_address i, last (opcode_parts i)), s)"
  shows "effect M (PTXInstruction (''mov.'' @ last (opcode_parts i)) [strip (pi_operands i ! 0), s]) st = effect M i st"
proof -
  let ?d = "strip (pi_operands i ! 0)" and ?t = "last (opcode_parts i)"
  let ?j = "PTXInstruction (''mov.'' @ ?t) [?d, s]"
  note S = safe_load [OF l]
  have tok: "strip s = s" using e by (simp add: entry_holds_def)
  have s: "is_reg_token s" "?t \<noteq> ''cc''"
    "other_op M (pi_opcode i) [operand_value (env st) (''['' @ reuse_address i @ '']'')] (pmemory st) = Next (env st s) (pmemory st)"
    "pure_value M (''mov.'' @ ?t) [Value (env st s)] = env st s"
    using e S(11) by (simp_all add: entry_holds_def opcode_parts_def)
  have nodot: "CHR ''.'' \<notin> set ?t" using split_on_no_sep S(3) by (metis last_in_set list.size(3) not_numeral_le_zero opcode_parts_def)
  have parts: "opcode_parts ?j = [''mov'', ?t]"
    using split_on_none [OF nodot] by (simp add: opcode_parts_def PTXInstruction_def)
  then have b: "opcode_base ?j = ''mov''" by (simp add: base_is_hd)
  have db: "''mov'' \<in> set DESTINATION_BASES" by (simp add: DESTINATION_BASES_def PURE_RESULT_BASES_def PURE_RESULT_OPERAND_COUNTS_def)
  have dest: "destination_register ?j = Some ?d"
    using b db S(8,9) by (simp add: destination_register_def PTXInstruction_def)
  have pure: "pure_dest ?j = Some ?d"
    using dest b parts s(2) by (simp add: pure_dest_def has_cc_def PURE_RESULT_OPERAND_COUNTS_def PTXInstruction_def)
  have "source_values ?j (env st) = [Value (env st s)]"
    using b db s(1) tok by (simp add: source_values_def source_operands_def PTXInstruction_def operand_value_def)
  then have "effect M ?j st = Continue \<lparr>env = (env st)(?d := env st s), pmemory = pmemory st\<rparr>"
    using pure_effect [OF _ pure, of M st] s(4) by (simp add: PTXInstruction_def)
  moreover have "effect M i st = Continue \<lparr>env = (env st)(?d := env st s), pmemory = pmemory st\<rparr>"
    unfolding load_effect [OF l] s(3) by simp
  ultimately show ?thesis by simp
qed

interpretation reuse: local_rewriting M reuse_step "[]" "cache_holds M" "\<lambda>c i. loads_ok M \<and> reuse_safe c i"
  for M :: "('f, 'm) ptx_machine"
proof
  show "cache_holds M [] st" for st by (simp add: cache_holds_def)
  fix c i st
  assume g: "loads_ok M \<and> reuse_safe c i" and h: "cache_holds M c st"
  let ?a = "reuse_address i" and ?t = "last (opcode_parts i)" and ?d = "strip (pi_operands i ! 0)"
  show "effect M (fst (reuse_step c i)) st = effect M i st"
  proof (cases "opcode_base i \<notin> set REUSE_BARRIERS \<and> pi_predicate i = None \<and> is_global_load i")
    case True
    then have l: "opcode_base i \<notin> set REUSE_BARRIERS" "pi_predicate i = None" "is_global_load i" by auto
    note S = safe_load [OF conjunct2 [OF g] l]
    show ?thesis
    proof (cases "map_of c (?a, ?t)")
      case None
      with l S(3) show ?thesis by (simp add: reuse_step_def reuse_load_def)
    next
      case (Some s)
      then have "entry_holds M st ((?a, ?t), s)" using h map_of_SomeD by (fastforce simp: cache_holds_def list_all_iff)
      from reused_effect [OF conjunct2 [OF g] l this] l S(3) Some show ?thesis by (simp add: reuse_step_def reuse_load_def)
    qed
  next
    case False
    then show ?thesis by (auto simp: reuse_step_def split: option.split)
  qed
  fix st'
  assume eff: "effect M i st = Continue st'"
  show "cache_holds M (snd (reuse_step c i)) st'"
  proof (cases "opcode_base i \<in> set REUSE_BARRIERS \<or> pi_predicate i \<noteq> None")
    case True
    then show ?thesis by (auto simp: reuse_step_def cache_holds_def)
  next
    case False
    then have l: "opcode_base i \<notin> set REUSE_BARRIERS" "pi_predicate i = None" by auto
    note mem = memory_kept [OF conjunct1 [OF g] l(1) eff]
    show ?thesis
    proof (cases "is_global_load i")
      case ld: True
      note L = conjunct2 [OF g] l ld
      note S = safe_load [OF L]
      have keep: "list_all (entry_holds M st') c"
        by (rule entries_keep [OF h[unfolded cache_holds_def] S(7) effect_env(2) [OF eff S(1)] mem])
      show ?thesis
      proof (cases "map_of c (?a, ?t)")
        case None
        have "snd (reuse_step c i) = AList.update (?a, ?t) ?d c"
          using None l ld S(3) by (simp add: reuse_step_def reuse_load_def)
        with keep new_entry [OF conjunct1 [OF g] L eff] set_update_subset [of "(?a, ?t)" ?d c] show ?thesis
          by (auto simp: cache_holds_def list_all_iff)
      next
        case (Some s)
        with keep l ld S(3) show ?thesis by (simp add: reuse_step_def reuse_load_def cache_holds_def)
      qed
    next
      case nl: False
      show ?thesis
      proof (cases "destination_register i")
        case None
        with effect_env(1) [OF eff None] mem h show ?thesis
          using l nl by (cases st; cases st') (simp add: reuse_step_def)
      next
        case (Some d)
        let ?c = "filter (\<lambda>(k, _). fst k \<noteq> d) c"
        have c: "snd (reuse_step c i) = ?c" using l nl Some by (simp add: reuse_step_def)
        have "list_all (\<lambda>(k, s). s \<noteq> d) c" using g l nl Some by (simp add: reuse_safe_def)
        then have "unused_in d ?c" by (auto simp: unused_in_def list_all_iff)
        moreover have "list_all (entry_holds M st) ?c" using h by (auto simp: cache_holds_def list_all_iff)
        ultimately have "list_all (entry_holds M st') ?c"
          using entries_keep effect_env(2) [OF eff Some] mem by blast
        then show ?thesis by (simp add: c cache_holds_def)
      qed
    qed
  qed
qed

definition kernel_reuse_safe :: "item list \<Rightarrow> bool" where
  "kernel_reuse_safe its = checked_items reuse_step reuse_safe [] [] its"

lemma checked_conj: "checked_items step good c0 c its \<Longrightarrow> P \<Longrightarrow> checked_items step (\<lambda>c i. P \<and> good c i) c0 c its"
  by (induction step good c0 c its rule: checked_items.induct) simp_all


text \<open>A machine with a memory of words: loads read it, stores write it, everything else stops.\<close>

definition integer_floats :: "int pyfloat" where
  "integer_floats = \<lparr>unpack32 = id, pack32 = Some, f_add = (+), f_mul = (*), f_finite = (\<lambda>_. True)\<rparr>"

definition word_machine :: "(int, int \<Rightarrow> int) ptx_machine" where
  "word_machine = \<lparr>fl = integer_floats,
     pure_other = (\<lambda>opc vs. case vs of [Value v] \<Rightarrow> v | _ \<Rightarrow> 0),
     other_op = (\<lambda>opc vs m.
       if startswith opc ''ld.global'' then (case vs of [Text t [a]] \<Rightarrow> Next (mask32 (m a)) m | _ \<Rightarrow> Fault)
       else if before_first CHR ''.'' opc = ''st''
       then (case vs of [Text t [a], Value v] \<Rightarrow> Next 0 (m(a := v)) | _ \<Rightarrow> Fault)
       else Exit m)\<rparr>"

lemma word_machine_loads: "loads_ok word_machine"
proof -
  have st: "''st'' \<in> set REUSE_BARRIERS" by (simp add: REUSE_BARRIERS_def)
  have "pure_value word_machine opc [Value (mask32 x)] = mask32 x" for opc x
    by (simp add: pure_value_def word_machine_def) (simp add: mask32_def)
  then show ?thesis
    using st unfolding loads_ok_def
    by (auto simp: word_machine_def split: if_split_asm list.split_asm operand_value.split_asm list.split operand_value.split)
qed

definition two_loads :: ptx_program where
  "two_loads = \<lparr>kernel_name = ''k'', parameters = [], reg_decls = [], items =
     [Inst (PTXInstruction ''ld.global.u32'' [''%r1'', ''[%rd1]'']), Inst (PTXInstruction ''ld.global.u32'' [''%r2'', ''[%rd1]'']),
      Inst (PTXInstruction ''st.global.u32'' [''[%rd2]'', ''%r2'']), Inst (PTXInstruction ''ret'' [])]\<rparr>"


text \<open>A kernel that overwrites the register of a cached load.\<close>

definition overwritten_load :: ptx_program where
  "overwritten_load = \<lparr>kernel_name = ''k'', parameters = [], reg_decls = [], items =
     [Inst (PTXInstruction ''ld.global.u32'' [''%r1'', ''[%rd1]'']), Inst (PTXInstruction ''mov.u32'' [''%r1'', ''7'']),
      Inst (PTXInstruction ''ld.global.u32'' [''%r2'', ''[%rd1]''])]\<rparr>"

definition final_register :: "'m run_result \<Rightarrow> string \<Rightarrow> int option" where
  "final_register r name = (case r of Finished s \<Rightarrow> Some (env s name) | _ \<Rightarrow> None)"


text \<open>The same for a load that overwrites the address of a cached load.\<close>

definition overwritten_address :: ptx_program where
  "overwritten_address = \<lparr>kernel_name = ''k'', parameters = [], reg_decls = [], items =
     [Inst (PTXInstruction ''ld.global.u32'' [''%r1'', ''[%rd1]'']), Inst (PTXInstruction ''ld.global.u32'' [''%rd1'', ''[%rd2]'']),
      Inst (PTXInstruction ''ld.global.u32'' [''%r2'', ''[%rd1]''])]\<rparr>"

lemma load_reuse_forgets_loaded_address:
  "\<not> kernel_reuse_safe (items overwritten_address) \<and>
   items (fst (the (load_reuse overwritten_address))) ! 2 = Inst (PTXInstruction ''mov.u32'' [''%r2'', ''%r1''])"
  by code_simp

end
