(* ===== verification/Local_Cse.thy ===== *)
theory Local_Cse
  imports Ptx_Sem
begin

text \<open>
  \<open>BasicBlockLocalCSEPass\<close> of \<open>passes/local_scalar.py\<close>: common subexpressions inside scopes of
  unpredicated pure instructions. The expression table has two reverse indexes, by the register that
  holds a result and by the registers an expression reads.
\<close>

section \<open>Aliases\<close>

type_synonym aliases = "(string, string) dict"

function resolve_alias_from :: "aliases \<Rightarrow> string set \<Rightarrow> string \<Rightarrow> string" where
  "resolve_alias_from aliases seen current =
     (case map_of aliases current of
        None \<Rightarrow> current
      | Some succ \<Rightarrow> if current \<in> seen then current else resolve_alias_from aliases (insert current seen) succ)"
  by pat_completeness auto
termination
proof (relation "measure (\<lambda>(aliases, seen, current). card (fst ` set aliases - seen))", goal_cases)
  case (2 aliases seen current succ)
  then have "current \<in> fst ` set aliases - seen" by (force dest: map_of_SomeD)
  then have "fst ` set aliases - insert current seen \<subset> fst ` set aliases - seen" by blast
  then show ?case by (auto intro: psubset_card_mono)
qed simp

declare resolve_alias_from.simps [simp del]

definition resolve_alias :: "string \<Rightarrow> aliases \<Rightarrow> string" where
  "resolve_alias name aliases = resolve_alias_from aliases {} name"

definition rewrite_operand :: "string \<Rightarrow> aliases \<Rightarrow> string" where
  "rewrite_operand operand aliases = sub_regs (\<lambda>m. resolve_alias m aliases) operand"

definition rewrite_sources :: "ptx_instruction \<Rightarrow> aliases \<Rightarrow> ptx_instruction" where
  "rewrite_sources inst aliases =
     (if aliases = [] \<or> pi_operands inst = [] then inst
      else
        (let first_source = (if opcode_base inst \<in> set DESTINATION_BASES then 1 else 0) in
         inst\<lparr>pi_operands := take first_source (pi_operands inst) @
           map (\<lambda>op. rewrite_operand op aliases) (drop first_source (pi_operands inst))\<rparr>))"

fun read_after_redefinition :: "string \<Rightarrow> string \<Rightarrow> bool \<Rightarrow> ptx_instruction list \<Rightarrow> bool" where
  "read_after_redefinition alias target redefined [] = False"
| "read_after_redefinition alias target redefined (inst # rest) =
     (let redefined' = (redefined \<or> destination_register inst = Some target) in
      if redefined' \<and> alias \<in> instruction_read_registers inst then True
      else read_after_redefinition alias target redefined' rest)"

section \<open>Expressions\<close>

type_synonym expression_key = "string \<times> string list"

definition cse_expression_key :: "ptx_instruction \<Rightarrow> expression_key option" where
  "cse_expression_key inst =
     (if pi_predicate inst \<noteq> None \<or> pi_operands inst = [] then None
      else
        (case map_of PURE_RESULT_OPERAND_COUNTS (opcode_base inst) of
           None \<Rightarrow> None
         | Some n \<Rightarrow>
             if length (pi_operands inst) \<noteq> n then None
             else if has_cc inst then None
             else
               (let destination = strip (hd (pi_operands inst)) in
                if \<not> is_reg_token destination \<or> startswith destination ''%p'' then None
                else Some (pi_opcode inst, map strip (tl (pi_operands inst))))))"

definition is_cse_scope_boundary :: "ptx_instruction \<Rightarrow> bool" where
  "is_cse_scope_boundary inst \<longleftrightarrow>
     (if pi_predicate inst \<noteq> None then True
      else if has_cc inst then True
      else if opcode_base inst \<notin> set PURE_RESULT_BASES then True
      else cse_expression_key inst = None)"

definition key_refs :: "expression_key \<Rightarrow> string set" where
  "key_refs key = set (concat (map find_regs (snd key)))"

section \<open>One scope\<close>

record cse_state =
  cs_exprs :: "(expression_key, string) dict"
  cs_result_keys :: "string \<Rightarrow> expression_key set"
  cs_src_keys :: "string \<Rightarrow> expression_key set"
  cs_aliases :: aliases
  cs_replacements :: "(string, string) dict"
  cs_optimized :: "ptx_instruction list"
  cs_removed :: nat

definition cse_init :: cse_state where
  "cse_init = \<lparr>cs_exprs = [], cs_result_keys = (\<lambda>_. {}), cs_src_keys = (\<lambda>_. {}), cs_aliases = [],
     cs_replacements = [], cs_optimized = [], cs_removed = 0\<rparr>"

definition index_key :: "expression_key \<Rightarrow> string \<Rightarrow> cse_state \<Rightarrow> cse_state" where
  "index_key key destination st =
     st\<lparr>cs_exprs := AList.update key destination (cs_exprs st),
        cs_result_keys := (cs_result_keys st)(destination := insert key (cs_result_keys st destination)),
        cs_src_keys := (\<lambda>r. if r \<in> key_refs key then insert key (cs_src_keys st r) else cs_src_keys st r)\<rparr>"

definition unindex_key :: "expression_key \<Rightarrow> cse_state \<Rightarrow> cse_state" where
  "unindex_key key st =
     (case map_of (cs_exprs st) key of
        None \<Rightarrow> st
      | Some destination \<Rightarrow>
          st\<lparr>cs_exprs := AList.delete key (cs_exprs st),
             cs_result_keys := (cs_result_keys st)(destination := cs_result_keys st destination - {key}),
             cs_src_keys := (\<lambda>r. if r \<in> key_refs key then cs_src_keys st r - {key} else cs_src_keys st r)\<rparr>)"

text \<open>The keys are visited in the order of their insertion; Python visits a set.\<close>

definition invalidate :: "string \<Rightarrow> cse_state \<Rightarrow> cse_state" where
  "invalidate destination st =
     (let stale = filter (\<lambda>k. k \<in> cs_result_keys st destination \<or> k \<in> cs_src_keys st destination) (map fst (cs_exprs st));
          st1 = st\<lparr>cs_result_keys := (cs_result_keys st)(destination := {}),
                   cs_src_keys := (cs_src_keys st)(destination := {})\<rparr> in
      (foldl (\<lambda>s k. unindex_key k s) st1 stale)\<lparr>cs_aliases := AList.delete destination (cs_aliases st)\<rparr>)"

definition keep_instruction :: "ptx_instruction \<Rightarrow> cse_state \<Rightarrow> cse_state" where
  "keep_instruction inst st = st\<lparr>cs_optimized := cs_optimized st @ [inst]\<rparr>"

definition cse_step :: "string set \<Rightarrow> ptx_instruction \<Rightarrow> ptx_instruction list \<Rightarrow> cse_state \<Rightarrow> cse_state" where
  "cse_step outside_reads inst future st0 =
     (let rewritten = rewrite_sources inst (cs_aliases st0) in
      case destination_register rewritten of
        None \<Rightarrow> keep_instruction rewritten st0
      | Some destination \<Rightarrow>
          (let st = invalidate destination st0 in
           case cse_expression_key rewritten of
             None \<Rightarrow> keep_instruction rewritten st
           | Some key \<Rightarrow>
               if destination \<in> outside_reads then keep_instruction rewritten st
               else
                 (case map_of (cs_exprs st) key of
                    None \<Rightarrow> keep_instruction rewritten (index_key key destination st)
                  | Some prior \<Rightarrow>
                      (let target = resolve_alias prior (cs_aliases st) in
                       if read_after_redefinition destination target False future
                       then keep_instruction rewritten (index_key key destination (unindex_key key st))
                       else st\<lparr>cs_aliases := AList.update destination target (cs_aliases st),
                               cs_replacements := AList.update destination target (cs_replacements st),
                               cs_removed := Suc (cs_removed st)\<rparr>))))"

fun optimize_scope_from :: "string set \<Rightarrow> ptx_instruction list \<Rightarrow> cse_state \<Rightarrow> cse_state" where
  "optimize_scope_from outside_reads [] st = st"
| "optimize_scope_from outside_reads (inst # future) st =
     optimize_scope_from outside_reads future (cse_step outside_reads inst future st)"

definition optimize_cse_scope :: "ptx_instruction list \<Rightarrow> string set \<Rightarrow> cse_state" where
  "optimize_cse_scope instructions outside_reads = optimize_scope_from outside_reads instructions cse_init"

section \<open>The program\<close>

datatype cse_scope = Single item | Scope "ptx_instruction list"

definition flush_scope :: "ptx_instruction list \<Rightarrow> cse_scope list" where
  "flush_scope current = (if current = [] then [] else [Scope current])"

fun split_cse_scopes_from :: "ptx_instruction list \<Rightarrow> item list \<Rightarrow> cse_scope list" where
  "split_cse_scopes_from current [] = flush_scope current"
| "split_cse_scopes_from current (Label l # its) =
     flush_scope current @ Single (Label l) # split_cse_scopes_from [] its"
| "split_cse_scopes_from current (Inst i # its) =
     (if is_cse_scope_boundary i then flush_scope current @ Single (Inst i) # split_cse_scopes_from [] its
      else split_cse_scopes_from (current @ [i]) its)"

definition split_cse_scopes :: "item list \<Rightarrow> cse_scope list" where
  "split_cse_scopes its = split_cse_scopes_from [] its"

definition outside_reads :: "item list \<Rightarrow> ptx_instruction list \<Rightarrow> string set" where
  "outside_reads its scope =
     Set.filter (\<lambda>r. collect_read_register_counts its r > collect_read_register_counts (map Inst scope) r)
       (collect_read_registers its)"

definition scope_result :: "item list \<Rightarrow> cse_scope \<Rightarrow> item list \<times> (string, string) dict \<times> nat" where
  "scope_result its s =
     (case s of
        Single it \<Rightarrow> ([it], [], 0)
      | Scope insts \<Rightarrow>
          (let st = optimize_cse_scope insts (outside_reads its insts) in
           (map Inst (cs_optimized st), cs_replacements st, cs_removed st)))"

definition local_cse :: "ptx_program \<Rightarrow> ptx_program \<times> pass_result" where
  "local_cse prog =
     (let results = map (scope_result (items prog)) (split_cse_scopes (items prog));
          kept = concat (map fst results);
          replacements = foldl (\<lambda>d r. foldl (\<lambda>d (k, v). AList.update k v d) d (fst (snd r))) [] results;
          removed = int (sum_list (map (\<lambda>r. snd (snd r)) results));
          details = [(''removed_instruction_count'', DInt removed),
                     (''replaced_destination_count'', DInt (int (length replacements))),
                     (''replacements'', DStrs (map (\<lambda>(n, p). n @ '' -> '' @ p) (sort_key fst replacements))),
                     (''transforms_applied'', DInt removed)] in
      if removed = 0 then (prog, unchanged_result details)
      else (rebuild_program prog kept, changed_result details))"

end
