(* ===== verification/Local_Cse_Correct.thy ===== *)
theory Local_Cse_Correct
  imports Local_Cse
begin

text \<open>
  What one step of the elimination relies on: the reverse indexes of the expression table are exact,
  the value of an expression key, and the value an instruction computes from rewritten sources.
\<close>

section \<open>The indexes\<close>

definition indexes_exact :: "cse_state \<Rightarrow> bool" where
  "indexes_exact st \<longleftrightarrow>
     (\<forall>d. cs_result_keys st d = {k. map_of (cs_exprs st) k = Some d}) \<and>
     (\<forall>r. cs_src_keys st r = {k. map_of (cs_exprs st) k \<noteq> None \<and> r \<in> key_refs k})"

lemma index_key_exact:
  assumes "indexes_exact st" "map_of (cs_exprs st) key = None"
  shows "indexes_exact (index_key key d st)"
  using assms by (auto simp: indexes_exact_def index_key_def map_of_update_iff split: if_split_asm)

lemma map_of_delete: "map_of (AList.delete k d) x = (if x = k then None else map_of d x)"
  by (simp add: delete_conv')

lemma unindex_key_exact: "indexes_exact st \<Longrightarrow> indexes_exact (unindex_key key st)"
  by (auto simp: indexes_exact_def unindex_key_def map_of_delete split: option.split)

lemma unindex_key_exprs: "map_of (cs_exprs (unindex_key key st)) x = (if x = key then None else map_of (cs_exprs st) x)"
  by (auto simp: unindex_key_def map_of_delete split: option.split)

lemma unindex_key_rest [simp]:
  "cs_aliases (unindex_key key st) = cs_aliases st" "cs_replacements (unindex_key key st) = cs_replacements st"
  "cs_optimized (unindex_key key st) = cs_optimized st" "cs_removed (unindex_key key st) = cs_removed st"
  by (simp_all add: unindex_key_def split: option.split)

text \<open>While the stale keys are removed, the indexes are exact but for the entry that has been cleared.\<close>

definition exact_but :: "string \<Rightarrow> cse_state \<Rightarrow> bool" where
  "exact_but d st \<longleftrightarrow>
     (\<forall>x. cs_result_keys st x = (if x = d then {} else {k. map_of (cs_exprs st) k = Some x})) \<and>
     (\<forall>r. cs_src_keys st r = (if r = d then {} else {k. map_of (cs_exprs st) k \<noteq> None \<and> r \<in> key_refs k}))"

lemma unindex_key_exact_but: "exact_but d st \<Longrightarrow> exact_but d (unindex_key key st)"
  by (auto simp: exact_but_def unindex_key_def map_of_delete split: option.split)

lemma unindex_all:
  "exact_but d st \<Longrightarrow> exact_but d (foldl (\<lambda>s k. unindex_key k s) st ks) \<and>
    map_of (cs_exprs (foldl (\<lambda>s k. unindex_key k s) st ks)) x = (if x \<in> set ks then None else map_of (cs_exprs st) x)"
  by (induction ks arbitrary: st) (auto simp: unindex_key_exprs unindex_key_exact_but)

lemma unindex_all_rest:
  "cs_replacements (foldl (\<lambda>s k. unindex_key k s) st ks) = cs_replacements st"
  "cs_optimized (foldl (\<lambda>s k. unindex_key k s) st ks) = cs_optimized st"
  "cs_removed (foldl (\<lambda>s k. unindex_key k s) st ks) = cs_removed st"
  by (induction ks arbitrary: st) simp_all

text \<open>Invalidation drops exactly the expressions that the register holds or occurs in.\<close>

lemma invalidate_spec:
  assumes "indexes_exact st"
  shows "indexes_exact (invalidate d st)"
    "map_of (cs_exprs (invalidate d st)) k = (case map_of (cs_exprs st) k of
       None \<Rightarrow> None | Some p \<Rightarrow> if p = d \<or> d \<in> key_refs k then None else Some p)"
    "cs_aliases (invalidate d st) = AList.delete d (cs_aliases st)"
    "cs_replacements (invalidate d st) = cs_replacements st" "cs_optimized (invalidate d st) = cs_optimized st"
    "cs_removed (invalidate d st) = cs_removed st"
proof -
  let ?stale = "filter (\<lambda>k. k \<in> cs_result_keys st d \<or> k \<in> cs_src_keys st d) (map fst (cs_exprs st))"
  let ?st1 = "st\<lparr>cs_result_keys := (cs_result_keys st)(d := {}), cs_src_keys := (cs_src_keys st)(d := {})\<rparr>"
  let ?st2 = "foldl (\<lambda>s k. unindex_key k s) ?st1 ?stale"
  have inv: "invalidate d st = ?st2\<lparr>cs_aliases := AList.delete d (cs_aliases st)\<rparr>"
    by (simp add: invalidate_def Let_def)
  have "exact_but d ?st1" using assms by (simp add: exact_but_def indexes_exact_def)
  note u = unindex_all [OF this, of ?stale]
  have stale: "k \<in> set ?stale \<longleftrightarrow> (\<exists>p. map_of (cs_exprs st) k = Some p \<and> (p = d \<or> d \<in> key_refs k))" for k
  proof -
    have "k \<in> set (map fst (cs_exprs st))" if "map_of (cs_exprs st) k = Some p" for p
      using map_of_SomeD [OF that] by force
    with assms show ?thesis by (auto simp: indexes_exact_def)
  qed
  have e: "map_of (cs_exprs ?st2) k = (case map_of (cs_exprs st) k of
       None \<Rightarrow> None | Some p \<Rightarrow> if p = d \<or> d \<in> key_refs k then None else Some p)" for k
    using u stale [of k] by (auto split: option.split)
  then show "map_of (cs_exprs (invalidate d st)) k = (case map_of (cs_exprs st) k of
       None \<Rightarrow> None | Some p \<Rightarrow> if p = d \<or> d \<in> key_refs k then None else Some p)" by (simp add: inv)
  have "{k. map_of (cs_exprs ?st2) k = Some d} = {}" "{k. map_of (cs_exprs ?st2) k \<noteq> None \<and> d \<in> key_refs k} = {}"
    using e by (auto split: option.split_asm if_split_asm)
  with u show "indexes_exact (invalidate d st)" by (auto simp: inv indexes_exact_def exact_but_def)
  show "cs_aliases (invalidate d st) = AList.delete d (cs_aliases st)"
    "cs_replacements (invalidate d st) = cs_replacements st" "cs_optimized (invalidate d st) = cs_optimized st"
    "cs_removed (invalidate d st) = cs_removed st"
    by (simp_all add: inv unindex_all_rest)
qed

section \<open>Instructions of a scope\<close>

lemma token_chars: "is_reg_token t \<Longrightarrow> list_all (\<lambda>c. \<not> is_space c) t"
proof -
  assume t: "is_reg_token t"
  then obtain k where k: "reg_class t = Some k" "dropWhile is_digit (drop k t) = []"
    by (auto simp: is_reg_token_def match_reg_def split: option.splits)
  have "list_all is_digit (drop k t)" using k(2) by (simp add: list_all_iff)
  then have d: "list_all (\<lambda>c. \<not> is_space c) (drop k t)" using digit_not_space by (auto simp: list_all_iff)
  have "list_all (\<lambda>c. \<not> is_space c) (take k t)"
    using k(1) by (auto simp: reg_class_def startswith_def is_space_def numeral_2_eq_2 numeral_3_eq_3 split: if_split_asm)
  with d show ?thesis by (metis append_take_drop_id list_all_append)
qed

lemma token_strip [simp]: "is_reg_token t \<Longrightarrow> strip t = t"
  using token_chars by (intro strip_no_space) (auto simp: list_all_iff)

definition key_value :: "('f, 'm) ptx_machine \<Rightarrow> (string \<Rightarrow> int) \<Rightarrow> expression_key \<Rightarrow> int" where
  "key_value M e key = pure_value M (fst key) (map (operand_value e) (snd key))"

lemma scope_instruction:
  assumes "\<not> is_cse_scope_boundary i"
  obtains d where "pi_predicate i = None" "destination_register i = Some d" "pure_dest i = Some d" "is_reg_token d"
    "cse_expression_key i = Some (pi_opcode i, map strip (tl (pi_operands i)))" "source_operands i = tl (pi_operands i)"
    "opcode_base i \<in> set DESTINATION_BASES" "pi_operands i \<noteq> []"
    "instruction_read_registers i = set (concat (map find_regs (tl (pi_operands i))))"
proof -
  let ?d = "strip (hd (pi_operands i))"
  obtain key where k: "pi_predicate i = None" "\<not> has_cc i" "opcode_base i \<in> set PURE_RESULT_BASES" "cse_expression_key i = Some key"
    using assms by (auto simp: is_cse_scope_boundary_def split: if_split_asm)
  then obtain n where n: "pi_operands i \<noteq> []" "map_of PURE_RESULT_OPERAND_COUNTS (opcode_base i) = Some n"
    "length (pi_operands i) = n" "is_reg_token ?d" "key = (pi_opcode i, map strip (tl (pi_operands i)))"
    by (auto simp: cse_expression_key_def Let_def split: option.split_asm if_split_asm)
  have b: "opcode_base i \<in> set DESTINATION_BASES" using k(3) by (simp add: DESTINATION_BASES_def)
  have d: "destination_register i = Some ?d"
    using n(1,4) b by (cases "pi_operands i") (simp_all add: destination_register_def)
  moreover have "pure_dest i = Some ?d" using d k(2) n(2,3) by (simp add: pure_dest_def)
  moreover have s: "source_operands i = tl (pi_operands i)" using b n(1) by (simp add: source_operands_def)
  moreover have "instruction_read_registers i = set (concat (map find_regs (tl (pi_operands i))))"
    using k(1) s by (simp add: instruction_read_registers_def predicate_reads_def)
  ultimately show ?thesis using that k(1,4) n(1,4,5) b by blast
qed

lemma key_value_source:
  "\<not> is_cse_scope_boundary i \<Longrightarrow> cse_expression_key i = Some key \<Longrightarrow>
    pure_value M (pi_opcode i) (source_values i e) = key_value M e key"
  by (elim scope_instruction) (auto simp: key_value_def source_values_def comp_def)

lemma key_value_agree:
  assumes "\<And>r. r \<in> key_refs key \<Longrightarrow> e r = e' r"
  shows "key_value M e key = key_value M e' key"
proof -
  have "map (operand_value e) (snd key) = map (operand_value e') (snd key)"
    using assms by (intro map_cong refl operand_value_agree) (auto simp: key_refs_def)
  then show ?thesis unfolding key_value_def by (rule arg_cong)
qed

section \<open>Rewritten sources\<close>

definition simple_operand :: "string \<Rightarrow> bool" where
  "simple_operand op \<longleftrightarrow> is_reg_token op \<or> find_regs op = []"

definition simple_instruction :: "ptx_instruction \<Rightarrow> bool" where
  "simple_instruction i \<longleftrightarrow> list_all simple_operand (tl (pi_operands i))"

definition aliases_tokens :: "aliases \<Rightarrow> bool" where
  "aliases_tokens al \<longleftrightarrow> (\<forall>d t. map_of al d = Some t \<longrightarrow> is_reg_token t)"

lemma resolve_alias_none: "map_of al r = None \<Longrightarrow> resolve_alias r al = r"
  by (simp add: resolve_alias_def resolve_alias_from.simps)

lemma resolve_alias_one: "map_of al r = Some t \<Longrightarrow> map_of al t = None \<Longrightarrow> resolve_alias r al = t"
  by (simp add: resolve_alias_def resolve_alias_from.simps)

lemma rewrite_operand_value:
  assumes "simple_operand op"
    and "\<And>r. r \<in> set (find_regs op) \<Longrightarrow> e r = e' (resolve_alias r al) \<and> is_reg_token (resolve_alias r al)"
  shows "operand_value e' (rewrite_operand op al) = operand_value e op"
    "set (find_regs (rewrite_operand op al)) = (\<lambda>r. resolve_alias r al) ` set (find_regs op)"
proof -
  have "operand_value e' (rewrite_operand op al) = operand_value e op \<and>
    set (find_regs (rewrite_operand op al)) = (\<lambda>r. resolve_alias r al) ` set (find_regs op)"
  proof (cases "is_reg_token op")
    case True
    then have f: "find_regs op = [op]" by (rule find_regs_token)
    with assms(2) have "e op = e' (resolve_alias op al)" "is_reg_token (resolve_alias op al)" by auto
    with True f show ?thesis
      by (simp add: rewrite_operand_def sub_regs_token find_regs_token operand_value_def)
  next
    case False
    with assms(1) have f: "find_regs op = []" by (simp add: simple_operand_def)
    then have "rewrite_operand op al = op" unfolding rewrite_operand_def by (intro sub_regs_id) simp
    with f show ?thesis using operand_value_agree [of op e' e] by simp
  qed
  then show "operand_value e' (rewrite_operand op al) = operand_value e op"
    "set (find_regs (rewrite_operand op al)) = (\<lambda>r. resolve_alias r al) ` set (find_regs op)" by auto
qed

lemma rewrite_sources_Nil: "rewrite_operand op [] = op"
  unfolding rewrite_operand_def by (intro sub_regs_id resolve_alias_none) simp

lemma rewrite_sources_scope:
  assumes "\<not> is_cse_scope_boundary i"
  shows "rewrite_sources i al = i\<lparr>pi_operands := hd (pi_operands i) # map (\<lambda>op. rewrite_operand op al) (tl (pi_operands i))\<rparr>"
  using assms
proof (rule scope_instruction)
  assume "opcode_base i \<in> set DESTINATION_BASES" "pi_operands i \<noteq> []"
  then show ?thesis
    by (cases "pi_operands i") (auto simp: rewrite_sources_def Let_def rewrite_sources_Nil)
qed

lemma rewritten_instruction:
  assumes nb: "\<not> is_cse_scope_boundary i" and s: "simple_instruction i"
    and al: "\<And>r. r \<in> instruction_read_registers i \<Longrightarrow> e r = e' (resolve_alias r al) \<and> is_reg_token (resolve_alias r al)"
  defines "j \<equiv> rewrite_sources i al"
  shows "\<not> is_cse_scope_boundary j" "destination_register j = destination_register i" "pi_predicate j = None"
    "\<exists>key. cse_expression_key j = Some key \<and> key_value M e' key = pure_value M (pi_opcode i) (source_values i e) \<and>
      key_refs key = (\<lambda>r. resolve_alias r al) ` instruction_read_registers i"
proof -
  let ?ops = "map (\<lambda>op. rewrite_operand op al) (tl (pi_operands i))"
  have j: "j = i\<lparr>pi_operands := hd (pi_operands i) # ?ops\<rparr>" unfolding j_def by (rule rewrite_sources_scope [OF nb])
  obtain d where D: "pi_predicate i = None" "destination_register i = Some d" "pure_dest i = Some d" "is_reg_token d"
    "cse_expression_key i = Some (pi_opcode i, map strip (tl (pi_operands i)))" "source_operands i = tl (pi_operands i)"
    "opcode_base i \<in> set DESTINATION_BASES" "pi_operands i \<noteq> []"
    "instruction_read_registers i = set (concat (map find_regs (tl (pi_operands i))))"
    using nb by (rule scope_instruction)
  have same: "opcode_base j = opcode_base i" "opcode_parts j = opcode_parts i" "has_cc j = has_cc i"
    "pi_opcode j = pi_opcode i" "length (pi_operands j) = length (pi_operands i)" "hd (pi_operands j) = hd (pi_operands i)"
    "pi_operands j \<noteq> []"
    using D(8) by (simp_all add: j opcode_base_def opcode_parts_def has_cc_def)
  show "pi_predicate j = None" by (simp add: j D(1))
  then show dest: "destination_register j = destination_register i"
    using same(1,6,7) D(8) by (cases "pi_operands i"; cases "pi_operands j") (auto simp: destination_register_def)
  have key: "cse_expression_key j = Some (pi_opcode i, map strip ?ops)"
    using D(5) same \<open>pi_predicate j = None\<close>
    by (auto simp: cse_expression_key_def Let_def j D(1) split: option.split_asm if_split_asm)
  then show "\<not> is_cse_scope_boundary j"
    using nb same D(1) \<open>pi_predicate j = None\<close> by (auto simp: is_cse_scope_boundary_def split: if_split_asm)
  have op: "operand_value e' (rewrite_operand op al) = operand_value e op \<and>
      set (find_regs (rewrite_operand op al)) = (\<lambda>r. resolve_alias r al) ` set (find_regs op)"
    if "op \<in> set (tl (pi_operands i))" for op
    using rewrite_operand_value [of op e e' al] s al D(9) that by (auto simp: simple_instruction_def list_all_iff)
  have "map (operand_value e') (map strip ?ops) = map (operand_value e) (tl (pi_operands i))"
    using op by simp
  then have "key_value M e' (pi_opcode i, map strip ?ops) = pure_value M (pi_opcode i) (source_values i e)"
    unfolding key_value_def source_values_def D(6) fst_conv snd_conv by (rule arg_cong)
  moreover have "key_refs (pi_opcode i, map strip ?ops) = (\<lambda>r. resolve_alias r al) ` instruction_read_registers i"
    unfolding key_refs_def snd_conv D(9) using op by (auto simp: image_UN)
  ultimately show "\<exists>key. cse_expression_key j = Some key \<and>
      key_value M e' key = pure_value M (pi_opcode i) (source_values i e) \<and>
      key_refs key = (\<lambda>r. resolve_alias r al) ` instruction_read_registers i"
    using key by blast
qed

end
