(* ===== verification/Local_Cse_Sim.thy ===== *)
theory Local_Cse_Sim
  imports Local_Cse_Correct
begin

text \<open>
  A kernel runs the same without its repeated expressions, except in the registers the pass has
  replaced, if no replaced register is read in its scope before it is defined there and no indexed
  instruction reads its own destination.
\<close>

section \<open>One scope\<close>

text \<open>The registers after straight-line pure code.\<close>

definition pure_step :: "('f, 'm) ptx_machine \<Rightarrow> (string \<Rightarrow> int) \<Rightarrow> ptx_instruction \<Rightarrow> string \<Rightarrow> int" where
  "pure_step M e i = set_dest (destination_register i) (pure_value M (pi_opcode i) (source_values i e)) e"

definition run_pure :: "('f, 'm) ptx_machine \<Rightarrow> ptx_instruction list \<Rightarrow> (string \<Rightarrow> int) \<Rightarrow> string \<Rightarrow> int" where
  "run_pure M insts e = foldl (pure_step M) e insts"

lemma run_pure_simps [simp]:
  "run_pure M [] e = e"
  "run_pure M (i # is) e = run_pure M is (pure_step M e i)"
  "run_pure M (is @ js) e = run_pure M js (run_pure M is e)"
  by (simp_all add: run_pure_def)

lemma exec_pure:
  "list_all (\<lambda>i. \<not> is_cse_scope_boundary i) is \<Longrightarrow>
    exec M p k (map Inst is @ rest) st = exec M p k rest \<lparr>env = run_pure M is (env st), pmemory = pmemory st\<rparr>"
proof (induction "is" arbitrary: st)
  case (Cons i is')
  then have "\<not> is_cse_scope_boundary i" by simp
  then show ?case
  proof (rule scope_instruction)
    fix d assume "pi_predicate i = None" "destination_register i = Some d" "pure_dest i = Some d"
    with Cons show ?thesis
      by (simp add: guard_holds_def predicate_reads_def inst_outcome_def pure_step_def)
  qed
next
  case Nil
  then show ?case by (cases st) simp
qed

text \<open>
  The registers \<open>e\<close> of the original scope and \<open>e'\<close> of the optimized one: \<open>defined\<close> are the registers
  the scope has written so far, \<open>rest\<close> the instructions to come.
\<close>

definition cse_rel ::
    "('f, 'm) ptx_machine \<Rightarrow> string set \<Rightarrow> string set \<Rightarrow> ptx_instruction list \<Rightarrow> (string \<Rightarrow> int) \<Rightarrow> (string \<Rightarrow> int) \<Rightarrow>
     (expression_key \<rightharpoonup> string) \<Rightarrow> (string \<rightharpoonup> string) \<Rightarrow> bool" where
  "cse_rel M D defined rest e e' exprs al \<longleftrightarrow>
     (\<forall>r. r \<notin> D \<or> r \<in> defined \<longrightarrow> al r = None \<longrightarrow> e r = e' r) \<and>
     (\<forall>a t. al a = Some t \<longrightarrow> a \<in> D \<and> is_reg_token t \<and>
        ((\<exists>i \<in> set rest. a \<in> instruction_read_registers i) \<longrightarrow>
           e a = e' t \<and> al t = None \<and> \<not> read_after_redefinition a t False rest)) \<and>
     (\<forall>k p. exprs k = Some p \<longrightarrow> is_reg_token p \<and> al p = None \<and> e' p = key_value M e' k)"

lemma cse_relD:
  assumes "cse_rel M D defined rest e e' exprs al"
  shows "r \<notin> D \<or> r \<in> defined \<Longrightarrow> al r = None \<Longrightarrow> e r = e' r"
    "al a = Some t \<Longrightarrow> a \<in> D" "al a = Some t \<Longrightarrow> is_reg_token t"
    "al a = Some t \<Longrightarrow> i \<in> set rest \<Longrightarrow> a \<in> instruction_read_registers i \<Longrightarrow> e a = e' t"
    "al a = Some t \<Longrightarrow> i \<in> set rest \<Longrightarrow> a \<in> instruction_read_registers i \<Longrightarrow> al t = None"
    "al a = Some t \<Longrightarrow> i \<in> set rest \<Longrightarrow> a \<in> instruction_read_registers i \<Longrightarrow> \<not> read_after_redefinition a t False rest"
    "exprs k = Some p \<Longrightarrow> is_reg_token p" "exprs k = Some p \<Longrightarrow> al p = None" "exprs k = Some p \<Longrightarrow> e' p = key_value M e' k"
  using assms unfolding cse_rel_def by blast+

lemma read_after_True: "\<not> read_after_redefinition a t True rest \<Longrightarrow> i \<in> set rest \<Longrightarrow> a \<notin> instruction_read_registers i"
  by (induction rest) (auto simp: Let_def split: if_split_asm)

text \<open>An alias that is read later keeps its target through the next instruction.\<close>

lemma alias_kept:
  assumes R: "cse_rel M D defined (i # rest) e e' exprs al" and a: "al a = Some t"
    and later: "j \<in> set rest" "a \<in> instruction_read_registers j"
  shows "e a = e' t" "al t = None" "destination_register i \<noteq> Some t" "\<not> read_after_redefinition a t False rest"
proof -
  have j: "j \<in> set (i # rest)" using later(1) by simp
  show "e a = e' t" "al t = None" using cse_relD(4,5) [OF R a j later(2)] by simp_all
  have n: "\<not> read_after_redefinition a t False (i # rest)" using cse_relD(6) [OF R a j later(2)] by simp
  then have "\<not> read_after_redefinition a t (destination_register i = Some t) rest"
    by (auto simp: Let_def split: if_split_asm)
  with later show "destination_register i \<noteq> Some t" "\<not> read_after_redefinition a t False rest"
    using read_after_True by (cases "destination_register i = Some t"; fastforce)+
qed

text \<open>A register that the instruction reads has its value under its new name.\<close>

lemma read_resolved:
  assumes R: "cse_rel M D defined (i # rest) e e' exprs (map_of al)" and r: "r \<in> instruction_read_registers i"
    and d: "r \<notin> D \<or> r \<in> defined" and tok: "is_reg_token r"
  shows "e r = e' (resolve_alias r al)" "is_reg_token (resolve_alias r al)"
    "destination_register i = Some x \<Longrightarrow> x \<noteq> r \<Longrightarrow> resolve_alias r al \<noteq> x"
proof -
  have "e r = e' (resolve_alias r al) \<and> is_reg_token (resolve_alias r al) \<and>
    (destination_register i = Some x \<longrightarrow> x \<noteq> r \<longrightarrow> resolve_alias r al \<noteq> x)"
  proof (cases "map_of al r")
    case None
    with cse_relD(1) [OF R, of r] d tok show ?thesis by (simp add: resolve_alias_none)
  next
    case (Some t)
    then have t: "e r = e' t" "map_of al t = None" "is_reg_token t" "\<not> read_after_redefinition r t False (i # rest)"
      using cse_relD(3) [OF R Some] cse_relD(4-6) [OF R Some, of i] r by simp_all
    then have "destination_register i \<noteq> Some t" using r by (auto simp: Let_def split: if_split_asm)
    with t Some show ?thesis by (auto simp: resolve_alias_one)
  qed
  then show "e r = e' (resolve_alias r al)" "is_reg_token (resolve_alias r al)"
    "destination_register i = Some x \<Longrightarrow> x \<noteq> r \<Longrightarrow> resolve_alias r al \<noteq> x" by auto
qed

text \<open>The instruction is kept, with or without an entry of the table for its result.\<close>

lemma cse_rel_keep:
  assumes R: "cse_rel M D defined (i # rest) e e' exprs al" and d: "destination_register i = Some d" "is_reg_token d"
    and ex: "\<And>k p. exprs1 k = Some p \<Longrightarrow>
      exprs k = Some p \<and> p \<noteq> d \<and> d \<notin> key_refs k \<or> p = d \<and> d \<notin> key_refs k \<and> key_value M e' k = v"
  shows "cse_rel M D (insert d defined) rest (e(d := v)) (e'(d := v)) exprs1 (al(d := None))"
  unfolding cse_rel_def
proof (intro conjI allI impI)
  fix r assume "r \<notin> D \<or> r \<in> insert d defined" "(al(d := None)) r = None"
  then show "(e(d := v)) r = (e'(d := v)) r" using cse_relD(1) [OF R, of r] by auto
next
  fix a t assume "(al(d := None)) a = Some t"
  then have a: "a \<noteq> d" "al a = Some t" by (auto split: if_split_asm)
  show "a \<in> D" "is_reg_token t" using cse_relD(2,3) [OF R a(2)] .
  assume "\<exists>j \<in> set rest. a \<in> instruction_read_registers j"
  then obtain j where "j \<in> set rest" "a \<in> instruction_read_registers j" by blast
  note K = alias_kept [OF R a(2) this]
  have "t \<noteq> d" using K(3) d(1) by simp
  with K a(1) show "(e(d := v)) a = (e'(d := v)) t" "(al(d := None)) t = None" "\<not> read_after_redefinition a t False rest"
    by simp_all
next
  fix k p assume "exprs1 k = Some p"
  note c = ex [OF this]
  have kv: "key_value M (e'(d := v)) k = key_value M e' k"
    using c by (intro key_value_agree) auto
  show "is_reg_token p" using c d(2) cse_relD(7) [OF R, of k p] by blast
  show "(al(d := None)) p = None" using c cse_relD(8) [OF R, of k p] by auto
  show "(e'(d := v)) p = key_value M (e'(d := v)) k" using c cse_relD(9) [OF R, of k p] unfolding kv by auto
qed

text \<open>The instruction is removed and its result aliased to the register that holds it.\<close>

lemma cse_rel_alias:
  assumes R: "cse_rel M D defined (i # rest) e e' exprs al" and d: "destination_register i = Some d" "d \<in> D"
    and ex: "\<And>k p. exprs1 k = Some p \<Longrightarrow> exprs k = Some p \<and> p \<noteq> d"
    and t: "exprs1 key = Some t" "v = key_value M e' key" "\<not> read_after_redefinition d t False rest"
  shows "cse_rel M D (insert d defined) rest (e(d := v)) e' exprs1 (al(d \<mapsto> t))"
  unfolding cse_rel_def
proof (intro conjI allI impI)
  fix r assume "r \<notin> D \<or> r \<in> insert d defined" "(al(d \<mapsto> t)) r = None"
  then show "(e(d := v)) r = e' r" using cse_relD(1) [OF R, of r] by (auto split: if_split_asm)
next
  have key: "exprs key = Some t" "t \<noteq> d" using ex [OF t(1)] by simp_all
  fix a u assume a: "(al(d \<mapsto> t)) a = Some u"
  show "a \<in> D" using a d(2) cse_relD(2) [OF R] by (auto split: if_split_asm)
  show "is_reg_token u" using a key cse_relD(3,7) [OF R] by (auto split: if_split_asm)
  assume "\<exists>j \<in> set rest. a \<in> instruction_read_registers j"
  then obtain j where j: "j \<in> set rest" "a \<in> instruction_read_registers j" by blast
  have "(e(d := v)) a = e' u \<and> (al(d \<mapsto> t)) u = None \<and> \<not> read_after_redefinition a u False rest"
  proof (cases "a = d")
    case True
    with a have "u = t" by simp
    then show ?thesis using True t key cse_relD(8,9) [OF R key(1)] by simp
  next
    case False
    with a have "al a = Some u" by simp
    note K = alias_kept [OF R this j]
    have "u \<noteq> d" using K(3) d(1) by simp
    with K False show ?thesis by simp
  qed
  then show "(e(d := v)) a = e' u" "(al(d \<mapsto> t)) u = None" "\<not> read_after_redefinition a u False rest" by blast+
next
  fix k p assume "exprs1 k = Some p"
  note c = ex [OF this]
  then show "is_reg_token p" "(al(d \<mapsto> t)) p = None" "e' p = key_value M e' k"
    using cse_relD(7-9) [OF R, of k p] by auto
qed

section \<open>Every instruction of a scope\<close>

definition scope_safe :: "string set \<Rightarrow> string set \<Rightarrow> ptx_instruction \<Rightarrow> bool" where
  "scope_safe outside D i \<longleftrightarrow> \<not> is_cse_scope_boundary i \<and> simple_instruction i \<and>
     (case destination_register i of None \<Rightarrow> True | Some d \<Rightarrow> d \<in> instruction_read_registers i \<longrightarrow> d \<in> outside)"

text \<open>A replaced register is defined in its scope before it is read there.\<close>

fun defined_before_read :: "string set \<Rightarrow> string set \<Rightarrow> ptx_instruction list \<Rightarrow> bool" where
  "defined_before_read D defined [] \<longleftrightarrow> True"
| "defined_before_read D defined (i # is) \<longleftrightarrow>
     (\<forall>r \<in> instruction_read_registers i. r \<in> D \<longrightarrow> r \<in> defined) \<and>
     defined_before_read D (defined \<union> set_option (destination_register i)) is"

lemma rewrite_opcode [simp]: "pi_opcode (rewrite_sources i al) = pi_opcode i"
  by (simp add: rewrite_sources_def Let_def)

lemma simple_reads:
  "\<not> is_cse_scope_boundary i \<Longrightarrow> simple_instruction i \<Longrightarrow> r \<in> instruction_read_registers i \<Longrightarrow> is_reg_token r"
proof (erule scope_instruction)
  assume s: "simple_instruction i" and r: "r \<in> instruction_read_registers i"
    "instruction_read_registers i = set (concat (map find_regs (tl (pi_operands i))))"
  then obtain op where op: "op \<in> set (tl (pi_operands i))" "r \<in> set (find_regs op)" by auto
  with s have "is_reg_token op" by (auto simp: simple_instruction_def simple_operand_def list_all_iff)
  with op(2) find_regs_token [of op] show ?thesis by simp
qed

definition cse_state_rel ::
    "('f, 'm) ptx_machine \<Rightarrow> string set \<Rightarrow> string set \<Rightarrow> ptx_instruction list \<Rightarrow> (string \<Rightarrow> int) \<Rightarrow> (string \<Rightarrow> int) \<Rightarrow>
     cse_state \<Rightarrow> bool" where
  "cse_state_rel M D defined rest e e0 st \<longleftrightarrow>
     indexes_exact st \<and> list_all (\<lambda>i. \<not> is_cse_scope_boundary i) (cs_optimized st) \<and>
     cse_rel M D defined rest e (run_pure M (cs_optimized st) e0) (map_of (cs_exprs st)) (map_of (cs_aliases st))"

lemma keep_instruction_simps [simp]:
  "cs_exprs (keep_instruction j st) = cs_exprs st" "cs_aliases (keep_instruction j st) = cs_aliases st"
  "cs_optimized (keep_instruction j st) = cs_optimized st @ [j]" "indexes_exact (keep_instruction j st) = indexes_exact st"
  "cs_replacements (keep_instruction j st) = cs_replacements st"
  by (simp_all add: keep_instruction_def indexes_exact_def)

lemma index_key_simps [simp]:
  "map_of (cs_exprs (index_key key d st)) k = (if k = key then Some d else map_of (cs_exprs st) k)"
  "cs_aliases (index_key key d st) = cs_aliases st" "cs_optimized (index_key key d st) = cs_optimized st"
  "cs_replacements (index_key key d st) = cs_replacements st"
  by (simp_all add: index_key_def update_conv')

text \<open>The three ways a step treats an instruction, as changes of the table, the aliases and the code.\<close>

lemma cse_step_cases:
  fixes outside :: "string set" and rest :: "ptx_instruction list"
  assumes d: "destination_register (rewrite_sources i (cs_aliases st)) = Some d"
    and key: "cse_expression_key (rewrite_sources i (cs_aliases st)) = Some key" and x: "indexes_exact st"
  defines "j \<equiv> rewrite_sources i (cs_aliases st)" and "st' \<equiv> cse_step outside i rest st"
  obtains
    (outside) "d \<in> outside" "indexes_exact st'" "cs_optimized st' = cs_optimized st @ [j]"
      "cs_aliases st' = AList.delete d (cs_aliases st)"
      "\<And>k p. map_of (cs_exprs st') k = Some p \<Longrightarrow> map_of (cs_exprs st) k = Some p \<and> p \<noteq> d \<and> d \<notin> key_refs k"
  | (keep) "d \<notin> outside" "indexes_exact st'" "cs_optimized st' = cs_optimized st @ [j]"
      "cs_aliases st' = AList.delete d (cs_aliases st)"
      "\<And>k p. map_of (cs_exprs st') k = Some p \<Longrightarrow>
        map_of (cs_exprs st) k = Some p \<and> p \<noteq> d \<and> d \<notin> key_refs k \<or> p = d \<and> k = key"
  | (reused) t where "d \<notin> outside" "indexes_exact st'" "cs_optimized st' = cs_optimized st" "cs_replacements st' = AList.update d t (cs_replacements st)"
      "cs_aliases st' = AList.update d t (AList.delete d (cs_aliases st))" "\<not> read_after_redefinition d t False rest"
      "\<exists>p. map_of (cs_exprs st') key = Some p \<and> t = resolve_alias p (AList.delete d (cs_aliases st))"
      "\<And>k p. map_of (cs_exprs st') k = Some p \<Longrightarrow> map_of (cs_exprs st) k = Some p \<and> p \<noteq> d \<and> d \<notin> key_refs k"
proof -
  let ?inv = "invalidate d st"
  note I = invalidate_spec [OF x, of d]
  have kept: "map_of (cs_exprs st) k = Some p \<and> p \<noteq> d \<and> d \<notin> key_refs k" if "map_of (cs_exprs ?inv) k = Some p" for k p
    using that unfolding I(2) by (auto split: option.split_asm if_split_asm)
  consider (out) "d \<in> outside" | (new) "d \<notin> outside" "map_of (cs_exprs ?inv) key = None"
    | (again) p where "d \<notin> outside" "map_of (cs_exprs ?inv) key = Some p" by (cases "map_of (cs_exprs ?inv) key") auto
  then show thesis
  proof cases
    case out
    have "st' = keep_instruction j ?inv" using d key out by (simp add: st'_def cse_step_def j_def)
    then show thesis using out kept by (intro outside) (simp_all only: keep_instruction_simps I(1,3,5) simp_thms)
  next
    case new
    have st': "st' = keep_instruction j (index_key key d ?inv)" using d key new by (simp add: st'_def cse_step_def j_def)
    show thesis
    proof (rule keep)
      show "indexes_exact st'" using index_key_exact [OF I(1) new(2), of d] by (simp only: st' keep_instruction_simps)
      show "map_of (cs_exprs st) k = Some p \<and> p \<noteq> d \<and> d \<notin> key_refs k \<or> p = d \<and> k = key"
        if "map_of (cs_exprs st') k = Some p" for k p
        using that kept [of k p] by (auto simp only: st' keep_instruction_simps index_key_simps split: if_split_asm)
    qed (simp_all only: st' new(1) keep_instruction_simps index_key_simps I(3,5) simp_thms)
  next
    case again
    let ?t = "resolve_alias p (cs_aliases ?inv)"
    show thesis
    proof (cases "read_after_redefinition d ?t False rest")
      case True
      let ?un = "unindex_key key ?inv"
      have st': "st' = keep_instruction j (index_key key d ?un)"
        using d key again True by (simp add: st'_def cse_step_def j_def Let_def)
      have un: "indexes_exact ?un" "map_of (cs_exprs ?un) key = None"
        using unindex_key_exact [OF I(1)] by (simp_all add: unindex_key_exprs)
      show thesis
      proof (rule keep)
        show "indexes_exact st'" using index_key_exact [OF un, of d] by (simp only: st' keep_instruction_simps)
        show "map_of (cs_exprs st) k = Some p \<and> p \<noteq> d \<and> d \<notin> key_refs k \<or> p = d \<and> k = key"
          if "map_of (cs_exprs st') k = Some p" for k p
          using that kept [of k p] by (auto simp only: st' keep_instruction_simps index_key_simps unindex_key_exprs split: if_split_asm)
      qed (simp_all only: st' again(1) keep_instruction_simps index_key_simps unindex_key_rest I(3,5) simp_thms)
    next
      case False
      have st': "st' = ?inv\<lparr>cs_aliases := AList.update d ?t (cs_aliases ?inv),
          cs_replacements := AList.update d ?t (cs_replacements ?inv), cs_removed := Suc (cs_removed ?inv)\<rparr>"
        using d key again False by (simp add: st'_def cse_step_def j_def Let_def)
      show thesis
      proof (rule reused)
        show "indexes_exact st'" using I(1) by (simp add: st' indexes_exact_def)
        show "\<not> read_after_redefinition d ?t False rest" by (rule False)
        show "\<exists>q. map_of (cs_exprs st') key = Some q \<and> ?t = resolve_alias q (AList.delete d (cs_aliases st))"
          using again(2) I(3) by (simp add: st')
        show "map_of (cs_exprs st) k = Some q \<and> q \<noteq> d \<and> d \<notin> key_refs k" if "map_of (cs_exprs st') k = Some q" for k q
          using that kept [of k q] by (simp add: st')
      qed (simp_all add: st' again(1) I(3-5))
    qed
  qed
qed

lemma cse_step_rel:
  assumes R: "cse_state_rel M D defined (i # rest) e e0 st" and safe: "scope_safe outside D i"
    and reads: "\<forall>r \<in> instruction_read_registers i. r \<in> D \<longrightarrow> r \<in> defined"
    and repl: "fst ` set (cs_replacements (cse_step outside i rest st)) \<subseteq> D"
  shows "cse_state_rel M D (defined \<union> set_option (destination_register i)) rest (pure_step M e i) e0
    (cse_step outside i rest st)"
proof -
  let ?al = "cs_aliases st" and ?j = "rewrite_sources i (cs_aliases st)" and ?st = "cse_step outside i rest st"
  let ?e' = "run_pure M (cs_optimized st) e0"
  have nb: "\<not> is_cse_scope_boundary i" and si: "simple_instruction i" using safe by (simp_all add: scope_safe_def)
  have x: "indexes_exact st" and opt: "list_all (\<lambda>i. \<not> is_cse_scope_boundary i) (cs_optimized st)"
    and r: "cse_rel M D defined (i # rest) e ?e' (map_of (cs_exprs st)) (map_of ?al)"
    using R by (simp_all add: cse_state_rel_def)
  obtain d where d: "destination_register i = Some d" "is_reg_token d" using nb by (rule scope_instruction)
  have res: "e r = ?e' (resolve_alias r ?al) \<and> is_reg_token (resolve_alias r ?al)" if "r \<in> instruction_read_registers i" for r
    using read_resolved(1,2) [OF r that _ simple_reads [OF nb si that]] reads that by blast
  note W = rewritten_instruction [OF nb si res]
  obtain key where key: "cse_expression_key ?j = Some key" "key_value M ?e' key = pure_value M (pi_opcode i) (source_values i e)"
    "key_refs key = (\<lambda>r. resolve_alias r ?al) ` instruction_read_registers i" using W(4) by blast
  have dj: "destination_register ?j = Some d" using W(2) d(1) by simp
  let ?v = "pure_value M (pi_opcode i) (source_values i e)"
  have step: "pure_step M e i = e(d := ?v)" using d(1) by (simp add: pure_step_def set_dest_def)
  have step': "pure_step M ?e' ?j = ?e'(d := ?v)"
    using key_value_source [OF W(1) key(1), of M ?e'] key(2) dj by (simp add: pure_step_def set_dest_def rewrite_opcode)
  have dk: "d \<notin> key_refs key" if "d \<notin> outside"
  proof
    assume "d \<in> key_refs key"
    then obtain r where r': "r \<in> instruction_read_registers i" "d = resolve_alias r ?al" using key(3) by blast
    have "d \<notin> instruction_read_registers i" using safe that d(1) by (auto simp: scope_safe_def)
    with r'(1) have "d \<noteq> r" by blast
    with r' read_resolved(3) [OF r r'(1) _ simple_reads [OF nb si r'(1)] d(1)] reads show False by blast
  qed
  have del: "map_of (AList.delete d ?al) = (map_of ?al)(d := None)" by (simp add: fun_eq_iff map_of_delete)
  from dj key(1) x show ?thesis
  proof (cases rule: cse_step_cases [where outside = outside and rest = rest])
    case outside
    have "cse_rel M D (insert d defined) rest (e(d := ?v)) (?e'(d := ?v)) (map_of (cs_exprs ?st)) ((map_of ?al)(d := None))"
      using outside(5) by (intro cse_rel_keep [OF r d]) blast
    with outside(2-4) opt W(1) d(1) step step' show ?thesis by (simp add: cse_state_rel_def del)
  next
    case keep
    have "cse_rel M D (insert d defined) rest (e(d := ?v)) (?e'(d := ?v)) (map_of (cs_exprs ?st)) ((map_of ?al)(d := None))"
      using keep(5) dk [OF keep(1)] key(2) by (intro cse_rel_keep [OF r d]) blast
    with keep(2-4) opt W(1) d(1) step step' show ?thesis by (simp add: cse_state_rel_def del)
  next
    case (reused t)
    from reused(7) obtain p where p: "map_of (cs_exprs ?st) key = Some p" "t = resolve_alias p (AList.delete d ?al)" by blast
    from reused(8) [OF p(1)] have k: "map_of (cs_exprs st) key = Some p" "p \<noteq> d" by simp_all
    have t: "t = p" using cse_relD(8) [OF r k(1)] p(2) by (simp add: resolve_alias_none del)
    have "d \<in> D" using repl reused(4) by (auto simp: dom_update)
    then have "cse_rel M D (insert d defined) rest (e(d := ?v)) ?e' (map_of (cs_exprs ?st)) ((map_of ?al)(d \<mapsto> p))"
      using reused(6,8) p(1) key(2) t by (intro cse_rel_alias [OF r d(1)]) auto
    with reused(2,3,5) opt d(1) step t show ?thesis by (simp add: cse_state_rel_def del update_conv')
  qed
qed

lemma cse_step_replaces: "fst ` set (cs_replacements st) \<subseteq> fst ` set (cs_replacements (cse_step outside i rest st))"
  by (auto simp: cse_step_def Let_def dom_update index_key_def invalidate_def unindex_all_rest split: option.split)

lemma scope_replaces: "fst ` set (cs_replacements st) \<subseteq> fst ` set (cs_replacements (optimize_scope_from outside is st))"
proof (induction "is" arbitrary: st)
  case (Cons i "is")
  show ?case using cse_step_replaces [of st outside i "is"] Cons.IH [of "cse_step outside i is st"] by simp
qed simp

lemma optimize_scope_rel:
  "cse_state_rel M D defined is e e0 st \<Longrightarrow> list_all (scope_safe outside D) is \<Longrightarrow> defined_before_read D defined is \<Longrightarrow>
    fst ` set (cs_replacements (optimize_scope_from outside is st)) \<subseteq> D \<Longrightarrow>
    \<exists>defined'. cse_state_rel M D defined' [] (run_pure M is e) e0 (optimize_scope_from outside is st)"
proof (induction "is" arbitrary: defined e st)
  case (Cons i "is")
  let ?st = "cse_step outside i is st"
  have "fst ` set (cs_replacements ?st) \<subseteq> D" using Cons.prems(4) scope_replaces [of ?st outside "is"] by simp
  with Cons.prems have "cse_state_rel M D (defined \<union> set_option (destination_register i)) is (pure_step M e i) e0 ?st"
    by (intro cse_step_rel) simp_all
  from Cons.IH [OF this] Cons.prems show ?case by simp
qed auto

text \<open>An optimized scope leaves the same registers, except the replaced ones.\<close>

lemma optimize_scope_correct:
  assumes a: "agree_off D e e'" and s: "list_all (scope_safe outside D) is" "defined_before_read D {} is"
    and r: "fst ` set (cs_replacements (optimize_cse_scope is outside)) \<subseteq> D"
  shows "agree_off D (run_pure M is e) (run_pure M (cs_optimized (optimize_cse_scope is outside)) e')"
    "list_all (\<lambda>i. \<not> is_cse_scope_boundary i) (cs_optimized (optimize_cse_scope is outside))"
    "indexes_exact (optimize_cse_scope is outside)"
proof -
  have "cse_state_rel M D {} is e e' cse_init"
    using a by (simp add: cse_state_rel_def cse_init_def indexes_exact_def cse_rel_def agree_off_def)
  from optimize_scope_rel [OF this s r[unfolded optimize_cse_scope_def]]
  obtain defined' where R: "cse_state_rel M D defined' [] (run_pure M is e) e' (optimize_cse_scope is outside)"
    unfolding optimize_cse_scope_def by blast
  then show "list_all (\<lambda>i. \<not> is_cse_scope_boundary i) (cs_optimized (optimize_cse_scope is outside))"
    "indexes_exact (optimize_cse_scope is outside)" by (simp_all add: cse_state_rel_def)
  let ?st = "optimize_cse_scope is outside"
  have rel: "cse_rel M D defined' [] (run_pure M is e) (run_pure M (cs_optimized ?st) e') (map_of (cs_exprs ?st)) (map_of (cs_aliases ?st))"
    using R by (simp add: cse_state_rel_def)
  have "run_pure M is e r = run_pure M (cs_optimized ?st) e' r" if "r \<notin> D" for r
    using cse_relD(1) [OF rel] cse_relD(2) [OF rel] that by (metis option.exhaust)
  then show "agree_off D (run_pure M is e) (run_pure M (cs_optimized ?st) e')" by (simp add: agree_off_def)
qed

section \<open>The kernel\<close>

fun scope_items :: "cse_scope \<Rightarrow> item list" where
  "scope_items (Single it) = [it]"
| "scope_items (Scope is) = map Inst is"

definition flat :: "cse_scope list \<Rightarrow> item list" where
  "flat ss = concat (map scope_items ss)"

definition optimized :: "item list \<Rightarrow> cse_scope list \<Rightarrow> item list" where
  "optimized p ss = concat (map (\<lambda>s. fst (scope_result p s)) ss)"

lemma flat_simps [simp]: "flat [] = []" "flat (s # ss) = scope_items s @ flat ss" "flat (ss @ ss') = flat ss @ flat ss'"
  by (simp_all add: flat_def)

lemma optimized_simps [simp]:
  "optimized p [] = []" "optimized p (s # ss) = fst (scope_result p s) @ optimized p ss"
  "optimized p (ss @ ss') = optimized p ss @ optimized p ss'"
  by (simp_all add: optimized_def)

lemma flat_flush [simp]: "flat (flush_scope is) = map Inst is"
  by (simp add: flush_scope_def)

lemma flat_split: "flat (split_cse_scopes_from cur its) = map Inst cur @ its"
  by (induction cur its rule: split_cse_scopes_from.induct) simp_all

lemma after_label_insts [simp]: "after_label (map Inst is @ its) l = after_label its l"
  by (induction "is") (auto split: option.split)

lemma after_label_only_insts [simp]: "after_label (map Inst is) l = None"
  using after_label_insts [of "is" "[]" l] by simp

lemma after_label_optimized_flush [simp]: "after_label (optimized p (flush_scope cur) @ its) l = after_label its l"
  by (simp add: flush_scope_def scope_result_def Let_def)

lemma after_label_optimized:
  "after_label (optimized p (split_cse_scopes_from cur its)) l =
    map_option (\<lambda>r. optimized p (split_cse_scopes r)) (after_label its l)"
  by (induction cur its rule: split_cse_scopes_from.induct)
    (simp_all add: scope_result_def split_cse_scopes_def split: option.split, simp add: optimized_def flush_scope_def scope_result_def Let_def)

lemma split_after_label:
  "after_label its l = Some r \<Longrightarrow> set (split_cse_scopes r) \<subseteq> set (split_cse_scopes_from cur its)"
  by (induction cur its rule: split_cse_scopes_from.induct)
    (auto simp: split_cse_scopes_def split: option.split_asm if_split_asm)

text \<open>What the pass relies on, and the registers it replaces.\<close>

definition cse_replaced :: "item list \<Rightarrow> string set" where
  "cse_replaced its = (\<Union>s \<in> set (split_cse_scopes its). fst ` set (fst (snd (scope_result its s))))"

definition cse_safe :: "item list \<Rightarrow> bool" where
  "cse_safe its \<longleftrightarrow> list_all (\<lambda>s. case s of Single _ \<Rightarrow> True
     | Scope is \<Rightarrow> list_all (scope_safe (outside_reads its is) (cse_replaced its)) is \<and>
         defined_before_read (cse_replaced its) {} is) (split_cse_scopes its)"

text \<open>A register replaced in one scope is read nowhere else.\<close>

lemma counts_flat:
  "collect_read_register_counts (flat ss) r = sum_list (map (\<lambda>s. collect_read_register_counts (scope_items s) r) ss)"
  by (induction ss) (simp_all add: collect_read_register_counts_def)

lemma sum_list_other:
  fixes f :: "'a \<Rightarrow> nat"
  shows "s \<in> set ss \<Longrightarrow> sum_list (map f ss) \<le> f s \<Longrightarrow> x \<in> set ss \<Longrightarrow> x \<noteq> s \<Longrightarrow> f x = 0"
proof (induction ss)
  case (Cons y ss)
  have le: "z \<in> set ss \<Longrightarrow> f z \<le> sum_list (map f ss)" for z by (simp add: member_le_sum_list)
  show ?case
  proof (cases "y = s")
    case True
    with Cons.prems le [of x] show ?thesis by auto
  next
    case False
    with Cons.prems have s: "s \<in> set ss" "sum_list (map f ss) \<le> f s" by auto
    with False Cons le [OF s(1)] show ?thesis by auto
  qed
qed simp

lemma replaced_not_outside:
  assumes "d \<in> fst ` set (cs_replacements (optimize_cse_scope is outside))"
  shows "d \<notin> outside"
proof -
  have "fst ` set (cs_replacements (cse_step outside i rest st)) \<subseteq> fst ` set (cs_replacements st) \<union> - outside" for i rest st
    by (auto simp: cse_step_def Let_def dom_update index_key_def invalidate_def unindex_all_rest split: option.split)
  then have "fst ` set (cs_replacements (optimize_scope_from outside is st)) \<subseteq> fst ` set (cs_replacements st) \<union> - outside" for st
    by (induction "is" arbitrary: st) (simp_all, blast)
  from this [of cse_init] assms show ?thesis by (auto simp: optimize_cse_scope_def cse_init_def)
qed

lemma single_reads:
  assumes "Single (Inst i) \<in> set (split_cse_scopes its)"
  shows "instruction_read_registers i \<inter> cse_replaced its = {}"
proof -
  have "d \<notin> instruction_read_registers i" if "d \<in> cse_replaced its" for d
  proof -
    from that obtain s0 where s0: "s0 \<in> set (split_cse_scopes its)" "d \<in> fst ` set (fst (snd (scope_result its s0)))"
      by (auto simp: cse_replaced_def)
    obtain "is" where s: "Scope is \<in> set (split_cse_scopes its)"
      "d \<in> fst ` set (cs_replacements (optimize_cse_scope is (outside_reads its is)))"
      using s0 by (cases s0 rule: cse_scope.exhaust) (simp_all add: scope_result_def Let_def)
    have "d \<notin> outside_reads its is" by (rule replaced_not_outside [OF s(2)])
    then have "collect_read_register_counts its d \<le> collect_read_register_counts (map Inst is) d"
      using collect_reads_counts [of d its] by (auto simp: outside_reads_def)
    then have "collect_read_register_counts (flat (split_cse_scopes its)) d \<le> collect_read_register_counts (scope_items (Scope is)) d"
      by (simp add: split_cse_scopes_def flat_split)
    from sum_list_other [OF s(1) this[unfolded counts_flat] assms]
    show ?thesis by (simp add: collect_read_register_counts_def item_reads_def split: if_split_asm)
  qed
  then show ?thesis by blast
qed

lemma exec_single:
  assumes i: "instruction_read_registers i \<inter> D = {}" and a: "agree_off D (env st) (env st')" "pmemory st = pmemory st'"
    and next_inst: "\<And>s s'. agree_off D (env s) (env s') \<Longrightarrow> pmemory s = pmemory s' \<Longrightarrow>
      same_result D (exec M p k r s) (exec M p' k r' s')"
    and jump: "\<And>k' l s s' rest. k = Suc k' \<Longrightarrow> after_label p l = Some rest \<Longrightarrow> agree_off D (env s) (env s') \<Longrightarrow>
      pmemory s = pmemory s' \<Longrightarrow> \<exists>rest'. after_label p' l = Some rest' \<and> same_result D (exec M p k' rest s) (exec M p' k' rest' s')"
    and labels: "\<And>l. after_label p l = None \<Longrightarrow> after_label p' l = None"
  shows "same_result D (exec M p k (Inst i # r) st) (exec M p' k (Inst i # r') st')"
proof (cases "guard_holds i (env st)")
  case g: True
  have g': "guard_holds i (env st')" using g guard_agree [OF a(1) i] by simp
  have o: "inst_outcome M i st' = inst_outcome M i st"
    using source_values_agree [OF a(1) i] a(2) by (simp add: inst_outcome_def)
  show ?thesis
  proof (cases "inst_outcome M i st")
    case (Next v m)
    with g g' o next_inst agree_off_set [OF a(1)] show ?thesis by simp
  next
    case (Jump l m)
    show ?thesis
    proof (cases k)
      case 0
      with Jump g g' o a show ?thesis by (simp add: same_result_def)
    next
      case (Suc k')
      show ?thesis
      proof (cases "after_label p l")
        case None
        with labels [OF None] Jump Suc g g' o show ?thesis by (simp add: same_result_def)
      next
        case (Some rest)
        with jump [OF Suc Some, of "\<lparr>env = env st, pmemory = m\<rparr>" "\<lparr>env = env st', pmemory = m\<rparr>"] a Jump Suc g g' o
        show ?thesis by auto
      qed
    qed
  qed (use g g' o a in \<open>simp_all add: same_result_def\<close>)
next
  case False
  with guard_agree [OF a(1) i] next_inst [OF a] show ?thesis by simp
qed

lemma exec_optimized:
  assumes safe: "cse_safe p"
  defines "D \<equiv> cse_replaced p" and "p' \<equiv> optimized p (split_cse_scopes p)"
  shows "set ss \<subseteq> set (split_cse_scopes p) \<Longrightarrow> agree_off D (env st) (env st') \<Longrightarrow> pmemory st = pmemory st' \<Longrightarrow>
    same_result D (exec M p k (flat ss) st) (exec M p' k (optimized p ss) st')"
proof (induction k arbitrary: ss st st' rule: less_induct)
  case (less k)
  show ?case
    using less.prems
  proof (induction ss arbitrary: st st')
    case Nil
    then show ?case by (simp add: same_result_def)
  next
    case (Cons s ss)
    have s: "s \<in> set (split_cse_scopes p)" and ss: "set ss \<subseteq> set (split_cse_scopes p)" using Cons.prems(1) by auto
    consider (label) l where "s = Single (Label l)" | (inst) i where "s = Single (Inst i)" | (scope) "is" where "s = Scope is"
      by (cases s; metis item.exhaust)
    then show ?case
    proof cases
      case label
      then show ?thesis using Cons.IH [OF ss Cons.prems(2,3)] by (simp add: scope_result_def)
    next
      case inst
      have "same_result D (exec M p k (Inst i # flat ss) st) (exec M p' k (Inst i # optimized p ss) st')"
      proof (rule exec_single [OF _ Cons.prems(2,3)])
        show "instruction_read_registers i \<inter> D = {}" unfolding D_def by (rule single_reads) (use s inst in simp)
        show "same_result D (exec M p k (flat ss) u) (exec M p' k (optimized p ss) u')"
          if "agree_off D (env u) (env u')" "pmemory u = pmemory u'" for u u' using Cons.IH [OF ss that] .
        show "after_label p' l = None" if "after_label p l = None" for l
          using that by (simp add: p'_def split_cse_scopes_def after_label_optimized)
        show "\<exists>rest'. after_label p' l = Some rest' \<and> same_result D (exec M p k' rest u) (exec M p' k' rest' u')"
          if k: "k = Suc k'" and l: "after_label p l = Some rest" and u: "agree_off D (env u) (env u')" "pmemory u = pmemory u'"
          for k' l u u' rest
        proof (intro exI conjI)
          show "after_label p' l = Some (optimized p (split_cse_scopes rest))"
            unfolding p'_def split_cse_scopes_def [of p] after_label_optimized l by simp
          have "set (split_cse_scopes rest) \<subseteq> set (split_cse_scopes p)"
            unfolding split_cse_scopes_def [of p] by (rule split_after_label [OF l])
          from less.IH [OF _ this u] k flat_split [of "[]" rest]
          show "same_result D (exec M p k' rest u) (exec M p' k' (optimized p (split_cse_scopes rest)) u')"
            by (simp add: split_cse_scopes_def)
        qed
      qed
      with inst show ?thesis by (simp add: scope_result_def)
    next
      case scope
      have sf: "list_all (scope_safe (outside_reads p is) D) is" "defined_before_read D {} is"
        using safe s scope unfolding cse_safe_def D_def list_all_iff by fastforce+
      have "fst ` set (fst (snd (scope_result p s))) \<subseteq> D" using s unfolding D_def cse_replaced_def by blast
      then have r: "fst ` set (cs_replacements (optimize_cse_scope is (outside_reads p is))) \<subseteq> D"
        by (simp add: scope scope_result_def Let_def)
      note C = optimize_scope_correct(1) [OF Cons.prems(2) sf r, of M] optimize_scope_correct(2) [OF Cons.prems(2) sf r]
      have nb: "list_all (\<lambda>i. \<not> is_cse_scope_boundary i) is" using sf(1) by (auto simp: list_all_iff scope_safe_def)
      show ?thesis
        using Cons.IH [OF ss, of "\<lparr>env = run_pure M is (env st), pmemory = pmemory st\<rparr>"
          "\<lparr>env = run_pure M (cs_optimized (optimize_cse_scope is (outside_reads p is))) (env st'), pmemory = pmemory st'\<rparr>"] C(1) Cons.prems(3)
        by (simp add: scope scope_result_def Let_def exec_pure [OF nb] exec_pure [OF C(2)])
    qed
  qed
qed

lemma local_cse_items:
  "items (fst (local_cse prog)) = items prog \<or>
   items (fst (local_cse prog)) = optimized (items prog) (split_cse_scopes (items prog))"
  by (simp add: local_cse_def Let_def rebuild_program_def optimized_def comp_def)

end
