(* ===== verification/Local_Cse_Props.thy ===== *)
theory Local_Cse_Props
  imports Local_Cse_Sim Load_Reuse
begin

text \<open>
  The properties of common subexpression elimination: the elimination with reverse indexes does what
  a scan of the whole table does, kernels run the same under \<open>cse_safe\<close>, and what happens without it.
\<close>

section \<open>A reference without reverse indexes\<close>

text \<open>The same elimination where a definition scans the whole table for the expressions it invalidates.\<close>

record scan_state =
  sc_table :: "expression_key \<rightharpoonup> string"
  sc_aliases :: aliases
  sc_replacements :: "(string, string) dict"
  sc_code :: "ptx_instruction list"
  sc_removed :: nat

definition scan_invalidate :: "string \<Rightarrow> scan_state \<Rightarrow> scan_state" where
  "scan_invalidate d x = x\<lparr>sc_table := (\<lambda>k. case sc_table x k of
       None \<Rightarrow> None | Some p \<Rightarrow> if p = d \<or> d \<in> key_refs k then None else Some p),
     sc_aliases := AList.delete d (sc_aliases x)\<rparr>"

definition scan_step :: "string set \<Rightarrow> ptx_instruction \<Rightarrow> ptx_instruction list \<Rightarrow> scan_state \<Rightarrow> scan_state" where
  "scan_step outside inst future x0 =
     (let j = rewrite_sources inst (sc_aliases x0) in
      case destination_register j of
        None \<Rightarrow> x0\<lparr>sc_code := sc_code x0 @ [j]\<rparr>
      | Some d \<Rightarrow>
          (let x = scan_invalidate d x0; keep = x\<lparr>sc_code := sc_code x @ [j]\<rparr> in
           case cse_expression_key j of
             None \<Rightarrow> keep
           | Some key \<Rightarrow>
               if d \<in> outside then keep
               else
                 (case sc_table x key of
                    None \<Rightarrow> keep\<lparr>sc_table := (sc_table x)(key \<mapsto> d)\<rparr>
                  | Some p \<Rightarrow>
                      (let t = resolve_alias p (sc_aliases x) in
                       if read_after_redefinition d t False future then keep\<lparr>sc_table := (sc_table x)(key \<mapsto> d)\<rparr>
                       else x\<lparr>sc_aliases := AList.update d t (sc_aliases x),
                              sc_replacements := AList.update d t (sc_replacements x), sc_removed := Suc (sc_removed x)\<rparr>))))"

fun scan_scope_from :: "string set \<Rightarrow> ptx_instruction list \<Rightarrow> scan_state \<Rightarrow> scan_state" where
  "scan_scope_from outside [] x = x"
| "scan_scope_from outside (i # is) x = scan_scope_from outside is (scan_step outside i is x)"

definition scan_cse_scope :: "ptx_instruction list \<Rightarrow> string set \<Rightarrow> scan_state" where
  "scan_cse_scope is outside = scan_scope_from outside is
     \<lparr>sc_table = (\<lambda>_. None), sc_aliases = [], sc_replacements = [], sc_code = [], sc_removed = 0\<rparr>"

definition scan_of :: "cse_state \<Rightarrow> scan_state" where
  "scan_of st = \<lparr>sc_table = map_of (cs_exprs st), sc_aliases = cs_aliases st, sc_replacements = cs_replacements st,
     sc_code = cs_optimized st, sc_removed = cs_removed st\<rparr>"

lemma scan_of_simps [simp]:
  "sc_table (scan_of st) = map_of (cs_exprs st)" "sc_aliases (scan_of st) = cs_aliases st"
  "sc_replacements (scan_of st) = cs_replacements st" "sc_code (scan_of st) = cs_optimized st"
  "sc_removed (scan_of st) = cs_removed st"
  by (simp_all add: scan_of_def)

lemma scan_invalidate: "indexes_exact st \<Longrightarrow> scan_invalidate d (scan_of st) = scan_of (invalidate d st)"
  by (simp add: scan_invalidate_def scan_of_def invalidate_spec fun_eq_iff)

lemma scan_keep: "scan_of (keep_instruction j st) = (scan_of st)\<lparr>sc_code := cs_optimized st @ [j]\<rparr>"
  by (simp add: scan_of_def keep_instruction_def)

lemma scan_index: "scan_of (index_key key d st) = (scan_of st)\<lparr>sc_table := (map_of (cs_exprs st))(key \<mapsto> d)\<rparr>"
  by (simp add: scan_of_def index_key_def update_conv')

lemma scan_unindex: "scan_of (unindex_key key st) = (scan_of st)\<lparr>sc_table := (map_of (cs_exprs st))(key := None)\<rparr>"
  by (auto simp: scan_of_def unindex_key_def fun_eq_iff map_of_delete split: option.split)

lemma cse_step_scan:
  assumes x: "indexes_exact st"
  shows "indexes_exact (cse_step outside i rest st)"
    "scan_of (cse_step outside i rest st) = scan_step outside i rest (scan_of st)"
proof -
  let ?j = "rewrite_sources i (cs_aliases st)"
  have "indexes_exact (cse_step outside i rest st) \<and> scan_of (cse_step outside i rest st) = scan_step outside i rest (scan_of st)"
  proof (cases "destination_register ?j")
    case None
    with x show ?thesis by (simp add: cse_step_def scan_step_def scan_keep)
  next
    case (Some d)
    note I = invalidate_spec(1) [OF x, of d] and S = scan_invalidate [OF x, of d]
    let ?inv = "invalidate d st"
    show ?thesis
    proof (cases "cse_expression_key ?j")
      case None
      with Some I S show ?thesis by (simp add: cse_step_def scan_step_def scan_keep)
    next
      case key: (Some key)
      consider (out) "d \<in> outside" | (new) "d \<notin> outside" "map_of (cs_exprs ?inv) key = None"
        | (again) p where "d \<notin> outside" "map_of (cs_exprs ?inv) key = Some p" by (cases "map_of (cs_exprs ?inv) key") auto
      then show ?thesis
      proof cases
        case out
        with Some key I S show ?thesis by (simp add: cse_step_def scan_step_def scan_keep)
      next
        case new
        with Some key I S index_key_exact [OF I new(2), of d] show ?thesis
          by (simp add: cse_step_def scan_step_def scan_keep scan_index)
      next
        case (again p)
        have un: "indexes_exact (unindex_key key ?inv)" "map_of (cs_exprs (unindex_key key ?inv)) key = None"
          using unindex_key_exact [OF I] by (simp_all add: unindex_key_exprs)
        have u: "(map_of (cs_exprs (unindex_key key ?inv)))(key \<mapsto> d) = (map_of (cs_exprs ?inv))(key \<mapsto> d)"
          by (simp add: fun_eq_iff unindex_key_exprs)
        from again Some key I S index_key_exact [OF un, of d] show ?thesis
          by (simp add: cse_step_def scan_step_def scan_keep scan_index scan_unindex u Let_def)
            (simp add: scan_of_def indexes_exact_def)
      qed
    qed
  qed
  then show "indexes_exact (cse_step outside i rest st)"
    "scan_of (cse_step outside i rest st) = scan_step outside i rest (scan_of st)" by auto
qed

lemma optimize_scope_scan:
  "indexes_exact st \<Longrightarrow> scan_of (optimize_scope_from outside is st) = scan_scope_from outside is (scan_of st)"
  by (induction "is" arbitrary: st) (simp_all add: cse_step_scan)

section \<open>Properties\<close>


definition repeated_sum :: ptx_program where
  "repeated_sum = \<lparr>kernel_name = ''k'', parameters = [], reg_decls = [], items =
     [Inst (PTXInstruction ''add.u32'' [''%r3'', ''%r1'', ''%r2'']), Inst (PTXInstruction ''add.u32'' [''%r4'', ''%r1'', ''%r2'']),
      Inst (PTXInstruction ''mul.u32'' [''%r5'', ''%r3'', ''%r4'']), Inst (PTXInstruction ''st.global.u32'' [''[%rd1]'', ''%r5'']),
      Inst (PTXInstruction ''ret'' [])]\<rparr>"


text \<open>
  C28. The reverse indexes change nothing: optimizing a scope with them gives the table, the aliases,
  the code and the counters of the elimination that scans the whole table at every definition.
\<close>

theorem cse_indexes_implement_scan:
  "scan_of (optimize_cse_scope is outside) = scan_cse_scope is outside"
proof -
  have "indexes_exact cse_init" by (simp add: cse_init_def indexes_exact_def)
  from optimize_scope_scan [OF this] show ?thesis
    by (simp add: optimize_cse_scope_def scan_cse_scope_def scan_of_def cse_init_def)
qed

text \<open>A register updated twice by the same instruction text.\<close>

definition counted_twice :: ptx_program where
  "counted_twice = \<lparr>kernel_name = ''k'', parameters = [], reg_decls = [], items =
     [Inst (PTXInstruction ''add.u32'' [''%r1'', ''%r1'', ''4'']), Inst (PTXInstruction ''add.u32'' [''%r2'', ''%r1'', ''4'']),
      Inst (PTXInstruction ''mov.u32'' [''%r3'', ''%r2'']), Inst (PTXInstruction ''st.global.u32'' [''[%rd1]'', ''%r3''])]\<rparr>"


text \<open>A replaced register that a loop reads before its definition keeps its old value.\<close>

definition carried_register :: ptx_program where
  "carried_register = \<lparr>kernel_name = ''k'', parameters = [], reg_decls = [], items =
     [Label ''L'', Inst (PTXInstruction ''add.u32'' [''%r5'', ''%r2'', ''1'']), Inst (PTXInstruction ''add.u32'' [''%r1'', ''%r3'', ''4'']),
      Inst (PTXInstruction ''add.u32'' [''%r2'', ''%r3'', ''4'']), Inst (PTXInstruction ''st.global.u32'' [''[%rd1]'', ''%r5'']),
      Inst (PTXInstruction ''bra'' [''L''])]\<rparr>"

definition jump_machine :: "(int, unit) ptx_machine" where
  "jump_machine = \<lparr>fl = integer_floats, pure_other = (\<lambda>_ _. 0),
     other_op = (\<lambda>opc vs m. if opc = ''bra'' then (case vs of [Text l _] \<Rightarrow> Jump l m | _ \<Rightarrow> Fault) else Next 0 m)\<rparr>"

definition register_when_stopped :: "'m run_result \<Rightarrow> string \<Rightarrow> int option" where
  "register_when_stopped r name = (case r of Finished s \<Rightarrow> Some (env s name) | OutOfFuel s \<Rightarrow> Some (env s name) | _ \<Rightarrow> None)"

lemma local_cse_breaks_carried_register:
  "register_when_stopped (run_kernel jump_machine 1 (items carried_register) \<lparr>env = (\<lambda>_. 0), pmemory = ()\<rparr>) ''%r5'' = Some 5"
  "register_when_stopped (run_kernel jump_machine 1 (items (fst (local_cse carried_register))) \<lparr>env = (\<lambda>_. 0), pmemory = ()\<rparr>) ''%r5'' = Some 1"
  by code_simp+

end
