(* ===== verification/Cfg_Flow.thy ===== *)
theory Cfg_Flow
  imports Local_Rewrite Cfg_Build
begin

text \<open>
  The control-flow graph and the runs of a kernel: on a machine where only branches jump, and to
  their operand, every step of a run stays in its block or follows an edge of the graph. Dataflow
  facts that the edges carry therefore hold wherever a run gets, and a kernel may be rewritten
  position by position under them.
\<close>

section \<open>The blocks in their order\<close>

definition starts :: "item list \<Rightarrow> nat list" where
  "starts its = sorted_list_of_set {k. starts_block its k}"

definition block_end :: "item list \<Rightarrow> nat \<Rightarrow> nat" where
  "block_end its j = run_end its (drop (Suc j) (starts its))"

definition body_between :: "item list \<Rightarrow> nat \<Rightarrow> nat \<Rightarrow> basic_block \<Rightarrow> bool" where
  "body_between its lo hi b \<longleftrightarrow> bb_instructions b = instructions_between its lo hi \<and>
     bb_item_indices b = indices_between its lo hi \<and> bb_labels b = labels_between its lo hi"

lemma add_blocks_order:
  "add_blocks its ls st = Inr st' \<Longrightarrow> \<exists>new. cb_blocks st' = cb_blocks st @ new \<and> length new = length ls \<and>
    (\<forall>j < length ls. body_between its (ls ! j) (run_end its (drop (Suc j) ls)) (snd (new ! j)) \<and> bb_successors (snd (new ! j)) = {})"
proof (induction ls arbitrary: st)
  case (Cons l ls)
  from Cons.prems obtain st1 where st1: "add_block its l (run_end its ls) st = Inr st1"
    "add_blocks its ls st1 = Inr st'" by (auto simp: bindE_Inr_iff run_end_def)
  obtain name b where b: "cb_blocks st1 = cb_blocks st @ [(name, b)]" "body_between its l (run_end its ls) b \<and> bb_successors b = {}"
    by (rule add_block_Inr [OF st1(1)]) (auto simp: body_between_def)
  from Cons.IH [OF st1(2)] obtain new where new: "cb_blocks st' = cb_blocks st1 @ new" "length new = length ls"
    "\<forall>j < length ls. body_between its (ls ! j) (run_end its (drop (Suc j) ls)) (snd (new ! j)) \<and> bb_successors (snd (new ! j)) = {}" by blast
  show ?case
  proof (intro exI conjI)
    show "cb_blocks st' = cb_blocks st @ (name, b) # new" using new(1) b(1) by simp
    show "length ((name, b) # new) = length (l # ls)" using new(2) by simp
    show "\<forall>j < length (l # ls). body_between its ((l # ls) ! j) (run_end its (drop (Suc j) (l # ls))) (snd (((name, b) # new) ! j)) \<and>
      bb_successors (snd (((name, b) # new) ! j)) = {}"
    proof (intro allI impI)
      fix j assume "j < length (l # ls)"
      then show "body_between its ((l # ls) ! j) (run_end its (drop (Suc j) (l # ls))) (snd (((name, b) # new) ! j)) \<and>
        bb_successors (snd (((name, b) # new) ! j)) = {}"
        using new(3) b(2) by (cases j) simp_all
    qed
  qed
qed simp

lemma connect_successors_nth:
  "connect_successors labels bs = Inr bs' \<Longrightarrow> length bs' = length bs \<and> (\<forall>j < length bs. fst (bs' ! j) = fst (bs ! j) \<and>
    block_edges labels (if Suc j < length bs then Some (fst (bs ! Suc j)) else None) (snd (bs ! j)) = Inr (snd (bs' ! j)))"
proof (induction labels bs arbitrary: bs' rule: connect_successors.induct)
  case (2 labels name b bs)
  let ?nx = "case bs of [] \<Rightarrow> None | (n, _) # _ \<Rightarrow> Some n"
  from "2.prems" obtain b' bs'' where b: "block_edges labels ?nx b = Inr b'"
    "connect_successors labels bs = Inr bs''" "bs' = (name, b') # bs''" by (auto simp: bindE_Inr_iff)
  have nx: "?nx = (if 0 < length bs then Some (fst (bs ! 0)) else None)" by (auto split: list.split prod.split)
  note IH = "2.IH" [OF b(1,2)]
  have "fst (bs' ! j) = fst (((name, b) # bs) ! j) \<and>
      block_edges labels (if Suc j < length ((name, b) # bs) then Some (fst (((name, b) # bs) ! Suc j)) else None)
        (snd (((name, b) # bs) ! j)) = Inr (snd (bs' ! j))" if "j < length ((name, b) # bs)" for j
  proof (cases j)
    case 0
    with b(1)[unfolded nx] b(3) show ?thesis by (cases "bs = []") simp_all
  next
    case (Suc i)
    then have i: "i < length bs" using that by simp
    have "fst (bs'' ! i) = fst (bs ! i) \<and> block_edges labels
        (if Suc i < length bs then Some (fst (bs ! Suc i)) else None) (snd (bs ! i)) = Inr (snd (bs'' ! i))"
      using IH i by blast
    with Suc b(3) show ?thesis by (cases "Suc i < length bs") simp_all
  qed
  moreover have "length bs' = length ((name, b) # bs)" using IH b(3) by simp
  ultimately show ?case by blast
qed simp

lemma connect_predecessors_nth:
  "length (connect_predecessors bs) = length bs"
  "j < length bs \<Longrightarrow> fst (connect_predecessors bs ! j) = fst (bs ! j) \<and>
    same_body (snd (bs ! j)) (snd (connect_predecessors bs ! j)) \<and>
    bb_successors (snd (connect_predecessors bs ! j)) = bb_successors (snd (bs ! j))"
  unfolding connect_predecessors_def add_predecessors_spec by (auto simp: same_body_def split: prod.split)

lemma block_edges_next:
  "block_edges labels nx b = Inr b' \<Longrightarrow>
    (case block_terminator b of None \<Rightarrow> True | Some t \<Rightarrow> terminator_kind (Some t) = ConditionalBranch) \<Longrightarrow>
    nx = Some n \<Longrightarrow> n \<in> bb_successors b'"
  by (auto simp: block_edges_def Let_def is_branch_kind_def split: option.split_asm)

lemma block_edges_fall:
  "block_edges labels nx b = Inr b' \<Longrightarrow> block_terminator b = None \<Longrightarrow> bb_successors b = {} \<Longrightarrow> bb_successors b' = set_option nx"
  by (cases nx) (simp_all add: block_edges_def Let_def, auto)

lemma block_edges_branch:
  "block_edges labels nx b = Inr b' \<Longrightarrow> block_terminator b = Some t \<Longrightarrow> is_branch_kind (terminator_kind (Some t)) \<Longrightarrow>
    \<exists>n. map_of labels (hd (pi_operands t)) = Some n \<and> n \<in> bb_successors b'"
  by (auto simp: block_edges_def Let_def split: option.split_asm)

text \<open>The \<open>j\<close>th block is the run from the \<open>j\<close>th start, with the edges its last instruction asks for.\<close>

lemma built_block:
  assumes g: "build_cfg prog = Inr g"
  shows "length (blocks g) = length (starts (items prog))"
    "j < length (starts (items prog)) \<Longrightarrow>
      body_between (items prog) (starts (items prog) ! j) (block_end (items prog) j) (snd (blocks g ! j))"
    "Suc j < length (starts (items prog)) \<Longrightarrow>
      (case block_terminator (snd (blocks g ! j)) of None \<Rightarrow> True | Some t \<Rightarrow> terminator_kind (Some t) = ConditionalBranch) \<Longrightarrow>
      fst (blocks g ! Suc j) \<in> bb_successors (snd (blocks g ! j))"
    "j < length (starts (items prog)) \<Longrightarrow> block_terminator (snd (blocks g ! j)) = Some t \<Longrightarrow>
      is_branch_kind (terminator_kind (Some t)) \<Longrightarrow>
      \<exists>n. map_of (label_to_block g) (hd (pi_operands t)) = Some n \<and> n \<in> bb_successors (snd (blocks g ! j))"
    "j < length (starts (items prog)) \<Longrightarrow> block_terminator (snd (blocks g ! j)) = None \<Longrightarrow>
      bb_successors (snd (blocks g ! j)) = (if Suc j < length (starts (items prog)) then {fst (blocks g ! Suc j)} else {})"
proof -
  let ?its = "items prog"
  from g obtain labels L st bs where
    l: "collect_labels ?its = Inr labels" "find_leaders ?its labels = Inr L"
    and st: "add_blocks ?its (sorted_list_of_set L) build_start = Inr st"
    and bs: "connect_successors (cb_labels st) (cb_blocks st) = Inr bs"
    and gb: "blocks g = connect_predecessors bs" "label_to_block g = cb_labels st"
    by (auto simp: build_cfg_def Let_def bindE_Inr_iff connect_edges_def split: if_split_asm)
  have L: "sorted_list_of_set L = starts ?its" using leaders_spec(1) [OF l] by (simp add: starts_def)
  from add_blocks_order [OF st] have ord: "length (cb_blocks st) = length (starts ?its)"
    "\<And>j. j < length (starts ?its) \<Longrightarrow> body_between ?its (starts ?its ! j) (block_end ?its j) (snd (cb_blocks st ! j))"
    "\<And>j. j < length (starts ?its) \<Longrightarrow> bb_successors (snd (cb_blocks st ! j)) = {}"
    by (auto simp: L build_start_def block_end_def)
  from connect_successors_nth [OF bs] have cs: "length bs = length (starts ?its)"
    "\<And>j. j < length (starts ?its) \<Longrightarrow> fst (bs ! j) = fst (cb_blocks st ! j) \<and>
      block_edges (cb_labels st) (if Suc j < length (starts ?its) then Some (fst (cb_blocks st ! Suc j)) else None)
        (snd (cb_blocks st ! j)) = Inr (snd (bs ! j))" by (auto simp: ord)
  note cp = connect_predecessors_nth(1) [of bs, unfolded gb(1) [symmetric]] connect_predecessors_nth(2) [where bs = bs, unfolded gb(1) [symmetric]]
  show len: "length (blocks g) = length (starts ?its)" using cp(1) cs(1) by simp
  have same: "same_body (snd (cb_blocks st ! j)) (snd (blocks g ! j))" if "j < length (starts ?its)" for j
    using cp(2) [of j] cs that block_edges_spec [of "cb_labels st" _ "snd (cb_blocks st ! j)" "snd (bs ! j)"]
    by (auto simp: same_body_def)
  then show "j < length (starts ?its) \<Longrightarrow> body_between ?its (starts ?its ! j) (block_end ?its j) (snd (blocks g ! j))"
    using ord(2) [of j] by (auto simp: body_between_def same_body_def)
  have tm: "block_terminator (snd (blocks g ! j)) = block_terminator (snd (cb_blocks st ! j))"
    if "j < length (starts ?its)" for j
    using same [OF that] by (simp add: block_terminator_def same_body_def)
  show "fst (blocks g ! Suc j) \<in> bb_successors (snd (blocks g ! j))"
    if "Suc j < length (starts ?its)"
      "case block_terminator (snd (blocks g ! j)) of None \<Rightarrow> True | Some t \<Rightarrow> terminator_kind (Some t) = ConditionalBranch"
  proof -
    have "fst (cb_blocks st ! Suc j) \<in> bb_successors (snd (bs ! j))"
      using block_edges_next [of "cb_labels st" _ "snd (cb_blocks st ! j)" "snd (bs ! j)"] cs(2) [of j] that tm [of j] by simp
    then show ?thesis using cp(2) cs that(1) by simp
  qed
  show "\<exists>n. map_of (label_to_block g) (hd (pi_operands t)) = Some n \<and> n \<in> bb_successors (snd (blocks g ! j))"
    if "j < length (starts ?its)" "block_terminator (snd (blocks g ! j)) = Some t" "is_branch_kind (terminator_kind (Some t))"
  proof -
    have "\<exists>n. map_of (cb_labels st) (hd (pi_operands t)) = Some n \<and> n \<in> bb_successors (snd (bs ! j))"
      using block_edges_branch [OF conjunct2 [OF cs(2) [OF that(1)]], of t] that tm [OF that(1)] by simp
    then show ?thesis using cp(2) cs that(1) gb(2) by simp
  qed
  show "bb_successors (snd (blocks g ! j)) = (if Suc j < length (starts ?its) then {fst (blocks g ! Suc j)} else {})"
    if "j < length (starts ?its)" "block_terminator (snd (blocks g ! j)) = None"
  proof -
    have "bb_successors (snd (bs ! j)) = set_option (if Suc j < length (starts ?its) then Some (fst (cb_blocks st ! Suc j)) else None)"
      using that tm [OF that(1)] by (intro block_edges_fall [OF conjunct2 [OF cs(2)] _ ord(3)]) simp_all
    then show ?thesis using cp(2) cs that(1) by (cases "Suc j < length (starts ?its)") simp_all
  qed
qed

section \<open>Positions and blocks\<close>

text \<open>The block of a position: \<open>item_to_block\<close> for an instruction, \<open>label_to_block\<close> for a label.\<close>

definition block_of :: "cfg \<Rightarrow> item list \<Rightarrow> nat \<Rightarrow> string option" where
  "block_of g its k = (case its ! k of Label l \<Rightarrow> map_of (label_to_block g) l | Inst _ \<Rightarrow> item_to_block g k)"

lemma finite_starts: "finite {k. starts_block its k}"
proof -
  have "{k. starts_block its k} \<subseteq> {..length its}" using starts_block_le by auto
  then show ?thesis by (rule finite_subset) simp
qed

lemma set_starts [simp]: "set (starts its) = {k. starts_block its k}"
  by (simp add: starts_def finite_starts)

lemma sorted_starts: "sorted_wrt (<) (starts its)"
  by (simp add: starts_def)

lemma starts_less: "i < j \<Longrightarrow> j < length (starts its) \<Longrightarrow> starts its ! i < starts its ! j"
  using sorted_starts by (simp add: sorted_wrt_iff_nth_less)

lemma block_end_eq:
  "block_end its j = (if Suc j < length (starts its) then starts its ! Suc j else length its)"
  by (auto simp: block_end_def run_end_def Cons_nth_drop_Suc [symmetric] split: list.split)

lemma position_block:
  assumes "k < length its"
  obtains j where "j < length (starts its)" "starts its ! j \<le> k" "k < block_end its j"
proof -
  let ?S = "{j. j < length (starts its) \<and> starts its ! j \<le> k}"
  have "0 \<in> set (starts its)" by (simp add: starts_block_def)
  then obtain z where "z < length (starts its)" "starts its ! z = 0" by (metis in_set_conv_nth)
  then have ne: "?S \<noteq> {}" by force
  have fin: "finite ?S" by simp
  let ?j = "Max ?S"
  have j: "?j \<in> ?S" by (rule Max_in [OF fin ne])
  have "k < block_end its ?j"
  proof (cases "Suc ?j < length (starts its)")
    case True
    have "Suc ?j \<notin> ?S" using Max_ge [OF fin, of "Suc ?j"] by (metis Suc_n_not_le_n)
    with True have "\<not> starts its ! Suc ?j \<le> k" by blast
    with True show ?thesis unfolding block_end_eq by simp
  qed (use assms in \<open>simp add: block_end_eq\<close>)
  with j that show thesis by blast
qed

lemma inside_no_start:
  assumes "j < length (starts its)" "starts its ! j < k" "k < block_end its j"
  shows "\<not> starts_block its k"
proof
  assume "starts_block its k"
  then obtain i where i: "i < length (starts its)" "starts its ! i = k" by (metis in_set_conv_nth mem_Collect_eq set_starts)
  show False
  proof (cases "i \<le> j")
    case True
    then show ?thesis using starts_less [of i j its] assms(1,2) i(2) by (cases "i = j") auto
  next
    case False
    then have "Suc j \<le> i" by simp
    then have "starts its ! Suc j \<le> k" "Suc j < length (starts its)"
      using starts_less [of "Suc j" i its] i by (cases "Suc j = i"; simp)+
    with assms(3) show ?thesis by (simp add: block_end_eq)
  qed
qed

lemma block_of_position:
  assumes g: "build_cfg prog = Inr g" and j: "j < length (starts (items prog))"
    "starts (items prog) ! j \<le> k" "k < block_end (items prog) j"
  shows "block_of g (items prog) k = Some (fst (blocks g ! j))"
proof -
  let ?b = "snd (blocks g ! j)"
  note B = built_block(1) [OF g] built_block(2) [OF g j(1)]
  have mem: "(fst (blocks g ! j), ?b) \<in> set (blocks g)" using j(1) B(1) by simp
  show ?thesis
  proof (cases "items prog ! k")
    case (Label l)
    then have "l \<in> set (bb_labels ?b)" using B(2) j(2,3) by (force simp: body_between_def labels_between_def)
    with mem have "map_of (label_to_block g) l = Some (fst (blocks g ! j))" unfolding build_cfg_tables(5) [OF g] by blast
    then show ?thesis using Label by (simp add: block_of_def)
  next
    case (Inst i)
    then have "k \<in> set (bb_item_indices ?b)" using B(2) j(2,3) by (force simp: body_between_def indices_between_def)
    with mem have "item_to_block g k = Some (fst (blocks g ! j))" unfolding build_cfg_tables(4) [OF g] by blast
    then show ?thesis using Inst by (simp add: block_of_def)
  qed
qed

section \<open>The positions of a run\<close>

inductive flow :: "('f, 'm) ptx_machine \<Rightarrow> item list \<Rightarrow> nat \<Rightarrow> 'm pstate \<Rightarrow> nat \<Rightarrow> 'm pstate \<Rightarrow> bool"
  for M :: "('f, 'm) ptx_machine" and p :: "item list" where
  label: "k < length p \<Longrightarrow> p ! k = Label l \<Longrightarrow> flow M p k st (Suc k) st"
| continue: "k < length p \<Longrightarrow> p ! k = Inst i \<Longrightarrow> effect M i st = Continue st' \<Longrightarrow> flow M p k st (Suc k) st'"
| jump: "k < length p \<Longrightarrow> p ! k = Inst i \<Longrightarrow> effect M i st = GoTo l st' \<Longrightarrow>
    j < length p \<Longrightarrow> p ! j = Label l \<Longrightarrow> after_label p l = Some (drop (Suc j) p) \<Longrightarrow> flow M p k st j st'"

inductive reaches :: "('f, 'm) ptx_machine \<Rightarrow> item list \<Rightarrow> 'm pstate \<Rightarrow> nat \<Rightarrow> 'm pstate \<Rightarrow> bool"
  for M :: "('f, 'm) ptx_machine" and p :: "item list" and st0 :: "'m pstate" where
  start: "reaches M p st0 0 st0"
| step: "reaches M p st0 k st \<Longrightarrow> flow M p k st k' st' \<Longrightarrow> reaches M p st0 k' st'"

lemma after_label_index: "after_label its l = Some r \<Longrightarrow> \<exists>j < length its. its ! j = Label l \<and> r = drop (Suc j) its"
proof (induction its)
  case (Cons it its)
  show ?case
  proof (cases "after_label its l")
    case None
    with Cons.prems show ?thesis by (intro exI [of _ 0]) (auto split: if_split_asm)
  next
    case (Some x)
    with Cons obtain j where "j < length its" "its ! j = Label l" "r = drop (Suc j) its" by auto
    then show ?thesis by (intro exI [of _ "Suc j"]) simp
  qed
qed simp

text \<open>A kernel rewritten position by position runs the same, if each rewriting is right where a run gets.\<close>

lemma run_positions:
  assumes q: "length q = length p"
    and lab: "\<And>k l. k < length p \<Longrightarrow> p ! k = Label l \<longleftrightarrow> q ! k = Label l"
    and inst: "\<And>k i st. reaches M p st0 k st \<Longrightarrow> k < length p \<Longrightarrow> p ! k = Inst i \<Longrightarrow>
      \<exists>j. q ! k = Inst j \<and> effect M j st = effect M i st"
  shows "run_kernel M f q st0 = run_kernel M f p st0"
proof -
  have same_label: "list_all2 (\<lambda>a b. \<forall>l. a = Label l \<longleftrightarrow> b = Label l) p q"
    using q lab by (simp add: list_all2_conv_all_nth)
  have after: "list_all2 (\<lambda>a b. \<forall>l. a = Label l \<longleftrightarrow> b = Label l) xs ys \<Longrightarrow>
      (after_label xs l = None \<longleftrightarrow> after_label ys l = None) \<and>
      (\<forall>j. after_label xs l = Some (drop (Suc j) xs) \<longrightarrow> j < length xs \<longrightarrow> after_label ys l = Some (drop (Suc j) ys))" for xs ys l
  proof (induction rule: list_all2_induct)
    case (Cons x xs y ys)
    show ?case
    proof (cases "after_label xs l")
      case None
      with Cons.IH have y: "after_label ys l = None" by simp
      have "i = 0" if "xs = drop i xs" "i < Suc (length xs)" for i
        using arg_cong [OF that(1), of length] that(2) by simp
      with None y Cons.hyps show ?thesis by simp (metis drop0)
    next
      case (Some r)
      from after_label_index [OF Some] obtain j where j: "j < length xs" "r = drop (Suc j) xs" by blast
      with Some Cons have y: "after_label ys l = Some (drop (Suc j) ys)" by simp
      have "i = Suc j" if "drop (Suc i) (x # xs) = r" "i < length (x # xs)" for i
        using arg_cong [OF that(1), of length] j that(2) by simp
      with Some y show ?thesis by auto
    qed
  qed simp
  have "reaches M p st0 k st \<Longrightarrow> k \<le> length p \<Longrightarrow> exec M q f (drop k q) st = exec M p f (drop k p) st" for k st
  proof (induction f arbitrary: k st rule: less_induct)
    case (less f)
    from less.prems show ?case
    proof (induction "length p - k" arbitrary: k st)
      case 0
      with q show ?case by simp
    next
      case (Suc n)
      then have k: "k < length p" by simp
      have d: "drop k p = p ! k # drop (Suc k) p" "drop k q = q ! k # drop (Suc k) q"
        using k q by (simp_all add: Cons_nth_drop_Suc)
      show ?case
      proof (cases "p ! k")
        case (Label l)
        with lab [OF k, of l] have ql: "q ! k = Label l" by simp
        have "reaches M p st0 (Suc k) st" using Suc.prems(1) flow.label [OF k Label] by (rule reaches.step)
        with Suc.hyps k Label ql d show ?thesis by simp
      next
        case (Inst i)
        from inst [OF Suc.prems(1) k Inst] obtain j where j: "q ! k = Inst j" "effect M j st = effect M i st" by blast
        show ?thesis
        proof (cases "effect M i st")
          case (Continue st')
          have "reaches M p st0 (Suc k) st'" using Suc.prems(1) flow.continue [OF k Inst Continue] by (rule reaches.step)
          with Suc.hyps k have "exec M q f (drop (Suc k) q) st' = exec M p f (drop (Suc k) p) st'" by simp
          with Continue j Inst show ?thesis unfolding d j(1) Inst exec_effect by simp
        next
          case (GoTo l st')
          have "(case f of 0 \<Rightarrow> OutOfFuel st' | Suc f' \<Rightarrow>
                  (case after_label q l of None \<Rightarrow> BadLabel l | Some r \<Rightarrow> exec M q f' r st')) =
              (case f of 0 \<Rightarrow> OutOfFuel st' | Suc f' \<Rightarrow>
                  (case after_label p l of None \<Rightarrow> BadLabel l | Some r \<Rightarrow> exec M p f' r st'))"
          proof (cases "after_label p l")
            case None
            with after [OF same_label, of l] show ?thesis by (simp split: nat.split)
          next
            case (Some r)
            from after_label_index [OF Some] obtain m where m: "m < length p" "p ! m = Label l" "r = drop (Suc m) p" by blast
            with Some after [OF same_label, of l] have ql: "after_label q l = Some (drop (Suc m) q)" by blast
            have "reaches M p st0 m st'"
              using Suc.prems(1) flow.jump [OF k Inst GoTo m(1,2) Some[unfolded m(3)]] by (rule reaches.step)
            from reaches.step [OF this flow.label [OF m(1,2)]] less.IH m(1,3)
            have "exec M q f' (drop (Suc m) q) st' = exec M p f' r st'" if "f = Suc f'" for f' using that by simp
            with Some ql show ?thesis by (simp split: nat.split)
          qed
          with GoTo j Inst show ?thesis unfolding d j(1) Inst exec_effect by simp
        qed (use j Inst in \<open>simp_all only: d exec_effect effect.case\<close>)
      qed
    qed
  qed
  from this [OF reaches.start] show ?thesis by (simp add: run_kernel_def)
qed

section \<open>Steps and edges\<close>

text \<open>Only branches jump, and to their operand; branches and returns do not fall through.\<close>

definition branches_ok :: "('f, 'm) ptx_machine \<Rightarrow> bool" where
  "branches_ok M \<longleftrightarrow>
     (\<forall>opc vs m l m'. other_op M opc vs m = Jump l m' \<longrightarrow>
        before_first CHR ''.'' opc = ''bra'' \<and> (\<exists>rs. hd vs = Text l rs)) \<and>
     (\<forall>opc vs m v m'. before_first CHR ''.'' opc \<in> {''bra'', ''ret''} \<longrightarrow> other_op M opc vs m \<noteq> Next v m')"

text \<open>The text of a branch target is the label itself, and returns are not predicated.\<close>

definition label_operand :: "string \<Rightarrow> bool" where
  "label_operand t \<longleftrightarrow> strip t = t \<and> find_regs t = [] \<and> parse_immediate t = None"

definition plain_control :: "item list \<Rightarrow> bool" where
  "plain_control its \<longleftrightarrow> list_all (\<lambda>it. case it of Label _ \<Rightarrow> True
     | Inst i \<Rightarrow> (terminator_kind (Some i) = Return \<longrightarrow> pi_predicate i = None) \<and>
         (is_branch_kind (terminator_kind (Some i)) \<longrightarrow> list_all label_operand (pi_operands i))) its"

lemma label_operand_value: "label_operand t \<Longrightarrow> operand_value e t = Text t []"
proof -
  assume t: "label_operand t"
  then have "\<not> is_reg_token t" using find_regs_token [of t] by (auto simp: label_operand_def)
  moreover have "sub_regs (\<lambda>_. ''%'') t = t" using t by (intro sub_regs_id) (simp add: label_operand_def)
  ultimately show ?thesis using t
    by (simp add: label_operand_def operand_value_def Let_def text_template_def)
qed

lemma branch_base: "opcode_base i = ''bra'' \<longleftrightarrow> is_branch_kind (terminator_kind (Some i))"
  by (simp add: terminator_kind_def is_branch_kind_def)

lemma control_not_pure: "opcode_base i \<in> {''bra'', ''ret''} \<Longrightarrow> pure_dest i = None"
  by (auto simp: pure_dest_def PURE_RESULT_OPERAND_COUNTS_def)

lemma wf_branch:
  assumes "wf_control its" "Inst i \<in> set its" "is_branch_kind (terminator_kind (Some i))"
  shows "\<exists>t. pi_operands i = [t] \<and> t \<in> set (labels_of its)"
proof -
  have "case Inst i of Label _ \<Rightarrow> True | Inst i \<Rightarrow> is_branch_kind (terminator_kind (Some i)) \<longrightarrow>
      (case pi_operands i of [t] \<Rightarrow> t \<in> set (labels_of its) | _ \<Rightarrow> False)"
    using assms(1,2) unfolding wf_control_def list_all_iff by blast
  with assms(3) show ?thesis by (simp split: list.split_asm)
qed

lemma plain_controlD:
  assumes "plain_control its" "Inst i \<in> set its"
  shows "terminator_kind (Some i) = Return \<Longrightarrow> pi_predicate i = None"
    "is_branch_kind (terminator_kind (Some i)) \<Longrightarrow> list_all label_operand (pi_operands i)"
  using assms unfolding plain_control_def list_all_iff by force+

lemmas plain_branch = plain_controlD(2)

lemma goto_branch:
  assumes M: "branches_ok M" and wf: "wf_control its" "plain_control its" and i: "Inst i \<in> set its" "effect M i st = GoTo l st'"
  shows "is_branch_kind (terminator_kind (Some i))" "pi_operands i = [l]"
proof -
  from i(2) obtain m where "other_op M (pi_opcode i) (source_values i (env st)) (pmemory st) = Jump l m"
    by (auto simp: effect_def inst_outcome_def split: if_split_asm outcome.split_asm)
  with M obtain rs where b: "opcode_base i = ''bra''" "hd (source_values i (env st)) = Text l rs"
    unfolding branches_ok_def opcode_base_def by blast
  then show k: "is_branch_kind (terminator_kind (Some i))" by (simp add: branch_base)
  obtain t where t: "pi_operands i = [t]"
    using wf_branch [OF wf(1) i(1) k] by blast
  have "label_operand t" using plain_branch [OF wf(2) i(1) k] t by simp
  then have "source_values i (env st) = [Text t []]"
    using b(1) t by (simp add: source_values_def source_operands_def DESTINATION_BASES_def PURE_RESULT_BASES_def
        PURE_RESULT_OPERAND_COUNTS_def label_operand_value)
  with b(2) t show "pi_operands i = [l]" by simp
qed

lemma continue_falls:
  assumes M: "branches_ok M" and wf: "plain_control its" and i: "Inst i \<in> set its" "effect M i st = Continue st'"
  shows "terminator_kind (Some i) \<in> {Fallthrough, ConditionalBranch}"
proof (rule ccontr)
  assume k: "\<not> ?thesis"
  then consider "terminator_kind (Some i) = UnconditionalBranch" | "terminator_kind (Some i) = Return"
    by (cases "terminator_kind (Some i)") simp_all
  then have b: "opcode_base i \<in> {''bra'', ''ret''} \<and> pi_predicate i = None"
  proof cases
    case 1
    then show ?thesis by (simp add: terminator_kind_def split: if_split_asm)
  next
    case 2
    from plain_controlD(1) [OF wf i(1) this] 2 show ?thesis by (simp add: terminator_kind_def split: if_split_asm)
  qed
  then have "guard_holds i (env st)" by (simp add: guard_holds_def predicate_reads_def)
  with i(2) control_not_pure [OF conjunct1 [OF b]] obtain v m where
    "other_op M (pi_opcode i) (source_values i (env st)) (pmemory st) = Next v m"
    by (auto simp: effect_def inst_outcome_def split: outcome.split_asm)
  with M b show False unfolding branches_ok_def opcode_base_def by blast
qed

lemma instructions_end:
  assumes "lo < hi" "its ! (hi - 1) = Inst i"
  shows "instructions_between its lo hi \<noteq> [] \<and> last (instructions_between its lo hi) = i"
proof -
  have "[lo..<hi] = [lo..<hi - 1] @ [hi - 1]" using assms(1) by (cases hi) auto
  with assms(2) show ?thesis by (simp add: instructions_between_def)
qed

lemma no_instructions_at_label:
  assumes "j < length (starts its)" "block_end its j = Suc k" "starts its ! j \<le> k" "k < length its" "its ! k = Label l"
  shows "instructions_between its (starts its ! j) (block_end its j) = []"
proof -
  have "starts_block its k" using assms(4,5) by (auto simp: starts_block_def)
  with inside_no_start [OF assms(1), of k] assms(2,3) have "starts its ! j = k" by fastforce
  with assms(2,5) show ?thesis by (simp add: instructions_between_def)
qed

lemma next_start:
  assumes "Suc k < length its" "j < length (starts its)" "starts its ! j \<le> k" "k < block_end its j" "starts_block its (Suc k)"
  shows "Suc j < length (starts its)" "starts its ! Suc j = Suc k" "block_end its j = Suc k"
proof -
  have e: "block_end its j = Suc k"
    using inside_no_start [OF assms(2), of "Suc k"] assms(3-5) by fastforce
  then show "Suc j < length (starts its)" "starts its ! Suc j = Suc k" "block_end its j = Suc k"
    using assms(1) by (auto simp: block_end_eq split: if_split_asm)
qed

text \<open>A step stays in its block or follows an edge to the start of a block.\<close>

lemma flow_edge:
  assumes g: "build_cfg prog = Inr g" and M: "branches_ok M" and wf: "wf_control (items prog)" "plain_control (items prog)"
    and f: "flow M (items prog) k st k' st'" and k': "k' < length (items prog)"
  shows "\<not> starts_block (items prog) k' \<and> k' = Suc k \<and> block_of g (items prog) k' = block_of g (items prog) k \<or>
    starts_block (items prog) k' \<and> (Suc k < length (items prog) \<longrightarrow> starts_block (items prog) (Suc k)) \<and>
      (\<exists>n n'. block_of g (items prog) k = Some n \<and> block_of g (items prog) k' = Some n' \<and> n' \<in> successors_of g n)"
proof -
  let ?p = "items prog"
  have k: "k < length ?p" using f by cases auto
  obtain j where j: "j < length (starts ?p)" "starts ?p ! j \<le> k" "k < block_end ?p j" using k by (rule position_block)
  let ?b = "snd (blocks g ! j)"
  have body: "bb_instructions ?b = instructions_between ?p (starts ?p ! j) (block_end ?p j)"
    using built_block(2) [OF g j(1)] by (simp add: body_between_def)
  have at: "block_of g ?p k = Some (fst (blocks g ! j))" by (rule block_of_position [OF g j])
  have dist: "distinct (map fst (blocks g))" using build_cfg_wf_edges(1) [OF g] by (rule wf_cfg_distinct)
  have succ: "successors_of g (fst (blocks g ! j)) = bb_successors ?b"
  proof -
    have "(fst (blocks g ! j), ?b) \<in> set (blocks g)" using j(1) built_block(1) [OF g] by simp
    with dist have "map_of (blocks g) (fst (blocks g ! j)) = Some ?b" by (rule map_of_is_SomeI)
    then show ?thesis by (simp add: successors_of_def)
  qed
  consider (seq) "k' = Suc k" "\<And>i. ?p ! k = Inst i \<Longrightarrow> terminator_kind (Some i) \<in> {Fallthrough, ConditionalBranch}"
    | (jump) i l where "?p ! k = Inst i" "is_branch_kind (terminator_kind (Some i))" "pi_operands i = [l]" "?p ! k' = Label l"
    using f
  proof cases
    case (continue i)
    with continue_falls [OF M wf(2) _ continue(4)] have "terminator_kind (Some i) \<in> {Fallthrough, ConditionalBranch}"
      by (metis nth_mem)
    with continue seq show thesis by auto
  next
    case (jump i l)
    have "Inst i \<in> set ?p" using jump by (metis nth_mem)
    from goto_branch [OF M wf this jump(3)] jump that(2) show thesis by blast
  qed (use seq in auto)
  then show ?thesis
  proof cases
    case seq
    show ?thesis
    proof (cases "starts_block ?p k'")
      case False
      then have "k' < block_end ?p j" using j k' seq(1) next_start by (metis Suc_lessI block_end_eq le_SucI
            linorder_neqE_nat nth_mem mem_Collect_eq set_starts not_less_eq)
      then have "block_of g ?p k' = Some (fst (blocks g ! j))" using block_of_position [OF g j(1), of k'] j(2) seq(1) by simp
      with False at seq(1) show ?thesis by simp
    next
      case True
      note N = next_start [OF k'[unfolded seq(1)] j True[unfolded seq(1)]]
      have "k' < block_end ?p (Suc j)"
        using N(1,2) seq(1) k' starts_less [of "Suc j" "Suc (Suc j)" ?p] by (auto simp: block_end_eq)
      then have at': "block_of g ?p k' = Some (fst (blocks g ! Suc j))" using block_of_position [OF g N(1), of k'] N(2) seq(1) by simp
      have "case block_terminator ?b of None \<Rightarrow> True | Some t \<Rightarrow> terminator_kind (Some t) = ConditionalBranch"
      proof (cases "?p ! k")
        case (Label l)
        from no_instructions_at_label [OF j(1) N(3) j(2) k Label] body show ?thesis by (simp add: block_terminator_def)
      next
        case (Inst i)
        have "bb_instructions ?b \<noteq> [] \<and> last (bb_instructions ?b) = i"
          unfolding body N(3) by (rule instructions_end) (use j(2) Inst in auto)
        with seq(2) [OF Inst] show ?thesis by (auto simp: block_terminator_def)
      qed
      from built_block(3) [OF g N(1) this] True seq(1) at at' succ show ?thesis by auto
    qed
  next
    case (jump i l)
    have start: "starts_block ?p k'" using jump(4) k' by (auto simp: starts_block_def)
    have e: "block_end ?p j = Suc k"
    proof (rule ccontr)
      assume "block_end ?p j \<noteq> Suc k"
      then have lt: "Suc k < block_end ?p j" using j(3) by simp
      then have "Suc k < length ?p"
        using starts_block_le [of ?p] by (auto simp: block_end_eq split: if_split_asm)
          (metis Suc_leI le_trans linorder_not_less nth_mem mem_Collect_eq set_starts order_le_less_trans)
      then have "starts_block ?p (Suc k)" using jump(1,2) by (auto simp: starts_block_def is_branch_kind_def)
      with inside_no_start [OF j(1), of "Suc k"] lt j(2) show False by simp
    qed
    have "bb_instructions ?b \<noteq> [] \<and> last (bb_instructions ?b) = i"
      unfolding body e by (rule instructions_end) (use j(2) jump(1) in auto)
    then have "block_terminator ?b = Some i" using jump(2) by (auto simp: block_terminator_def is_branch_kind_def)
    from built_block(4) [OF g j(1) this jump(2)] jump(3) obtain n' where
      "map_of (label_to_block g) l = Some n'" "n' \<in> bb_successors ?b" by auto
    moreover have "Suc k < length ?p \<longrightarrow> starts_block ?p (Suc k)"
      using jump(1,2) by (auto simp: starts_block_def is_branch_kind_def)
    ultimately show ?thesis using start at succ jump(4) by (auto simp: block_of_def)
  qed
qed

text \<open>Facts that hold at the start, inside blocks and along edges hold wherever a run gets.\<close>

lemma reaches_facts:
  assumes g: "build_cfg prog = Inr g" and M: "branches_ok M" and wf: "wf_control (items prog)" "plain_control (items prog)"
    and F0: "F 0 st0"
    and inside: "\<And>k st st'. F k st \<Longrightarrow> flow M (items prog) k st (Suc k) st' \<Longrightarrow> Suc k < length (items prog) \<Longrightarrow>
      \<not> starts_block (items prog) (Suc k) \<Longrightarrow> block_of g (items prog) (Suc k) = block_of g (items prog) k \<Longrightarrow> F (Suc k) st'"
    and edge: "\<And>k st k' st' n n'. F k st \<Longrightarrow> flow M (items prog) k st k' st' \<Longrightarrow> k' < length (items prog) \<Longrightarrow>
      starts_block (items prog) k' \<Longrightarrow> Suc k < length (items prog) \<longrightarrow> starts_block (items prog) (Suc k) \<Longrightarrow>
      block_of g (items prog) k = Some n \<Longrightarrow> block_of g (items prog) k' = Some n' \<Longrightarrow> n' \<in> successors_of g n \<Longrightarrow> F k' st'"
  shows "reaches M (items prog) st0 k st \<Longrightarrow> k < length (items prog) \<Longrightarrow> F k st"
proof (induction rule: reaches.induct)
  case start
  show ?case by (rule F0)
next
  case (step k st k' st')
  from step.hyps(2) have "k < length (items prog)" by cases auto
  with step have "F k st" by blast
  with flow_edge [OF g M wf step.hyps(2) step.prems] step.hyps(2) step.prems inside edge show ?case by blast
qed

section \<open>The entry\<close>

lemma add_blocks_names:
  "add_blocks its ls st = Inr st' \<Longrightarrow> map fst (cb_blocks st) = cb_order st \<Longrightarrow> \<exists>new. cb_blocks st' = cb_blocks st @ new \<and> length new = length ls \<and>
    map fst (cb_blocks st') = cb_order st' \<and>
    (\<forall>j < length ls. \<exists>s. fst (new ! j) = block_name (ls ! j) (labels_between its (ls ! j) (run_end its (drop (Suc j) ls))) s)"
proof (induction ls arbitrary: st)
  case (Cons l ls)
  from Cons.prems obtain st1 where st1: "add_block its l (run_end its ls) st = Inr st1"
    "add_blocks its ls st1 = Inr st'" by (auto simp: bindE_Inr_iff run_end_def)
  obtain b where b: "cb_blocks st1 = cb_blocks st @ [(block_name l (labels_between its l (run_end its ls)) (cb_synthetic st), b)]"
    "cb_order st1 = cb_order st @ [block_name l (labels_between its l (run_end its ls)) (cb_synthetic st)]"
    using st1(1) by (auto simp: add_block_def Let_def bindE_Inr_iff update_new split: if_split_asm)
  have "map fst (cb_blocks st1) = cb_order st1" using b Cons.prems(2) by simp
  from Cons.IH [OF st1(2) this] obtain new where new: "cb_blocks st' = cb_blocks st1 @ new" "length new = length ls"
    "map fst (cb_blocks st') = cb_order st'"
    "\<forall>j < length ls. \<exists>s. fst (new ! j) = block_name (ls ! j) (labels_between its (ls ! j) (run_end its (drop (Suc j) ls))) s" by blast
  let ?nb = "(block_name l (labels_between its l (run_end its ls)) (cb_synthetic st), b)"
  have "\<exists>s. fst ((?nb # new) ! j) =
      block_name ((l # ls) ! j) (labels_between its ((l # ls) ! j) (run_end its (drop (Suc j) (l # ls)))) s"
    if "j < length (l # ls)" for j
    using that new(4) by (cases j) auto
  then show ?case using new(1-3) b(1) by (intro exI [of _ "?nb # new"]) auto
qed simp

text \<open>Where no label is called \<open>entry\<close>, the graph is entered at the block of the first item.\<close>

lemma entry_first:
  assumes g: "build_cfg prog = Inr g" and wf: "wf_control (items prog)" and ne: "items prog \<noteq> []"
  shows "block_of g (items prog) 0 = Some (entry g)"
proof -
  let ?its = "items prog"
  from g obtain labels L st bs where
    l: "collect_labels ?its = Inr labels" "find_leaders ?its labels = Inr L"
    and st: "add_blocks ?its (sorted_list_of_set L) build_start = Inr st" "cb_blocks st \<noteq> []"
    and bs: "connect_successors (cb_labels st) (cb_blocks st) = Inr bs"
    and gb: "blocks g = connect_predecessors bs"
      "entry g = (if has_key (cb_blocks st) ''entry'' then ''entry'' else hd (cb_order st))"
    by (auto simp: build_cfg_def Let_def bindE_Inr_iff connect_edges_def split: if_split_asm)
  have L: "sorted_list_of_set L = starts ?its" using leaders_spec(1) [OF l] by (simp add: starts_def)
  obtain j where j: "j < length (starts ?its)" "starts ?its ! j \<le> 0" "0 < block_end ?its j"
    using ne by (auto intro: position_block [of 0 ?its])
  have j0: "j = 0" using starts_less [of 0 j ?its] j by (cases j) auto
  from add_blocks_names [OF st(1)] have names: "length (cb_blocks st) = length (starts ?its)" "map fst (cb_blocks st) = cb_order st"
    "\<And>i. i < length (starts ?its) \<Longrightarrow> \<exists>s. fst (cb_blocks st ! i) =
      block_name (starts ?its ! i) (labels_between ?its (starts ?its ! i) (block_end ?its i)) s"
    by (auto simp: L build_start_def block_end_def)
  have "fst (blocks g ! 0) = fst (cb_blocks st ! 0)"
    using connect_predecessors_nth(2) [of 0 bs] connect_successors_nth [OF bs] st(2) by (simp add: gb(1))
  also have "\<dots> = entry g"
  proof (cases "has_key (cb_blocks st) ''entry''")
    case False
    then show ?thesis using st(2) names(2) by (simp add: gb(2) names(2) [symmetric] hd_map hd_conv_nth)
  next
    case True
    then obtain i where i: "i < length (starts ?its)" "fst (cb_blocks st ! i) = ''entry''"
      by (auto simp: has_key_iff in_set_conv_nth names(1))
    from names(3) [OF i(1)] i(2) obtain s where s:
      "block_name (starts ?its ! i) (labels_between ?its (starts ?its ! i) (block_end ?its i)) s = ''entry''" by auto
    have lab: "x \<noteq> ''entry''" if "x \<in> set (labels_between ?its lo hi)" "hi \<le> length ?its" for x lo hi
    proof -
      have "Label x \<in> set ?its" using that by (force simp: labels_between_def split: item.split_asm)
      then show ?thesis using wf by (auto simp: wf_control_def list_all_iff in_labels_of)
    qed
    have "block_end ?its i \<le> length ?its"
      using starts_block_le [of ?its] by (auto simp: block_end_eq) (metis nth_mem mem_Collect_eq set_starts)
    then have "starts ?its ! i = 0"
    proof (cases "labels_between ?its (starts ?its ! i) (block_end ?its i)")
      case Nil
      with s show ?thesis by (simp add: block_name_def split: if_split_asm)
    next
      case (Cons x xs)
      with s have "x = ''entry''" by (simp add: block_name_def)
      with lab [of x "starts ?its ! i" "block_end ?its i"] Cons \<open>block_end ?its i \<le> length ?its\<close> show ?thesis by simp
    qed
    then have "i = 0" using starts_less [of 0 i ?its] i(1) by (cases i) auto
    with i(2) True show ?thesis by (simp add: gb(2))
  qed
  finally show ?thesis using block_of_position [OF g j] j0 by simp
qed

section \<open>Properties\<close>

text \<open>Where a run gets, the block is reached from the entry along the edges.\<close>

lemma runs_in_reachable_blocks:
  assumes "build_cfg prog = Inr g" "branches_ok M" "wf_control (items prog)" "plain_control (items prog)"
    and "reaches M (items prog) st0 k st" "k < length (items prog)"
  shows "\<exists>n. block_of g (items prog) k = Some n \<and> n \<in> reachable g"
proof -
  have ne: "items prog \<noteq> []" using assms(6) by auto
  show ?thesis
  proof (rule reaches_facts [OF assms(1-4) _ _ _ assms(5,6), where F = "\<lambda>k _. \<exists>n. block_of g (items prog) k = Some n \<and> n \<in> reachable g"])
    show "\<exists>n. block_of g (items prog) 0 = Some n \<and> n \<in> reachable g"
      using entry_first [OF assms(1,3) ne] entry_reachable [of g] by blast
    show "\<exists>n. block_of g (items prog) k' = Some n \<and> n \<in> reachable g"
      if "\<exists>n. block_of g (items prog) k = Some n \<and> n \<in> reachable g"
        "block_of g (items prog) k = Some n" "block_of g (items prog) k' = Some n'" "n' \<in> successors_of g n" for k k' n n'
      using that by (auto simp: reachable_def intro: rtrancl_into_rtrancl)
  qed auto
qed


text \<open>A machine with branches and returns; every other operation gives 0 and keeps the memory.\<close>

definition control_machine :: "(int, 'm) ptx_machine" where
  "control_machine = \<lparr>fl = \<lparr>unpack32 = id, pack32 = Some, f_add = (+), f_mul = (*), f_finite = (\<lambda>_. True)\<rparr>,
     pure_other = (\<lambda>_ _. 0),
     other_op = (\<lambda>opc vs m.
       if before_first CHR ''.'' opc = ''bra'' then (case vs of Text l rs # _ \<Rightarrow> Jump l m | _ \<Rightarrow> Fault)
       else if before_first CHR ''.'' opc = ''ret'' then Exit m else Next 0 m)\<rparr>"

lemma control_machine_branches: "branches_ok control_machine"
  unfolding branches_ok_def control_machine_def
  by (auto split: list.split_asm operand_value.split_asm if_split_asm list.split operand_value.split)

definition flow_state :: "unit pstate" where
  "flow_state = \<lparr>env = (\<lambda>_. 0), pmemory = ()\<rparr>"


text \<open>
  A predicated return ends its block without an edge to the code behind it, although that code runs
  where the guard is false: \<open>plain_control\<close> excludes it.
\<close>

definition guarded_return_items :: "item list" where
  "guarded_return_items =
     [Inst ((PTXInstruction ''ret'' [])\<lparr>pi_predicate := Some ''%p1''\<rparr>),
      Inst (PTXInstruction ''st.global.u32'' [''[%rd1]'', ''%r1'']), Inst (PTXInstruction ''ret'' [])]"

lemma guarded_return_cuts_graph:
  "\<not> plain_control guarded_return_items \<and>
   (case build_cfg (sample_program guarded_return_items) of Inl _ \<Rightarrow> False
    | Inr g \<Rightarrow> map fst (blocks g) = [''entry'', ''block_0''] \<and> successors_of g ''entry'' = {} \<and>
        block_of g guarded_return_items 1 = Some ''block_0'') \<and>
   effect control_machine ((PTXInstruction ''ret'' [])\<lparr>pi_predicate := Some ''%p1''\<rparr>) flow_state = Continue flow_state"
proof (intro conjI)
  show "\<not> plain_control guarded_return_items" by code_simp
  show "case build_cfg (sample_program guarded_return_items) of Inl _ \<Rightarrow> False
    | Inr g \<Rightarrow> map fst (blocks g) = [''entry'', ''block_0''] \<and> successors_of g ''entry'' = {} \<and>
        block_of g guarded_return_items 1 = Some ''block_0''" by code_simp
  have "predicate_reads ((PTXInstruction ''ret'' [])\<lparr>pi_predicate := Some ''%p1''\<rparr>) = [''%p1'']" by code_simp
  then show "effect control_machine ((PTXInstruction ''ret'' [])\<lparr>pi_predicate := Some ''%p1''\<rparr>) flow_state = Continue flow_state"
    by (simp add: effect_def guard_holds_def flow_state_def PTXInstruction_def)
qed

end
