(* ===== verification/Global_Cp.thy ===== *)
theory Global_Cp
  imports Cfg_Flow Local_Fold
begin

text \<open>
  \<open>GlobalConstantPropagationPass\<close> of \<open>passes/global_cp.py\<close>: a forward dataflow of constants over the
  blocks, met at the joins, and the rewriting of every instruction under the constants before it.
\<close>

unbundle bit_operations_syntax

section \<open>One instruction\<close>

type_synonym const_dict = "(string, known_const) dict"

definition GLOBAL_FOLD_BASES :: "string list" where
  "GLOBAL_FOLD_BASES = LOCAL_CONSTANT_FOLD_BASES @ [''and'', ''or'', ''xor'', ''shl'', ''shr'', ''mad'']"

definition fold_type :: "ptx_instruction \<Rightarrow> string" where
  "fold_type inst = (let parts = opcode_parts inst in if 2 \<le> length parts then last parts else '''')"

definition evaluate_bitwise :: "string \<Rightarrow> int \<Rightarrow> int \<Rightarrow> int" where
  "evaluate_bitwise base lhs rhs =
     mask32 (if base = ''and'' then lhs AND rhs else if base = ''or'' then lhs OR rhs else lhs XOR rhs)"

text \<open>The constant of an instruction whose sources are all known, and whether it becomes a move.\<close>

definition folded_result :: "string \<Rightarrow> string \<Rightarrow> known_const list \<Rightarrow> (bool \<times> known_const) option" where
  "folded_result base ptx_type known =
     (case known of
        [c] \<Rightarrow> if base = ''mov'' then Some (False, c) else None
      | [a, b] \<Rightarrow>
          if base \<in> {''add'', ''sub'', ''mul''} \<and> ptx_type = ''u32''
          then map_option (\<lambda>v. (False, (ptx_type, v))) (evaluate_u32 base (snd a) (snd b))
          else if base \<in> {''and'', ''or'', ''xor''} then Some (True, (ptx_type, evaluate_bitwise base (snd a) (snd b)))
          else None
      | _ \<Rightarrow> None)"

definition fold_with_constants :: "ptx_instruction \<Rightarrow> const_dict \<Rightarrow> ptx_instruction \<times> known_const option" where
  "fold_with_constants inst constants =
     (let base = opcode_base inst; ptx_type = fold_type inst in
      if pi_predicate inst \<noteq> None then (inst, None)
      else if base \<notin> set GLOBAL_FOLD_BASES then (inst, None)
      else
        (case destination_register inst of
           None \<Rightarrow> (inst, None)
         | Some dest \<Rightarrow>
             if startswith dest ''%p'' then (inst, None)
             else
               (let sources = tl (pi_operands inst);
                    resolved = map (\<lambda>src. resolve_constant src ptx_type (map_of constants)) sources;
                    new_operands = hd (pi_operands inst) #
                      map (\<lambda>(src, k). case k of None \<Rightarrow> src | Some c \<Rightarrow> format_constant c) (zip sources resolved);
                    new_inst = inst\<lparr>pi_operands := new_operands\<rparr> in
                if list_all (\<lambda>k. k = None) resolved then (inst, None)
                else if list_ex (\<lambda>k. k = None) resolved then (new_inst, None)
                else
                  (case folded_result base ptx_type (map the resolved) of
                     None \<Rightarrow> (new_inst, None)
                   | Some (False, c) \<Rightarrow> (new_inst, Some c)
                   | Some (True, c) \<Rightarrow>
                       (inst\<lparr>pi_opcode := ''mov.'' @ ptx_type, pi_operands := [hd new_operands, format_constant c]\<rparr>, Some c)))))"

definition set_constant :: "string option \<Rightarrow> known_const option \<Rightarrow> const_dict \<Rightarrow> const_dict" where
  "set_constant dest known constants =
     (case dest of
        None \<Rightarrow> constants
      | Some d \<Rightarrow>
          if startswith d ''%p'' then constants
          else (case known of None \<Rightarrow> AList.delete d constants | Some c \<Rightarrow> AList.update d c constants))"

section \<open>The dataflow\<close>

text \<open>In this phase predicated instructions and those with \<open>.cc\<close> are skipped, destination and all.\<close>

definition cp_transfer :: "const_dict \<Rightarrow> ptx_instruction \<Rightarrow> const_dict" where
  "cp_transfer constants inst =
     (if pi_predicate inst \<noteq> None \<or> has_substring (pi_opcode inst) ''.cc'' then constants
      else set_constant (destination_register inst) (snd (fold_with_constants inst constants)) constants)"

type_synonym constants_out = "(string, const_dict) dict"

definition exit_constants :: "constants_out \<Rightarrow> string \<Rightarrow> const_dict" where
  "exit_constants out name = (case map_of out name of None \<Rightarrow> [] | Some c \<Rightarrow> c)"

definition meet_constants :: "const_dict list \<Rightarrow> const_dict" where
  "meet_constants outs =
     (case outs of [] \<Rightarrow> [] | d # ds \<Rightarrow> filter (\<lambda>(k, v). list_all (\<lambda>d'. map_of d' k = Some v) ds) d)"

text \<open>The result does not depend on the order of the predecessors.\<close>

definition block_entry_constants :: "string \<Rightarrow> cfg \<Rightarrow> constants_out \<Rightarrow> const_dict" where
  "block_entry_constants name g out =
     meet_constants (map (exit_constants out) (filter (has_key out) (sorted_list_of_set (predecessors_of g name))))"

definition same_dict :: "const_dict \<Rightarrow> const_dict \<Rightarrow> bool" where
  "same_dict a b \<longleftrightarrow> list_all (\<lambda>k. map_of a k = map_of b k) (map fst a @ map fst b)"

definition block_out :: "cfg \<Rightarrow> constants_out \<Rightarrow> string \<Rightarrow> const_dict" where
  "block_out g out name =
     foldl cp_transfer (block_entry_constants name g out)
       (case map_of (blocks g) name of None \<Rightarrow> [] | Some b \<Rightarrow> bb_instructions b)"

definition cp_block :: "cfg \<Rightarrow> bool \<times> constants_out \<Rightarrow> string \<Rightarrow> bool \<times> constants_out" where
  "cp_block g s name =
     (let new = block_out g (snd s) name in
      if same_dict new (exit_constants (snd s) name) then s else (True, AList.update name new (snd s)))"

definition cp_round :: "cfg \<Rightarrow> constants_out \<Rightarrow> bool \<times> constants_out" where
  "cp_round g out = foldl (cp_block g) (False, out) (block_order g)"

definition MAX_ITERATIONS :: nat where
  "MAX_ITERATIONS = 20"

text \<open>The constants at the block ends, the rounds made, and whether the last one changed something.\<close>

fun cp_dataflow :: "cfg \<Rightarrow> nat \<Rightarrow> nat \<Rightarrow> constants_out \<Rightarrow> constants_out \<times> nat \<times> bool" where
  "cp_dataflow g 0 iteration out = (out, iteration, True)"
| "cp_dataflow g (Suc left) iteration out =
     (let r = cp_round g out in
      if fst r then cp_dataflow g left (Suc iteration) (snd r) else (snd r, Suc iteration, False))"

definition constants_at_exits :: "cfg \<Rightarrow> constants_out \<times> nat \<times> bool" where
  "constants_at_exits g = cp_dataflow g MAX_ITERATIONS 0 (map (\<lambda>(n, b). (n, [])) (blocks g))"

section \<open>The rewriting\<close>

text \<open>\<open>_label_to_block\<close>: the first block with the label.\<close>

definition block_with_label :: "string \<Rightarrow> cfg \<Rightarrow> string option" where
  "block_with_label l g = map_option fst (find (\<lambda>(n, b). l \<in> set (bb_labels b)) (blocks g))"

type_synonym cp_state = "string option \<times> const_dict"

text \<open>At a label, and where the block of the items changes, the constants are those of the block.\<close>

definition cp_enter :: "cfg \<Rightarrow> constants_out \<Rightarrow> nat \<Rightarrow> item \<Rightarrow> cp_state \<Rightarrow> cp_state" where
  "cp_enter g out i it s =
     (case it of
        Label l \<Rightarrow>
          (case block_with_label l g of
             None \<Rightarrow> s
           | Some n \<Rightarrow> if n = '''' then s else (Some n, block_entry_constants n g out))
      | Inst _ \<Rightarrow>
          (case item_to_block g i of
             None \<Rightarrow> s
           | Some n \<Rightarrow> if Some n \<noteq> fst s then (Some n, block_entry_constants n g out) else s))"

definition cp_leave :: "item \<Rightarrow> cp_state \<Rightarrow> cp_state" where
  "cp_leave it s =
     (case it of
        Label _ \<Rightarrow> s
      | Inst x \<Rightarrow> (fst s, set_constant (destination_register x) (snd (fold_with_constants x (snd s))) (snd s)))"

definition cp_rewrite :: "item \<Rightarrow> const_dict \<Rightarrow> item" where
  "cp_rewrite it constants = (case it of Label l \<Rightarrow> Label l | Inst x \<Rightarrow> Inst (fst (fold_with_constants x constants)))"

fun cp_items :: "cfg \<Rightarrow> constants_out \<Rightarrow> nat \<Rightarrow> item list \<Rightarrow> cp_state \<Rightarrow> item list" where
  "cp_items g out i [] s = []"
| "cp_items g out i (it # its) s =
     (let s' = cp_enter g out i it s in
      cp_rewrite it (snd s') # cp_items g out (Suc i) its (cp_leave it s'))"

definition global_constant_propagation :: "cfg \<Rightarrow> ptx_program \<Rightarrow> ptx_program \<times> pass_result" where
  "global_constant_propagation g prog =
     (let (out, iteration, changed) = constants_at_exits g;
          kept = cp_items g out 0 (items prog) (None, []);
          folded = folded_destinations (items prog) kept;
          listed = folded @ (if changed then [''<global-cp-did-not-converge>''] else []);
          details = [(''folded_instruction_count'', DInt (int (length folded))), (''folded_destinations'', DStrs (sort listed)),
                     (''transforms_applied'', DInt (int (length folded))), (''dataflow_iterations'', DInt (int iteration)),
                     (''converged'', DBool (\<not> changed))] in
      if folded = [] then (prog, unchanged_result details)
      else (rebuild_program prog kept, changed_result details))"

end
