(* ===== verification/Global_Cp_Correct.thy ===== *)
theory Global_Cp_Correct
  imports Global_Cp
begin

text \<open>
  A kernel runs the same after global constant propagation, if the dataflow has converged, every
  instruction it skips has no constant to lose, and every constant it computes is one the machine
  computes: a translation validation by \<open>cp_safe\<close>, over the coverage of runs by the graph.
\<close>

section \<open>The constants before each item\<close>

primrec cp_before :: "cfg \<Rightarrow> constants_out \<Rightarrow> item list \<Rightarrow> nat \<Rightarrow> cp_state" where
  "cp_before g out its 0 = (None, [])"
| "cp_before g out its (Suc k) = cp_leave (its ! k) (cp_enter g out k (its ! k) (cp_before g out its k))"

definition cp_facts :: "cfg \<Rightarrow> constants_out \<Rightarrow> item list \<Rightarrow> nat \<Rightarrow> const_dict" where
  "cp_facts g out its k = snd (cp_enter g out k (its ! k) (cp_before g out its k))"

lemma cp_items_nth:
  "k \<le> length its \<Longrightarrow> cp_items g out k (drop k its) (cp_before g out its k) =
    map (\<lambda>i. cp_rewrite (its ! i) (cp_facts g out its i)) [k..<length its]"
proof (induction "length its - k" arbitrary: k)
  case (Suc n)
  then have k: "k < length its" by simp
  have "drop k its = its ! k # drop (Suc k) its" using k by (simp add: Cons_nth_drop_Suc)
  then have "cp_items g out k (drop k its) (cp_before g out its k) =
      cp_rewrite (its ! k) (cp_facts g out its k) # cp_items g out (Suc k) (drop (Suc k) its) (cp_before g out its (Suc k))"
    by (simp add: cp_facts_def Let_def)
  also have "\<dots> = cp_rewrite (its ! k) (cp_facts g out its k) # map (\<lambda>i. cp_rewrite (its ! i) (cp_facts g out its i)) [Suc k..<length its]"
    using Suc.hyps(1) [of "Suc k"] Suc.hyps(2) k by (simp del: cp_before.simps)
  finally show ?case using k by (simp add: upt_conv_Cons)
qed simp

section \<open>Validation\<close>

text \<open>The opcodes whose folded result is the machine's, given \<open>alu_ok\<close>.\<close>

definition alu_ok :: "('f, 'm) ptx_machine \<Rightarrow> bool" where
  "alu_ok M \<longleftrightarrow> (\<forall>a b. pure_other M ''mul.lo.u32'' [Value a, Value b] = mask32 (a * b)) \<and>
     (\<forall>t a b. t \<in> set INT32_TYPES \<longrightarrow>
        pure_other M (''and.'' @ t) [Value a, Value b] = mask32 (a AND b) \<and>
        pure_other M (''or.'' @ t) [Value a, Value b] = mask32 (a OR b) \<and>
        pure_other M (''xor.'' @ t) [Value a, Value b] = mask32 (a XOR b))"

definition FOLDED_OPCODES :: "string list" where
  "FOLDED_OPCODES = [''mov.b32'', ''mov.s32'', ''mov.u32'', ''mov.f32'', ''add.u32'', ''sub.u32'', ''mul.u32'', ''mul.lo.u32'',
     ''and.b32'', ''and.s32'', ''and.u32'', ''or.b32'', ''or.s32'', ''or.u32'', ''xor.b32'', ''xor.s32'', ''xor.u32'']"

definition cp_inst_ok :: "ptx_instruction \<Rightarrow> const_dict \<Rightarrow> bool" where
  "cp_inst_ok i c \<longleftrightarrow> literals_ok i \<and>
     (has_substring (pi_opcode i) ''.cc'' \<longrightarrow> snd (fold_with_constants i c) = None) \<and>
     (case destination_register i of None \<Rightarrow> True
      | Some d \<Rightarrow> startswith d ''%p'' \<or> pi_predicate i \<noteq> None \<or> has_substring (pi_opcode i) ''.cc'' \<longrightarrow> map_of c d = None) \<and>
     (snd (fold_with_constants i c) \<noteq> None \<longrightarrow> pi_opcode i \<in> set FOLDED_OPCODES)"

fun cp_check :: "cfg \<Rightarrow> constants_out \<Rightarrow> nat \<Rightarrow> item list \<Rightarrow> cp_state \<Rightarrow> bool" where
  "cp_check g out i [] s \<longleftrightarrow> True"
| "cp_check g out i (it # its) s \<longleftrightarrow>
     (let s' = cp_enter g out i it s in
      (case it of Label l \<Rightarrow> block_with_label l g \<noteq> Some [] | Inst x \<Rightarrow> cp_inst_ok x (snd s')) \<and>
      cp_check g out (Suc i) its (cp_leave it s'))"

definition cp_safe :: "cfg \<Rightarrow> item list \<Rightarrow> bool" where
  "cp_safe g its \<longleftrightarrow> plain_control its \<and>
     (let (out, _, changed) = constants_at_exits g in
      \<not> changed \<and> block_entry_constants (entry g) g out = [] \<and> cp_check g out 0 its (None, []))"

lemma cp_check_nth:
  "k \<le> length its \<Longrightarrow> cp_check g out k (drop k its) (cp_before g out its k) \<Longrightarrow> k \<le> i \<Longrightarrow> i < length its \<Longrightarrow>
    (case its ! i of Label l \<Rightarrow> block_with_label l g \<noteq> Some [] | Inst x \<Rightarrow> cp_inst_ok x (cp_facts g out its i))"
proof (induction "length its - k" arbitrary: k)
  case (Suc n)
  then have k: "k < length its" by simp
  then have "drop k its = its ! k # drop (Suc k) its" by (simp add: Cons_nth_drop_Suc)
  with Suc.prems(2) have c: "case its ! k of Label l \<Rightarrow> block_with_label l g \<noteq> Some [] | Inst x \<Rightarrow> cp_inst_ok x (cp_facts g out its k)"
    "cp_check g out (Suc k) (drop (Suc k) its) (cp_before g out its (Suc k))"
    by (simp_all only: cp_check.simps Let_def cp_facts_def cp_before.simps)
  show ?case
  proof (cases "i = k")
    case False
    with Suc.hyps(1) [of "Suc k"] Suc.hyps(2) Suc.prems k c(2) show ?thesis by (simp del: cp_before.simps)
  next
    case True
    show ?thesis unfolding True by (rule c(1))
  qed
qed simp

section \<open>One instruction\<close>

lemma global_bases_destination: "b \<in> set GLOBAL_FOLD_BASES \<Longrightarrow> b \<in> set DESTINATION_BASES"
  by (auto simp: GLOBAL_FOLD_BASES_def LOCAL_CONSTANT_FOLD_BASES_def DESTINATION_BASES_def PURE_RESULT_BASES_def
      PURE_RESULT_OPERAND_COUNTS_def)

text \<open>Replacing known sources by their constants leaves the values an instruction sees.\<close>

lemma resolved_sources_value:
  assumes C: "constants_hold (map_of c) st" and l: "list_all literal_ok sources"
    and "resolved = map (\<lambda>src. resolve_constant src t (map_of c)) sources"
  shows "map (operand_value (env st)) (map (\<lambda>(src, k). case k of None \<Rightarrow> src | Some c \<Rightarrow> format_constant c) (zip sources resolved)) =
    map (operand_value (env st)) sources"
proof -
  have "operand_value (env st) (case resolve_constant src t (map_of c) of None \<Rightarrow> src | Some c \<Rightarrow> format_constant c) =
      operand_value (env st) src" if "src \<in> set sources" for src
  proof (cases "resolve_constant src t (map_of c)")
    case (Some k)
    obtain t' v where k: "k = (t', v)" by force
    have "literal_ok src" using l that by (simp add: list_all_iff)
    from resolve_value [OF C Some[unfolded k] this] Some k show ?thesis by (simp add: format_constant_value)
  qed simp
  then show ?thesis unfolding assms(3) zip_map2 by (simp add: zip_same_conv_map)
qed

lemma fold_same_shape:
  assumes "destination_register i = Some d" "opcode_base i \<in> set DESTINATION_BASES"
    and j: "j = i\<lparr>pi_operands := hd (pi_operands i) # ops\<rparr>" "length ops = length (tl (pi_operands i))"
  shows "destination_register j = Some d" "pure_dest j = pure_dest i" "predicate_reads j = predicate_reads i"
    "source_operands j = ops" "source_operands i = tl (pi_operands i)" "pi_opcode j = pi_opcode i"
proof -
  have ne: "pi_operands i \<noteq> []" using assms(1) by (auto simp: destination_register_def)
  have b: "opcode_base j = opcode_base i" "opcode_parts j = opcode_parts i" "has_cc j = has_cc i"
    by (simp_all add: j opcode_base_def opcode_parts_def has_cc_def)
  have len: "length (pi_operands j) = length (pi_operands i)" using ne j by (cases "pi_operands i") simp_all
  have hd: "hd (pi_operands j) = hd (pi_operands i)" "pi_operands j \<noteq> []" by (simp_all add: j)
  show d: "destination_register j = Some d"
    using assms(1) b(1) hd ne by (cases "pi_operands i"; cases "pi_operands j") (auto simp: destination_register_def)
  show "pure_dest j = pure_dest i" using d assms(1) b len by (simp add: pure_dest_def split: option.split)
  show "predicate_reads j = predicate_reads i" by (simp add: j predicate_reads_def)
  show "source_operands j = ops" using assms(2) b(1) by (simp add: source_operands_def j)
  show "source_operands i = tl (pi_operands i)" using assms(2) ne by (simp add: source_operands_def)
  show "pi_opcode j = pi_opcode i" by (simp add: j)
qed

lemma same_values_effect:
  assumes "pi_opcode j = pi_opcode i" "pure_dest j = pure_dest i" "destination_register j = destination_register i"
    "predicate_reads j = predicate_reads i" "pi_negated j = pi_negated i" "source_values j (env st) = source_values i (env st)"
  shows "effect M j st = effect M i st"
  by (simp only: effect_def inst_outcome_def guard_holds_def assms)

lemma map_Some_the: "None \<notin> set xs \<Longrightarrow> xs = map Some (map the xs)"
  by (induction xs) auto

text \<open>What a fold does: nothing, constants for sources, or a move of the result.\<close>

lemma fold_cases:
  assumes "fold_with_constants i c = (j, known)"
  obtains (same) "j = i" "known = None"
  | (sources) d ops where "destination_register i = Some d" "\<not> startswith d ''%p''" "opcode_base i \<in> set GLOBAL_FOLD_BASES"
      "pi_predicate i = None" "j = i\<lparr>pi_operands := hd (pi_operands i) # ops\<rparr>"
      "ops = map (\<lambda>(src, k). case k of None \<Rightarrow> src | Some c \<Rightarrow> format_constant c)
        (zip (tl (pi_operands i)) (map (\<lambda>src. resolve_constant src (fold_type i) (map_of c)) (tl (pi_operands i))))"
      "known = None \<or> (\<exists>ks. map (\<lambda>src. resolve_constant src (fold_type i) (map_of c)) (tl (pi_operands i)) = map Some ks \<and>
        folded_result (opcode_base i) (fold_type i) ks = Some (False, the known) \<and> known \<noteq> None)"
  | (move) d ks k where "destination_register i = Some d" "\<not> startswith d ''%p''" "opcode_base i \<in> set GLOBAL_FOLD_BASES"
      "pi_predicate i = None" "known = Some k"
      "map (\<lambda>src. resolve_constant src (fold_type i) (map_of c)) (tl (pi_operands i)) = map Some ks"
      "folded_result (opcode_base i) (fold_type i) ks = Some (True, k)"
      "j = i\<lparr>pi_opcode := ''mov.'' @ fold_type i, pi_operands := [hd (pi_operands i), format_constant k]\<rparr>"
proof -
  let ?res = "map (\<lambda>src. resolve_constant src (fold_type i) (map_of c)) (tl (pi_operands i))"
  let ?ops = "map (\<lambda>(src, k). case k of None \<Rightarrow> src | Some c \<Rightarrow> format_constant c) (zip (tl (pi_operands i)) ?res)"
  let ?new = "i\<lparr>pi_operands := hd (pi_operands i) # ?ops\<rparr>"
  show thesis
  proof (cases "pi_predicate i = None \<and> opcode_base i \<in> set GLOBAL_FOLD_BASES \<and> (\<exists>d. destination_register i = Some d \<and> \<not> startswith d ''%p'')")
    case False
    then have "fold_with_constants i c = (i, None)" by (auto simp: fold_with_constants_def Let_def split: option.split)
    with assms same show thesis by simp
  next
    case True
    then obtain d where d: "pi_predicate i = None" "opcode_base i \<in> set GLOBAL_FOLD_BASES" "destination_register i = Some d"
      "\<not> startswith d ''%p''" by blast
    then have f: "fold_with_constants i c = (if list_all (\<lambda>k. k = None) ?res then (i, None)
        else if list_ex (\<lambda>k. k = None) ?res then (?new, None)
        else (case folded_result (opcode_base i) (fold_type i) (map the ?res) of
           None \<Rightarrow> (?new, None) | Some (False, k) \<Rightarrow> (?new, Some k)
         | Some (True, k) \<Rightarrow> (i\<lparr>pi_opcode := ''mov.'' @ fold_type i, pi_operands := [hd (pi_operands i), format_constant k]\<rparr>, Some k)))"
      by (simp only: fold_with_constants_def Let_def option.case if_False not_True_eq_False simp_thms list.sel)
    have some: "?res = map Some (map the ?res)" if "\<not> list_ex (\<lambda>k. k = None) ?res"
      using that by (intro map_Some_the) (auto simp: list_ex_iff)
    consider "list_all (\<lambda>k. k = None) ?res" | "\<not> list_all (\<lambda>k. k = None) ?res" "list_ex (\<lambda>k. k = None) ?res"
      | "\<not> list_all (\<lambda>k. k = None) ?res" "\<not> list_ex (\<lambda>k. k = None) ?res" by blast
    then show thesis
    proof cases
      case 1
      with f assms same show thesis by simp
    next
      case 2
      with f assms have "j = ?new" "known = None" by simp_all
      with sources [OF d(3,4,2,1) _ refl] show thesis by blast
    next
      case 3
      show thesis
      proof (cases "folded_result (opcode_base i) (fold_type i) (map the ?res)")
        case None
        with f assms 3 have "j = ?new" "known = None" by simp_all
        with sources [OF d(3,4,2,1) _ refl] show thesis by blast
      next
        case (Some r)
        obtain b k where r: "r = (b, k)" by (cases r)
        show thesis
        proof (cases b)
          case True
          with f assms 3 Some r have j: "j = i\<lparr>pi_opcode := ''mov.'' @ fold_type i, pi_operands := [hd (pi_operands i), format_constant k]\<rparr>"
            "known = Some k" by simp_all
          have "folded_result (opcode_base i) (fold_type i) (map the ?res) = Some (True, k)" using Some r True by simp
          from move [OF d(3,4,2,1) j(2) some [OF 3(2)] this j(1)] show thesis .
        next
          case False
          with f assms 3 Some r have j: "j = ?new" "known = Some k" by simp_all
          have "?res = map Some (map the ?res) \<and>
              folded_result (opcode_base i) (fold_type i) (map the ?res) = Some (False, the known) \<and> known \<noteq> None"
            by (intro conjI some [OF 3(2)]) (use Some r False j(2) in simp_all)
          then have "known = None \<or> (\<exists>ks. ?res = map Some ks \<and>
              folded_result (opcode_base i) (fold_type i) ks = Some (False, the known) \<and> known \<noteq> None)" by blast
          from sources [OF d(3,4,2,1) j(1) refl this] show thesis .
        qed
      qed
    qed
  qed
qed

text \<open>The constant a fold reports is what the machine computes.\<close>

lemma folded_value:
  assumes M: "alu_ok M" and opc: "pi_opcode i \<in> set FOLDED_OPCODES"
    and ks: "list_all (\<lambda>k. fst k = fold_type i \<and> fold_type i \<in> known_types \<and> mask32 (snd k) = snd k) ks"
    and r: "folded_result (opcode_base i) (fold_type i) ks = Some (b, k)"
  shows "fst k = fold_type i \<and> fold_type i \<in> known_types \<and>
    pure_value M (pi_opcode i) (map (\<lambda>k. Value (snd k)) ks) = mask32 (snd k) \<and> mask32 (snd k) = snd k"
proof -
  have all: "(\<exists>t \<in> known_types. pi_opcode i = ''mov.'' @ t) \<or>
      (\<exists>base \<in> {''add'', ''sub'', ''mul''}. pi_opcode i = base @ ''.u32'' \<or> base = ''mul'' \<and> pi_opcode i = ''mul.lo.u32'') \<or>
      (\<exists>base \<in> {''and'', ''or'', ''xor''}. \<exists>t \<in> set INT32_TYPES. pi_opcode i = base @ ''.'' @ t)"
    using opc unfolding FOLDED_OPCODES_def known_types_def INT32_TYPES_def by auto
  consider (mov) t where "pi_opcode i = ''mov.'' @ t" "opcode_base i = ''mov''" "fold_type i = t" "t \<in> known_types"
    | (arith) base where "opcode_base i = base" "base \<in> {''add'', ''sub'', ''mul''}" "fold_type i = ''u32''"
        "pi_opcode i = base @ ''.u32'' \<or> base = ''mul'' \<and> pi_opcode i = ''mul.lo.u32''"
    | (bits) base t where "opcode_base i = base" "base \<in> {''and'', ''or'', ''xor''}" "fold_type i = t" "t \<in> set INT32_TYPES"
        "pi_opcode i = base @ ''.'' @ t"
  proof -
    from all consider t where "t \<in> known_types" "pi_opcode i = ''mov.'' @ t"
      | base where "base \<in> {''add'', ''sub'', ''mul''}" "pi_opcode i = base @ ''.u32'' \<or> base = ''mul'' \<and> pi_opcode i = ''mul.lo.u32''"
      | base t where "base \<in> {''and'', ''or'', ''xor''}" "t \<in> set INT32_TYPES" "pi_opcode i = base @ ''.'' @ t" by blast
    then show thesis
    proof cases
      case (1 t)
      then have "opcode_base i = ''mov'' \<and> fold_type i = t"
        by (auto simp: opcode_base_def before_first_def fold_type_def opcode_parts_def elim!: known_types_cases)
      with 1 mov show thesis by blast
    next
      case (2 base)
      then have "opcode_base i = base \<and> fold_type i = ''u32''"
        by (auto simp: opcode_base_def before_first_def fold_type_def opcode_parts_def)
      with 2 arith show thesis by blast
    next
      case (3 base t)
      then have "opcode_base i = base \<and> fold_type i = t"
        by (auto simp: opcode_base_def before_first_def fold_type_def opcode_parts_def INT32_TYPES_def)
      with 3 bits show thesis by blast
    qed
  qed
  then show ?thesis
  proof cases
    case mov
    then obtain c where "ks = [c]" "k = c" using r by (auto simp: folded_result_def split: list.split_asm if_split_asm)
    with mov ks show ?thesis by (auto simp: pure_value_def elim!: known_types_cases)
  next
    case arith
    then obtain x y where "ks = [x, y]" "fst k = ''u32''" "evaluate_u32 base (snd x) (snd y) = Some (snd k)"
      using r by (auto simp: folded_result_def split: list.split_asm if_split_asm)
    moreover from this(3) have "mask32 (snd k) = snd k"
      unfolding evaluate_u32_def by (metis mask32_idem option.distinct(1) option.inject)
    moreover have "''u32'' \<in> known_types" by (simp add: known_types_def INT32_TYPES_def)
    ultimately show ?thesis using arith M
      by (auto simp: pure_value_def evaluate_u32_def alu_ok_def split: if_split_asm)
  next
    case bits
    then obtain x y where k: "ks = [x, y]" "k = (t, evaluate_bitwise base (snd x) (snd y))"
      using r by (auto simp: folded_result_def split: list.split_asm if_split_asm)
    have t: "t \<in> known_types" using bits(4) by (auto simp: known_types_def)
    have "pure_value M (pi_opcode i) [Value (snd x), Value (snd y)] = pure_other M (pi_opcode i) [Value (snd x), Value (snd y)]"
      using bits(2,5) by (auto simp: pure_value_def)
    with k t bits M show ?thesis by (auto simp: alu_ok_def evaluate_bitwise_def)
  qed
qed

lemma known_sources:
  assumes C: "constants_hold (map_of c) st" and l: "list_all literal_ok srcs"
    and r: "map (\<lambda>src. resolve_constant src t (map_of c)) srcs = map Some ks"
  shows "list_all (\<lambda>k. fst k = t \<and> t \<in> known_types \<and> mask32 (snd k) = snd k) ks"
    "map (operand_value (env st)) srcs = map (\<lambda>k. Value (snd k)) ks"
proof -
  have "list_all (\<lambda>k. fst k = t \<and> t \<in> known_types \<and> mask32 (snd k) = snd k) ks \<and>
      map (operand_value (env st)) srcs = map (\<lambda>k. Value (snd k)) ks"
    using l r
  proof (induction srcs arbitrary: ks)
    case (Cons x xs)
    then obtain k ks' where ks: "ks = k # ks'" "resolve_constant x t (map_of c) = Some k"
      "map (\<lambda>src. resolve_constant src t (map_of c)) xs = map Some ks'" by (auto simp: Cons_eq_map_conv)
    obtain t' v where k: "k = (t', v)" by (cases k)
    from resolve_value [OF C ks(2)[unfolded k]] Cons ks k show ?case by auto
  qed simp
  then show "list_all (\<lambda>k. fst k = t \<and> t \<in> known_types \<and> mask32 (snd k) = snd k) ks"
    "map (operand_value (env st)) srcs = map (\<lambda>k. Value (snd k)) ks" by auto
qed

lemma folded_not_cc: "pi_opcode i \<in> set FOLDED_OPCODES \<Longrightarrow> \<not> has_cc i"
  by (auto simp: FOLDED_OPCODES_def has_cc_def opcode_parts_def)

lemma folded_pure:
  assumes opc: "pi_opcode i \<in> set FOLDED_OPCODES" and d: "destination_register i = Some d"
    and r: "folded_result (opcode_base i) t ks = Some (b, k)" and len: "length ks = length (tl (pi_operands i))"
  shows "pure_dest i = Some d"
proof -
  have "map_of PURE_RESULT_OPERAND_COUNTS (opcode_base i) = Some (Suc (length ks))"
    using r by (auto simp: folded_result_def PURE_RESULT_OPERAND_COUNTS_def split: list.split_asm if_split_asm)
  moreover have "pi_operands i \<noteq> []" using destination_in_bases [OF d] by blast
  ultimately show ?thesis using d folded_not_cc [OF opc] len by (simp add: pure_dest_def)
qed

lemma fold_correct:
  assumes M: "alu_ok M" and C: "constants_hold (map_of c) st" and ok: "cp_inst_ok i c"
    and f: "fold_with_constants i c = (j, known)"
  shows "effect M j st = effect M i st"
    "known = Some k \<Longrightarrow> \<exists>d. destination_register i = Some d \<and> fst k \<in> known_types \<and> \<not> startswith d ''%p'' \<and>
      effect M i st = Continue \<lparr>env = (env st)(d := mask32 (snd k)), pmemory = pmemory st\<rparr>"
proof -
  have lit: "list_all literal_ok (tl (pi_operands i))" and opc: "known \<noteq> None \<Longrightarrow> pi_opcode i \<in> set FOLDED_OPCODES"
    using ok f by (simp_all add: cp_inst_ok_def literals_ok_def)
  have computed: "fst k = fold_type i \<and> fold_type i \<in> known_types \<and>
      effect M i st = Continue \<lparr>env = (env st)(d := mask32 (snd k)), pmemory = pmemory st\<rparr> \<and> is_reg_token d \<and> strip d = d"
    if "destination_register i = Some d" "pi_predicate i = None" "known \<noteq> None"
      "map (\<lambda>src. resolve_constant src (fold_type i) (map_of c)) (tl (pi_operands i)) = map Some ks"
      "folded_result (opcode_base i) (fold_type i) ks = Some (b, k)" for d ks b k
  proof -
    note S = known_sources [OF C lit that(4)]
    have "length ks = length (tl (pi_operands i))" using that(4) by (metis length_map)
    then have p: "pure_dest i = Some d" by (rule folded_pure [OF opc [OF that(3)] that(1,5)])
    note V = folded_value [OF M opc [OF that(3)] S(1) that(5)]
    have "source_values i (env st) = map (\<lambda>k. Value (snd k)) ks"
      using S(2) destination_in_bases [OF that(1)] by (simp add: source_values_def source_operands_def)
    with V pure_effect [OF that(2) p, of M st] destination_in_bases [OF that(1)] show ?thesis by auto
  qed
  show "\<exists>d. destination_register i = Some d \<and> fst k \<in> known_types \<and> \<not> startswith d ''%p'' \<and>
      effect M i st = Continue \<lparr>env = (env st)(d := mask32 (snd k)), pmemory = pmemory st\<rparr>" if k: "known = Some k"
    using f
  proof (cases rule: fold_cases)
    case same
    with k show ?thesis by simp
  next
    case (sources d ops)
    with k obtain ks where "map (\<lambda>src. resolve_constant src (fold_type i) (map_of c)) (tl (pi_operands i)) = map Some ks"
      "folded_result (opcode_base i) (fold_type i) ks = Some (False, k)" by auto
    from computed [OF sources(1,4) _ this] k sources(1,2) show ?thesis by auto
  next
    case (move d ks k')
    from computed [OF move(1,4) _ move(6,7)] k move(1,2,5) show ?thesis by auto
  qed
  show "effect M j st = effect M i st"
    using f
  proof (cases rule: fold_cases)
    case same
    then show ?thesis by simp
  next
    case (sources d ops)
    have "length ops = length (tl (pi_operands i))" by (simp add: sources(6))
    note S = fold_same_shape [OF sources(1) global_bases_destination [OF sources(3)] sources(5) this]
    have "source_values j (env st) = source_values i (env st)"
      unfolding source_values_def S(4,5) sources(6) by (rule resolved_sources_value [OF C lit refl])
    with S sources(1,5) show ?thesis by (intro same_values_effect) simp_all
  next
    case (move d ks k)
    from computed [OF move(1,4) _ move(6,7)] move(5) have k: "fst k = fold_type i" "fold_type i \<in> known_types"
      "effect M i st = Continue \<lparr>env = (env st)(d := mask32 (snd k)), pmemory = pmemory st\<rparr>" "is_reg_token d" "strip d = d" by auto
    let ?i = "i\<lparr>pi_opcode := ''mov.'' @ fold_type i, pi_operands := [d, format_constant (fold_type i, snd k)]\<rparr>"
    have "effect M ?i st = Continue \<lparr>env = (env st)(d := mask32 (snd k)), pmemory = pmemory st\<rparr>"
      by (rule folded_move_effect [OF k(2)]) (use k(4,5) move(4) in simp_all)
    moreover have "effect M j st = effect M ?i st"
    proof (rule same_values_effect)
      have b: "''mov'' \<in> set DESTINATION_BASES" by (simp add: DESTINATION_BASES_def PURE_RESULT_BASES_def PURE_RESULT_OPERAND_COUNTS_def)
      have base: "opcode_base ?i = ''mov''" "opcode_base j = ''mov''"
        by (simp_all add: move(8) opcode_base_def before_first_def)
      have h: "strip (hd (pi_operands i)) = d" using destination_in_bases [OF move(1)] by simp
      have kk: "k = (fold_type i, snd k)" using k(1) by (cases k) simp
      show dest: "destination_register j = destination_register ?i"
        using b base h k(5) by (simp add: destination_register_def move(8))
      show "source_values j (env st) = source_values ?i (env st)"
        using b base kk by (simp add: source_values_def source_operands_def move(8))
      show "pure_dest j = pure_dest ?i"
        using dest base by (simp add: pure_dest_def has_cc_def opcode_parts_def move(8) split: option.split)
      show "predicate_reads j = predicate_reads ?i" by (simp add: predicate_reads_def move(8))
    qed (simp_all add: move(8))
    ultimately show ?thesis using k(3) by simp
  qed
qed

text \<open>The constants after an instruction hold after it.\<close>

lemma transfer_holds:
  assumes M: "alu_ok M" and C: "constants_hold (map_of c) st" and ok: "cp_inst_ok i c" and e: "effect M i st = Continue st'"
  shows "constants_hold (map_of (set_constant (destination_register i) (snd (fold_with_constants i c)) c)) st'"
proof (cases "destination_register i")
  case None
  with effect_env(1) [OF e] C show ?thesis by (simp add: set_constant_def constants_hold_def)
next
  case (Some d)
  obtain j known where f: "fold_with_constants i c = (j, known)" by force
  show ?thesis
  proof (cases known)
    case None
    have "map_of c d = None" if "startswith d ''%p''" using ok Some that by (simp add: cp_inst_ok_def)
    then have "constants_hold ((map_of c)(d := None)) st'"
      using C effect_env(2) [OF e Some] by (auto simp: constants_hold_def)
    moreover have "map_of (set_constant (Some d) None c) = (if startswith d ''%p'' then map_of c else (map_of c)(d := None))"
      by (simp add: set_constant_def delete_conv' fun_upd_def)
    ultimately show ?thesis using \<open>startswith d ''%p'' \<Longrightarrow> map_of c d = None\<close> Some f None by (auto simp: fun_upd_idem)
  next
    case k: (Some k)
    from fold_correct(2) [OF M C ok f k] Some e have "fst k \<in> known_types" "\<not> startswith d ''%p''"
      "st' = \<lparr>env = (env st)(d := mask32 (snd k)), pmemory = pmemory st\<rparr>" by auto
    with C f k Some show ?thesis
      by (cases k) (auto simp: set_constant_def constants_hold_def update_conv' split: if_split_asm)
  qed
qed

section \<open>The dataflow\<close>

definition distinct_keys :: "constants_out \<Rightarrow> bool" where
  "distinct_keys out \<longleftrightarrow> (\<forall>n. distinct (map fst (exit_constants out n)))"

lemma exit_constants_update: "exit_constants (AList.update n c out) m = (if m = n then c else exit_constants out m)"
  by (simp add: exit_constants_def update_conv')

lemma distinct_filter_keys: "distinct (map fst d) \<Longrightarrow> distinct (map fst (filter P d))"
  by (induction d) auto

lemma distinct_transfer: "distinct (map fst c) \<Longrightarrow> distinct (map fst (cp_transfer c i))"
  by (simp add: cp_transfer_def set_constant_def distinct_update distinct_delete split: option.split)

lemma distinct_entry: "distinct_keys out \<Longrightarrow> distinct (map fst (block_entry_constants n g out))"
  unfolding block_entry_constants_def meet_constants_def
  by (auto simp: distinct_keys_def distinct_filter_keys split: list.split)

lemma distinct_out: "distinct_keys out \<Longrightarrow> distinct (map fst (block_out g out n))"
proof -
  have "distinct (map fst c) \<Longrightarrow> distinct (map fst (foldl cp_transfer c is))" for c "is"
    by (induction "is" arbitrary: c) (simp_all add: distinct_transfer)
  then show "distinct_keys out \<Longrightarrow> distinct (map fst (block_out g out n))" using distinct_entry by (simp add: block_out_def)
qed

lemma round_distinct: "distinct_keys out \<Longrightarrow> distinct_keys (snd (foldl (cp_block g) (b, out) ns))"
proof (induction ns arbitrary: b out)
  case (Cons n ns)
  have "distinct_keys (snd (cp_block g (b, out) n))"
    using Cons.prems distinct_out [OF Cons.prems, of g n] by (auto simp: cp_block_def Let_def distinct_keys_def exit_constants_update)
  from Cons.IH [OF this, of "fst (cp_block g (b, out) n)"] show ?case by simp
qed simp

lemma dataflow_distinct: "distinct_keys out \<Longrightarrow> distinct_keys (fst (cp_dataflow g m i out))"
  by (induction m arbitrary: i out) (simp_all add: Let_def cp_round_def round_distinct)

lemma round_unchanged:
  "\<not> fst (foldl (cp_block g) (b, out) ns) \<Longrightarrow>
    \<not> b \<and> snd (foldl (cp_block g) (b, out) ns) = out \<and> (\<forall>n \<in> set ns. same_dict (block_out g out n) (exit_constants out n))"
proof (induction ns arbitrary: b out)
  case (Cons n ns)
  show ?case
  proof (cases "same_dict (block_out g out n) (exit_constants out n)")
    case True
    then have "cp_block g (b, out) n = (b, out)" by (simp add: cp_block_def)
    with Cons.IH [of b out] Cons.prems True show ?thesis by (cases b) simp_all
  next
    case False
    then have "cp_block g (b, out) n = (True, AList.update n (block_out g out n) out)" by (simp add: cp_block_def Let_def)
    with Cons.prems have "\<not> fst (foldl (cp_block g) (True, AList.update n (block_out g out n) out) ns)" by (simp only: foldl_Cons not_False_eq_True)
    from Cons.IH [OF this] show ?thesis by blast
  qed
qed simp

lemma round_keys: "fst ` set out \<subseteq> fst ` set (snd (foldl (cp_block g) (b, out) ns))"
proof (induction ns arbitrary: b out)
  case (Cons n ns)
  have "fst ` set out \<subseteq> fst ` set (snd (cp_block g (b, out) n))" by (auto simp: cp_block_def Let_def dom_update)
  with Cons.IH [of "snd (cp_block g (b, out) n)" "fst (cp_block g (b, out) n)"] show ?case by simp
qed simp

lemma dataflow_keys: "fst ` set out \<subseteq> fst ` set (fst (cp_dataflow g m i out))"
proof (induction m arbitrary: i out)
  case (Suc m)
  have "fst ` set out \<subseteq> fst ` set (snd (cp_round g out))" unfolding cp_round_def by (rule round_keys)
  with Suc.IH [of "snd (cp_round g out)" "Suc i"] show ?case by (simp add: Let_def) blast
qed simp

lemma dataflow_converged:
  "cp_dataflow g m i out0 = (out, it, False) \<Longrightarrow> n \<in> set (block_order g) \<Longrightarrow> same_dict (block_out g out n) (exit_constants out n)"
proof (induction m arbitrary: i out0)
  case (Suc m)
  show ?case
  proof (cases "fst (cp_round g out0)")
    case True
    with Suc show ?thesis by (simp add: Let_def)
  next
    case False
    with round_unchanged [of g False out0 "block_order g"] Suc.prems show ?thesis by (simp add: Let_def cp_round_def)
  qed
qed simp

lemma same_dict_map: "same_dict a b \<Longrightarrow> map_of a = map_of b"
proof
  fix x assume s: "same_dict a b"
  show "map_of a x = map_of b x"
  proof (cases "x \<in> fst ` set a \<union> fst ` set b")
    case True
    with s show ?thesis by (auto simp: same_dict_def list_all_iff)
  next
    case False
    then show ?thesis by (metis UnCI map_of_eq_None_iff)
  qed
qed

lemma entry_below:
  assumes "distinct_keys out" "finite (predecessors_of g n')" "n \<in> predecessors_of g n'" "has_key out n"
    "map_of (block_entry_constants n' g out) x = Some v"
  shows "map_of (exit_constants out n) x = Some v"
proof -
  let ?ps = "filter (has_key out) (sorted_list_of_set (predecessors_of g n'))"
  have n: "n \<in> set ?ps" using assms(2-4) by simp
  then obtain p ps where ps: "?ps = p # ps" by (cases ?ps) auto
  have m: "map_of (filter (\<lambda>(k, v). list_all (\<lambda>d'. map_of d' k = Some v) (map (exit_constants out) ps)) (exit_constants out p)) x = Some v"
    using assms(5) by (simp add: block_entry_constants_def meet_constants_def ps)
  from map_of_SomeD [OF m] have "(x, v) \<in> set (exit_constants out p)" "\<And>q. q \<in> set ps \<Longrightarrow> map_of (exit_constants out q) x = Some v" by (auto simp: list_all_iff)
  moreover have "distinct (map fst (exit_constants out p))" using assms(1) by (simp add: distinct_keys_def)
  ultimately show ?thesis using n unfolding ps by auto
qed

section \<open>The facts along a run\<close>

lemma found: "find P xs = Some x \<Longrightarrow> x \<in> set xs \<and> P x"
  by (induction xs) (auto split: if_split_asm)

lemma block_with_label_map:
  assumes "build_cfg prog = Inr g"
  shows "block_with_label l g = map_of (label_to_block g) l"
proof (cases "find (\<lambda>(n, b). l \<in> set (bb_labels b)) (blocks g)")
  case None
  then have "map_of (label_to_block g) l \<noteq> Some n" for n
    unfolding build_cfg_tables(5) [OF assms] by (auto simp: find_None_iff)
  then have "map_of (label_to_block g) l = None" by (meson option.exhaust)
  with None show ?thesis by (simp add: block_with_label_def)
next
  case (Some nb)
  from found [OF Some] have nb: "nb \<in> set (blocks g)" "l \<in> set (bb_labels (snd nb))" by (cases nb; simp)+
  then have "map_of (label_to_block g) l = Some (fst nb)"
    unfolding build_cfg_tables(5) [OF assms] by (intro exI [of _ "snd nb"]) simp
  with Some show ?thesis by (simp add: block_with_label_def)
qed

lemma block_of_some: "build_cfg prog = Inr g \<Longrightarrow> k < length (items prog) \<Longrightarrow> \<exists>n. block_of g (items prog) k = Some n"
  using block_of_position position_block by metis

lemma new_block:
  assumes g: "build_cfg prog = Inr g" and k: "Suc k < length (items prog)" and s: "starts_block (items prog) (Suc k)"
  shows "block_of g (items prog) (Suc k) \<noteq> block_of g (items prog) k"
proof -
  let ?p = "items prog"
  obtain j where j: "j < length (starts ?p)" "starts ?p ! j \<le> k" "k < block_end ?p j"
    by (rule position_block [of k ?p]) (use k in auto)
  note N = next_start [OF k j s]
  have "Suc k < block_end ?p (Suc j)"
    using N k starts_less [of "Suc j" "Suc (Suc j)" ?p] by (auto simp: block_end_eq)
  then have "block_of g ?p (Suc k) = Some (fst (blocks g ! Suc j))" using block_of_position [OF g N(1), of "Suc k"] N(2) by simp
  moreover have "block_of g ?p k = Some (fst (blocks g ! j))" by (rule block_of_position [OF g j])
  moreover have "distinct (map fst (blocks g))" using build_cfg_wf_edges(1) [OF g] by (rule wf_cfg_distinct)
  ultimately show ?thesis using N(1) j(1) built_block(1) [OF g] nth_eq_iff_index_eq [of "map fst (blocks g)" j "Suc j"] by auto
qed

text \<open>The pass is at the block of the item, and at its start has the constants met there.\<close>

definition named_labels :: "cfg \<Rightarrow> item list \<Rightarrow> bool" where
  "named_labels g its \<longleftrightarrow> (\<forall>k < length its. \<forall>l. its ! k = Label l \<longrightarrow> block_with_label l g \<noteq> Some [])"

lemma enter_block:
  assumes g: "build_cfg prog = Inr g" and l: "named_labels g (items prog)" and k: "k < length (items prog)"
  shows "fst (cp_enter g out k (items prog ! k) s) = block_of g (items prog) k"
proof -
  obtain n where n: "block_of g (items prog) k = Some n" using block_of_some [OF g k] by blast
  show ?thesis
  proof (cases "items prog ! k")
    case (Label x)
    with l k n show ?thesis
      by (auto simp: cp_enter_def block_of_def block_with_label_map [OF g] named_labels_def)
  next
    case (Inst i)
    with n show ?thesis by (auto simp: cp_enter_def block_of_def)
  qed
qed

lemma leave_block [simp]: "fst (cp_leave it s) = fst s"
  by (simp add: cp_leave_def split: item.split)

lemma facts_at_start:
  assumes g: "build_cfg prog = Inr g" and l: "named_labels g (items prog)" and k: "k < length (items prog)"
    and s: "starts_block (items prog) k" and n: "block_of g (items prog) k = Some n"
  shows "cp_facts g out (items prog) k = block_entry_constants n g out"
proof (cases "items prog ! k")
  case (Label x)
  with l k n show ?thesis
    by (auto simp: cp_facts_def cp_enter_def block_of_def block_with_label_map [OF g] named_labels_def)
next
  case (Inst i)
  have "fst (cp_before g out (items prog) k) \<noteq> Some n"
  proof (cases k)
    case (Suc k')
    with new_block [OF g, of k'] k s n enter_block [OF g l, of k'] show ?thesis by simp
  qed simp
  with Inst n show ?thesis by (simp add: cp_facts_def cp_enter_def block_of_def)
qed

definition cp_after :: "cfg \<Rightarrow> constants_out \<Rightarrow> item list \<Rightarrow> nat \<Rightarrow> const_dict" where
  "cp_after g out its k = snd (cp_leave (its ! k) (cp_enter g out k (its ! k) (cp_before g out its k)))"

lemma cp_after_simps:
  "its ! k = Label l \<Longrightarrow> cp_after g out its k = cp_facts g out its k"
  "its ! k = Inst i \<Longrightarrow> cp_after g out its k =
    set_constant (destination_register i) (snd (fold_with_constants i (cp_facts g out its k))) (cp_facts g out its k)"
  by (simp_all add: cp_after_def cp_facts_def cp_leave_def)

lemma facts_inside:
  assumes g: "build_cfg prog = Inr g" and l: "named_labels g (items prog)" and k: "Suc k < length (items prog)"
    and s: "\<not> starts_block (items prog) (Suc k)" and b: "block_of g (items prog) (Suc k) = block_of g (items prog) k"
  shows "cp_facts g out (items prog) (Suc k) = cp_after g out (items prog) k"
proof -
  obtain i where i: "items prog ! Suc k = Inst i" using s k by (cases "items prog ! Suc k") (auto simp: starts_block_def)
  have "fst (cp_before g out (items prog) (Suc k)) = block_of g (items prog) (Suc k)"
    using enter_block [OF g l, of k] k b by simp
  then show ?thesis using i by (simp add: cp_facts_def cp_after_def cp_enter_def block_of_def split: option.split)
qed

text \<open>The two phases agree where every instruction is validated.\<close>

lemma transfer_agrees:
  assumes "cp_inst_ok i c"
  shows "cp_transfer c i = set_constant (destination_register i) (snd (fold_with_constants i c)) c"
proof (cases "pi_predicate i \<noteq> None \<or> has_substring (pi_opcode i) ''.cc''")
  case True
  have known: "snd (fold_with_constants i c) = None"
    using True assms by (auto simp: cp_inst_ok_def fold_with_constants_def Let_def)
  show ?thesis
  proof (cases "destination_register i")
    case (Some d)
    then have "map_of c d = None" using True assms by (simp add: cp_inst_ok_def)
    then have "AList.delete d c = c" by (simp add: delete_id map_of_eq_None_iff)
    with True known Some show ?thesis by (simp add: cp_transfer_def set_constant_def)
  qed (simp add: cp_transfer_def set_constant_def)
qed (simp add: cp_transfer_def)

lemma block_facts:
  assumes g: "build_cfg prog = Inr g" and l: "named_labels g (items prog)"
    and ok: "\<And>k i. k < length (items prog) \<Longrightarrow> items prog ! k = Inst i \<Longrightarrow> cp_inst_ok i (cp_facts g out (items prog) k)"
    and j: "j < length (starts (items prog))"
  shows "starts (items prog) ! j \<le> m \<Longrightarrow> m < block_end (items prog) j \<Longrightarrow> m < length (items prog) \<Longrightarrow>
    foldl cp_transfer (block_entry_constants (fst (blocks g ! j)) g out) (instructions_between (items prog) (starts (items prog) ! j) (Suc m)) =
    cp_after g out (items prog) m"
proof (induction m)
  let ?p = "items prog" and ?lo = "starts (items prog) ! j" and ?e = "block_entry_constants (fst (blocks g ! j)) g out"
  have step: "foldl cp_transfer (cp_facts g out ?p k) (instructions_between ?p k (Suc k)) = cp_after g out ?p k"
    if "k < length ?p" for k
    using that ok [of k] by (cases "?p ! k") (auto simp: instructions_between_def cp_after_simps transfer_agrees)
  have base: "foldl cp_transfer ?e (instructions_between ?p ?lo (Suc ?lo)) = cp_after g out ?p ?lo"
    if "?lo < block_end ?p j" "?lo < length ?p"
  proof -
    have "starts_block ?p ?lo" using j by (metis nth_mem mem_Collect_eq set_starts)
    then have "cp_facts g out ?p ?lo = ?e"
      using facts_at_start [OF g l that(2) _ block_of_position [OF g j le_refl that(1)]] by blast
    with step [OF that(2)] show ?thesis by simp
  qed
  {
    case 0
    then show ?case using base by simp
  next
    case (Suc m)
    show ?case
    proof (cases "?lo = Suc m")
      case True
      with Suc.prems base show ?thesis by simp
    next
      case False
      then have lo: "?lo \<le> m" "m < block_end ?p j" "m < length ?p" using Suc.prems by simp_all
      have "\<not> starts_block ?p (Suc m)" by (rule inside_no_start [OF j]) (use lo Suc.prems in auto)
      moreover have "block_of g ?p (Suc m) = block_of g ?p m"
        using block_of_position [OF g j lo(1,2)] block_of_position [OF g j _ Suc.prems(2)] lo(1) by simp
      ultimately have "cp_facts g out ?p (Suc m) = cp_after g out ?p m" by (rule facts_inside [OF g l Suc.prems(3)])
      with step [OF Suc.prems(3)] Suc.IH [OF lo] between_split(3) [of ?lo "Suc m" "Suc (Suc m)" ?p] lo(1) show ?thesis by simp
    qed
  }
qed

text \<open>The constants before an item hold wherever a run gets.\<close>

lemma facts_hold:
  assumes g: "build_cfg prog = Inr g" and M: "branches_ok M" "alu_ok M"
    and wf: "wf_control (items prog)" "plain_control (items prog)"
    and keys: "fst ` set (blocks g) \<subseteq> fst ` set out"
    and out: "distinct_keys out" "\<And>n. n \<in> set (block_order g) \<Longrightarrow> same_dict (block_out g out n) (exit_constants out n)"
    and e: "block_entry_constants (entry g) g out = []" and l: "named_labels g (items prog)"
    and ok: "\<And>k i. k < length (items prog) \<Longrightarrow> items prog ! k = Inst i \<Longrightarrow> cp_inst_ok i (cp_facts g out (items prog) k)"
    and r: "reaches M (items prog) st0 k st" "k < length (items prog)"
  shows "constants_hold (map_of (cp_facts g out (items prog) k)) st"
proof (rule reaches_facts [OF g M(1) wf _ _ _ r, where F = "\<lambda>k st. constants_hold (map_of (cp_facts g out (items prog) k)) st"])
  let ?p = "items prog"
  have ne: "?p \<noteq> []" using r(2) by auto
  have "cp_facts g out ?p 0 = []"
    using facts_at_start [OF g l _ _ entry_first [OF g wf(1) ne]] ne e by (simp add: starts_block_def)
  then show "constants_hold (map_of (cp_facts g out ?p 0)) st0" by (simp add: constants_hold_def)
  have after: "constants_hold (map_of (cp_after g out ?p k)) st'"
    if C: "constants_hold (map_of (cp_facts g out ?p k)) st" and f: "flow M ?p k st k' st'" for k st k' st'
    using f
  proof cases
    case (label l)
    with C show ?thesis by (simp add: cp_after_simps)
  next
    case (continue i)
    with transfer_holds [OF M(2) C ok continue(4)] show ?thesis by (simp add: cp_after_simps)
  next
    case (jump i l)
    have i: "Inst i \<in> set ?p" using jump by (metis nth_mem)
    have "destination_register i = None"
      using goto_branch(1) [OF M(1) wf i jump(3)]
      by (auto simp: destination_register_def branch_base [symmetric] DESTINATION_BASES_def PURE_RESULT_BASES_def
          PURE_RESULT_OPERAND_COUNTS_def split: list.split)
    moreover have "env st' = env st" using jump(3) by (auto simp: effect_def split: if_split_asm outcome.split_asm)
    ultimately show ?thesis using C jump by (simp add: cp_after_simps set_constant_def constants_hold_def)
  qed
  show "constants_hold (map_of (cp_facts g out ?p (Suc k))) st'"
    if "constants_hold (map_of (cp_facts g out ?p k)) st" "flow M ?p k st (Suc k) st'" "Suc k < length ?p"
      "\<not> starts_block ?p (Suc k)" "block_of g ?p (Suc k) = block_of g ?p k" for k st st'
    using after [OF that(1,2)] facts_inside [OF g l that(3-5)] by simp
  show "constants_hold (map_of (cp_facts g out ?p k')) st'"
    if C: "constants_hold (map_of (cp_facts g out ?p k)) st" and f: "flow M ?p k st k' st'" and k': "k' < length ?p" "starts_block ?p k'"
      and last: "Suc k < length ?p \<longrightarrow> starts_block ?p (Suc k)"
      and n: "block_of g ?p k = Some n" "block_of g ?p k' = Some n'" "n' \<in> successors_of g n" for k st k' st' n n'
  proof -
    have k: "k < length ?p" using f by cases auto
    obtain j where j: "j < length (starts ?p)" "starts ?p ! j \<le> k" "k < block_end ?p j" using k by (rule position_block)
    have nj: "n = fst (blocks g ! j)" using block_of_position [OF g j] n(1) by simp
    have "block_end ?p j = Suc k"
    proof (cases "Suc k < length ?p")
      case True
      with last next_start(3) [OF True j] show ?thesis by blast
    next
      case False
      have "block_end ?p j \<le> length ?p"
        using starts_block_le [of ?p] by (auto simp: block_end_eq) (metis nth_mem mem_Collect_eq set_starts)
      with False j(3) k show ?thesis by simp
    qed
    moreover have wfg: "wf_cfg g" by (rule build_cfg_wf_edges(1) [OF g])
    moreover have mem: "(n, snd (blocks g ! j)) \<in> set (blocks g)" using j(1) built_block(1) [OF g] nj by simp
    ultimately have "block_out g out n = cp_after g out ?p k"
      using block_facts [OF g l ok j(1,2,3) k] built_block(2) [OF g j(1)] map_of_is_SomeI [OF wf_cfg_distinct [OF wfg] mem] nj
      by (simp add: block_out_def body_between_def)
    moreover have "n \<in> set (block_order g)"
    proof -
      obtain st bs where "build_inv ?p (length ?p) st" "connect_successors (cb_labels st) (cb_blocks st) = Inr bs"
        "blocks g = connect_predecessors bs" "block_order g = cb_order st" by (rule build_cfg_blocks [OF g])
      with connected_blocks(1) [of ?p st bs] have "map fst (blocks g) = block_order g" by simp
      with mem show ?thesis by (metis fst_conv image_eqI list.set_map)
    qed
    ultimately have o: "map_of (exit_constants out n) = map_of (cp_after g out ?p k)" using same_dict_map [OF out(2)] by metis
    have p: "n \<in> predecessors_of g n'" using wf_cfg_edge [OF wfg] n(3) by blast
    have "has_key out n" using keys mem by (force simp: has_key_iff)
    from entry_below [OF out(1) finite_predecessors [OF wfg] p this] o
    have "map_of (cp_facts g out ?p k') x = Some v \<Longrightarrow> map_of (cp_after g out ?p k) x = Some v" for x v
      by (simp add: facts_at_start [OF g l k' n(2)])
    with after [OF C f] show ?thesis unfolding constants_hold_def by blast
  qed
qed

section \<open>Properties\<close>


text \<open>A constant that crosses a branch and a join, and the machine with ordinary arithmetic.\<close>

definition joined_items :: "item list" where
  "joined_items =
     [Inst (PTXInstruction ''mov.u32'' [''%r1'', ''5'']), Inst ((PTXInstruction ''bra'' [''L''])\<lparr>pi_predicate := Some ''%p1''\<rparr>),
      Inst (PTXInstruction ''add.u32'' [''%r2'', ''%r1'', ''%r9'']),
      Label ''L'', Inst (PTXInstruction ''and.b32'' [''%r3'', ''%r1'', ''4'']),
      Inst (PTXInstruction ''st.global.u32'' [''[%rd1]'', ''%r3'']), Inst (PTXInstruction ''ret'' [])]"

definition alu_machine :: "(int, 'm) ptx_machine" where
  "alu_machine = control_machine\<lparr>pure_other := (\<lambda>opc vs.
     case vs of
       [Value a, Value b] \<Rightarrow>
         if opc = ''mul.lo.u32'' then mask32 (a * b)
         else if before_first CHR ''.'' opc = ''and'' then mask32 (a AND b)
         else if before_first CHR ''.'' opc = ''or'' then mask32 (a OR b)
         else if before_first CHR ''.'' opc = ''xor'' then mask32 (a XOR b)
         else if opc = ''mul.hi.u32'' then mask32 (a * b div 2 ^ 32)
         else 0
     | _ \<Rightarrow> 0)\<rparr>"

lemma alu_machine_ok: "alu_ok alu_machine" "branches_ok alu_machine"
proof -
  show "alu_ok alu_machine"
    by (simp add: alu_ok_def alu_machine_def before_first_def)
  show "branches_ok alu_machine"
    using control_machine_branches by (simp add: branches_ok_def alu_machine_def)
qed

definition joined_cfg :: cfg where
  "joined_cfg = (case build_cfg (sample_program joined_items) of Inr g \<Rightarrow> g | Inl _ \<Rightarrow> undefined)"


text \<open>
  Without the validation the pass is wrong: the high product of two constants is taken for their low
  product, and a predicated instruction does not end the constant of its destination at a join.
\<close>

definition high_product_items :: "item list" where
  "high_product_items =
     [Inst (PTXInstruction ''mul.hi.u32'' [''%r1'', ''4'', ''4'']), Inst (PTXInstruction ''mov.u32'' [''%r2'', ''%r1'']),
      Inst (PTXInstruction ''ret'' [])]"

definition guarded_move_items :: "item list" where
  "guarded_move_items =
     [Inst (PTXInstruction ''mov.u32'' [''%r1'', ''5'']),
      Inst ((PTXInstruction ''mov.u32'' [''%r1'', ''6''])\<lparr>pi_predicate := Some ''%p1''\<rparr>),
      Label ''L'', Inst (PTXInstruction ''mov.u32'' [''%r2'', ''%r1'']), Inst (PTXInstruction ''ret'' [])]"

definition cfg_of :: "item list \<Rightarrow> cfg" where
  "cfg_of its = (case build_cfg (sample_program its) of Inr g \<Rightarrow> g | Inl _ \<Rightarrow> undefined)"

lemma global_cp_high_product:
  "items (fst (global_constant_propagation (cfg_of high_product_items) (sample_program high_product_items))) ! 1 =
     Inst (PTXInstruction ''mov.u32'' [''%r2'', ''16''])"
  by code_simp

lemma global_cp_guarded_move:
  "items (fst (global_constant_propagation (cfg_of guarded_move_items) (sample_program guarded_move_items))) ! 3 =
     Inst (PTXInstruction ''mov.u32'' [''%r2'', ''5''])"
  by code_simp

text \<open>
  A predicated return cuts the graph, so the constant of the loop reaches only its own block: the
  first pass through the loop already takes it.
\<close>

definition guarded_exit_items :: "item list" where
  "guarded_exit_items =
     [Inst ((PTXInstruction ''ret'' [])\<lparr>pi_predicate := Some ''%p1''\<rparr>), Label ''L'', Inst (PTXInstruction ''mov.u32'' [''%r2'', ''%r1'']),
      Inst (PTXInstruction ''st.global.u32'' [''[%rd1]'', ''%r2'']), Inst (PTXInstruction ''mov.u32'' [''%r1'', ''5'']),
      Inst (PTXInstruction ''bra'' [''L''])]"

lemma global_cp_behind_guarded_return:
  "items (fst (global_constant_propagation (cfg_of guarded_exit_items) (sample_program guarded_exit_items))) ! 2 =
     Inst (PTXInstruction ''mov.u32'' [''%r2'', ''5''])"
  by code_simp

lemma global_cp_not_safe:
  "\<not> cp_safe (cfg_of high_product_items) high_product_items" "\<not> cp_safe (cfg_of guarded_move_items) guarded_move_items"
  "\<not> cp_safe (cfg_of guarded_exit_items) guarded_exit_items"
  by code_simp+

end
