(* ===== verification/Block_Simplify.thy ===== *)
theory Block_Simplify
  imports Cfg_Flow
begin

text \<open>
  \<open>BlockSimplificationPass\<close> of \<open>passes/block_simplify.py\<close>: blocks that only jump or only fall
  through are bypassed, blocks the entry does not reach are deleted, and the branches are redirected.
  The blocks are found in the graph, the items are deleted from a label to the next label.
\<close>

section \<open>Reachability\<close>

definition successor_list :: "cfg \<Rightarrow> string \<Rightarrow> string list" where
  "successor_list g name = sorted_list_of_set (successors_of g name)"

function reach_blocks :: "cfg \<Rightarrow> string set \<Rightarrow> string list \<Rightarrow> string set" where
  "reach_blocks g seen work =
     (if work = [] then seen
      else if last work \<in> seen then reach_blocks g seen (butlast work)
      else reach_blocks g (insert (last work) seen) (butlast work @ successor_list g (last work)))"
  by pat_completeness auto

termination
proof (relation "measures [\<lambda>(g, seen, work). card (fst ` set (blocks g) - seen), \<lambda>(g, seen, work). length work]", goal_cases)
  case (3 g seen work)
  show ?case
  proof (cases "last work \<in> fst ` set (blocks g)")
    case True
    then have "fst ` set (blocks g) - insert (last work) seen \<subset> fst ` set (blocks g) - seen" using 3 by auto
    then show ?thesis by (auto intro: psubset_card_mono)
  next
    case False
    then have "map_of (blocks g) (last work) = None" by (simp add: map_of_eq_None_iff)
    then have "successor_list g (last work) = []" by (simp add: successor_list_def successors_of_def)
    moreover have "fst ` set (blocks g) - insert (last work) seen = fst ` set (blocks g) - seen" using False by auto
    ultimately show ?thesis using 3 by simp
  qed
qed auto

declare reach_blocks.simps [simp del]

definition reachable_blocks :: "cfg \<Rightarrow> string set" where
  "reachable_blocks g = reach_blocks g {} [entry g]"

definition block_has_side_effect :: "cfg \<Rightarrow> string \<Rightarrow> bool" where
  "block_has_side_effect g name =
     (case map_of (blocks g) name of None \<Rightarrow> False | Some b \<Rightarrow> list_ex is_side_effecting (bb_instructions b))"

text \<open>Unreachable blocks without side effects, in the order of the blocks.\<close>

definition unreachable_blocks :: "cfg \<Rightarrow> string list" where
  "unreachable_blocks g =
     filter (\<lambda>n. n \<notin> reachable_blocks g \<and> \<not> block_has_side_effect g n) (map fst (blocks g))"

section \<open>Empty blocks and jump blocks\<close>

definition block_labels :: "cfg \<Rightarrow> (string, string) dict" where
  "block_labels g = foldl (\<lambda>m (name, b). foldl (\<lambda>m l. AList.update l name m) m (bb_labels b)) [] (blocks g)"

text \<open>The entry block is neither.\<close>

definition empty_blocks :: "cfg \<Rightarrow> string list" where
  "empty_blocks g = map fst (filter (\<lambda>(name, b).
     name \<noteq> entry g \<and> bb_instructions b = [] \<and> card (bb_successors b) = 1) (blocks g))"

definition jump_target :: "cfg \<Rightarrow> string \<times> basic_block \<Rightarrow> string option" where
  "jump_target g nb =
     (case nb of (name, b) \<Rightarrow>
        if name = entry g \<or> length (bb_instructions b) \<noteq> 1 then None
        else (case block_terminator b of
                None \<Rightarrow> None
              | Some t \<Rightarrow>
                  if terminator_kind (Some t) \<noteq> UnconditionalBranch then None
                  else (case map_of (block_labels g) (hd (pi_operands t)) of
                          None \<Rightarrow> None
                        | Some target \<Rightarrow> if target \<noteq> '''' \<and> target \<noteq> name then Some target else None)))"

definition jump_blocks :: "cfg \<Rightarrow> (string, string) dict" where
  "jump_blocks g = concat (map (\<lambda>nb. case jump_target g nb of None \<Rightarrow> [] | Some t \<Rightarrow> [(fst nb, t)]) (blocks g))"

section \<open>Chains\<close>

text \<open>Where a jump block or an empty block leads.\<close>

definition next_in_chain :: "cfg \<Rightarrow> string \<Rightarrow> string option" where
  "next_in_chain g name =
     (case map_of (jump_blocks g) name of
        Some t \<Rightarrow> Some t
      | None \<Rightarrow>
          if name \<in> set (empty_blocks g)
          then (case successor_list g name of [s] \<Rightarrow> Some s | _ \<Rightarrow> None) else None)"

lemma next_in_chain_block: "next_in_chain g name = Some n \<Longrightarrow> name \<in> fst ` set (blocks g)"
proof -
  assume n: "next_in_chain g name = Some n"
  have j: "map_of (jump_blocks g) name = Some t \<Longrightarrow> name \<in> fst ` set (blocks g)" for t
    by (drule map_of_SomeD) (auto simp: jump_blocks_def split: option.split_asm intro: rev_image_eqI)
  have e: "name \<in> set (empty_blocks g) \<Longrightarrow> name \<in> fst ` set (blocks g)"
    by (auto simp: empty_blocks_def)
  show ?thesis
  proof (cases "map_of (jump_blocks g) name")
    case None
    with n have "name \<in> set (empty_blocks g)" unfolding next_in_chain_def by (cases "name \<in> set (empty_blocks g)") simp_all
    then show ?thesis by (rule e)
  next
    case (Some t)
    then show ?thesis by (rule j)
  qed
qed

type_synonym redirects = "(string, string) dict"

function resolve_chain :: "cfg \<Rightarrow> string set \<Rightarrow> string \<Rightarrow> redirects \<Rightarrow> string \<times> redirects" where
  "resolve_chain g visited name redirect =
     (if name \<in> visited then (name, redirect)
      else (case map_of redirect name of
              Some t \<Rightarrow> (t, redirect)
            | None \<Rightarrow>
                (case next_in_chain g name of
                   None \<Rightarrow> (name, redirect)
                 | Some n \<Rightarrow>
                     (case resolve_chain g (insert name visited) n redirect of
                        (target, redirect') \<Rightarrow> (target, AList.update name target redirect')))))"
  by pat_completeness auto

termination
proof (relation "measure (\<lambda>(g, visited, name, redirect). card (fst ` set (blocks g) - visited))", goal_cases)
  case (2 g visited name redirect n)
  then have "name \<in> fst ` set (blocks g) - visited" using next_in_chain_block [OF 2(3)] by simp
  then have "fst ` set (blocks g) - insert name visited \<subset> fst ` set (blocks g) - visited" by blast
  then have "card (fst ` set (blocks g) - insert name visited) < card (fst ` set (blocks g) - visited)"
    by (intro psubset_card_mono) simp_all
  then show ?case by simp
qed simp

declare resolve_chain.simps [simp del]

definition all_redirects :: "cfg \<Rightarrow> redirects" where
  "all_redirects g = foldl (\<lambda>r name. snd (resolve_chain g {} name r)) [] (map fst (blocks g))"

definition block_redirects :: "cfg \<Rightarrow> redirects" where
  "block_redirects g = filter (\<lambda>(k, v). v \<noteq> k) (all_redirects g)"

definition blocks_to_remove :: "cfg \<Rightarrow> string list" where
  "blocks_to_remove g = filter (\<lambda>n. n \<noteq> entry g) (unreachable_blocks g @ map fst (block_redirects g))"

section \<open>The items\<close>

definition find_block_label :: "string \<Rightarrow> cfg \<Rightarrow> string option" where
  "find_block_label name g =
     (case map_of (blocks g) name of
        None \<Rightarrow> None
      | Some b \<Rightarrow>
          (case bb_labels b of
             l # _ \<Rightarrow> Some l
           | [] \<Rightarrow> if name = ''entry'' then None else Some name))"

definition removed_label :: "cfg \<Rightarrow> string \<Rightarrow> bool" where
  "removed_label g l = (case map_of (block_labels g) l of None \<Rightarrow> False | Some n \<Rightarrow> n \<in> set (blocks_to_remove g))"

definition redirect_branch :: "cfg \<Rightarrow> ptx_instruction \<Rightarrow> ptx_instruction" where
  "redirect_branch g i =
     (if opcode_base i = ''bra'' \<and> pi_operands i \<noteq> [] then
        (case map_of (block_labels g) (hd (pi_operands i)) of
           None \<Rightarrow> i
         | Some target_block \<Rightarrow>
             (case map_of (block_redirects g) target_block of
                None \<Rightarrow> i
              | Some new_block \<Rightarrow>
                  (case find_block_label new_block g of
                     None \<Rightarrow> i
                   | Some new_target \<Rightarrow>
                       if target_block \<noteq> '''' \<and> new_target \<noteq> '''' \<and> new_target \<noteq> hd (pi_operands i)
                       then i\<lparr>pi_operands := new_target # tl (pi_operands i)\<rparr> else i)))
      else i)"

fun simplify_items :: "cfg \<Rightarrow> bool \<Rightarrow> item list \<Rightarrow> item list" where
  "simplify_items g skip [] = []"
| "simplify_items g skip (Label l # its) =
     (if removed_label g l then simplify_items g True its else Label l # simplify_items g False its)"
| "simplify_items g skip (Inst i # its) =
     (if skip then simplify_items g skip its else Inst (redirect_branch g i) # simplify_items g skip its)"

definition removed_labels :: "cfg \<Rightarrow> item list \<Rightarrow> string list" where
  "removed_labels g its = concat (map (\<lambda>it. case it of Label l \<Rightarrow> if removed_label g l then [l] else [] | Inst _ \<Rightarrow> []) its)"

text \<open>\<open>BlockSimplificationPass.run\<close>. \<open>loops\<close> is no registered analysis, but the pass names it.\<close>

definition block_simplification :: "cfg \<Rightarrow> ptx_program \<Rightarrow> ptx_program \<times> pass_result" where
  "block_simplification g prog =
     (if blocks_to_remove g = [] then
        (prog, unchanged_result [(''redirected_blocks'', DInt 0), (''removed_labels'', DInt 0),
           (''unreachable_blocks_removed'', DInt 0), (''transforms_applied'', DInt 0)])
      else
        (let labels = removed_labels g (items prog);
             redirected = length (block_redirects g);
             unreachable_removed = length (filter (\<lambda>n. n \<notin> fst ` set (block_redirects g)) (unreachable_blocks g));
             details = [(''redirected_blocks'', DInt (int redirected)), (''removed_labels'', DInt (int (length labels))),
                        (''redirected_labels'', DStrs (sorted_list_of_set (set labels))),
                        (''unreachable_blocks_removed'', DInt (int unreachable_removed)),
                        (''transforms_applied'', DInt (int (redirected + unreachable_removed)))] in
         if labels = [] \<and> unreachable_removed = 0 then (prog, unchanged_result details)
         else (rebuild_program prog (simplify_items g False (items prog)),
               \<lparr>pr_changed = True, pr_details = details, pr_invalidated = [''cfg'', ''uniformity'', ''loops'']\<rparr>)))"

end
