(* ===== verification/Block_Simplify_Correct.thy ===== *)
theory Block_Simplify_Correct
  imports Block_Simplify
begin

text \<open>
  A simplified kernel ends exactly when the original does, and in the same state. The redirections are
  followed block by block: each bypassed block only jumps or only falls through, so the original gets
  from its label to the label of its redirection without changing the state. Where code falls through
  into a removed block, the next label that stays must be that of its redirection; \<open>falls_ok\<close> checks it.
\<close>

section \<open>Reachable blocks\<close>

lemma reach_blocks_spec:
  assumes "\<forall>n \<in> seen. successors_of g n \<subseteq> seen \<union> set work" "wf_cfg g"
  shows "seen \<union> set work \<subseteq> reach_blocks g seen work \<and>
    (\<forall>n \<in> reach_blocks g seen work. successors_of g n \<subseteq> reach_blocks g seen work)"
  using assms
proof (induction g seen work rule: reach_blocks.induct)
  case (1 g seen work)
  show ?case
  proof (cases "work = []")
    case True
    with 1(3) show ?thesis by (subst (1 2 3) reach_blocks.simps) simp
  next
    case False
    then have w: "set work = insert (last work) (set (butlast work))"
      by (metis append_butlast_last_id list.set(1) list.simps(15) set_append Un_insert_right sup_bot_right)
    show ?thesis
    proof (cases "last work \<in> seen")
      case True
      have "reach_blocks g seen work = reach_blocks g seen (butlast work)" using False True by (subst reach_blocks.simps) simp
      with 1(1) [OF False True] 1(3,4) w True show ?thesis by auto
    next
      case new: False
      have s: "set (successor_list g (last work)) = successors_of g (last work)"
        using finite_successors [OF 1(4)] by (simp add: successor_list_def)
      have "reach_blocks g seen work = reach_blocks g (insert (last work) seen) (butlast work @ successor_list g (last work))"
        using False new by (subst reach_blocks.simps) simp
      moreover have "\<forall>n \<in> insert (last work) seen.
          successors_of g n \<subseteq> insert (last work) seen \<union> set (butlast work @ successor_list g (last work))"
        using 1(3) w s by auto
      note 1(2) [OF False new this 1(4)]
      ultimately show ?thesis using w by simp
    qed
  qed
qed

lemma reachable_found: "wf_cfg g \<Longrightarrow> n \<in> reachable g \<Longrightarrow> n \<in> reachable_blocks g"
  using reach_blocks_spec [of "{}" g "[entry g]"] closed_rtrancl [of "entry g" n g "reachable_blocks g"]
  by (auto simp: reachable_blocks_def reachable_def)

section \<open>Redirections\<close>

definition chain :: "cfg \<Rightarrow> (string \<times> string) set" where
  "chain g = {(m, n). next_in_chain g m = Some n}"

definition resolved :: "cfg \<Rightarrow> redirects \<Rightarrow> bool" where
  "resolved g r \<longleftrightarrow> (\<forall>n t. map_of r n = Some t \<longrightarrow> (n, t) \<in> (chain g)\<^sup>* \<and> next_in_chain g n \<noteq> None \<and>
     (map_of r t = Some t \<or> map_of r t = None \<and> next_in_chain g t = None))"

lemma resolve_chain_spec:
  assumes "resolve_chain g visited name r = (t, r')" "resolved g r" "\<forall>n \<in> visited. map_of r n = None"
  shows "(name, t) \<in> (chain g)\<^sup>* \<and>
    (\<forall>n u. map_of r n = Some u \<longrightarrow> map_of r' n = Some u) \<and>
    (\<forall>n u. map_of r' n = Some u \<longrightarrow> map_of r n = None \<longrightarrow> u = t \<and> (n, t) \<in> (chain g)\<^sup>* \<and> next_in_chain g n \<noteq> None) \<and>
    (\<forall>n \<in> visited. map_of r' n = None) \<and>
    (map_of r' t = Some t \<or> map_of r' t = None \<and> (t \<in> visited \<or> next_in_chain g t = None))"
  using assms
proof (induction g visited name r arbitrary: t r' rule: resolve_chain.induct)
  case (1 g visited name r)
  show ?case
  proof (cases "name \<in> visited")
    case True
    with 1(2) have "t = name" "r' = r" by (simp_all add: resolve_chain.simps [of g visited name])
    with True 1(3,4) show ?thesis by simp
  next
    case new: False
    show ?thesis
    proof (cases "map_of r name")
      case (Some u)
      with new 1(2) have e: "t = u" "r' = r" by (simp_all add: resolve_chain.simps [of g visited name])
      from Some 1(3) have "(name, u) \<in> (chain g)\<^sup>*" "map_of r u = Some u \<or> map_of r u = None \<and> next_in_chain g u = None"
        unfolding resolved_def by blast+
      with e 1(4) show ?thesis by auto
    next
      case None
      show ?thesis
      proof (cases "next_in_chain g name")
        case No: None
        with new None 1(2) have e: "t = name" "r' = r" by (simp_all add: resolve_chain.simps [of g visited name])
        with No None 1(4) show ?thesis by simp
      next
        case (Some n)
        obtain r1 where r1: "resolve_chain g (insert name visited) n r = (t, r1)" "r' = AList.update name t r1"
          using new None Some 1(2)
          by (cases "resolve_chain g (insert name visited) n r") (simp add: resolve_chain.simps [of g visited name])
        have fresh: "\<forall>m \<in> insert name visited. map_of r m = None" using None 1(4) by simp
        note IH = 1(1) [OF new None Some r1(1) 1(3) fresh]
        have step: "(name, n) \<in> chain g" using Some by (simp add: chain_def)
        from this conjunct1 [OF IH] have way: "(name, t) \<in> (chain g)\<^sup>*" by (rule converse_rtrancl_into_rtrancl)
        have upd: "map_of r' m = (if m = name then Some t else map_of r1 m)" for m
          unfolding r1(2) by (auto simp: update_conv)
        note rest = conjunct2 [OF IH]
        note old = conjunct1 [OF rest, rule_format]
        note rest = conjunct2 [OF rest]
        note added = conjunct1 [OF rest, rule_format]
        note rest = conjunct2 [OF rest]
        note kept = conjunct1 [OF rest, rule_format]
        note last = conjunct2 [OF rest]
        show ?thesis
        proof (intro conjI allI impI ballI)
          show "(name, t) \<in> (chain g)\<^sup>*" by (rule way)
          show "map_of r' m = Some u" if "map_of r m = Some u" for m u
            using old [OF that] that None unfolding upd by auto
          show "u = t" "(m, t) \<in> (chain g)\<^sup>*" "next_in_chain g m \<noteq> None" if "map_of r' m = Some u" "map_of r m = None" for m u
            using that added [of m u] way Some unfolding upd by (cases "m = name"; simp)+
          show "map_of r' m = None" if "m \<in> visited" for m using kept [of m] that new unfolding upd by auto
          show "map_of r' t = Some t \<or> map_of r' t = None \<and> (t \<in> visited \<or> next_in_chain g t = None)"
            using last unfolding upd by auto
        qed
      qed
    qed
  qed
qed

lemma all_redirects_resolved: "resolved g (all_redirects g)"
proof -
  have "resolved g (foldl (\<lambda>r name. snd (resolve_chain g {} name r)) r names)" if "resolved g r" for r names
    using that
  proof (induction names arbitrary: r)
    case (Cons name names)
    obtain t r' where r': "resolve_chain g {} name r = (t, r')" by (cases "resolve_chain g {} name r")
    from resolve_chain_spec [OF r' Cons.prems]
    have S: "\<And>n u. map_of r n = Some u \<Longrightarrow> map_of r' n = Some u"
      "\<And>n u. map_of r' n = Some u \<Longrightarrow> map_of r n = None \<Longrightarrow> u = t \<and> (n, t) \<in> (chain g)\<^sup>* \<and> next_in_chain g n \<noteq> None"
      "map_of r' t = Some t \<or> map_of r' t = None \<and> next_in_chain g t = None" by auto
    have "resolved g r'"
      unfolding resolved_def
    proof (intro allI impI)
      fix n u assume n: "map_of r' n = Some u"
      show "(n, u) \<in> (chain g)\<^sup>* \<and> next_in_chain g n \<noteq> None \<and>
        (map_of r' u = Some u \<or> map_of r' u = None \<and> next_in_chain g u = None)"
      proof (cases "map_of r n")
        case None
        with S(2) [OF n] S(3) show ?thesis by simp
      next
        case (Some v)
        with S(1) n have "v = u" by force
        with Some Cons.prems have o: "(n, u) \<in> (chain g)\<^sup>*" "next_in_chain g n \<noteq> None"
          "map_of r u = Some u \<or> map_of r u = None \<and> next_in_chain g u = None" unfolding resolved_def by blast+
        moreover have "map_of r' u = None" if "map_of r u = None" "next_in_chain g u = None"
          using S(2) [of u] that by (cases "map_of r' u") auto
        ultimately show ?thesis using S(1) by blast
      qed
    qed
    with Cons.IH [of r'] r' show ?case by simp
  qed simp
  from this [of "[]" "map fst (blocks g)"] show ?thesis by (simp add: all_redirects_def resolved_def)
qed

lemma distinct_redirects: "distinct (map fst (all_redirects g))"
proof -
  have c: "distinct (map fst r) \<Longrightarrow> distinct (map fst (snd (resolve_chain g visited name r)))" for visited name r
    by (induction g visited name r rule: resolve_chain.induct)
       (subst resolve_chain.simps, auto split: option.split prod.split intro: distinct_update)
  have "distinct (map fst r) \<Longrightarrow> distinct (map fst (foldl (\<lambda>r name. snd (resolve_chain g {} name r)) r names))" for r names
    by (induction names arbitrary: r) (simp_all add: c)
  then show ?thesis by (simp add: all_redirects_def)
qed

lemma map_of_filter_pairs:
  "distinct (map fst xs) \<Longrightarrow> map_of (filter (\<lambda>(k, v). P k v) xs) k =
    (case map_of xs k of None \<Rightarrow> None | Some v \<Rightarrow> if P k v then Some v else None)"
proof (induction xs)
  case (Cons x xs)
  then have "fst x \<notin> fst ` set xs" by simp
  then have "map_of (filter (\<lambda>(k, v). P k v) xs) (fst x) = None" "map_of xs (fst x) = None"
    by (auto simp: map_of_eq_None_iff)
  with Cons show ?case by (cases x) (auto split: option.split)
qed simp

text \<open>A redirection follows the chain to a block that is not redirected.\<close>

lemma redirect_spec:
  assumes "map_of (block_redirects g) n = Some t"
  shows "(n, t) \<in> (chain g)\<^sup>*" "map_of (block_redirects g) t = None" "next_in_chain g n \<noteq> None"
proof -
  have m: "map_of (block_redirects g) k = (case map_of (all_redirects g) k of None \<Rightarrow> None | Some v \<Rightarrow> if v \<noteq> k then Some v else None)" for k
    unfolding block_redirects_def by (rule map_of_filter_pairs [OF distinct_redirects])
  from assms have "map_of (all_redirects g) n = Some t" unfolding m by (auto split: option.split_asm if_split_asm)
  with all_redirects_resolved [of g] have "(n, t) \<in> (chain g)\<^sup>*" "next_in_chain g n \<noteq> None"
    "map_of (all_redirects g) t = Some t \<or> map_of (all_redirects g) t = None" unfolding resolved_def by blast+
  then show "(n, t) \<in> (chain g)\<^sup>*" "map_of (block_redirects g) t = None" "next_in_chain g n \<noteq> None"
    unfolding m by auto
qed

section \<open>Blocks with a label\<close>

lemma fold_labels: "map_of (foldl (\<lambda>m l. AList.update l n m) m ls) l = (if l \<in> set ls then Some n else map_of m l)"
  by (induction ls arbitrary: m) (auto simp: update_conv)

lemma block_labels_from:
  "map_of (foldl (\<lambda>m (n, b). foldl (\<lambda>m l. AList.update l n m) m (bb_labels b)) m bs) l =
    (case find (\<lambda>(n, b). l \<in> set (bb_labels b)) (rev bs) of None \<Rightarrow> map_of m l | Some (n, b) \<Rightarrow> Some n)"
proof (induction bs rule: rev_induct)
  case (snoc nb bs)
  obtain n b where "nb = (n, b)" by (cases nb)
  with snoc show ?case by (simp add: fold_labels)
qed simp

lemma block_labels_map:
  assumes "build_cfg prog = Inr g"
  shows "map_of (block_labels g) l = map_of (label_to_block g) l"
proof (cases "find (\<lambda>(n, b). l \<in> set (bb_labels b)) (rev (blocks g))")
  case None
  then have "\<not> (\<exists>n b. (n, b) \<in> set (blocks g) \<and> l \<in> set (bb_labels b))" by (force simp: find_None_iff)
  then have "map_of (label_to_block g) l = None" using build_cfg_tables(5) [OF assms, of l] by (cases "map_of (label_to_block g) l") blast+
  with None show ?thesis by (simp add: block_labels_def block_labels_from)
next
  case (Some nb)
  obtain n b where nb: "nb = (n, b)" by (cases nb)
  from Some nb have "(n, b) \<in> set (blocks g) \<and> l \<in> set (bb_labels b)"
    by (auto simp: find_Some_iff) (metis length_rev nth_mem set_rev)
  then have "map_of (label_to_block g) l = Some n" using build_cfg_tables(5) [OF assms] by blast
  with Some nb show ?thesis by (simp add: block_labels_def block_labels_from)
qed

lemma after_label_at:
  "distinct (labels_of its) \<Longrightarrow> i < length its \<Longrightarrow> its ! i = Label l \<Longrightarrow> after_label its l = Some (drop (Suc i) its)"
proof (induction its arbitrary: i)
  case (Cons it its)
  have no: "after_label its l = None" if "l \<notin> set (labels_of its)"
    using that by (induction its) (auto simp: labels_of_def split: item.split_asm)
  show ?case
  proof (cases i)
    case 0
    with Cons.prems no show ?thesis by (simp add: labels_of_def)
  next
    case (Suc k)
    from Cons.prems have "distinct (labels_of its)" by (cases it) (simp_all add: labels_of_def)
    with Cons Suc show ?thesis by simp
  qed
qed simp

lemma label_block:
  assumes g: "build_cfg prog = Inr g" and i: "i < length (items prog)" "items prog ! i = Label l"
  obtains j n b where "j < length (starts (items prog))" "starts (items prog) ! j = i" "blocks g ! j = (n, b)"
    "map_of (block_labels g) l = Some n" "map_of (blocks g) n = Some b" "bb_labels b = [l]"
    "length (bb_instructions b) = block_end (items prog) j - Suc i"
    "bb_instructions b \<noteq> [] \<longrightarrow> items prog ! Suc i = Inst (hd (bb_instructions b)) \<and> Suc i < length (items prog)"
proof -
  let ?p = "items prog"
  have "starts_block ?p i" using i by (auto simp: starts_block_def)
  then obtain j where j: "j < length (starts ?p)" "starts ?p ! j = i"
    by (metis in_set_conv_nth mem_Collect_eq set_starts)
  obtain n b where nb: "blocks g ! j = (n, b)" by (cases "blocks g ! j")
  have e: "i < block_end ?p j" "block_end ?p j \<le> length ?p"
    using j i(1) starts_less [of j "Suc j" ?p] starts_block_le [of ?p] set_starts [of ?p]
    by (auto simp: block_end_eq dest!: nth_mem)
  have "map_of (label_to_block g) l = Some n"
    using block_of_position [OF g j(1), of i] j(2) e(1) i(2) nb by (simp add: block_of_def)
  then have lab: "map_of (block_labels g) l = Some n" by (simp add: block_labels_map [OF g])
  have mem: "(n, b) \<in> set (blocks g)" using j(1) built_block(1) [OF g] nb by (metis nth_mem)
  have b: "map_of (blocks g) n = Some b"
    using wf_cfg_distinct [OF build_cfg_wf_edges(1) [OF g]] mem by (rule map_of_is_SomeI)
  have inst: "\<exists>x. ?p ! k = Inst x" if "i < k" "k < block_end ?p j" for k
  proof (cases "?p ! k")
    case (Label l')
    with that e(2) have "starts_block ?p k" by (auto simp: starts_block_def)
    with inside_no_start [OF j(1), of k] j(2) that show ?thesis by simp
  qed simp
  have body: "bb_labels b = labels_between ?p i (block_end ?p j)" "bb_instructions b = instructions_between ?p i (block_end ?p j)"
    using built_block(2) [OF g j(1)] j(2) nb by (simp_all add: body_between_def)
  have later: "\<exists>x. ?p ! k = Inst x" if "k \<in> set [Suc i..<block_end ?p j]" for k using inst [of k] that by simp
  have up: "[i..<block_end ?p j] = i # [Suc i..<block_end ?p j]" using e(1) by (rule upt_conv_Cons)
  have "concat (map (\<lambda>k. case ?p ! k of Label l \<Rightarrow> [l] | Inst _ \<Rightarrow> []) [Suc i..<block_end ?p j]) = []"
    using later by (force simp: concat_eq_Nil_conv)
  then have labels: "bb_labels b = [l]" using i(2) unfolding body(1) labels_between_def up by simp
  have "map (\<lambda>k. case ?p ! k of Label _ \<Rightarrow> [] | Inst x \<Rightarrow> [x]) [Suc i..<block_end ?p j] =
      map (\<lambda>k. [case ?p ! k of Inst x \<Rightarrow> x]) [Suc i..<block_end ?p j]"
    using later by (force intro!: map_cong)
  from arg_cong [OF this, of concat] have
    "concat (map (\<lambda>k. case ?p ! k of Label _ \<Rightarrow> [] | Inst x \<Rightarrow> [x]) [Suc i..<block_end ?p j]) =
      map (\<lambda>k. case ?p ! k of Inst x \<Rightarrow> x) [Suc i..<block_end ?p j]" by (simp only: concat_map_singleton)
  then have insts: "bb_instructions b = map (\<lambda>k. case ?p ! k of Inst x \<Rightarrow> x) [Suc i..<block_end ?p j]"
    using i(2) unfolding body(2) instructions_between_def up by simp
  show thesis
  proof (rule that [OF j nb lab b labels])
    show "length (bb_instructions b) = block_end ?p j - Suc i" unfolding insts by simp
    show "bb_instructions b \<noteq> [] \<longrightarrow> ?p ! Suc i = Inst (hd (bb_instructions b)) \<and> Suc i < length ?p"
    proof
      assume "bb_instructions b \<noteq> []"
      then have s: "Suc i < block_end ?p j" unfolding insts by simp
      then have "hd (bb_instructions b) = (case ?p ! Suc i of Inst x \<Rightarrow> x)" unfolding insts by (simp add: upt_conv_Cons)
      with inst [of "Suc i"] s e(2) show "?p ! Suc i = Inst (hd (bb_instructions b)) \<and> Suc i < length ?p" by auto
    qed
  qed
qed

section \<open>Following a chain\<close>

text \<open>Branches of the machine only jump.\<close>

definition jumps_ok :: "('f, 'm) ptx_machine \<Rightarrow> bool" where
  "jumps_ok M \<longleftrightarrow> (\<forall>opc l rs m. before_first CHR ''.'' opc = ''bra'' \<longrightarrow> other_op M opc [Text l rs] m = Jump l m)"

lemma branch_effect:
  assumes "jumps_ok M" "opcode_base i = ''bra''" "pi_operands i = [t]" "label_operand t" "guard_holds i (env st)"
  shows "effect M i st = GoTo t st"
proof -
  have "source_values i (env st) = [Text t []]"
    using assms(2-4) by (simp add: source_values_def source_operands_def DESTINATION_BASES_def PURE_RESULT_BASES_def
        PURE_RESULT_OPERAND_COUNTS_def label_operand_value)
  moreover have "pure_dest i = None" using assms(2) by (intro control_not_pure) simp
  moreover have "other_op M (pi_opcode i) [Text t []] (pmemory st) = Jump t (pmemory st)"
    using assms(1,2) by (simp add: jumps_ok_def opcode_base_def)
  ultimately show ?thesis using assms(5) by (simp add: effect_def inst_outcome_def)
qed

definition simplifiable :: "('f, 'm) ptx_machine \<Rightarrow> ptx_program \<Rightarrow> cfg \<Rightarrow> bool" where
  "simplifiable M prog g \<longleftrightarrow> build_cfg prog = Inr g \<and> branches_ok M \<and> jumps_ok M \<and> wf_control (items prog) \<and>
     plain_control (items prog)"

lemma simplifiableD:
  assumes "simplifiable M prog g"
  shows "build_cfg prog = Inr g" "branches_ok M" "jumps_ok M" "wf_control (items prog)" "plain_control (items prog)"
    "distinct (labels_of (items prog))"
  using assms by (simp_all add: simplifiable_def wf_control_def)

text \<open>From one label the kernel gets to another without changing the state, by a number of jumps.\<close>

definition leads_to :: "('f, 'm) ptx_machine \<Rightarrow> item list \<Rightarrow> nat \<Rightarrow> nat \<Rightarrow> bool" where
  "leads_to M p i k \<longleftrightarrow> (\<exists>c. \<forall>K st. exec M p (K + c) (drop (Suc i) p) st = exec M p K (drop (Suc k) p) st) \<and>
     (\<forall>st0 st. reaches M p st0 i st \<and> reaches M p st0 (Suc i) st \<longrightarrow> reaches M p st0 k st \<and> reaches M p st0 (Suc k) st)"

lemma leads_to_refl: "leads_to M p i i"
  unfolding leads_to_def by (metis add_0_right)

lemma leads_to_trans: "leads_to M p i j \<Longrightarrow> leads_to M p j k \<Longrightarrow> leads_to M p i k"
  unfolding leads_to_def by (metis add.assoc)

lemma branch_target:
  assumes "wf_control p" "Inst t \<in> set p" "is_branch_kind (terminator_kind (Some t))"
  obtains y i where "pi_operands t = [y]" "i < length p" "p ! i = Label y"
  using wf_branch [OF assms] by (metis in_labels_of in_set_conv_nth)

lemma chain_step:
  assumes S: "simplifiable M prog g" and i: "i < length (items prog)" "items prog ! i = Label l"
    and n: "map_of (block_labels g) l = Some n" "next_in_chain g n = Some n'"
  obtains i' l' where "i' < length (items prog)" "items prog ! i' = Label l'" "map_of (block_labels g) l' = Some n'"
    "leads_to M (items prog) i i'"
proof -
  let ?p = "items prog"
  note g = simplifiableD(1) [OF S]
  obtain j n0 b where j: "j < length (starts ?p)" "starts ?p ! j = i" "blocks g ! j = (n0, b)"
    "map_of (block_labels g) l = Some n0" "map_of (blocks g) n0 = Some b" "bb_labels b = [l]"
    "length (bb_instructions b) = block_end ?p j - Suc i"
    "bb_instructions b \<noteq> [] \<longrightarrow> ?p ! Suc i = Inst (hd (bb_instructions b)) \<and> Suc i < length ?p"
    by (rule label_block [OF g i])
  have n0: "n0 = n" using n(1) j(4) by simp
  have only: "c = b" if "(n, c) \<in> set (blocks g)" for c
    using map_of_is_SomeI [OF wf_cfg_distinct [OF build_cfg_wf_edges(1) [OF g]] that] j(5) n0 by simp
  show thesis
  proof (cases "map_of (jump_blocks g) n")
    case (Some t)
    with n(2) have t: "t = n'" by (simp add: next_in_chain_def)
    from map_of_SomeD [OF Some] obtain nb where nb: "nb \<in> set (blocks g)" "jump_target g nb = Some n'" "fst nb = n"
      using t by (auto simp: jump_blocks_def split: option.split_asm)
    from nb(1,3) only have "nb = (n, b)" by (metis prod.collapse)
    with nb(2) have jt: "jump_target g (n, b) = Some n'" by simp
    then obtain x where x: "bb_instructions b = [x]"
      by (cases "bb_instructions b") (auto simp: jump_target_def split: if_split_asm)
    with jt have k: "terminator_kind (Some x) = UnconditionalBranch" "map_of (block_labels g) (hd (pi_operands x)) = Some n'"
      by (auto simp: jump_target_def block_terminator_def split: if_split_asm option.split_asm)
    from j(8) x have at: "?p ! Suc i = Inst x" "Suc i < length ?p" by simp_all
    then have mem: "Inst x \<in> set ?p" by (metis nth_mem)
    have br: "is_branch_kind (terminator_kind (Some x))" using k(1) by (simp add: is_branch_kind_def)
    obtain y i' where y: "pi_operands x = [y]" "i' < length ?p" "?p ! i' = Label y"
      by (rule branch_target [OF simplifiableD(4) [OF S] mem br])
    have ly: "label_operand y" using plain_branch [OF simplifiableD(5) [OF S] mem br] y(1) by simp
    have "pi_predicate x = None" using k(1) by (auto simp: terminator_kind_def split: if_split_asm)
    then have eff: "effect M x st = GoTo y st" for st
      using br by (intro branch_effect [OF simplifiableD(3) [OF S] _ y(1) ly]) (simp_all add: branch_base guard_holds_def predicate_reads_def)
    note al = after_label_at [OF simplifiableD(6) [OF S] y(2,3)]
    have "exec M ?p (K + 1) (drop (Suc i) ?p) st = exec M ?p K (drop (Suc i') ?p) st" for K st
    proof -
      have d: "drop (Suc i) ?p = Inst x # drop (Suc (Suc i)) ?p" using at by (simp add: Cons_nth_drop_Suc [symmetric])
      show ?thesis unfolding d exec_effect eff by (simp add: al)
    qed
    moreover have "reaches M ?p st0 i' st \<and> reaches M ?p st0 (Suc i') st" if "reaches M ?p st0 (Suc i) st" for st0 st
      using that flow.jump [OF at(2,1) eff y(2,3) al] flow.label [OF y(2,3)] by (metis reaches.step)
    ultimately have "leads_to M ?p i i'" unfolding leads_to_def by blast
    with y k(2) show thesis by (intro that [of i' y]) simp_all
  next
    case None
    have e: "n \<in> set (empty_blocks g)"
      using n(2) None unfolding next_in_chain_def by (cases "n \<in> set (empty_blocks g)") simp_all
    then obtain c where "(n, c) \<in> set (blocks g)" "bb_instructions c = []" "card (bb_successors c) = 1"
      by (auto simp: empty_blocks_def)
    with only have b: "bb_instructions b = []" "card (bb_successors b) = 1" by blast+
    have "block_terminator b = None" using b(1) by (simp add: block_terminator_def)
    with built_block(5) [OF g j(1)] j(3) b(2) have s: "Suc j < length (starts ?p)" "bb_successors b = {fst (blocks g ! Suc j)}"
      by (cases "Suc j < length (starts ?p)"; simp)+
    have "successors_of g n = {fst (blocks g ! Suc j)}" using j(5) n0 s(2) by (simp add: successors_of_def)
    with n(2) None e have n': "n' = fst (blocks g ! Suc j)" by (simp add: next_in_chain_def successor_list_def)
    have st: "starts ?p ! Suc j = Suc i" using j(7) b(1) s(1) starts_less [of j "Suc j" ?p] j(2) by (simp add: block_end_eq)
    then have sb: "starts_block ?p (Suc i)" using s(1) set_starts [of ?p] by (metis mem_Collect_eq nth_mem)
    then have len: "Suc i < length ?p" by (auto simp: starts_block_def)
    from sb i(2) obtain l' where l': "?p ! Suc i = Label l'" by (auto simp: starts_block_def)
    have "Suc i < block_end ?p (Suc j)"
      using st s(1) starts_less [of "Suc j" "Suc (Suc j)" ?p] len by (simp add: block_end_eq)
    with block_of_position [OF g s(1), of "Suc i"] st l' have "map_of (label_to_block g) l' = Some n'"
      by (simp add: block_of_def n')
    then have "map_of (block_labels g) l' = Some n'" by (simp add: block_labels_map [OF g])
    moreover have "exec M ?p (K + 0) (drop (Suc i) ?p) st = exec M ?p K (drop (Suc (Suc i)) ?p) st" for K st
      by (simp add: Cons_nth_drop_Suc [symmetric, OF len] l')
    moreover have "reaches M ?p st0 (Suc (Suc i)) st" if "reaches M ?p st0 (Suc i) st" for st0 st
      using that flow.label [OF len l'] by (rule reaches.step)
    ultimately have "leads_to M ?p i (Suc i)" unfolding leads_to_def by blast
    with len l' \<open>map_of (block_labels g) l' = Some n'\<close> show thesis by (intro that [of "Suc i" l']) simp_all
  qed
qed

lemma chain_leads:
  assumes S: "simplifiable M prog g" and i: "i < length (items prog)" "items prog ! i = Label l"
    and n: "map_of (block_labels g) l = Some n" and c: "(n, t) \<in> (chain g)\<^sup>*"
  shows "\<exists>i' l'. i' < length (items prog) \<and> items prog ! i' = Label l' \<and> map_of (block_labels g) l' = Some t \<and>
    leads_to M (items prog) i i'"
  using c
proof (induction rule: rtrancl_induct)
  case base
  show ?case using i n leads_to_refl by blast
next
  case (step m t)
  then obtain i' l' where a: "i' < length (items prog)" "items prog ! i' = Label l'" "map_of (block_labels g) l' = Some m"
    "leads_to M (items prog) i i'" by blast
  have "next_in_chain g m = Some t" using step.hyps(2) by (simp add: chain_def)
  from chain_step [OF S a(1-3) this] obtain i2 l2 where "i2 < length (items prog)" "items prog ! i2 = Label l2"
    "map_of (block_labels g) l2 = Some t" "leads_to M (items prog) i' i2" by blast
  with a(4) leads_to_trans show ?case by blast
qed

section \<open>The check\<close>

text \<open>The label a removed or redirected label stands for.\<close>

definition bypass :: "cfg \<Rightarrow> string \<Rightarrow> string option" where
  "bypass g l =
     (case map_of (block_labels g) l of
        None \<Rightarrow> None
      | Some n \<Rightarrow> (case map_of (block_redirects g) n of None \<Rightarrow> None | Some t \<Rightarrow> find_block_label t g))"

fun next_kept_label :: "cfg \<Rightarrow> item list \<Rightarrow> string option" where
  "next_kept_label g [] = None"
| "next_kept_label g (Label l # its) = (if removed_label g l then next_kept_label g its else Some l)"
| "next_kept_label g (Inst i # its) = next_kept_label g its"

text \<open>
  Where the code before a removed label stays and falls through, the next label that stays is the one
  the removed label stands for. \<open>skip\<close> is the state of the deletion, \<open>falls\<close> whether the item before
  falls through.
\<close>

fun falls_ok :: "cfg \<Rightarrow> bool \<Rightarrow> bool \<Rightarrow> item list \<Rightarrow> bool" where
  "falls_ok g skip falls [] \<longleftrightarrow> True"
| "falls_ok g skip falls (Label l # its) \<longleftrightarrow>
     (if removed_label g l then
        (\<not> skip \<and> falls \<longrightarrow> (case bypass g l of None \<Rightarrow> True | Some l' \<Rightarrow> next_kept_label g its = Some l')) \<and>
        falls_ok g True True its
      else falls_ok g False True its)"
| "falls_ok g skip falls (Inst i # its) \<longleftrightarrow>
     falls_ok g skip (terminator_kind (Some i) = Fallthrough \<or> terminator_kind (Some i) = ConditionalBranch) its"

definition bs_safe :: "cfg \<Rightarrow> item list \<Rightarrow> bool" where
  "bs_safe g its \<longleftrightarrow> plain_control its \<and> list_all (\<lambda>l. label_operand l \<and> l \<noteq> []) (labels_of its) \<and>
     list_all (\<lambda>n. n \<noteq> []) (map fst (blocks g)) \<and> falls_ok g False True its"

lemma falls_ok_after:
  "falls_ok g skip falls its \<Longrightarrow> after_label its l = Some r \<Longrightarrow> \<not> removed_label g l \<Longrightarrow> falls_ok g False True r"
proof (induction g skip falls its rule: falls_ok.induct)
  case (2 g skip falls l' its)
  then show ?case by (auto split: if_split_asm option.split_asm)
qed (auto split: option.split_asm)

lemma simplify_after:
  "after_label its l = Some r \<Longrightarrow> \<not> removed_label g l \<Longrightarrow>
    after_label (simplify_items g skip its) l = Some (simplify_items g False r)"
proof (induction g skip its rule: simplify_items.induct)
  case (2 g skip l' its)
  have none: "after_label (simplify_items g s its) l = None" if "after_label its l = None" for s
    using that by (induction g s its rule: simplify_items.induct) (auto split: option.split_asm if_split_asm)
  show ?case
  proof (cases "after_label its l")
    case None
    with 2 have "l = l'" "r = its" by (simp_all split: if_split_asm)
    with none [OF None] 2(4) show ?thesis by simp
  next
    case (Some r')
    with 2 show ?thesis by simp
  qed
qed (auto split: option.split_asm)

lemma skip_to_label:
  "next_kept_label g its = Some l \<Longrightarrow>
    \<exists>k < length its. its ! k = Label l \<and> simplify_items g True its = Label l # simplify_items g False (drop (Suc k) its)"
proof (induction g its rule: next_kept_label.induct)
  case (2 g l' its)
  show ?case
  proof (cases "removed_label g l'")
    case True
    with 2 obtain k where "k < length its" "its ! k = Label l"
      "simplify_items g True its = Label l # simplify_items g False (drop (Suc k) its)" by auto
    with True show ?thesis by (intro exI [of _ "Suc k"]) simp
  qed (use 2 in auto)
next
  case (3 g i its)
  then obtain k where "k < length its" "its ! k = Label l"
    "simplify_items g True its = Label l # simplify_items g False (drop (Suc k) its)" by auto
  then show ?case by (intro exI [of _ "Suc k"]) simp
qed simp

section \<open>Where a label leads\<close>

lemma bypass_spec:
  assumes S: "simplifiable M prog g" and i: "i < length (items prog)" "items prog ! i = Label l"
    and n: "map_of (block_labels g) l = Some n" "map_of (block_redirects g) n = Some t"
  obtains i' l' where "bypass g l = Some l'" "i' < length (items prog)" "items prog ! i' = Label l'"
    "map_of (block_labels g) l' = Some t" "leads_to M (items prog) i i'"
proof -
  obtain i' l' where a: "i' < length (items prog)" "items prog ! i' = Label l'" "map_of (block_labels g) l' = Some t"
    "leads_to M (items prog) i i'"
    using chain_leads [OF S i n(1) redirect_spec(1) [OF n(2)]] by blast
  obtain j' n' b' where j': "map_of (block_labels g) l' = Some n'" "map_of (blocks g) n' = Some b'" "bb_labels b' = [l']"
    by (rule label_block [OF simplifiableD(1) [OF S] a(1,2)])
  then have "bypass g l = Some l'" using n a(3) by (simp add: bypass_def find_block_label_def)
  with a that show thesis by blast
qed

text \<open>At a label a run reaches, the original gets to the label it stands for, which stays.\<close>

lemma label_leads:
  assumes S: "simplifiable M prog g" and safe: "bs_safe g (items prog)" and i: "i < length (items prog)" "items prog ! i = Label l"
    and r: "reaches M (items prog) st0 i st"
  obtains i' l' where "l' = (case bypass g l of None \<Rightarrow> l | Some l' \<Rightarrow> l')" "i' < length (items prog)" "items prog ! i' = Label l'"
    "leads_to M (items prog) i i'" "reaches M (items prog) st0 (Suc i') st" "\<not> removed_label g l'"
    "removed_label g l \<Longrightarrow> bypass g l \<noteq> None"
proof -
  let ?p = "items prog"
  note g = simplifiableD(1) [OF S]
  obtain j n b where j: "j < length (starts ?p)" "starts ?p ! j = i" "blocks g ! j = (n, b)"
    "map_of (block_labels g) l = Some n" "map_of (blocks g) n = Some b" "bb_labels b = [l]"
    by (rule label_block [OF g i])
  have stays: "\<not> removed_label g k" if k: "q < length ?p" "?p ! q = Label k" "reaches M ?p st0 q st"
    "map_of (block_labels g) k = Some m" "map_of (block_redirects g) m = None" for q k m
  proof -
    from runs_in_reachable_blocks [OF simplifiableD(1,2,4,5) [OF S] k(3,1)] k(2)
    obtain m' where "map_of (label_to_block g) k = Some m'" "m' \<in> reachable g" by (auto simp: block_of_def)
    with k(4) have "m \<in> reachable g" by (simp add: block_labels_map [OF g])
    then have "m \<notin> set (unreachable_blocks g)"
      using reachable_found [OF build_cfg_wf_edges(1) [OF g]] by (auto simp: unreachable_blocks_def)
    moreover have "m \<notin> fst ` set (block_redirects g)" using k(5) by (simp add: map_of_eq_None_iff)
    ultimately show ?thesis using k(4) by (simp add: removed_label_def blocks_to_remove_def)
  qed
  have from_label: "reaches M ?p st0 (Suc i) st" using r flow.label [OF i] by (rule reaches.step)
  show thesis
  proof (cases "map_of (block_redirects g) n")
    case None
    have "bypass g l = None" using None j(4) by (simp add: bypass_def)
    with i leads_to_refl from_label stays [OF i r j(4) None] show thesis by (intro that [of l i]) simp_all
  next
    case (Some t)
    note R = redirect_spec [OF Some]
    obtain i' l' where by_l: "bypass g l = Some l'" and a: "i' < length ?p" "?p ! i' = Label l'"
      "map_of (block_labels g) l' = Some t" "leads_to M ?p i i'" by (rule bypass_spec [OF S i j(4) Some])
    have at: "reaches M ?p st0 i' st" "reaches M ?p st0 (Suc i') st" using a(4) r from_label unfolding leads_to_def by blast+
    have "\<not> removed_label g l'" by (rule stays [OF a(1,2) at(1) a(3) R(2)])
    with by_l a at show thesis by (intro that [of l' i']) simp_all
  qed
qed

lemma redirected_operand:
  assumes S: "simplifiable M prog g" and safe: "bs_safe g (items prog)" and y: "pi_operands x = [y]" "y \<in> set (labels_of (items prog))"
    "opcode_base x = ''bra''"
  shows "redirect_branch g x = x\<lparr>pi_operands := [case bypass g y of None \<Rightarrow> y | Some y' \<Rightarrow> y']\<rparr>"
    "label_operand (case bypass g y of None \<Rightarrow> y | Some y' \<Rightarrow> y')"
proof -
  let ?p = "items prog"
  have ok: "label_operand l \<and> l \<noteq> []" if "l \<in> set (labels_of ?p)" for l
    using safe that by (simp add: bs_safe_def list_all_iff)
  obtain i where i: "i < length ?p" "?p ! i = Label y" using y(2) by (metis in_labels_of in_set_conv_nth)
  obtain j n b where j: "map_of (block_labels g) y = Some n" "map_of (blocks g) n = Some b"
    by (rule label_block [OF simplifiableD(1) [OF S] i])
  have n: "n \<noteq> []" using safe map_of_SomeD [OF j(2)] by (force simp: bs_safe_def list_all_iff)
  have "redirect_branch g x = x\<lparr>pi_operands := [case bypass g y of None \<Rightarrow> y | Some y' \<Rightarrow> y']\<rparr> \<and>
    label_operand (case bypass g y of None \<Rightarrow> y | Some y' \<Rightarrow> y')"
  proof (cases "map_of (block_redirects g) n")
    case None
    have "x\<lparr>pi_operands := [y]\<rparr> = x" using y(1) by simp
    with None j(1) y ok [OF y(2)] show ?thesis by (simp add: redirect_branch_def bypass_def)
  next
    case (Some t)
    obtain i' y' where a: "bypass g y = Some y'" "i' < length ?p" "?p ! i' = Label y'" by (rule bypass_spec [OF S i j(1) Some])
    then have "y' \<in> set (labels_of ?p)" by (metis in_labels_of nth_mem)
    from ok [OF this] a(1) have o: "label_operand y'" "y' \<noteq> []" "find_block_label t g = Some y'"
      using Some j(1) by (simp_all add: bypass_def)
    have "x\<lparr>pi_operands := [y]\<rparr> = x" using y(1) by simp
    with o a(1) Some j(1) y n show ?thesis by (cases "y' = y") (simp_all add: redirect_branch_def)
  qed
  then show "redirect_branch g x = x\<lparr>pi_operands := [case bypass g y of None \<Rightarrow> y | Some y' \<Rightarrow> y']\<rparr>"
    "label_operand (case bypass g y of None \<Rightarrow> y | Some y' \<Rightarrow> y')" by blast+
qed

lemma redirected_effect:
  assumes S: "simplifiable M prog g" and safe: "bs_safe g (items prog)" and x: "Inst x \<in> set (items prog)"
  shows "effect M (redirect_branch g x) st =
    (case effect M x st of GoTo y s \<Rightarrow> GoTo (case bypass g y of None \<Rightarrow> y | Some y' \<Rightarrow> y') s | e \<Rightarrow> e)"
proof (cases "opcode_base x = ''bra''")
  case True
  then have k: "is_branch_kind (terminator_kind (Some x))" by (simp add: branch_base)
  obtain y where y: "pi_operands x = [y]" "y \<in> set (labels_of (items prog))"
    using wf_branch [OF simplifiableD(4) [OF S] x k] by blast
  have ly: "label_operand y" using plain_branch [OF simplifiableD(5) [OF S] x k] y(1) by simp
  note R = redirected_operand [OF S safe y True]
  let ?x = "redirect_branch g x" and ?y = "case bypass g y of None \<Rightarrow> y | Some y' \<Rightarrow> y'"
  have same: "opcode_base ?x = ''bra''" "pi_operands ?x = [?y]" "guard_holds ?x e = guard_holds x e" for e
    unfolding R(1) guard_holds_def predicate_reads_def using True by (simp_all add: opcode_base_def split: list.split)
  show ?thesis
  proof (cases "guard_holds x (env st)")
    case g: True
    have "effect M x st = GoTo y st" by (rule branch_effect [OF simplifiableD(3) [OF S] True y(1) ly g])
    moreover have "effect M ?x st = GoTo ?y st" using g same(3) by (intro branch_effect [OF simplifiableD(3) [OF S] same(1,2) R(2)]) simp
    ultimately show ?thesis by simp
  next
    case False
    then have "effect M x st = Continue st" "effect M ?x st = Continue st" using same(3) by (simp_all add: effect_def)
    then show ?thesis by simp
  qed
next
  case False
  then have "redirect_branch g x = x" by (simp add: redirect_branch_def)
  moreover have "effect M x st \<noteq> GoTo y s" for y s
    using goto_branch(1) [OF simplifiableD(2,4,5) [OF S] x, of st y s] False by (auto simp: branch_base)
  ultimately show ?thesis by (simp split: effect.split)
qed

section \<open>The simulation\<close>

text \<open>Two results are the same, or both ran out of fuel.\<close>

definition same_end :: "'m run_result \<Rightarrow> 'm run_result \<Rightarrow> bool" where
  "same_end a b \<longleftrightarrow> a = b \<or> (\<exists>s s'. a = OutOfFuel s \<and> b = OutOfFuel s')"

lemma exec_more_fuel:
  "\<forall>s. exec M p k rest st \<noteq> OutOfFuel s \<Longrightarrow> exec M p (k + d) rest st = exec M p k rest st"
proof (induction k arbitrary: rest st rule: less_induct)
  case (less k)
  from less.prems show ?case
  proof (induction rest arbitrary: st)
    case (Cons it rest)
    show ?case
    proof (cases it)
      case (Inst i)
      show ?thesis
      proof (cases "effect M i st")
        case (GoTo l st')
        show ?thesis
        proof (cases k)
          case 0
          with Cons.prems Inst GoTo show ?thesis by (simp only: exec_effect) simp
        next
          case (Suc k')
          show ?thesis
          proof (cases "after_label p l")
            case None
            with Inst GoTo Suc show ?thesis by (simp only: exec_effect) simp
          next
            case (Some r)
            have "\<forall>s. exec M p k' r st' \<noteq> OutOfFuel s"
              using Cons.prems unfolding Inst exec_effect GoTo Suc by (simp add: Some)
            with less.IH [of k' r st'] Suc show ?thesis unfolding Inst exec_effect GoTo by (simp add: Some)
          qed
        qed
      next
        case (Continue st')
        with Cons.prems Inst have "\<forall>s. exec M p k rest st' \<noteq> OutOfFuel s" by (simp only: exec_effect effect.case) simp
        with Cons.IH Inst Continue show ?thesis by (simp only: exec_effect effect.case)
      qed (simp_all only: Inst exec_effect effect.case)
    qed (use Cons in simp)
  qed simp
qed

lemma simulation:
  assumes S: "simplifiable M prog g" and safe: "bs_safe g (items prog)"
  shows "reaches M (items prog) st0 i st \<Longrightarrow> i \<le> length (items prog) \<Longrightarrow> falls_ok g False True (drop i (items prog)) \<Longrightarrow>
    \<exists>K \<ge> k. same_end (exec M (items prog) K (drop i (items prog)) st)
      (exec M (simplify_items g False (items prog)) k (simplify_items g False (drop i (items prog))) st)"
proof (induction k arbitrary: i st rule: less_induct)
  case (less k)
  let ?p = "items prog"
  let ?q = "simplify_items g False ?p"
  note D = simplifiableD(6) [OF S]
  have checked: "falls_ok g False True ?p" using safe by (simp add: bs_safe_def)
  have kept_label: "after_label ?q l = Some (simplify_items g False (drop (Suc m) ?p)) \<and> falls_ok g False True (drop (Suc m) ?p)"
    if "m < length ?p" "?p ! m = Label l" "\<not> removed_label g l" for m l
    using simplify_after [OF after_label_at [OF D that(1,2)] that(3)] falls_ok_after [OF checked after_label_at [OF D that(1,2)] that(3)]
    by blast
  from less.prems show ?case
  proof (induction "length ?p - i" arbitrary: i st rule: less_induct)
    case inner: less
    show ?case
    proof (cases "i < length ?p")
      case False
      then show ?thesis by (intro exI [of _ k]) (simp add: same_end_def)
    next
      case i: True
      have d: "drop i ?p = ?p ! i # drop (Suc i) ?p" using i by (simp add: Cons_nth_drop_Suc)
      have further: "length ?p - Suc k < length ?p - i" "Suc k \<le> length ?p" if "i \<le> k" "k < length ?p" for k using that by simp_all
      show ?thesis
      proof (cases "?p ! i")
        case (Label l)
        have next_reached: "reaches M ?p st0 (Suc i) st" using inner.prems(1) flow.label [OF i Label] by (rule reaches.step)
        show ?thesis
        proof (cases "removed_label g l")
          case False
          have "falls_ok g False True (drop (Suc i) ?p)" using inner.prems(3) d Label False by simp
          from inner.hyps [OF further(1) [OF order_refl i] next_reached further(2) [OF order_refl i] this] obtain K where
            "K \<ge> k" "same_end (exec M ?p K (drop (Suc i) ?p) st) (exec M ?q k (simplify_items g False (drop (Suc i) ?p)) st)"
            by blast
          then show ?thesis using d Label False by auto
        next
          case True
          obtain i' l' where a: "l' = (case bypass g l of None \<Rightarrow> l | Some l' \<Rightarrow> l')" "i' < length ?p" "?p ! i' = Label l'"
            "leads_to M ?p i i'" "reaches M ?p st0 (Suc i') st" "\<not> removed_label g l'" "removed_label g l \<Longrightarrow> bypass g l \<noteq> None"
            using label_leads [OF S safe i Label inner.prems(1)] by metis
          have "bypass g l = Some l'" using a(1) a(7) [OF True] by (auto split: option.split_asm)
          then have "next_kept_label g (drop (Suc i) ?p) = Some l'" using inner.prems(3) d Label True by simp
          from skip_to_label [OF this] obtain m where m: "m < length (drop (Suc i) ?p)" "drop (Suc i) ?p ! m = Label l'"
            "simplify_items g True (drop (Suc i) ?p) = Label l' # simplify_items g False (drop (Suc m) (drop (Suc i) ?p))" by blast
          have at: "?p ! (Suc i + m) = Label l'" "Suc i + m < length ?p" using m(1,2) by simp_all
          have "Suc i + m = i'"
          proof -
            have "drop (Suc (Suc i + m)) ?p = drop (Suc i') ?p"
              using after_label_at [OF D at(2,1)] after_label_at [OF D a(2,3)] by simp
            then have "length ?p - Suc (Suc i + m) = length ?p - Suc i'" by (metis length_drop)
            with at(2) a(2) show ?thesis by simp
          qed
          then have q: "simplify_items g False (drop i ?p) = Label l' # simplify_items g False (drop (Suc i') ?p)" "i < i'"
            using m(3) d Label True by (simp_all add: add.commute)
          have "falls_ok g False True (drop (Suc i') ?p)" using kept_label [OF a(2,3,6)] by blast
          from inner.hyps [OF further(1) [OF less_imp_le [OF q(2)] a(2)] a(5) further(2) [OF less_imp_le [OF q(2)] a(2)] this]
          obtain K where K: "K \<ge> k"
            "same_end (exec M ?p K (drop (Suc i') ?p) st) (exec M ?q k (simplify_items g False (drop (Suc i') ?p)) st)" by blast
          obtain c where "exec M ?p (K + c) (drop (Suc i) ?p) st = exec M ?p K (drop (Suc i') ?p) st"
            using a(4) unfolding leads_to_def by blast
          then have "exec M ?p (K + c) (drop i ?p) st = exec M ?p K (drop (Suc i') ?p) st" using d Label by simp
          with K q(1) show ?thesis by (intro exI [of _ "K + c"]) simp
        qed
      next
        case (Inst x)
        then have mem: "Inst x \<in> set ?p" using i by (metis nth_mem)
        note eff = redirected_effect [OF S safe mem, of st]
        have q: "simplify_items g False (drop i ?p) = Inst (redirect_branch g x) # simplify_items g False (drop (Suc i) ?p)"
          using d Inst by simp
        show ?thesis
        proof (cases "effect M x st")
          case (Continue st')
          have r: "reaches M ?p st0 (Suc i) st'" using inner.prems(1) flow.continue [OF i Inst Continue] by (rule reaches.step)
          have "falls_ok g False True (drop (Suc i) ?p)"
            using inner.prems(3) continue_falls [OF simplifiableD(2,5) [OF S] mem Continue] d Inst by auto
          from inner.hyps [OF further(1) [OF order_refl i] r further(2) [OF order_refl i] this] obtain K where
            "K \<ge> k" "same_end (exec M ?p K (drop (Suc i) ?p) st') (exec M ?q k (simplify_items g False (drop (Suc i) ?p)) st')" by blast
          with eff Continue show ?thesis unfolding q unfolding d Inst exec_effect by auto
        next
          case (GoTo y st')
          let ?y = "case bypass g y of None \<Rightarrow> y | Some y' \<Rightarrow> y'"
          show ?thesis
          proof (cases k)
            case 0
            with eff GoTo show ?thesis unfolding q unfolding d Inst exec_effect by (intro exI [of _ 0]) (simp add: same_end_def)
          next
            case (Suc k')
            note G = goto_branch [OF simplifiableD(2,4,5) [OF S] mem GoTo]
            obtain m where m: "m < length ?p" "?p ! m = Label y"
              using branch_target [OF simplifiableD(4) [OF S] mem G(1)] G(2) by (metis list.inject)
            note al = after_label_at [OF D m]
            have r: "reaches M ?p st0 m st'" using inner.prems(1) flow.jump [OF i Inst GoTo m al] by (rule reaches.step)
            obtain i' where a: "i' < length ?p" "?p ! i' = Label ?y" "leads_to M ?p m i'" "reaches M ?p st0 (Suc i') st'"
              "\<not> removed_label g ?y" using label_leads [OF S safe m r] by metis
            from kept_label [OF a(1,2,5)] have al': "after_label ?q ?y = Some (simplify_items g False (drop (Suc i') ?p))"
              and f: "falls_ok g False True (drop (Suc i') ?p)" by blast+
            have "k' < k" "Suc i' \<le> length ?p" using Suc a(1) by simp_all
            from less.IH [OF this(1) a(4) this(2) f] obtain K where K: "K \<ge> k'"
              "same_end (exec M ?p K (drop (Suc i') ?p) st') (exec M ?q k' (simplify_items g False (drop (Suc i') ?p)) st')" by blast
            obtain c where "exec M ?p (K + c) (drop (Suc m) ?p) st' = exec M ?p K (drop (Suc i') ?p) st'"
              using a(3) unfolding leads_to_def by blast
            with K Suc eff GoTo al al' show ?thesis unfolding q unfolding d Inst exec_effect
              by (intro exI [of _ "Suc (K + c)"]) simp
          qed
        qed (use eff in \<open>unfold q, unfold d Inst exec_effect, auto simp: same_end_def\<close>)
      qed
    qed
  qed
qed

section \<open>Properties\<close>

text \<open>A kernel ends with a result when some fuel gives it.\<close>

definition ends_with :: "('f, 'm) ptx_machine \<Rightarrow> item list \<Rightarrow> 'm pstate \<Rightarrow> 'm run_result \<Rightarrow> bool" where
  "ends_with M p st r \<longleftrightarrow> (\<exists>k. run_kernel M k p st = r) \<and> (\<forall>s. r \<noteq> OutOfFuel s)"

lemma block_simplification_items:
  "items (fst (block_simplification g prog)) = items prog \<or>
   items (fst (block_simplification g prog)) = simplify_items g False (items prog)"
  by (simp add: block_simplification_def Let_def rebuild_program_def)


definition bounced_items :: "item list" where
  "bounced_items =
     [Inst (PTXInstruction ''bra'' [''J'']), Label ''X'', Inst (PTXInstruction ''mov.u32'' [''%r1'', ''1'']),
      Inst (PTXInstruction ''ret'' []), Label ''J'', Inst (PTXInstruction ''bra'' [''X''])]"

definition built_cfg :: "item list \<Rightarrow> cfg" where
  "built_cfg its = (case build_cfg (sample_program its) of Inr g \<Rightarrow> g | Inl _ \<Rightarrow> loop_cfg)"

lemma control_machine_jumps: "jumps_ok control_machine"
  by (simp add: jumps_ok_def control_machine_def)


text \<open>
  Without the check the pass is wrong: code that falls through into a removed jump falls through into
  the block behind it.
\<close>

definition falling_items :: "item list" where
  "falling_items =
     [Inst ((PTXInstruction ''bra'' [''Y''])\<lparr>pi_predicate := Some ''%p1''\<rparr>), Inst (PTXInstruction ''mov.u32'' [''%r1'', ''1'']),
      Label ''J'', Inst (PTXInstruction ''bra'' [''X'']), Label ''Y'', Inst (PTXInstruction ''mov.u32'' [''%r1'', ''2'']),
      Label ''X'', Inst (PTXInstruction ''ret'' [])]"

lemma block_simplification_drops_jump:
  "items (fst (block_simplification (built_cfg falling_items) (sample_program falling_items))) =
     [Inst ((PTXInstruction ''bra'' [''Y''])\<lparr>pi_predicate := Some ''%p1''\<rparr>), Inst (PTXInstruction ''mov.u32'' [''%r1'', ''1'']),
      Label ''Y'', Inst (PTXInstruction ''mov.u32'' [''%r1'', ''2'']), Label ''X'', Inst (PTXInstruction ''ret'' [])] \<and>
   \<not> bs_safe (built_cfg falling_items) falling_items"
  by code_simp

text \<open>Unreachable code that is kept may branch to unreachable code that is deleted: the graph cannot be built again.\<close>

definition dead_branch_items :: "item list" where
  "dead_branch_items =
     [Inst (PTXInstruction ''ret'' []), Label ''D'', Inst (PTXInstruction ''st.global.u32'' [''[%rd1]'', ''%r1'']),
      Inst (PTXInstruction ''bra'' [''E'']), Label ''E'', Inst (PTXInstruction ''mov.u32'' [''%r1'', ''2'']),
      Label ''F'', Inst (PTXInstruction ''ret'' [])]"

lemma block_simplification_leaves_dangling_branch:
  "case build_cfg (fst (block_simplification (built_cfg dead_branch_items) (sample_program dead_branch_items))) of
     Inl (UndefinedTarget _ l) \<Rightarrow> l = ''E'' | _ \<Rightarrow> False"
  by code_simp

text \<open>
  A predicated return has no successor in the graph: the code behind it is taken for unreachable and
  deleted, although a run with a false guard gets there.
\<close>

definition behind_return_items :: "item list" where
  "behind_return_items =
     [Inst ((PTXInstruction ''ret'' [])\<lparr>pi_predicate := Some ''%p1''\<rparr>), Label ''L'', Inst (PTXInstruction ''mov.u32'' [''%r1'', ''1'']),
      Label ''M'', Inst (PTXInstruction ''ret'' [])]"

lemma block_simplification_deletes_behind_guarded_return:
  "Inst (PTXInstruction ''mov.u32'' [''%r1'', ''1'']) \<notin>
     set (items (fst (block_simplification (built_cfg behind_return_items) (sample_program behind_return_items)))) \<and>
   \<not> bs_safe (built_cfg behind_return_items) behind_return_items"
  by code_simp

end
