(* ===== verification/Loop_Motion.thy ===== *)
theory Loop_Motion
  imports Cfg_Flow
begin

text \<open>
  The two passes that move instructions of a natural loop before it:
  \<open>LoopInvariantCodeMotionPass\<close> of \<open>passes/licm.py\<close> and \<open>LoadHoistingPass\<close> of \<open>passes/memory.py\<close>.
  Both collect the indices to remove and the instructions to insert before an index, loop by loop,
  and rebuild the program once. Where the code iterates over a set of blocks the order is the sorted one.
\<close>

section \<open>Loops and definitions\<close>

text \<open>The block of an index and the last definition of a register; later entries win.\<close>

definition index_to_block :: "cfg \<Rightarrow> (nat \<times> string) list" where
  "index_to_block g = concat (map (\<lambda>(name, b). map (\<lambda>i. (i, name)) (bb_item_indices b)) (blocks g))"

definition definition_of :: "item \<Rightarrow> string option" where
  "definition_of it = (case it of Label _ \<Rightarrow> None | Inst i \<Rightarrow> destination_register i)"

definition def_map :: "cfg \<Rightarrow> item list \<Rightarrow> (string \<times> nat \<times> string) list" where
  "def_map g its =
     concat (map (\<lambda>i. case (definition_of (its ! i), map_of (rev (index_to_block g)) i) of
                        (Some d, Some name) \<Rightarrow> [(d, i, name)]
                      | _ \<Rightarrow> []) [0 ..< length its])"

definition def_map_blocks :: "cfg \<Rightarrow> item list \<Rightarrow> (string \<times> nat \<times> string) list" where
  "def_map_blocks g its =
     concat (map (\<lambda>(i, name). case definition_of (its ! i) of Some d \<Rightarrow> [(d, i, name)] | None \<Rightarrow> []) (index_to_block g))"

definition last_def :: "(string \<times> nat \<times> string) list \<Rightarrow> string \<Rightarrow> (nat \<times> string) option" where
  "last_def defs r = map_of (rev defs) r"

definition item_indices_of :: "cfg \<Rightarrow> string \<Rightarrow> nat list" where
  "item_indices_of g name = (case map_of (blocks g) name of None \<Rightarrow> [] | Some b \<Rightarrow> bb_item_indices b)"

definition loop_indices :: "cfg \<Rightarrow> natural_loop \<Rightarrow> nat list" where
  "loop_indices g l = concat (map (item_indices_of g) (sorted_list_of_set (nl_blocks l)))"

text \<open>The only predecessor of the header outside the loop, and its last instruction.\<close>

definition unique_preheader :: "cfg \<Rightarrow> natural_loop \<Rightarrow> string option" where
  "unique_preheader g l =
     (case sorted_list_of_set (Set.filter (\<lambda>p. p \<notin> nl_blocks l) (predecessors_of g (nl_header l))) of
        [p] \<Rightarrow> Some p | _ \<Rightarrow> None)"

definition insert_before :: "cfg \<Rightarrow> natural_loop \<Rightarrow> nat option" where
  "insert_before g l =
     (case unique_preheader g l of
        None \<Rightarrow> None
      | Some p \<Rightarrow> if item_indices_of g p = [] then None else Some (last (item_indices_of g p)))"

definition loop_def_count :: "item list \<Rightarrow> nat list \<Rightarrow> string \<Rightarrow> nat" where
  "loop_def_count its ixs r = length (filter (\<lambda>i. definition_of (its ! i) = Some r) ixs)"

section \<open>Moving instructions\<close>

text \<open>The removed indices and the insertions, in the order of the loops.\<close>

record motion =
  mv_removed :: "nat list"
  mv_insertions :: "(nat \<times> ptx_instruction) list"

definition no_motion :: motion where
  "no_motion = \<lparr>mv_removed = [], mv_insertions = []\<rparr>"

definition move_to :: "item list \<Rightarrow> nat \<Rightarrow> nat list \<Rightarrow> motion \<Rightarrow> motion" where
  "move_to its pos ixs m =
     \<lparr>mv_removed = mv_removed m @ ixs,
      mv_insertions = mv_insertions m @
        concat (map (\<lambda>i. case its ! i of Label _ \<Rightarrow> [] | Inst x \<Rightarrow> [(pos, x)]) ixs)\<rparr>"

definition inserted_at :: "motion \<Rightarrow> nat \<Rightarrow> item list" where
  "inserted_at m i = map (\<lambda>(_, x). Inst x) (filter (\<lambda>(k, _). k = i) (mv_insertions m))"

definition rebuilt :: "item list \<Rightarrow> motion \<Rightarrow> item list" where
  "rebuilt its m =
     concat (map (\<lambda>i. inserted_at m i @ (if i \<in> set (mv_removed m) then [] else [its ! i])) [0 ..< length its])"

section \<open>Loop-invariant code motion\<close>

definition dominators_of :: "cfg \<Rightarrow> string \<Rightarrow> string set" where
  "dominators_of g name = (case dominators g name of None \<Rightarrow> {} | Some d \<Rightarrow> d)"

definition operand_invariant ::
    "(string \<times> nat \<times> string) list \<Rightarrow> string set \<Rightarrow> string set \<Rightarrow> nat list \<Rightarrow> string \<Rightarrow> bool" where
  "operand_invariant defs loop_blocks header_dominators invariant operand =
     (let op = strip_brackets operand in
      if is_immediate op then True
      else if startswith op ''%'' then
        (case last_def defs op of
           None \<Rightarrow> True
         | Some (def_idx, def_block) \<Rightarrow>
             if def_block \<notin> loop_blocks then def_block \<in> header_dominators
             else def_idx \<in> set invariant)
      else True)"

definition invariant_candidate :: "ptx_instruction \<Rightarrow> bool" where
  "invariant_candidate i \<longleftrightarrow> pi_predicate i = None \<and> opcode_base i \<in> set PURE_RESULT_BASES \<and>
     \<not> has_substring (pi_opcode i) ''.cc''"

definition invariant_operands :: "ptx_instruction \<Rightarrow> string list" where
  "invariant_operands i = (if destination_register i \<noteq> None then tl (pi_operands i) else pi_operands i)"

definition mark_invariant ::
    "item list \<Rightarrow> (string \<times> nat \<times> string) list \<Rightarrow> string set \<Rightarrow> string set \<Rightarrow> nat list \<Rightarrow> nat \<Rightarrow> nat list" where
  "mark_invariant its defs loop_blocks header_dominators invariant i =
     (if i \<in> set invariant then invariant
      else (case its ! i of
              Label _ \<Rightarrow> invariant
            | Inst x \<Rightarrow>
                if invariant_candidate x \<and>
                   list_all (operand_invariant defs loop_blocks header_dominators invariant) (invariant_operands x)
                then invariant @ [i] else invariant))"

lemma mark_invariant_grows:
  "\<exists>new. foldl (mark_invariant its defs L D) acc ixs = acc @ new \<and> set new \<subseteq> set ixs \<and> set new \<inter> set acc = {}"
proof (induction ixs arbitrary: acc)
  case (Cons i ixs)
  have "mark_invariant its defs L D acc i = acc \<or> mark_invariant its defs L D acc i = acc @ [i] \<and> i \<notin> set acc"
    by (cases "its ! i") (auto simp: mark_invariant_def)
  then obtain a where a: "mark_invariant its defs L D acc i = acc @ a" "set a \<subseteq> {i}" "set a \<inter> set acc = {}"
    by (metis append_Nil2 disjoint_insert(1) empty_subsetI inf_bot_left list.set(1) list.simps(15) subset_refl inf_commute)
  from Cons.IH [of "acc @ a"] a show ?case by auto
qed simp

text \<open>The rounds end because each but the last marks another index.\<close>

function invariant_loop ::
    "item list \<Rightarrow> (string \<times> nat \<times> string) list \<Rightarrow> string set \<Rightarrow> string set \<Rightarrow> nat list \<Rightarrow> nat list \<Rightarrow> nat list" where
  "invariant_loop its defs loop_blocks header_dominators ixs invariant =
     (let invariant' = foldl (mark_invariant its defs loop_blocks header_dominators) invariant ixs in
      if invariant' = invariant then invariant
      else invariant_loop its defs loop_blocks header_dominators ixs invariant')"
  by pat_completeness auto

termination
proof (relation "measure (\<lambda>(its, defs, L, D, ixs, acc). card (set ixs - set acc))", goal_cases)
  case (2 its defs L D ixs acc acc')
  obtain new where n: "acc' = acc @ new" "set new \<subseteq> set ixs" "set new \<inter> set acc = {}"
    using mark_invariant_grows [of its defs L D acc ixs] 2(1) by blast
  then obtain k where "k \<in> set new" using 2(2) by (cases new) auto
  with n have "set ixs - set acc' \<subset> set ixs - set acc" by auto
  then show ?case by (simp add: psubset_card_mono)
qed simp

declare invariant_loop.simps [simp del]

definition invariant_indices :: "cfg \<Rightarrow> item list \<Rightarrow> natural_loop \<Rightarrow> nat list" where
  "invariant_indices g its l =
     invariant_loop its (def_map g its) (nl_blocks l) (dominators_of g (nl_header l)) (loop_indices g l) []"

text \<open>Only the single definition of its register in the loop is moved.\<close>

definition safe_invariant :: "cfg \<Rightarrow> item list \<Rightarrow> natural_loop \<Rightarrow> nat list" where
  "safe_invariant g its l =
     filter (\<lambda>i. case definition_of (its ! i) of None \<Rightarrow> True | Some d \<Rightarrow> loop_def_count its (loop_indices g l) d = 1)
       (sort (invariant_indices g its l))"

definition licm_loop :: "cfg \<Rightarrow> item list \<Rightarrow> motion \<Rightarrow> natural_loop \<Rightarrow> motion" where
  "licm_loop g its m l =
     (case insert_before g l of None \<Rightarrow> m | Some pos \<Rightarrow> move_to its pos (safe_invariant g its l) m)"

text \<open>\<open>LoopInvariantCodeMotionPass.run\<close>.\<close>

definition loop_invariant_code_motion :: "cfg \<Rightarrow> ptx_program \<Rightarrow> ptx_program \<times> pass_result" where
  "loop_invariant_code_motion g prog =
     (let loops = natural_loops g; m = foldl (licm_loop g (items prog)) no_motion loops; n = length (mv_removed m);
          details = (\<lambda>h. [(''hoisted_count'', DInt (int h)), (''loops_found'', DInt (int (length loops))),
                         (''transforms_applied'', DInt (int h))]) in
      if n = 0 then (prog, unchanged_result (details 0))
      else (rebuild_program prog (rebuilt (items prog) m), changed_result (details n)))"

section \<open>Load hoisting\<close>

definition loop_has_store :: "item list \<Rightarrow> nat list \<Rightarrow> bool" where
  "loop_has_store its ixs \<longleftrightarrow> list_ex (\<lambda>i. case its ! i of Label _ \<Rightarrow> False | Inst x \<Rightarrow> opcode_base x = ''st'') ixs"

definition loop_latch :: "cfg \<Rightarrow> natural_loop \<Rightarrow> string" where
  "loop_latch g l =
     (case filter (\<lambda>(t, h). h = nl_header l) (backedges g) of [] \<Rightarrow> nl_header l | (t, _) # _ \<Rightarrow> t)"

text \<open>Whether one load is moved; \<open>None\<close> is the \<open>IndexError\<close> of a load without an address.\<close>

definition hoistable_load :: "cfg \<Rightarrow> item list \<Rightarrow> natural_loop \<Rightarrow> nat \<times> string \<Rightarrow> bool option" where
  "hoistable_load g its l ib =
     (case its ! fst ib of
        Label _ \<Rightarrow> Some False
      | Inst x \<Rightarrow>
          if pi_predicate x \<noteq> None then Some False
          else if \<not> startswith (pi_opcode x) ''ld.global'' then Some False
          else if snd ib \<notin> dominators_of g (loop_latch g l) then Some False
          else if (case destination_register x of None \<Rightarrow> False | Some d \<Rightarrow> loop_def_count its (loop_indices g l) d > 1)
          then Some False
          else if length (pi_operands x) < 2 then None
          else (let addr = strip_brackets (pi_operands x ! 1) in
                if \<not> startswith addr ''%'' then Some False
                else (case last_def (def_map_blocks g its) addr of
                        None \<Rightarrow> Some True
                      | Some (_, def_block) \<Rightarrow> Some (def_block \<notin> nl_blocks l))))"

fun hoistable_loads :: "cfg \<Rightarrow> item list \<Rightarrow> natural_loop \<Rightarrow> (nat \<times> string) list \<Rightarrow> nat list option" where
  "hoistable_loads g its l [] = Some []"
| "hoistable_loads g its l (ib # ibs) =
     (case hoistable_load g its l ib of
        None \<Rightarrow> None
      | Some move \<Rightarrow> map_option (\<lambda>ixs. if move then fst ib # ixs else ixs) (hoistable_loads g its l ibs))"

definition hoist_loop :: "cfg \<Rightarrow> item list \<Rightarrow> motion option \<Rightarrow> natural_loop \<Rightarrow> motion option" where
  "hoist_loop g its acc l =
     (case (acc, insert_before g l) of
        (Some m, Some pos) \<Rightarrow>
          if loop_has_store its (loop_indices g l) then Some m
          else map_option (\<lambda>ixs. move_to its pos ixs m)
            (hoistable_loads g its l
              (concat (map (\<lambda>n. map (\<lambda>i. (i, n)) (item_indices_of g n)) (sorted_list_of_set (nl_blocks l)))))
      | _ \<Rightarrow> acc)"

text \<open>\<open>LoadHoistingPass.run\<close>.\<close>

definition load_hoisting :: "cfg \<Rightarrow> ptx_program \<Rightarrow> (ptx_program \<times> pass_result) option" where
  "load_hoisting g prog =
     (let loops = natural_loops g;
          details = (\<lambda>h. [(''hoisted'', DInt (int h)), (''loops'', DInt (int (length loops))),
                         (''transforms_applied'', DInt (int h))]) in
      map_option (\<lambda>m.
        let n = length (mv_removed m) in
        if n = 0 then (prog, unchanged_result (details 0))
        else (rebuild_program prog (rebuilt (items prog) m),
              \<lparr>pr_changed = True, pr_details = details n, pr_invalidated = [''cfg'', ''uniformity'', ''loops'']\<rparr>))
        (foldl (hoist_loop g (items prog)) (Some no_motion) loops))"

end
