(* ===== verification/Loop_Unroll.thy ===== *)
theory Loop_Unroll
  imports Loop_Motion
begin

text \<open>
  \<open>LoopUnrollingPass\<close> of \<open>passes/gemm.py\<close>: the first counted loop that qualifies gets a second copy
  of its body with fresh registers before its last branch, and a counter step of two.
\<close>

definition UNROLL_FACTOR :: int where "UNROLL_FACTOR = 2"

section \<open>Operands\<close>

definition is_const_one :: "string \<Rightarrow> bool" where
  "is_const_one op \<longleftrightarrow> strip op \<in> set [''1'', ''0x1'', ''0x01'']"

definition is_hex_char :: "char \<Rightarrow> bool" where
  "is_hex_char c \<longleftrightarrow> c \<in> set ''0123456789abcdefABCDEF''"

definition is_immediate_const :: "string \<Rightarrow> bool" where
  "is_immediate_const op0 =
     (let op = strip op0 in
      if op = [] then False
      else if startswith op ''0x'' \<or> startswith op ''0X'' then list_all is_hex_char (drop 2 op)
      else if startswith op ''-'' then str_isdigit (drop 1 op)
      else str_isdigit op)"

text \<open>\<open>_REG_NUM_RE\<close>: the letters with their \<open>%\<close>, and the number.\<close>

definition is_lower :: "char \<Rightarrow> bool" where
  "is_lower c \<longleftrightarrow> (let n = (of_char c :: nat) in 97 \<le> n \<and> n \<le> 122)"

definition reg_num :: "string \<Rightarrow> (string \<times> int) option" where
  "reg_num s =
     (case s of
        [] \<Rightarrow> None
      | c # rest \<Rightarrow>
          let letters = takeWhile is_lower rest; digits = dropWhile is_lower rest in
          if c = CHR ''%'' \<and> letters \<noteq> [] \<and> str_isdigit digits
          then map_option (Pair (c # letters)) (py_int 10 digits) else None)"

definition bare_operand :: "string \<Rightarrow> string" where
  "bare_operand op =
     rev (dropWhile (\<lambda>c. c = CHR '']'') (rev (dropWhile (\<lambda>c. c = CHR ''['') (strip op))))"

definition operand_num :: "string \<Rightarrow> int list" where
  "operand_num op = (case reg_num (bare_operand op) of None \<Rightarrow> [] | Some (_, n) \<Rightarrow> [n])"

definition collect_reg_nums :: "ptx_instruction \<Rightarrow> int list" where
  "collect_reg_nums i = concat (map operand_num (pi_operands i))"

definition instructions_of :: "item list \<Rightarrow> ptx_instruction list" where
  "instructions_of its = concat (map (\<lambda>it. case it of Label _ \<Rightarrow> [] | Inst i \<Rightarrow> [i]) its)"

definition program_reg_nums :: "item list \<Rightarrow> int list" where
  "program_reg_nums its = concat (map collect_reg_nums (instructions_of its))"

section \<open>Fresh names\<close>

text \<open>The search goes upward from the number plus 50 and gives up after 255.\<close>

function fresh_number :: "int list \<Rightarrow> int \<Rightarrow> int option" where
  "fresh_number used candidate =
     (if candidate > 255 then None
      else if candidate \<notin> set used then Some candidate else fresh_number used (candidate + 1))"
  by pat_completeness auto
termination by (relation "measure (\<lambda>(used, candidate). nat (256 - candidate))") auto

declare fresh_number.simps [simp del]

definition fresh_name_safe :: "string \<Rightarrow> int list \<Rightarrow> (string \<times> int) option" where
  "fresh_name_safe rname used =
     (case reg_num rname of
        None \<Rightarrow> None
      | Some (base, num) \<Rightarrow> map_option (\<lambda>n. (base @ dec_str n, n)) (fresh_number used (num + 50)))"

section \<open>Renaming\<close>

record renaming =
  rn_map :: "(string, string) dict"
  rn_used :: "int list"

definition rename_source :: "string list \<Rightarrow> (string, string) dict \<Rightarrow> string \<Rightarrow> string" where
  "rename_source skip_regs m op0 =
     (let op1 = strip op0;
          bracket = startswith op1 ''['' \<and> endswith op1 '']'';
          op = (if bracket then strip (butlast (drop 1 op1)) else op1) in
      case map_of m op of
        None \<Rightarrow> op0
      | Some renamed \<Rightarrow>
          if op \<in> set skip_regs then op0 else if bracket then ''['' @ renamed @ '']'' else renamed)"

definition rename_sources :: "string list \<Rightarrow> (string, string) dict \<Rightarrow> string list \<Rightarrow> string list" where
  "rename_sources skip_regs m ops = (case ops of [] \<Rightarrow> [] | d # srcs \<Rightarrow> d # map (rename_source skip_regs m) srcs)"

text \<open>\<open>None\<close> where no fresh name is left, or for control flow and predicate definitions.\<close>

definition rename_instruction_safe ::
    "ptx_instruction \<Rightarrow> string list \<Rightarrow> renaming \<Rightarrow> (ptx_instruction \<times> renaming) option" where
  "rename_instruction_safe i skip_regs rn =
     (if opcode_base i \<in> set [''setp'', ''bra'', ''ret''] then None
      else (case destination_register i of
              Some d \<Rightarrow>
                if d \<notin> set skip_regs then
                  (case fresh_name_safe d (rn_used rn) of
                     None \<Rightarrow> None
                   | Some (new_name, n) \<Rightarrow>
                       let rn' = \<lparr>rn_map = AList.update d new_name (rn_map rn), rn_used = rn_used rn @ [n]\<rparr> in
                       Some (i\<lparr>pi_operands := rename_sources skip_regs (rn_map rn') (new_name # tl (pi_operands i))\<rparr>, rn'))
                else Some (i\<lparr>pi_operands := rename_sources skip_regs (rn_map rn) (pi_operands i)\<rparr>, rn)
            | None \<Rightarrow> Some (i\<lparr>pi_operands := rename_sources skip_regs (rn_map rn) (pi_operands i)\<rparr>, rn)))"

text \<open>The copied instructions: no predicates, no counter step, no control flow.\<close>

definition is_copied :: "string \<Rightarrow> ptx_instruction \<Rightarrow> bool" where
  "is_copied counter i \<longleftrightarrow> pi_predicate i = None \<and>
     (opcode_base i \<in> set PURE_RESULT_BASES \<or> opcode_base i \<in> set [''setp'', ''ld'', ''st'']) \<and>
     destination_register i \<noteq> Some counter"

fun rename_body :: "string list \<Rightarrow> string \<Rightarrow> ptx_instruction list \<Rightarrow> renaming \<Rightarrow> ptx_instruction list option" where
  "rename_body skip_regs counter [] rn = Some []"
| "rename_body skip_regs counter (i # is) rn =
     (if \<not> is_copied counter i then rename_body skip_regs counter is rn
      else (case rename_instruction_safe i skip_regs rn of
              None \<Rightarrow> if opcode_base i \<notin> set [''setp'', ''bra'', ''ret''] then None else rename_body skip_regs counter is rn
            | Some (j, rn') \<Rightarrow>
                map_option (Cons j)
                  (rename_body skip_regs counter is (rn'\<lparr>rn_used := rn_used rn' @ collect_reg_nums j\<rparr>))))"

section \<open>Counted loops\<close>

text \<open>The items of a loop, in the order of the sorted block names.\<close>

definition items_in_loop :: "cfg \<Rightarrow> item list \<Rightarrow> natural_loop \<Rightarrow> (nat \<times> ptx_instruction) list" where
  "items_in_loop g its l =
     concat (map (\<lambda>i. case its ! i of Label _ \<Rightarrow> [] | Inst x \<Rightarrow> [(i, x)]) (loop_indices g l))"

definition is_counter_step :: "ptx_instruction \<Rightarrow> bool" where
  "is_counter_step i \<longleftrightarrow> opcode_base i = ''add'' \<and>
     (case pi_operands i of [d, s1, s2] \<Rightarrow> strip d = strip s1 \<and> is_const_one s2 | _ \<Rightarrow> False)"

definition counter_register :: "ptx_instruction list \<Rightarrow> string option" where
  "counter_register body = map_option (\<lambda>i. strip (hd (pi_operands i))) (find is_counter_step body)"

text \<open>The first immediate a comparison has beside the counter; one that is no number is skipped.\<close>

definition comparison_bound :: "string \<Rightarrow> ptx_instruction \<Rightarrow> int option" where
  "comparison_bound counter i =
     (if opcode_base i = ''setp'' \<and> 3 \<le> length (pi_operands i) then
        (case find (\<lambda>op. strip op \<noteq> counter \<and> is_immediate_const (strip op)) (tl (pi_operands i)) of
           None \<Rightarrow> None
         | Some op \<Rightarrow> py_int 0 (strip op))
      else None)"

fun bound_value :: "string \<Rightarrow> ptx_instruction list \<Rightarrow> int option" where
  "bound_value counter [] = None"
| "bound_value counter (i # is) =
     (case comparison_bound counter i of Some b \<Rightarrow> Some b | None \<Rightarrow> bound_value counter is)"

definition backedge_branch :: "(nat \<times> ptx_instruction) list \<Rightarrow> nat option" where
  "backedge_branch ixs = map_option fst (find (\<lambda>(_, i). opcode_base i = ''bra'') (rev ixs))"

text \<open>Registers an instruction both reads and defines, and the counter.\<close>

definition loop_carried :: "string \<Rightarrow> ptx_instruction list \<Rightarrow> string list" where
  "loop_carried counter body =
     counter # concat (map (\<lambda>i.
       if pi_predicate i \<noteq> None \<or> opcode_base i \<in> set [''setp'', ''bra'', ''ret''] then []
       else (case destination_register i of
               None \<Rightarrow> []
             | Some d \<Rightarrow> if list_ex (\<lambda>op. bare_operand op = d) (tl (pi_operands i)) then [d] else [])) body)"

text \<open>The first step of the counter is doubled.\<close>

definition is_adjusted :: "string \<Rightarrow> ptx_instruction \<Rightarrow> bool" where
  "is_adjusted counter i \<longleftrightarrow> startswith (pi_opcode i) ''add'' \<and>
     (case pi_operands i of [d, s1, s2] \<Rightarrow> strip d = counter \<and> strip s1 = counter \<and> is_const_one s2 | _ \<Rightarrow> False)"

definition adjust_counter :: "string \<Rightarrow> (nat \<times> ptx_instruction) list \<Rightarrow> item list \<Rightarrow> item list" where
  "adjust_counter counter ixs its =
     (case find (\<lambda>(_, i). is_adjusted counter i) ixs of
        None \<Rightarrow> its
      | Some (k, i) \<Rightarrow> its[k := Inst (i\<lparr>pi_operands := (pi_operands i)[2 := dec_str UNROLL_FACTOR]\<rparr>)])"

definition unroll_loop :: "cfg \<Rightarrow> item list \<Rightarrow> natural_loop \<Rightarrow> item list option" where
  "unroll_loop g its l =
     (let ixs = items_in_loop g its l; body = map snd ixs in
      if list_ex (\<lambda>i. opcode_base i = ''st'') body then None
      else if list_ex (\<lambda>i. pi_predicate i \<noteq> None \<and> opcode_base i \<noteq> ''bra'') body then None
      else (case counter_register body of
              None \<Rightarrow> None
            | Some counter \<Rightarrow>
                (case bound_value counter body of
                   None \<Rightarrow> None
                 | Some bound \<Rightarrow>
                     if bound mod UNROLL_FACTOR \<noteq> 0 then None
                     else (case backedge_branch ixs of
                             None \<Rightarrow> None
                           | Some k \<Rightarrow>
                               map_option (\<lambda>copy. let its' = adjust_counter counter ixs its in
                                   take k its' @ map Inst copy @ drop k its')
                                 (rename_body (loop_carried counter body) counter body
                                   \<lparr>rn_map = [], rn_used = program_reg_nums its\<rparr>)))))"

fun unroll_first :: "cfg \<Rightarrow> item list \<Rightarrow> natural_loop list \<Rightarrow> item list option" where
  "unroll_first g its [] = None"
| "unroll_first g its (l # ls) =
     (case unroll_loop g its l of Some its' \<Rightarrow> Some its' | None \<Rightarrow> unroll_first g its ls)"

text \<open>\<open>LoopUnrollingPass.run\<close>.\<close>

definition loop_unrolling :: "cfg \<Rightarrow> ptx_program \<Rightarrow> ptx_program \<times> pass_result" where
  "loop_unrolling g prog =
     (let loops = natural_loops g;
          details = (\<lambda>n. [(''unrolled'', DInt n), (''loops'', DInt (int (length loops))), (''transforms_applied'', DInt n)]) in
      case unroll_first g (items prog) loops of
        None \<Rightarrow> (prog, unchanged_result (details 0))
      | Some its' \<Rightarrow>
          (rebuild_program prog its',
           \<lparr>pr_changed = True, pr_details = details 1, pr_invalidated = [''cfg'', ''uniformity'', ''loops'']\<rparr>))"

end
