(* ===== verification/Pass_Manager.thy ===== *)
theory Pass_Manager
  imports Uniformity Dead_Code Local_Fold Local_Cse Load_Reuse Global_Cp Block_Simplify Loop_Unroll Reg_Alloc
begin

text \<open>
  The analysis cache (\<open>analysis/manager.py\<close>), the analysis and recording passes
  (\<open>passes/foundation.py\<close>), the pass manager (\<open>passes/manager.py\<close>) and the pipelines
  (\<open>passes/pipelines.py\<close>). A pass reads and writes the module and the cache; the cache computes
  a fact from the module as it is when the fact is first asked for, and keeps it until it is invalidated.
\<close>

section \<open>Failures\<close>

text \<open>What the passes and the analyses raise.\<close>

datatype pipeline_error =
    UnregisteredAnalysis string
  | CfgFailure cfg_error
  | NoKernelName
  | NoExecutableItems
  | PassIndexError
  | UnsupportedLevel string
  | MissingPasses "string list"

section \<open>The analysis cache\<close>

datatype facts = CfgFacts cfg | LivenessFacts "(string, live_range) dict" | UniformityFacts uniformity_facts

type_synonym providers = "(string, ir_module \<Rightarrow> (pipeline_error, facts) result) dict"
type_synonym cache = "(string, facts) dict"

definition get_analysis :: "providers \<Rightarrow> ir_module \<Rightarrow> string \<Rightarrow> cache \<Rightarrow> (pipeline_error, facts \<times> cache) result" where
  "get_analysis ps m nm c =
     (case map_of ps nm of
        None \<Rightarrow> Inl (UnregisteredAnalysis nm)
      | Some provider \<Rightarrow>
          (case map_of c nm of
             Some f \<Rightarrow> Inr (f, c)
           | None \<Rightarrow> bindE (provider m) (\<lambda>f. Inr (f, AList.update nm f c))))"

definition invalidate_facts :: "string list option \<Rightarrow> cache \<Rightarrow> cache" where
  "invalidate_facts names c = (case names of None \<Rightarrow> [] | Some ns \<Rightarrow> foldl (\<lambda>c n. AList.delete n c) c ns)"

definition cached_names :: "cache \<Rightarrow> string list" where
  "cached_names c = sort (map fst c)"

definition default_providers :: providers where
  "default_providers =
     [(''cfg'', \<lambda>m. case build_cfg (program (ir_fn m)) of Inl e \<Rightarrow> Inl (CfgFailure e) | Inr g \<Rightarrow> Inr (CfgFacts g)),
      (''liveness'', \<lambda>m. Inr (LivenessFacts (analyze_liveness (program (ir_fn m))))),
      (''uniformity'', \<lambda>m. Inr (UniformityFacts (analyze_uniformity (program (ir_fn m)))))]"

section \<open>Passes\<close>

text \<open>What the passes share: the module and its cache.\<close>

record session =
  ss_module :: ir_module
  ss_cache :: cache

type_synonym pass_run = "session \<Rightarrow> (pipeline_error, session \<times> pass_result) result"

definition get_cfg :: "session \<Rightarrow> (pipeline_error, cfg \<times> session) result" where
  "get_cfg s =
     bindE (get_analysis default_providers (ss_module s) ''cfg'' (ss_cache s)) (\<lambda>(f, c).
       case f of CfgFacts g \<Rightarrow> Inr (g, s\<lparr>ss_cache := c\<rparr>) | _ \<Rightarrow> Inl (UnregisteredAnalysis ''cfg''))"

definition get_liveness :: "session \<Rightarrow> (pipeline_error, (string, live_range) dict \<times> session) result" where
  "get_liveness s =
     bindE (get_analysis default_providers (ss_module s) ''liveness'' (ss_cache s)) (\<lambda>(f, c).
       case f of LivenessFacts r \<Rightarrow> Inr (r, s\<lparr>ss_cache := c\<rparr>) | _ \<Rightarrow> Inl (UnregisteredAnalysis ''liveness''))"

definition get_uniformity :: "session \<Rightarrow> (pipeline_error, uniformity_facts \<times> session) result" where
  "get_uniformity s =
     bindE (get_analysis default_providers (ss_module s) ''uniformity'' (ss_cache s)) (\<lambda>(f, c).
       case f of UniformityFacts u \<Rightarrow> Inr (u, s\<lparr>ss_cache := c\<rparr>) | _ \<Rightarrow> Inl (UnregisteredAnalysis ''uniformity''))"

definition session_program :: "session \<Rightarrow> ptx_program" where
  "session_program s = program (ir_fn (ss_module s))"

definition set_program :: "ptx_program \<Rightarrow> session \<Rightarrow> session" where
  "set_program p s = s\<lparr>ss_module := (ss_module s)\<lparr>ir_fn := (ir_fn (ss_module s))\<lparr>program := p\<rparr>\<rparr>\<rparr>"

definition set_metadata :: "string \<Rightarrow> (string, int) dict \<Rightarrow> session \<Rightarrow> session" where
  "set_metadata key v s = s\<lparr>ss_module := (ss_module s)\<lparr>metadata := AList.update key v (metadata (ss_module s))\<rparr>\<rparr>"

subsection \<open>Foundation passes\<close>

definition validate_program :: pass_run where
  "validate_program s =
     (if fn_name (ir_fn (ss_module s)) = [] then Inl NoKernelName
      else if items (session_program s) = [] then Inl NoExecutableItems
      else Inr (s, unchanged_result [(''kernel'', DStr (fn_name (ir_fn (ss_module s))))]))"

definition materialized_blocks :: "cfg \<Rightarrow> ir_block list" where
  "materialized_blocks g =
     map (\<lambda>name. case map_of (blocks g) name of
            Some b \<Rightarrow> \<lparr>irb_name = name, irb_count = length (bb_instructions b),
                        irb_preds = sorted_list_of_set (bb_predecessors b), irb_succs = sorted_list_of_set (bb_successors b)\<rparr>
          | None \<Rightarrow> \<lparr>irb_name = name, irb_count = 0, irb_preds = [], irb_succs = []\<rparr>) (block_order g)"

definition materialize_cfg :: pass_run where
  "materialize_cfg s =
     bindE (get_cfg s) (\<lambda>(g, s1).
       let m = ss_module s1; bs = materialized_blocks g in
       Inr (s1\<lparr>ss_module := m\<lparr>ir_fn := (ir_fn m)\<lparr>fn_blocks := bs\<rparr>\<rparr>\<rparr>,
            \<lparr>pr_changed = bs \<noteq> fn_blocks (ir_fn m),
             pr_details = [(''basic_blocks'', DInt (int (length bs))), (''entry'', DStr (entry g))],
             pr_invalidated = []\<rparr>))"

definition record_metadata :: "string \<Rightarrow> (string, int) dict \<Rightarrow> session \<Rightarrow> session \<times> pass_result" where
  "record_metadata key v s =
     (set_metadata key v s,
      \<lparr>pr_changed = map_of (metadata (ss_module s)) key \<noteq> Some v, pr_details = map (\<lambda>(k, n). (k, DInt n)) v,
       pr_invalidated = []\<rparr>)"

definition count_state :: "uniformity_facts \<Rightarrow> uniformity \<Rightarrow> int" where
  "count_state u x = int (length (filter (\<lambda>(_, b). bu_state b = x) (uf_branch_states u)))"

definition record_uniformity :: pass_run where
  "record_uniformity s =
     bindE (get_uniformity s) (\<lambda>(u, s1).
       Inr (record_metadata ''uniformity''
         [(''branches'', int (length (uf_branch_states u))), (''unknown'', count_state u UNKNOWN),
          (''uniform'', count_state u UNIFORM), (''varying'', count_state u VARYING)] s1))"

definition record_loop_analysis :: pass_run where
  "record_loop_analysis s =
     bindE (get_cfg s) (\<lambda>(g, s1).
       Inr (record_metadata ''loops''
         [(''backedges'', int (length (backedges g))), (''natural_loops'', int (length (natural_loops g)))] s1))"

subsection \<open>Transforming passes\<close>

definition transform :: "(ptx_program \<Rightarrow> ptx_program \<times> pass_result) \<Rightarrow> pass_run" where
  "transform f s = (case f (session_program s) of (p, r) \<Rightarrow> Inr (set_program p s, r))"

definition transform_partial :: "(ptx_program \<Rightarrow> (ptx_program \<times> pass_result) option) \<Rightarrow> pass_run" where
  "transform_partial f s =
     (case f (session_program s) of None \<Rightarrow> Inl PassIndexError | Some (p, r) \<Rightarrow> Inr (set_program p s, r))"

definition with_cfg :: "(cfg \<Rightarrow> pass_run) \<Rightarrow> pass_run" where
  "with_cfg f s = bindE (get_cfg s) (\<lambda>(g, s1). f g s1)"

text \<open>
  The allocator asks for the graph after the liveness facts and goes on without it when it cannot be
  built. Both mappings are stored, or none.
\<close>

definition allocate_registers :: pass_run where
  "allocate_registers s =
     bindE (get_liveness s) (\<lambda>(ranges, s1).
       let graph = (case get_cfg s1 of Inr (g, _) \<Rightarrow> Inr g | Inl (CfgFailure e) \<Rightarrow> Inl e | Inl _ \<Rightarrow> Inl NoBlocks);
           s2 = (case get_cfg s1 of Inr (_, s2) \<Rightarrow> s2 | Inl _ \<Rightarrow> s1);
           (maps, r) = register_allocation ranges graph (items (session_program s)) in
       Inr (case maps of
              None \<Rightarrow> s2
            | Some (regs, preds) \<Rightarrow> set_metadata ''predicate_mapping'' preds (set_metadata ''register_mapping'' regs s2), r))"

datatype compiler_pass =
    ValidateProgramPass
  | MaterializeCFGPass
  | RecordUniformityPass
  | RecordLoopAnalysisPass
  | ConservativeDeadResultEliminationPass
  | BasicBlockLocalCSEPass
  | LocalConstantFoldingPass
  | GlobalConstantPropagationPass
  | RepeatedGlobalLoadReusePass
  | GlobalDeadCodeEliminationPass
  | LoopInvariantCodeMotionPass
  | BlockSimplificationPass
  | LoadHoistingPass
  | LoopUnrollingPass
  | LinearScanRegisterAllocationPass

definition pass_name :: "compiler_pass \<Rightarrow> string" where
  "pass_name cp =
     (case cp of
        ValidateProgramPass \<Rightarrow> ''validate-program''
      | MaterializeCFGPass \<Rightarrow> ''materialize-cfg''
      | RecordUniformityPass \<Rightarrow> ''record-uniformity''
      | RecordLoopAnalysisPass \<Rightarrow> ''record-loop-analysis''
      | ConservativeDeadResultEliminationPass \<Rightarrow> ''conservative-dead-result-elimination''
      | BasicBlockLocalCSEPass \<Rightarrow> ''basic-block-local-cse''
      | LocalConstantFoldingPass \<Rightarrow> ''local-constant-folding''
      | GlobalConstantPropagationPass \<Rightarrow> ''global-constant-propagation''
      | RepeatedGlobalLoadReusePass \<Rightarrow> ''repeated-global-load-reuse''
      | GlobalDeadCodeEliminationPass \<Rightarrow> ''global-dead-code-elimination''
      | LoopInvariantCodeMotionPass \<Rightarrow> ''loop-invariant-code-motion''
      | BlockSimplificationPass \<Rightarrow> ''block-simplification''
      | LoadHoistingPass \<Rightarrow> ''load-hoisting''
      | LoopUnrollingPass \<Rightarrow> ''loop-unrolling''
      | LinearScanRegisterAllocationPass \<Rightarrow> ''linear-scan-register-allocation'')"

definition run_pass :: "'f pyfloat \<Rightarrow> compiler_pass \<Rightarrow> pass_run" where
  "run_pass fp cp =
     (case cp of
        ValidateProgramPass \<Rightarrow> validate_program
      | MaterializeCFGPass \<Rightarrow> materialize_cfg
      | RecordUniformityPass \<Rightarrow> record_uniformity
      | RecordLoopAnalysisPass \<Rightarrow> record_loop_analysis
      | ConservativeDeadResultEliminationPass \<Rightarrow> transform dead_result_elimination
      | BasicBlockLocalCSEPass \<Rightarrow> transform local_cse
      | LocalConstantFoldingPass \<Rightarrow> transform (local_constant_folding fp)
      | GlobalConstantPropagationPass \<Rightarrow> with_cfg (\<lambda>g. transform (global_constant_propagation g))
      | RepeatedGlobalLoadReusePass \<Rightarrow> transform_partial load_reuse
      | GlobalDeadCodeEliminationPass \<Rightarrow> transform global_dce
      | LoopInvariantCodeMotionPass \<Rightarrow> with_cfg (\<lambda>g. transform (loop_invariant_code_motion g))
      | BlockSimplificationPass \<Rightarrow> with_cfg (\<lambda>g. transform (block_simplification g))
      | LoadHoistingPass \<Rightarrow> with_cfg (\<lambda>g. transform_partial (load_hoisting g))
      | LoopUnrollingPass \<Rightarrow> with_cfg (\<lambda>g. transform (loop_unrolling g))
      | LinearScanRegisterAllocationPass \<Rightarrow> allocate_registers)"

section \<open>The pass manager\<close>

record pass_record =
  rec_name :: string
  rec_changed :: bool
  rec_details :: "(string \<times> detail) list"
  rec_invalidated :: "string list"

definition run_recorded :: "'f pyfloat \<Rightarrow> compiler_pass \<Rightarrow> session \<Rightarrow> (pipeline_error, session \<times> pass_record) result" where
  "run_recorded fp cp s =
     bindE (run_pass fp cp s) (\<lambda>(s1, r).
       let invalidated = sorted_list_of_set (set (pr_invalidated r));
           s2 = (if invalidated \<noteq> [] then s1\<lparr>ss_cache := invalidate_facts (Some invalidated) (ss_cache s1)\<rparr> else s1) in
       Inr (s2, \<lparr>rec_name = pass_name cp, rec_changed = pr_changed r, rec_details = pr_details r,
                  rec_invalidated = invalidated\<rparr>))"

fun run_passes :: "'f pyfloat \<Rightarrow> compiler_pass list \<Rightarrow> session \<Rightarrow> (pipeline_error, session \<times> pass_record list) result" where
  "run_passes fp [] s = Inr (s, [])"
| "run_passes fp (cp # cps) s =
     bindE (run_recorded fp cp s) (\<lambda>(s1, r).
     bindE (run_passes fp cps s1) (\<lambda>(s2, rs). Inr (s2, r # rs)))"

record pass_manager =
  pm_name :: string
  pm_passes :: "compiler_pass list"

definition pass_names :: "pass_manager \<Rightarrow> string list" where
  "pass_names pm = map pass_name (pm_passes pm)"

section \<open>Pipelines\<close>

definition O0_PASSES :: "compiler_pass list" where
  "O0_PASSES = [ValidateProgramPass, MaterializeCFGPass]"

definition O2_PASSES :: "compiler_pass list" where
  "O2_PASSES =
     [ValidateProgramPass, ConservativeDeadResultEliminationPass, BasicBlockLocalCSEPass, LocalConstantFoldingPass,
      GlobalConstantPropagationPass, RepeatedGlobalLoadReusePass, MaterializeCFGPass, RecordUniformityPass,
      GlobalDeadCodeEliminationPass, RecordLoopAnalysisPass, LoopInvariantCodeMotionPass, MaterializeCFGPass,
      RecordUniformityPass, BlockSimplificationPass, MaterializeCFGPass, RecordUniformityPass, LoadHoistingPass,
      MaterializeCFGPass, RecordUniformityPass, LoopUnrollingPass, MaterializeCFGPass, RecordUniformityPass,
      LinearScanRegisterAllocationPass, MaterializeCFGPass, RecordUniformityPass]"

definition O2_REQUIRED :: "compiler_pass list" where
  "O2_REQUIRED =
     [ValidateProgramPass, ConservativeDeadResultEliminationPass, BasicBlockLocalCSEPass, LocalConstantFoldingPass,
      GlobalConstantPropagationPass, RepeatedGlobalLoadReusePass, GlobalDeadCodeEliminationPass, RecordLoopAnalysisPass,
      LoopInvariantCodeMotionPass, BlockSimplificationPass, LoadHoistingPass, LoopUnrollingPass,
      LinearScanRegisterAllocationPass]"

definition O3_PASSES :: "compiler_pass list" where
  "O3_PASSES =
     [ValidateProgramPass, ConservativeDeadResultEliminationPass, BasicBlockLocalCSEPass, LocalConstantFoldingPass,
      RepeatedGlobalLoadReusePass, MaterializeCFGPass, RecordUniformityPass, GlobalConstantPropagationPass,
      GlobalDeadCodeEliminationPass, MaterializeCFGPass, RecordUniformityPass, RecordLoopAnalysisPass,
      BlockSimplificationPass, LoopInvariantCodeMotionPass, LoadHoistingPass, LinearScanRegisterAllocationPass,
      LoopUnrollingPass, MaterializeCFGPass, RecordUniformityPass]"

text \<open>The class names of the check that O3 covers O2; the model lists the names of the passes.\<close>

definition build_pipeline :: "string \<Rightarrow> (pipeline_error, pass_manager) result" where
  "build_pipeline opt_level =
     (if opt_level = ''0'' then Inr \<lparr>pm_name = ''O0-foundation'', pm_passes = O0_PASSES\<rparr>
      else if opt_level = ''2'' then Inr \<lparr>pm_name = ''O2-conservative-scalar'', pm_passes = O2_PASSES\<rparr>
      else if opt_level = ''3'' then
        (let missing = filter (\<lambda>cp. cp \<notin> set O3_PASSES) O2_REQUIRED in
         if missing \<noteq> [] then Inl (MissingPasses (sort (map pass_name missing)))
         else Inr \<lparr>pm_name = ''O3-experimental'', pm_passes = O3_PASSES\<rparr>)
      else Inl (UnsupportedLevel opt_level))"

end
