(* ===== verification/Reports.thy ===== *)
theory Reports
  imports Pass_Manager Lowering
begin

text \<open>
  The metrics and the report of a compilation, \<open>reports/compilation.py\<close>. A report is a JSON value; a
  string that is not ASCII is the list of its UTF-8 bytes. Printing the value is the JSON library's.
\<close>

section \<open>Values\<close>

datatype json = JNull | JBool bool | JInt int | JStr string | JList "json list" | JObj "(string \<times> json) list"

fun sort_mapping :: "json \<Rightarrow> json" where
  "sort_mapping (JObj kvs) = JObj (sort_key fst (map (\<lambda>kv. (fst kv, sort_mapping (snd kv))) kvs))"
| "sort_mapping j = j"

definition sorted_dict :: "(string \<times> json) list \<Rightarrow> (string \<times> json) list" where
  "sorted_dict kvs = sort_key fst kvs"

definition detail_value :: "detail \<Rightarrow> json" where
  "detail_value d = (case d of DInt n \<Rightarrow> JInt n | DStr s \<Rightarrow> JStr s | DStrs ss \<Rightarrow> JList (map JStr ss) | DBool b \<Rightarrow> JBool b)"

text \<open>\<open>PassRecord.to_dict\<close>.\<close>

definition record_to_dict :: "pass_record \<Rightarrow> json" where
  "record_to_dict r =
     JObj [(''name'', JStr (rec_name r)), (''changed'', JBool (rec_changed r)),
           (''details'', JObj (sorted_dict (map (\<lambda>(k, d). (k, detail_value d)) (rec_details r)))),
           (''invalidated_analyses'', JList (map JStr (rec_invalidated r)))]"

section \<open>Constants\<close>

definition CYCLE_MODEL_METRIC_KEYS :: "string list" where
  "CYCLE_MODEL_METRIC_KEYS =
     [''total_cycles'', ''spill_count'', ''dual_issue_rate'', ''memory_transactions'', ''stall_cycles'']"

definition PERFORMANCE_TARGETS :: "string list" where
  "PERFORMANCE_TARGETS = [''aec_slide_constraints'', ''aec_hint_platform_a'', ''aec_hint_platform_b'']"

definition WARP_LANES :: int where "WARP_LANES = 32"

definition MEMORY_SERVICE_BYTES :: int where "MEMORY_SERVICE_BYTES = 128"

definition DATA_TYPE_BYTES :: "(string, int) dict" where
  "DATA_TYPE_BYTES =
     [(''u8'', 1), (''s8'', 1), (''u16'', 2), (''s16'', 2), (''f16'', 2), (''bf16'', 2), (''b32'', 4), (''u32'', 4),
      (''s32'', 4), (''f32'', 4), (''b64'', 8), (''u64'', 8), (''s64'', 8), (''f64'', 8), (''none'', 0)]"

section \<open>Static metrics\<close>

definition memory_instruction_bytes :: "aec_instruction \<Rightarrow> int" where
  "memory_instruction_bytes i =
     (if opcode i \<notin> set [''LD'', ''ST'', ''ATOM''] then 0
      else (case map_of DATA_TYPE_BYTES (dtype i) of None \<Rightarrow> 0 | Some n \<Rightarrow> n))"

definition ceil_div :: "int \<Rightarrow> int \<Rightarrow> int" where
  "ceil_div v divisor = (if v \<le> 0 then 0 else (v + divisor - 1) div divisor)"

definition null_cycle_model_metrics :: "(string \<times> json) list" where
  "null_cycle_model_metrics = map (\<lambda>k. (k, JNull)) CYCLE_MODEL_METRIC_KEYS"

text \<open>\<open>dict(sorted(Counter(...).items()))\<close>.\<close>

definition sorted_counts :: "string list \<Rightarrow> json" where
  "sorted_counts xs = JObj (map (\<lambda>k. (k, JInt (int (length (filter (\<lambda>x. x = k) xs))))) (sorted_list_of_set (set xs)))"

definition count_of :: "('a \<Rightarrow> bool) \<Rightarrow> 'a list \<Rightarrow> json" where
  "count_of P xs = JInt (int (length (filter P xs)))"

definition is_branch_opcode :: "aec_instruction \<Rightarrow> bool" where
  "is_branch_opcode i \<longleftrightarrow> opcode i \<in> set [''BR'', ''BRX'', ''CALL'', ''RET'']"

definition is_memory_opcode :: "aec_instruction \<Rightarrow> bool" where
  "is_memory_opcode i \<longleftrightarrow> opcode i \<in> set [''LD'', ''ST'', ''ATOM'']"

definition gmem_instructions :: "aec_instruction list \<Rightarrow> aec_instruction list" where
  "gmem_instructions insts = filter (\<lambda>i. memory_space i = Some ''gmem'' \<and> is_memory_opcode i) insts"

definition gmem_bytes_per_warp :: "aec_instruction list \<Rightarrow> int" where
  "gmem_bytes_per_warp insts = sum_list (map (\<lambda>i. memory_instruction_bytes i * WARP_LANES) (gmem_instructions insts))"

definition gmem_services_per_warp :: "aec_instruction list \<Rightarrow> int" where
  "gmem_services_per_warp insts =
     sum_list (map (\<lambda>i. ceil_div (memory_instruction_bytes i * WARP_LANES) MEMORY_SERVICE_BYTES) (gmem_instructions insts))"

definition build_static_metrics :: "aec_instruction list \<Rightarrow> (string \<times> json) list" where
  "build_static_metrics insts =
     [(''assumed_warp_lanes'', JInt WARP_LANES),
      (''branch_count'', count_of is_branch_opcode insts),
      (''estimated_arithmetic_intensity'', JNull),
      (''estimated_dependency_depth'', JNull),
      (''estimated_gmem_128b_services_per_warp'', JInt (gmem_services_per_warp insts)),
      (''estimated_gmem_bytes_per_warp'', JInt (gmem_bytes_per_warp insts)),
      (''estimated_lmem_bytes_per_thread'', JNull),
      (''estimated_register_pressure'', JNull),
      (''estimated_smem_bytes_per_cta'', JNull),
      (''gmem_loads'', count_of (\<lambda>i. opcode i = ''LD'' \<and> memory_space i = Some ''gmem'') insts),
      (''gmem_stores'', count_of (\<lambda>i. opcode i = ''ST'' \<and> memory_space i = Some ''gmem'') insts),
      (''instruction_count'', JInt (int (length insts))),
      (''instruction_mix'', sorted_counts (map opcode insts)),
      (''memory_service_bytes'', JInt MEMORY_SERVICE_BYTES),
      (''memory_space_ops'', sorted_counts (concat (map (\<lambda>i. case memory_space i of None \<Rightarrow> [] | Some s \<Rightarrow> [s]) insts))),
      (''smem_ops'', count_of (\<lambda>i. memory_space i = Some ''smem'') insts)]"

section \<open>Metrics\<close>

definition register_values :: "aec_instruction list \<Rightarrow> int list" where
  "register_values insts =
     filter (\<lambda>v. 0 \<le> v \<and> v \<le> 255) (concat (map (\<lambda>i. [dest i, src1 i, src2 i, src3 i]) insts))"

definition highest_register :: "aec_instruction list \<Rightarrow> int" where
  "highest_register insts = foldl max 0 (register_values insts)"

text \<open>The text before a bracket, of operands that begin with a register other than a predicate.\<close>

definition virtual_register :: "string \<Rightarrow> string list" where
  "virtual_register op =
     (let s = dropWhile (\<lambda>c. c = CHR ''['') (strip op) in
      if startswith s ''%'' \<and> \<not> startswith s ''%p'' then [strip (before_first CHR ''['' s)] else [])"

definition virtual_registers :: "item list \<Rightarrow> string set" where
  "virtual_registers its = set (concat (map (\<lambda>i. concat (map virtual_register (pi_operands i))) (instructions_of its)))"

definition physical_registers :: "aec_instruction list \<Rightarrow> int set" where
  "physical_registers insts = set (register_values insts)"

definition used_predicates :: "aec_instruction list \<Rightarrow> int set" where
  "used_predicates insts = set (concat (map (\<lambda>i. case predicate i of None \<Rightarrow> [] | Some p \<Rightarrow> [p]) insts))"

definition record_transforms :: "pass_record \<Rightarrow> int" where
  "record_transforms r = (case map_of (rec_details r) ''transforms_applied'' of Some (DInt n) \<Rightarrow> n | _ \<Rightarrow> 0)"

definition build_metrics :: "ir_module \<Rightarrow> aec_instruction list \<Rightarrow> pass_record list \<Rightarrow> (string \<times> json) list" where
  "build_metrics m insts records =
     (let its = items (program (ir_fn m)) in
      [(''basic_block_count'', JInt (int (length (fn_blocks (ir_fn m))))),
       (''branch_count'', count_of is_branch_opcode insts),
       (''code_size_bytes'', JInt (int (length insts) * 16)),
       (''highest_encoded_register_index'', JInt (highest_register insts)),
       (''machine_instruction_count'', JInt (int (length insts))),
       (''memory_instruction_count'', count_of is_memory_opcode insts),
       (''optimization_transforms_applied'', JInt (sum_list (map record_transforms records))),
       (''source_instruction_count'', JInt (int (length (instructions_of its)))),
       (''virtual_register_count'', JInt (int (card (virtual_registers its)))),
       (''physical_register_count'', JInt (int (card (physical_registers insts)))),
       (''predicate_count'', JInt (int (card (used_predicates insts)))),
       (''spill_loads'', JInt 0),
       (''spill_stores'', JInt 0),
       (''static_metrics'', JObj (build_static_metrics insts)),
       (''cycle_model_metrics'', JObj null_cycle_model_metrics)])"

section \<open>Notes\<close>

definition SCALAR_NOTES :: "(string \<times> string) list" where
  "SCALAR_NOTES =
     [
      (''conservative-dead-result-elimination'', ''Conservative dead-result elimination (read-set based) is enabled.''),
      (''global-dead-code-elimination'', ''Worklist-based global dead-code elimination is enabled. It preserves memory, control, predicate, carry, and predicated instructions.''),
      (''basic-block-local-cse'', ''Basic-block-local CSE is enabled.''),
      (''local-constant-folding'', ''Basic-block-local constant folding is enabled.''),
      (''global-constant-propagation'', ''Global constant propagation is enabled (O2 proven-safe). Resets constants at every block boundary (labeled and unlabeled).''),
      (''loop-invariant-code-motion'', ''Loop-invariant code motion is enabled (O2 proven-safe). Verifies domination and single-definition safety before hoisting.''),
      (''repeated-global-load-reuse'', ''Repeated global load reuse is enabled. Uses conservative alias model: any store invalidates all cached loads.''),
      (''block-simplification'', ''Block simplification is enabled (O2 proven-safe). Merges empty/jump blocks, removes unreachable blocks, preserves side-effecting blocks.''),
      (''load-hoisting'', ''Load hoisting is enabled (O2 proven-safe). Hoists loop-invariant global loads with domination, single-def, and alias checks.''),
      (''loop-unrolling'', ''Loop unrolling is enabled (O2 proven-safe). Unrolls counted loops with even trip counts and register renaming. Loop-carried register values are protected by loop-aware RA liveness extension.''),
      (''linear-scan-register-allocation'', ''Linear-scan register allocation is enabled (O2 proven-safe). Allocates GPRs with merged live-interval analysis. Predicate allocation is handled by the Lowerer (not RA).'')
     ]"

definition scheduler_note :: string where
  "scheduler_note =
     ''Post-lowering DDG list scheduler is enabled (O2 proven-safe). Reorders AEC instructions within basic blocks; STORE'' @ [CHR 0xE2, CHR 0x86, CHR 0x92] @ ''LOAD barrier preserves memory ordering.''"

definition join_comma :: "string list \<Rightarrow> string" where
  "join_comma xs = (case xs of [] \<Rightarrow> [] | y # ys \<Rightarrow> y @ concat (map (\<lambda>z. '', '' @ z) ys))"

definition missing_passes :: "string list \<Rightarrow> string option \<Rightarrow> string \<Rightarrow> string list" where
  "missing_passes names warning opt_level =
     (if ''loop-invariant-code-motion'' \<in> set names then [] else [''LICM'']) @
     (if ''linear-scan-register-allocation'' \<in> set names then [] else [''register-allocation'']) @
     (if ''loop-unrolling'' \<in> set names then [] else [''GEMM-loop-unrolling'']) @
     (if warning \<noteq> None \<or> opt_level = ''0'' then [''post-lowering-scheduling''] else [])"

definition report_notes :: "pass_record list \<Rightarrow> string option \<Rightarrow> string \<Rightarrow> string list" where
  "report_notes records warning opt_level =
     (let names = map rec_name records;
          scalar = map snd (filter (\<lambda>(k, _). k \<in> set names) SCALAR_NOTES) @
                   (if warning = None \<and> opt_level \<in> set [''2'', ''3''] then [scheduler_note] else []);
          missing = missing_passes names warning opt_level in
      (case warning of None \<Rightarrow> [] | Some w \<Rightarrow> [w]) @
      (if scalar \<noteq> [] then scalar else [''O0 contains validation and analysis foundation passes only.'']) @
      (if missing \<noteq> [] then [''Not enabled: '' @ join_comma (sort missing) @ ''.''] else []) @
      [''Cycle Model metrics are not available '' @ [CHR 0xE2, CHR 0x80, CHR 0x94] @ '' no cycle-accurate model is configured.''])"

section \<open>The report\<close>

record compilation_report =
  cr_input :: string
  cr_optimization :: string
  cr_profile :: string
  cr_pipeline :: string
  cr_passes :: "pass_record list"
  cr_metrics :: "(string \<times> json) list"
  cr_output :: string
  cr_target :: string
  cr_warning :: "string option"

text \<open>The entry of a pass in \<open>passes\<close>; two passes may share one.\<close>

definition SPEC_PASSES :: "(string \<times> string) list" where
  "SPEC_PASSES =
     [(''global-dead-code-elimination'', ''dce''), (''conservative-dead-result-elimination'', ''dce''),
      (''basic-block-local-cse'', ''cse''), (''local-constant-folding'', ''constant_folding''),
      (''global-constant-propagation'', ''constant_folding''), (''loop-invariant-code-motion'', ''licm''),
      (''repeated-global-load-reuse'', ''load_reuse''), (''load-hoisting'', ''load_hoisting''),
      (''loop-unrolling'', ''loop_unrolling''), (''block-simplification'', ''block_merge'')]"

definition spec_passes :: "compilation_report \<Rightarrow> (string, json) dict" where
  "spec_passes r =
     foldl (\<lambda>d rec. case map_of SPEC_PASSES (rec_name rec) of None \<Rightarrow> d | Some k \<Rightarrow> AList.update k (JBool True) d)
       [(''scheduler'', JStr (if cr_warning r = None then ''post_lowering_list'' else ''failed''))] (cr_passes r)"

definition metric_or :: "(string \<times> json) list \<Rightarrow> string \<Rightarrow> json \<Rightarrow> json" where
  "metric_or ms k d = (case map_of ms k of None \<Rightarrow> d | Some v \<Rightarrow> v)"

definition report_to_dict :: "compilation_report \<Rightarrow> json" where
  "report_to_dict r =
     (let static_metrics = metric_or (cr_metrics r) ''static_metrics'' (JObj []);
          cycle = metric_or (cr_metrics r) ''cycle_model_metrics'' (JObj null_cycle_model_metrics);
          ms = AList.delete ''cycle_model_metrics'' (AList.delete ''static_metrics'' (cr_metrics r)) in
      JObj
        [(''status'', JStr ''ok''), (''input'', JStr (cr_input r)), (''output'', JStr (cr_output r)),
         (''optimization'', JStr (''O'' @ cr_optimization r)), (''opt_level'', JStr (''O'' @ cr_optimization r)),
         (''num_ptx_instructions'', metric_or ms ''source_instruction_count'' (JInt 0)),
         (''num_aec_instructions'', metric_or ms ''machine_instruction_count'' (JInt 0)),
         (''num_basic_blocks'', metric_or ms ''basic_block_count'' (JInt 0)),
         (''num_virtual_registers'',
            metric_or ms ''virtual_register_count'' (metric_or ms ''highest_encoded_register_index'' (JInt 0))),
         (''num_physical_registers'', metric_or ms ''physical_register_count'' (JInt 0)),
         (''num_predicates'', metric_or ms ''predicate_count'' (JInt 0)),
         (''spills'', JObj [(''loads'', metric_or ms ''spill_loads'' (JInt 0)), (''stores'', metric_or ms ''spill_stores'' (JInt 0))]),
         (''passes'', sort_mapping (JObj (spec_passes r))),
         (''warnings'', JList (map JStr (report_notes (cr_passes r) (cr_warning r) (cr_optimization r)))),
         (''schema_version'', JInt 1), (''profile'', JStr (cr_profile r)), (''pipeline'', JStr (cr_pipeline r)),
         (''performance_target'', JStr (cr_target r)),
         (''pass_records'', JList (map record_to_dict (cr_passes r))),
         (''metrics'', JObj (sorted_dict ms)),
         (''static_metrics'', sort_mapping static_metrics),
         (''cycle_model_metrics'', sort_mapping cycle),
         (''validation'',
            JObj [(''local_simulator'', JStr ''not_run_by_compiler''),
                  (''official_golden_model'', JStr ''available_not_integrated_not_run''),
                  (''official_cycle_model'', JStr ''not_available_not_run'')]),
         (''notes'', JList (map JStr (report_notes (cr_passes r) None (cr_optimization r))))])"

end
