(* ===== verification/Driver.thy ===== *)
theory Driver
  imports Reports Scheduler
begin

text \<open>
  The compiler facade, \<open>compiler.py\<close>: parse, run the pipeline of the optimization level, lower with
  the register mapping the pipeline left in the metadata, schedule at levels 2 and 3, and report. Of
  the command line the model has the compilation, the encoding and the exit status; reading the
  arguments and the files is left out.
\<close>

datatype compile_failure =
    UnsupportedTarget string
  | ParseFailure parse_error
  | PipelineFailure pipeline_error
  | LoweringFailure compile_error
  | SchedulerFailure sched_error
  | EncodeFailure encode_error

definition relabel :: "('e \<Rightarrow> 'd) \<Rightarrow> ('e, 'a) result \<Rightarrow> ('d, 'a) result" where
  "relabel f r = (case r of Inl e \<Rightarrow> Inl (f e) | Inr a \<Rightarrow> Inr a)"

record compilation_result =
  res_lowered :: lowered_program
  res_report :: compilation_report

definition initial_session :: "string \<Rightarrow> ptx_program \<Rightarrow> session" where
  "initial_session text prog = \<lparr>ss_module = module_from_program text prog, ss_cache = []\<rparr>"

definition schedule_at :: "string \<Rightarrow> lowered_program \<Rightarrow> (sched_error, lowered_program) result" where
  "schedule_at opt_level lowered =
     (if opt_level \<in> set [''2'', ''3''] then
        bindE (schedule_lowered (lp_instructions lowered)) (\<lambda>insts. Inr (lowered\<lparr>lp_instructions := insts\<rparr>))
      else Inr lowered)"

text \<open>The scheduler warning stays unset: a failure of the scheduler ends the compilation.\<close>

definition compile_ptx_detailed ::
    "'f pyfloat \<Rightarrow> string \<Rightarrow> isa_profile \<Rightarrow> string \<Rightarrow> string \<Rightarrow> string \<Rightarrow> string \<Rightarrow>
     (compile_failure, compilation_result) result" where
  "compile_ptx_detailed fp text profile opt_level input_name output_name target =
     (if target \<notin> set PERFORMANCE_TARGETS then Inl (UnsupportedTarget target)
      else
        bindE (relabel ParseFailure (parse_ptx text)) (\<lambda>prog.
        bindE (relabel PipelineFailure (build_pipeline opt_level)) (\<lambda>pipeline.
        bindE (relabel PipelineFailure (run_passes fp (pm_passes pipeline) (initial_session text prog))) (\<lambda>(s, records).
        bindE (relabel LoweringFailure
          (lower_program (session_program s) profile (map_of (metadata (ss_module s)) ''register_mapping''))) (\<lambda>lowered.
        bindE (relabel SchedulerFailure (schedule_at opt_level lowered)) (\<lambda>scheduled.
          Inr \<lparr>res_lowered = scheduled,
               res_report =
                 \<lparr>cr_input = input_name, cr_optimization = opt_level, cr_profile = name profile,
                  cr_pipeline = pm_name pipeline, cr_passes = records,
                  cr_metrics = build_metrics (ss_module s) (lp_instructions scheduled) records,
                  cr_output = output_name, cr_target = target, cr_warning = None\<rparr>\<rparr>))))))"

text \<open>\<open>compile_ptx\<close> of \<open>compiler.py\<close>, with its default names and target.\<close>

definition compile_source ::
    "'f pyfloat \<Rightarrow> string \<Rightarrow> isa_profile \<Rightarrow> string \<Rightarrow> (compile_failure, lowered_program) result" where
  "compile_source fp text profile opt_level =
     bindE (compile_ptx_detailed fp text profile opt_level ''<memory>'' [] ''aec_slide_constraints'') (\<lambda>r.
       Inr (res_lowered r))"

section \<open>The command line\<close>

text \<open>The bytes and the report \<open>main\<close> writes.\<close>

definition compile_file ::
    "'f pyfloat \<Rightarrow> string \<Rightarrow> isa_profile \<Rightarrow> string \<Rightarrow> string \<Rightarrow> string \<Rightarrow> string \<Rightarrow>
     (compile_failure, byte list \<times> json) result" where
  "compile_file fp text profile opt_level input_name output_name target =
     bindE (compile_ptx_detailed fp text profile opt_level input_name output_name target) (\<lambda>r.
     bindE (relabel EncodeFailure (instructions_to_bytes profile (lp_instructions (res_lowered r)))) (\<lambda>bs.
       Inr (bs, report_to_dict (res_report r))))"

text \<open>
  The exceptions \<open>main\<close> turns into exit status 1: \<open>CompileError\<close>, \<open>PTXParseError\<close>, \<open>CFGError\<close>,
  \<open>EncodeError\<close> and the other \<open>ValueError\<close>s. \<open>KeyError\<close>, \<open>IndexError\<close> and \<open>RuntimeError\<close> escape.
\<close>

definition is_value_error :: "compile_failure \<Rightarrow> bool" where
  "is_value_error e =
     (case e of
        PipelineFailure (UnregisteredAnalysis _) \<Rightarrow> False
      | PipelineFailure PassIndexError \<Rightarrow> False
      | PipelineFailure (MissingPasses _) \<Rightarrow> False
      | LoweringFailure (KeyError _) \<Rightarrow> False
      | LoweringFailure IndexError \<Rightarrow> False
      | SchedulerFailure SchedIndexError \<Rightarrow> False
      | _ \<Rightarrow> True)"

text \<open>The exit status; \<open>None\<close> is an exception that leaves \<open>main\<close>.\<close>

definition exit_status :: "(compile_failure, 'a) result \<Rightarrow> int option" where
  "exit_status r = (case r of Inr _ \<Rightarrow> Some 0 | Inl e \<Rightarrow> if is_value_error e then Some 1 else None)"

end
