(* ===== verification/Pass_Facts.thy ===== *)
theory Pass_Facts
  imports Driver
begin

text \<open>
  The analysis cache during a pipeline: a graph or a uniformity fact in the cache is always the one of
  the current program, because every pass that changes the program invalidates both. Liveness is
  invalidated by no pass; level 2 asks for it only after the last transformation.
\<close>

section \<open>The contract of a transforming pass\<close>

text \<open>A pass that returns another program announces the analyses of the graph as invalid.\<close>

locale announcing_pass =
  fixes f :: "ptx_program \<Rightarrow> ptx_program \<times> pass_result"
  assumes announces: "f p = (p', r) \<Longrightarrow> p' \<noteq> p \<Longrightarrow> {''cfg'', ''uniformity''} \<subseteq> set (pr_invalidated r)"

definition settle :: "session \<Rightarrow> pass_result \<Rightarrow> session" where
  "settle s r =
     (let invalidated = sorted_list_of_set (set (pr_invalidated r)) in
      if invalidated \<noteq> [] then s\<lparr>ss_cache := invalidate_facts (Some invalidated) (ss_cache s)\<rparr> else s)"

text \<open>The facts under the names of a set are what the providers compute now.\<close>

definition facts_current :: "string set \<Rightarrow> session \<Rightarrow> bool" where
  "facts_current N s \<longleftrightarrow> (\<forall>n \<in> N. \<forall>f. map_of (ss_cache s) n = Some f \<longrightarrow>
     (case map_of default_providers n of None \<Rightarrow> False | Some p \<Rightarrow> p (ss_module s) = Inr f))"

definition CFG_FACTS :: "string set" where
  "CFG_FACTS = {''cfg'', ''uniformity''}"

definition no_liveness :: "session \<Rightarrow> bool" where
  "no_liveness s \<longleftrightarrow> map_of (ss_cache s) ''liveness'' = None"

lemma map_of_invalidate: "map_of (invalidate_facts (Some ns) c) n = (if n \<in> set ns then None else map_of c n)"
proof -
  have "map_of (foldl (\<lambda>c n. AList.delete n c) c ns) n = (if n \<in> set ns then None else map_of c n)" for c
    by (induction ns arbitrary: c) (auto simp: delete_conv)
  from this [of c] show ?thesis by (simp only: invalidate_facts_def option.case)
qed

lemma settle_simps:
  "ss_module (settle s r) = ss_module s"
  "map_of (ss_cache (settle s r)) n = (if n \<in> set (pr_invalidated r) then None else map_of (ss_cache s) n)"
proof -
  have "sorted_list_of_set (set (pr_invalidated r)) = [] \<longleftrightarrow> set (pr_invalidated r) = {}"
    by (metis List.finite_set list.set(1) set_sorted_list_of_set sorted_list_of_set.sorted_key_list_of_set_empty)
  then show "map_of (ss_cache (settle s r)) n = (if n \<in> set (pr_invalidated r) then None else map_of (ss_cache s) n)"
    by (auto simp: settle_def Let_def map_of_invalidate)
qed (simp add: settle_def Let_def)

lemma run_recorded_settle:
  "run_recorded fp cp s = Inr (s', rec) \<longleftrightarrow>
    (\<exists>s1 r. run_pass fp cp s = Inr (s1, r) \<and> s' = settle s1 r \<and>
      rec = \<lparr>rec_name = pass_name cp, rec_changed = pr_changed r, rec_details = pr_details r,
             rec_invalidated = sorted_list_of_set (set (pr_invalidated r))\<rparr>)"
proof (cases "run_pass fp cp s")
  case (Inr x)
  obtain s1 r where x: "x = (s1, r)" by (cases x)
  show ?thesis unfolding run_recorded_def settle_def Let_def Inr x
    by (simp add: eq_commute conj_commute)
qed (simp add: run_recorded_def)

text \<open>Settling keeps the current facts, and makes them current when it drops them.\<close>

lemma facts_current_settle: "facts_current N s \<Longrightarrow> facts_current N (settle s r)"
  unfolding facts_current_def settle_simps by (auto split: if_split_asm)

lemma facts_current_dropped: "N \<subseteq> set (pr_invalidated r) \<Longrightarrow> facts_current N (settle s r)"
  by (auto simp: facts_current_def settle_simps)

lemma no_liveness_settle: "no_liveness s \<Longrightarrow> no_liveness (settle s r)"
  by (simp add: no_liveness_def settle_simps)

lemma session_update [simp]: "set_program (session_program s) s = s"
  by (simp add: set_program_def session_program_def)

lemma cache_set_program [simp]: "ss_cache (set_program p s) = ss_cache s"
  by (simp add: set_program_def)

context announcing_pass
begin

lemma transform_keeps:
  assumes "transform f s = Inr (s1, r)" "facts_current CFG_FACTS s"
  shows "facts_current CFG_FACTS (settle s1 r)" "ss_cache s1 = ss_cache s"
proof -
  obtain p where p: "f (session_program s) = (p, r)" "s1 = set_program p s"
    using assms(1) by (cases "f (session_program s)") (auto simp: transform_def)
  show "facts_current CFG_FACTS (settle s1 r)"
  proof (cases "p = session_program s")
    case True
    with assms(2) p(2) show ?thesis by (simp add: facts_current_settle)
  next
    case False
    from announces [OF p(1) this] show ?thesis by (intro facts_current_dropped) (simp add: CFG_FACTS_def)
  qed
  show "ss_cache s1 = ss_cache s" using p(2) by simp
qed

end

section \<open>The passes keep the contract\<close>

interpretation dead_results: announcing_pass dead_result_elimination
  by unfold_locales (auto simp: dead_result_elimination_def Let_def changed_result_def split: if_split_asm)

interpretation local_expressions: announcing_pass local_cse
  by unfold_locales (auto simp: local_cse_def Let_def changed_result_def split: if_split_asm)

interpretation local_constants: announcing_pass "local_constant_folding flt" for flt
  by unfold_locales (auto simp: local_constant_folding_def Let_def changed_result_def split: if_split_asm)

interpretation global_constants: announcing_pass "global_constant_propagation g" for g
  by unfold_locales (auto simp: global_constant_propagation_def Let_def changed_result_def split: if_split_asm prod.split_asm)

interpretation global_dead_code: announcing_pass global_dce
  by unfold_locales (auto simp: global_dce_def Let_def changed_result_def split: if_split_asm)

interpretation invariant_motion: announcing_pass "loop_invariant_code_motion g" for g
  by unfold_locales (auto simp: loop_invariant_code_motion_def Let_def changed_result_def split: if_split_asm)

interpretation simplification: announcing_pass "block_simplification g" for g
  by unfold_locales (auto simp: block_simplification_def Let_def split: if_split_asm)

interpretation unrolling: announcing_pass "loop_unrolling g" for g
  by unfold_locales (auto simp: loop_unrolling_def Let_def split: option.split_asm)

text \<open>The two passes that may fail, as passes that leave the program alone where they do.\<close>

definition or_unchanged :: "(ptx_program \<Rightarrow> (ptx_program \<times> pass_result) option) \<Rightarrow> ptx_program \<Rightarrow> ptx_program \<times> pass_result" where
  "or_unchanged f p = (case f p of None \<Rightarrow> (p, unchanged_result []) | Some x \<Rightarrow> x)"

lemma transform_partial_Inr: "transform_partial f s = Inr x \<Longrightarrow> transform (or_unchanged f) s = Inr x"
  by (auto simp: transform_partial_def transform_def or_unchanged_def split: option.split_asm)

interpretation load_reusing: announcing_pass "or_unchanged load_reuse"
  by unfold_locales (auto simp: or_unchanged_def load_reuse_def Let_def changed_result_def split: if_split_asm option.split_asm)

interpretation hoisting: announcing_pass "or_unchanged (load_hoisting g)" for g
  by unfold_locales (auto simp: or_unchanged_def load_hoisting_def Let_def map_option_case split: if_split_asm option.split_asm)

section \<open>Facts on demand\<close>

lemma facts_currentI:
  assumes "ss_module s = m" "\<And>n f. n \<in> N \<Longrightarrow> map_of (ss_cache s) n = Some f \<Longrightarrow>
    case map_of default_providers n of None \<Rightarrow> False | Some p \<Rightarrow> p m = Inr f"
  shows "facts_current N s"
  using assms(2) unfolding facts_current_def assms(1) by blast

lemma get_analysis_current:
  assumes "get_analysis default_providers (ss_module s) n (ss_cache s) = Inr (f, c)" "facts_current N s"
  shows "facts_current N (s\<lparr>ss_cache := c\<rparr>)" "map_of c m = map_of (ss_cache s) m \<or> m = n"
    "n \<in> N \<Longrightarrow> case map_of default_providers n of None \<Rightarrow> False | Some p \<Rightarrow> p (ss_module s) = Inr f"
proof -
  obtain p where p: "map_of default_providers n = Some p"
    using assms(1) by (cases "map_of default_providers n") (auto simp: get_analysis_def)
  consider (cached) "map_of (ss_cache s) n = Some f" "c = ss_cache s"
    | (computed) "p (ss_module s) = Inr f" "c = AList.update n f (ss_cache s)"
    using assms(1) p by (auto simp: get_analysis_def bindE_Inr_iff split: option.split_asm)
  then have "facts_current N (s\<lparr>ss_cache := c\<rparr>) \<and> (map_of c m = map_of (ss_cache s) m \<or> m = n) \<and>
    (n \<in> N \<longrightarrow> (case map_of default_providers n of None \<Rightarrow> False | Some p \<Rightarrow> p (ss_module s) = Inr f))"
  proof cases
    case cached
    then have "s\<lparr>ss_cache := c\<rparr> = s" by simp
    then have "facts_current N (s\<lparr>ss_cache := c\<rparr>)" using assms(2) by (simp only:)
    moreover have "n \<in> N \<longrightarrow> (case map_of default_providers n of None \<Rightarrow> False | Some p \<Rightarrow> p (ss_module s) = Inr f)"
      using assms(2) cached(1) unfolding facts_current_def by blast
    ultimately show ?thesis using cached(2) by simp
  next
    case computed
    have "case map_of default_providers k of None \<Rightarrow> False | Some p \<Rightarrow> p (ss_module s) = Inr h"
      if "k \<in> N" "map_of (AList.update n f (ss_cache s)) k = Some h" for k h
    proof (cases "k = n")
      case True
      with that(2) p computed(1) show ?thesis by (simp add: update_conv)
    next
      case False
      with that(2) have "map_of (ss_cache s) k = Some h" by (simp add: update_conv)
      with assms(2) that(1) show ?thesis unfolding facts_current_def by blast
    qed
    then have "facts_current N (s\<lparr>ss_cache := c\<rparr>)" using computed(2) by (intro facts_currentI [where m = "ss_module s"]) simp_all
    with p computed show ?thesis by (simp add: update_conv)
  qed
  then show "facts_current N (s\<lparr>ss_cache := c\<rparr>)" "map_of c m = map_of (ss_cache s) m \<or> m = n"
    "n \<in> N \<Longrightarrow> case map_of default_providers n of None \<Rightarrow> False | Some p \<Rightarrow> p (ss_module s) = Inr f" by blast+
qed

lemma get_cfg_Inr:
  assumes "get_cfg s = Inr (x, s1)"
  obtains c where "get_analysis default_providers (ss_module s) ''cfg'' (ss_cache s) = Inr (CfgFacts x, c)" "s1 = s\<lparr>ss_cache := c\<rparr>"
proof (cases "get_analysis default_providers (ss_module s) ''cfg'' (ss_cache s)")
  case (Inr fc)
  obtain f c where fc: "fc = (f, c)" by (cases fc)
  show thesis using assms that [of c] unfolding get_cfg_def Inr fc by (cases f) simp_all
qed (use assms in \<open>simp add: get_cfg_def\<close>)

lemma get_cfg_current:
  assumes "get_cfg s = Inr (g, s1)" "facts_current N s"
  shows "facts_current N s1" "ss_module s1 = ss_module s" "no_liveness s \<Longrightarrow> no_liveness s1"
    "''cfg'' \<in> N \<Longrightarrow> build_cfg (session_program s) = Inr g"
proof -
  obtain f c where f: "get_analysis default_providers (ss_module s) ''cfg'' (ss_cache s) = Inr (f, c)"
    "f = CfgFacts g" "s1 = s\<lparr>ss_cache := c\<rparr>"
    using get_cfg_Inr [OF assms(1)] by blast
  note C = get_analysis_current [OF f(1) assms(2)]
  show "facts_current N s1" "ss_module s1 = ss_module s" using C(1) f(3) by simp_all
  show "no_liveness s \<Longrightarrow> no_liveness s1" using C(2) [of "''liveness''"] f(3) by (auto simp: no_liveness_def)
  show "''cfg'' \<in> N \<Longrightarrow> build_cfg (session_program s) = Inr g"
    using C(3) f(2) by (auto simp: default_providers_def session_program_def split: sum.split_asm)
qed

lemma get_uniformity_Inr:
  assumes "get_uniformity s = Inr (x, s1)"
  obtains c where "get_analysis default_providers (ss_module s) ''uniformity'' (ss_cache s) = Inr (UniformityFacts x, c)" "s1 = s\<lparr>ss_cache := c\<rparr>"
proof (cases "get_analysis default_providers (ss_module s) ''uniformity'' (ss_cache s)")
  case (Inr fc)
  obtain f c where fc: "fc = (f, c)" by (cases fc)
  show thesis using assms that [of c] unfolding get_uniformity_def Inr fc by (cases f) simp_all
qed (use assms in \<open>simp add: get_uniformity_def\<close>)

lemma get_uniformity_current:
  assumes "get_uniformity s = Inr (u, s1)" "facts_current N s"
  shows "facts_current N s1" "ss_module s1 = ss_module s" "no_liveness s \<Longrightarrow> no_liveness s1"
proof -
  obtain f c where f: "get_analysis default_providers (ss_module s) ''uniformity'' (ss_cache s) = Inr (f, c)"
    "s1 = s\<lparr>ss_cache := c\<rparr>"
    using get_uniformity_Inr [OF assms(1)] by blast
  note C = get_analysis_current [OF f(1) assms(2)]
  show "facts_current N s1" "ss_module s1 = ss_module s" using C(1) f(2) by simp_all
  show "no_liveness s \<Longrightarrow> no_liveness s1" using C(2) [of "''liveness''"] f(2) by (auto simp: no_liveness_def)
qed

lemma get_liveness_Inr:
  assumes "get_liveness s = Inr (x, s1)"
  obtains c where "get_analysis default_providers (ss_module s) ''liveness'' (ss_cache s) = Inr (LivenessFacts x, c)" "s1 = s\<lparr>ss_cache := c\<rparr>"
proof (cases "get_analysis default_providers (ss_module s) ''liveness'' (ss_cache s)")
  case (Inr fc)
  obtain f c where fc: "fc = (f, c)" by (cases fc)
  show thesis using assms that [of c] unfolding get_liveness_def Inr fc by (cases f) simp_all
qed (use assms in \<open>simp add: get_liveness_def\<close>)

lemma get_liveness_current:
  assumes "get_liveness s = Inr (u, s1)" "facts_current N s"
  shows "facts_current N s1" "ss_module s1 = ss_module s"
    "''liveness'' \<in> N \<Longrightarrow> u = analyze_liveness (session_program s)"
proof -
  obtain f c where f: "get_analysis default_providers (ss_module s) ''liveness'' (ss_cache s) = Inr (f, c)"
    "f = LivenessFacts u" "s1 = s\<lparr>ss_cache := c\<rparr>"
    using get_liveness_Inr [OF assms(1)] by blast
  note C = get_analysis_current [OF f(1) assms(2)]
  show "facts_current N s1" "ss_module s1 = ss_module s" using C(1) f(3) by simp_all
  show "''liveness'' \<in> N \<Longrightarrow> u = analyze_liveness (session_program s)"
    using C(3) f(2) by (auto simp: default_providers_def session_program_def)
qed

text \<open>Facts depend on the program only.\<close>

lemma facts_same_program:
  assumes "facts_current N s" "ss_cache s' = ss_cache s" "session_program s' = session_program s"
  shows "facts_current N s'"
proof -
  have "p (ss_module s') = p (ss_module s)" if "map_of default_providers n = Some p" for n p
    using that assms(3) by (auto simp: default_providers_def session_program_def split: if_split_asm)
  then show ?thesis using assms(1,2) unfolding facts_current_def by (auto split: option.split_asm option.split)
qed

lemma set_metadata_simps [simp]:
  "ss_cache (set_metadata k v s) = ss_cache s" "session_program (set_metadata k v s) = session_program s"
  by (simp_all add: set_metadata_def session_program_def)

section \<open>Every pass\<close>

definition TRANSFORMS :: "compiler_pass list" where
  "TRANSFORMS =
     [ConservativeDeadResultEliminationPass, BasicBlockLocalCSEPass, LocalConstantFoldingPass, GlobalConstantPropagationPass,
      RepeatedGlobalLoadReusePass, GlobalDeadCodeEliminationPass, LoopInvariantCodeMotionPass, BlockSimplificationPass,
      LoadHoistingPass, LoopUnrollingPass]"

lemma with_cfg_Inr: "with_cfg f s = Inr x \<longleftrightarrow> (\<exists>g s1. get_cfg s = Inr (g, s1) \<and> f g s1 = Inr x)"
  by (auto simp: with_cfg_def bindE_Inr_iff)

text \<open>The passes that rewrite the program.\<close>

lemma transform_pass:
  assumes "run_pass fp cp s = Inr (s1, r)" "cp \<in> set TRANSFORMS" "facts_current CFG_FACTS s"
  shows "facts_current CFG_FACTS (settle s1 r)" "no_liveness s \<Longrightarrow> no_liveness s1"
proof -
  have keep: "facts_current CFG_FACTS (settle s1 r) \<and> (no_liveness s \<longrightarrow> no_liveness s1)"
    if "announcing_pass f" "transform f s = Inr (s1, r)" for f
    using announcing_pass.transform_keeps [OF that assms(3)] by (simp add: no_liveness_def)
  have keep_cfg: "facts_current CFG_FACTS (settle s1 r) \<and> (no_liveness s \<longrightarrow> no_liveness s1)"
    if f: "\<And>g. announcing_pass (f g)" "with_cfg (\<lambda>g. transform (f g)) s = Inr (s1, r)" for f
  proof -
    obtain g s0 where g: "get_cfg s = Inr (g, s0)" "transform (f g) s0 = Inr (s1, r)" using f(2) by (auto simp: with_cfg_Inr)
    note C = get_cfg_current [OF g(1) assms(3)]
    from announcing_pass.transform_keeps [OF f(1) g(2) C(1)] C(3) show ?thesis by (simp add: no_liveness_def)
  qed
  have "facts_current CFG_FACTS (settle s1 r) \<and> (no_liveness s \<longrightarrow> no_liveness s1)"
  proof (cases cp)
    case ConservativeDeadResultEliminationPass
    with assms(1) keep [OF dead_results.announcing_pass_axioms] show ?thesis by (simp add: run_pass_def)
  next
    case BasicBlockLocalCSEPass
    with assms(1) keep [OF local_expressions.announcing_pass_axioms] show ?thesis by (simp add: run_pass_def)
  next
    case LocalConstantFoldingPass
    with assms(1) keep [OF local_constants.announcing_pass_axioms] show ?thesis by (simp add: run_pass_def)
  next
    case GlobalConstantPropagationPass
    with assms(1) keep_cfg [OF global_constants.announcing_pass_axioms] show ?thesis by (simp add: run_pass_def)
  next
    case RepeatedGlobalLoadReusePass
    then have "transform (or_unchanged load_reuse) s = Inr (s1, r)"
      using assms(1) by (intro transform_partial_Inr) (simp add: run_pass_def)
    then show ?thesis by (rule keep [OF load_reusing.announcing_pass_axioms])
  next
    case GlobalDeadCodeEliminationPass
    with assms(1) keep [OF global_dead_code.announcing_pass_axioms] show ?thesis by (simp add: run_pass_def)
  next
    case LoopInvariantCodeMotionPass
    with assms(1) keep_cfg [OF invariant_motion.announcing_pass_axioms] show ?thesis by (simp add: run_pass_def)
  next
    case BlockSimplificationPass
    with assms(1) keep_cfg [OF simplification.announcing_pass_axioms] show ?thesis by (simp add: run_pass_def)
  next
    case LoadHoistingPass
    then have "with_cfg (\<lambda>g. transform (or_unchanged (load_hoisting g))) s = Inr (s1, r)"
      using assms(1) transform_partial_Inr by (fastforce simp: run_pass_def with_cfg_Inr)
    then show ?thesis by (rule keep_cfg [OF hoisting.announcing_pass_axioms])
  next
    case LoopUnrollingPass
    with assms(1) keep_cfg [OF unrolling.announcing_pass_axioms] show ?thesis by (simp add: run_pass_def)
  qed (use assms(2) in \<open>simp_all add: TRANSFORMS_def\<close>)
  then show "facts_current CFG_FACTS (settle s1 r)" "no_liveness s \<Longrightarrow> no_liveness s1" by simp_all
qed

text \<open>The passes that only look at it.\<close>

lemma recording_pass:
  assumes "run_pass fp cp s = Inr (s1, r)" "cp \<notin> set TRANSFORMS" "facts_current N s"
  shows "facts_current N s1" "session_program s1 = session_program s"
    "cp \<noteq> LinearScanRegisterAllocationPass \<Longrightarrow> no_liveness s \<Longrightarrow> no_liveness s1"
    "pr_invalidated r = []"
proof -
  have "facts_current N s1 \<and> session_program s1 = session_program s \<and>
    (cp \<noteq> LinearScanRegisterAllocationPass \<longrightarrow> no_liveness s \<longrightarrow> no_liveness s1) \<and> pr_invalidated r = []"
  proof (cases cp)
    case ValidateProgramPass
    with assms(1,3) show ?thesis by (auto simp: run_pass_def validate_program_def unchanged_result_def split: if_split_asm)
  next
    case MaterializeCFGPass
    then obtain g s0 where g: "get_cfg s = Inr (g, s0)"
      "s1 = s0\<lparr>ss_module := (ss_module s0)\<lparr>ir_fn := (ir_fn (ss_module s0))\<lparr>fn_blocks := materialized_blocks g\<rparr>\<rparr>\<rparr>" "pr_invalidated r = []"
      using assms(1) by (auto simp: run_pass_def materialize_cfg_def bindE_Inr_iff Let_def)
    note C = get_cfg_current [OF g(1) assms(3)]
    have p: "ss_cache s1 = ss_cache s0" "session_program s1 = session_program s0" using g(2) by (simp_all add: session_program_def)
    with C facts_same_program [OF C(1) p] g(3) show ?thesis by (simp add: no_liveness_def session_program_def)
  next
    case RecordUniformityPass
    then obtain u s0 v where g: "get_uniformity s = Inr (u, s0)" "s1 = set_metadata ''uniformity'' v s0" "pr_invalidated r = []"
      using assms(1) by (auto simp: run_pass_def record_uniformity_def record_metadata_def bindE_Inr_iff)
    note C = get_uniformity_current [OF g(1) assms(3)]
    have p: "ss_cache s1 = ss_cache s0" "session_program s1 = session_program s0" using g(2) by simp_all
    with C facts_same_program [OF C(1) p] g(3) show ?thesis by (simp add: no_liveness_def session_program_def)
  next
    case RecordLoopAnalysisPass
    then obtain u s0 v where g: "get_cfg s = Inr (u, s0)" "s1 = set_metadata ''loops'' v s0" "pr_invalidated r = []"
      using assms(1) by (auto simp: run_pass_def record_loop_analysis_def record_metadata_def bindE_Inr_iff)
    note C = get_cfg_current [OF g(1) assms(3)]
    have p: "ss_cache s1 = ss_cache s0" "session_program s1 = session_program s0" using g(2) by simp_all
    with C facts_same_program [OF C(1) p] g(3) show ?thesis by (simp add: no_liveness_def session_program_def)
  next
    case LinearScanRegisterAllocationPass
    then have run: "allocate_registers s = Inr (s1, r)" using assms(1) by (simp add: run_pass_def)
    then obtain u s0 where g: "get_liveness s = Inr (u, s0)" by (auto simp: allocate_registers_def bindE_Inr_iff)
    define s2 where "s2 = (case get_cfg s0 of Inr (_, s2) \<Rightarrow> s2 | Inl _ \<Rightarrow> s0)"
    define graph where "graph = (case get_cfg s0 of Inr (g, _) \<Rightarrow> Inr g | Inl (CfgFailure e) \<Rightarrow> Inl e | Inl _ \<Rightarrow> Inl NoBlocks)"
    note L = get_liveness_current [OF g assms(3)]
    have rec_program: "session_program s0 = session_program s" using L(2) by (simp add: session_program_def)
    obtain maps r0 where m: "register_allocation u graph (items (session_program s)) = (maps, r0)" by (cases "register_allocation u graph (items (session_program s))")
    have s1: "r = r0" "s1 = (case maps of None \<Rightarrow> s2
          | Some (regs, preds) \<Rightarrow> set_metadata ''predicate_mapping'' preds (set_metadata ''register_mapping'' regs s2))"
      using run unfolding allocate_registers_def g bindE_simps prod.case Let_def s2_def [symmetric] graph_def [symmetric]
        rec_program m by simp_all
    have s2: "facts_current N s2 \<and> ss_module s2 = ss_module s0"
    proof (cases "get_cfg s0")
      case (Inr x)
      obtain g s3 where x: "x = (g, s3)" by (cases x)
      from get_cfg_current(1,2) [OF Inr[unfolded x] L(1)] show ?thesis by (simp add: s2_def Inr x)
    qed (use L(1) in \<open>simp add: s2_def\<close>)
    have p: "ss_cache s1 = ss_cache s2" "session_program s1 = session_program s2" using s1(2) by (simp_all split: option.split)
    have "pr_invalidated r = []" using m s1(1) by (auto simp: register_allocation_def unchanged_result_def Let_def split: if_split_asm)
    with facts_same_program [OF conjunct1 [OF s2] p] p(2) s2 L(2) LinearScanRegisterAllocationPass show ?thesis
      by (simp add: session_program_def)
  qed (use assms(2) in \<open>simp_all add: TRANSFORMS_def\<close>)
  then show "facts_current N s1" "session_program s1 = session_program s"
    "cp \<noteq> LinearScanRegisterAllocationPass \<Longrightarrow> no_liveness s \<Longrightarrow> no_liveness s1" "pr_invalidated r = []" by simp_all
qed

section \<open>Pipelines\<close>

lemma recorded_keeps:
  assumes "run_recorded fp cp s = Inr (s', rec)" "facts_current CFG_FACTS s"
  shows "facts_current CFG_FACTS s'" "cp \<noteq> LinearScanRegisterAllocationPass \<Longrightarrow> no_liveness s \<Longrightarrow> no_liveness s'"
    "cp \<notin> set TRANSFORMS \<Longrightarrow> facts_current N s \<Longrightarrow> facts_current N s'"
proof -
  obtain s1 r where r: "run_pass fp cp s = Inr (s1, r)" "s' = settle s1 r" using assms(1) by (auto simp: run_recorded_settle)
  have "facts_current CFG_FACTS s' \<and> (cp \<noteq> LinearScanRegisterAllocationPass \<longrightarrow> no_liveness s \<longrightarrow> no_liveness s')"
  proof (cases "cp \<in> set TRANSFORMS")
    case True
    from transform_pass [OF r(1) True assms(2)] r(2) no_liveness_settle show ?thesis by blast
  next
    case False
    from recording_pass(1,3) [OF r(1) False assms(2)] r(2) facts_current_settle no_liveness_settle show ?thesis by blast
  qed
  then show "facts_current CFG_FACTS s'" "cp \<noteq> LinearScanRegisterAllocationPass \<Longrightarrow> no_liveness s \<Longrightarrow> no_liveness s'"
    by blast+
  show "cp \<notin> set TRANSFORMS \<Longrightarrow> facts_current N s \<Longrightarrow> facts_current N s'"
    using recording_pass(1) [OF r(1)] r(2) facts_current_settle by blast
qed

lemma passes_keep:
  assumes "run_passes fp cps s = Inr (s', rs)" "facts_current CFG_FACTS s"
  shows "facts_current CFG_FACTS s' \<and>
    (LinearScanRegisterAllocationPass \<notin> set cps \<longrightarrow> no_liveness s \<longrightarrow> no_liveness s') \<and>
    (set cps \<inter> set TRANSFORMS = {} \<longrightarrow> facts_current N s \<longrightarrow> facts_current N s')"
  using assms
proof (induction cps arbitrary: s rs)
  case (Cons cp cps)
  obtain s1 r rs' where r: "run_recorded fp cp s = Inr (s1, r)" "run_passes fp cps s1 = Inr (s', rs')"
    using Cons.prems(1) by (auto simp: bindE_Inr_iff)
  note K = recorded_keeps [OF r(1) Cons.prems(2)]
  show ?case using Cons.IH [OF r(2) K(1)] K(2,3) by auto
qed simp

lemma run_passes_append:
  "run_passes fp (as @ bs) s = Inr (s', rs) \<Longrightarrow>
    \<exists>s1 rs1 rs2. run_passes fp as s = Inr (s1, rs1) \<and> run_passes fp bs s1 = Inr (s', rs2)"
proof (induction as arbitrary: s rs)
  case (Cons cp as)
  then obtain s0 r rs' where r: "run_recorded fp cp s = Inr (s0, r)" "run_passes fp (as @ bs) s0 = Inr (s', rs')"
    by (auto simp: bindE_Inr_iff)
  from Cons.IH [OF r(2)] r(1) show ?case by fastforce
qed simp

text \<open>After the allocation level 2 has no transformation.\<close>

definition O2_FRONT :: "compiler_pass list" where
  "O2_FRONT = takeWhile (\<lambda>cp. cp \<noteq> LinearScanRegisterAllocationPass) O2_PASSES"

definition O2_BACK :: "compiler_pass list" where
  "O2_BACK = dropWhile (\<lambda>cp. cp \<noteq> LinearScanRegisterAllocationPass) O2_PASSES"

lemma O2_split: "O2_PASSES = O2_FRONT @ O2_BACK" "LinearScanRegisterAllocationPass \<notin> set O2_FRONT"
  "set O2_BACK \<inter> set TRANSFORMS = {}"
proof -
  show "O2_PASSES = O2_FRONT @ O2_BACK" by (simp add: O2_FRONT_def O2_BACK_def)
  show "LinearScanRegisterAllocationPass \<notin> set O2_FRONT" by (auto simp: O2_FRONT_def dest: set_takeWhileD)
  show "set O2_BACK \<inter> set TRANSFORMS = {}" by (simp add: O2_BACK_def O2_PASSES_def TRANSFORMS_def)
qed

lemma level_2_liveness:
  assumes "run_passes fp (take n O2_PASSES) s0 = Inr (s, rs)" "ss_cache s0 = []"
  shows "facts_current {''liveness''} s"
proof -
  have start: "facts_current N s0" "no_liveness s0" for N using assms(2) by (simp_all add: facts_current_def no_liveness_def)
  have split: "take n O2_PASSES = take n O2_FRONT @ take (n - length O2_FRONT) O2_BACK" by (subst O2_split(1)) simp
  obtain s1 rs1 rs2 where r: "run_passes fp (take n O2_FRONT) s0 = Inr (s1, rs1)"
    "run_passes fp (take (n - length O2_FRONT) O2_BACK) s1 = Inr (s, rs2)"
    using run_passes_append [OF assms(1)[unfolded split]] by blast
  have "no_liveness s1" "facts_current CFG_FACTS s1"
    using passes_keep [OF r(1) start(1)] start(2) O2_split(2) in_set_takeD by metis+
  moreover have "facts_current {''liveness''} s1" using \<open>no_liveness s1\<close> by (simp add: facts_current_def no_liveness_def)
  moreover have "set (take (n - length O2_FRONT) O2_BACK) \<inter> set TRANSFORMS = {}" using O2_split(3) in_set_takeD by fast
  ultimately show ?thesis using passes_keep [OF r(2)] by blast
qed

text \<open>
  C32. Whatever the order of the passes, the graph and the uniformity facts in the cache are those of
  the current program, and a pass that asks for the graph gets the graph of the program it is given;
  in every prefix of the pipeline of level 2 a liveness fact is the one of the current program, too.
\<close>

theorem pipelines_use_current_facts:
  assumes run: "run_passes fp cps s0 = Inr (s, rs)" and empty: "ss_cache s0 = []"
  shows "facts_current {''cfg'', ''uniformity''} s \<and>
    (\<forall>g s'. get_cfg s = Inr (g, s') \<longrightarrow> build_cfg (session_program s) = Inr g) \<and>
    (\<forall>n. cps = take n O2_PASSES \<longrightarrow> facts_current {''liveness''} s)"
proof (intro conjI allI impI)
  have "facts_current CFG_FACTS s0" using empty by (simp add: facts_current_def)
  with passes_keep [OF run this] have c: "facts_current CFG_FACTS s" by blast
  then show "facts_current {''cfg'', ''uniformity''} s" by (simp add: CFG_FACTS_def)
  show "build_cfg (session_program s) = Inr g" if "get_cfg s = Inr (g, s')" for g s'
    using get_cfg_current(4) [OF that c] by (simp add: CFG_FACTS_def)
  show "facts_current {''liveness''} s" if "cps = take n O2_PASSES" for n
    using level_2_liveness [OF run[unfolded that] empty] .
qed

definition exact_floats :: "int pyfloat" where
  "exact_floats = \<lparr>unpack32 = id, pack32 = Some, f_add = (+), f_mul = (*), f_finite = (\<lambda>_. True)\<rparr>"

definition tiny_items :: "item list" where
  "tiny_items =
     [Inst (PTXInstruction ''mov.u32'' [''%r1'', ''5'']), Inst (PTXInstruction ''ret'' [])]"

theorem pipelines_use_current_facts_witness:
  "\<exists>s rs. run_passes exact_floats O2_PASSES (initial_session [] (sample_program tiny_items)) = Inr (s, rs) \<and>
    length rs = 25 \<and> facts_current {''cfg'', ''uniformity''} s \<and> facts_current {''liveness''} s"
proof -
  let ?r = "run_passes exact_floats O2_PASSES (initial_session [] (sample_program tiny_items))"
  have ok: "case ?r of Inr (s, rs) \<Rightarrow> length rs = 25 | Inl _ \<Rightarrow> False" by code_simp
  then obtain s rs where r: "?r = Inr (s, rs)" "length rs = 25" by (cases ?r) auto
  have "O2_PASSES = take 25 O2_PASSES" by (simp add: O2_PASSES_def)
  moreover have "ss_cache (initial_session [] (sample_program tiny_items)) = []" by (simp add: initial_session_def)
  ultimately show ?thesis using pipelines_use_current_facts [OF r(1)] r by blast
qed

text \<open>
  Level 3 unrolls after the allocation has asked for the liveness facts, and unrolling keeps them: they
  and the register mapping are then those of the program before.
\<close>

lemma unrolling_keeps_old_liveness:
  assumes "run_recorded fp LoopUnrollingPass s = Inr (s', rec)"
  shows "map_of (ss_cache s') ''liveness'' = map_of (ss_cache s) ''liveness'' \<and>
    map_of (metadata (ss_module s')) ''register_mapping'' = map_of (metadata (ss_module s)) ''register_mapping''"
proof -
  obtain s1 r where r: "run_pass fp LoopUnrollingPass s = Inr (s1, r)" "s' = settle s1 r"
    using assms by (auto simp: run_recorded_settle)
  then obtain g s0 where g: "get_cfg s = Inr (g, s0)" "transform (loop_unrolling g) s0 = Inr (s1, r)"
    by (auto simp: run_pass_def with_cfg_Inr)
  obtain c where c: "get_analysis default_providers (ss_module s) ''cfg'' (ss_cache s) = Inr (CfgFacts g, c)" "s0 = s\<lparr>ss_cache := c\<rparr>"
    by (rule get_cfg_Inr [OF g(1)])
  have "facts_current {} s" by (simp add: facts_current_def)
  from get_analysis_current(2) [OF c(1) this, of "''liveness''"] have l: "map_of c ''liveness'' = map_of (ss_cache s) ''liveness''" by simp
  obtain p where p: "loop_unrolling g (session_program s0) = (p, r)" "s1 = set_program p s0"
    using g(2) by (cases "loop_unrolling g (session_program s0)") (auto simp: transform_def)
  have "''liveness'' \<notin> set (pr_invalidated r)" using p(1) by (auto simp: loop_unrolling_def Let_def unchanged_result_def split: option.split_asm)
  with l c(2) p(2) r(2) show ?thesis by (simp add: settle_simps) (simp add: set_program_def)
qed

end
