(* ===== verification/Spec2Isabelle.thy ===== *)
theory Spec2Isabelle
  imports Disasm Sim_Safety Scheduler_Program Ptx_Roundtrip Ptx_Sem Dead_Code Cfg_Build Reg_Alloc_Correct
    Lower_Correct Lower_Layout Local_Fold Load_Reuse Local_Cse_Props Cfg_Flow
    Global_Cp_Correct Block_Simplify_Correct Pass_Facts Driver
begin

text \<open>
  A verification library of the AEC compiler toolchain (\<open>src/src/aec_compiler\<close>), which translates a
  restricted PTX to the 128-bit instructions of the AEC accelerator.

  \<^bold>\<open>The program.\<close> \<open>ptx.py\<close> parses a kernel into parameters and a list of labels and instructions. The
  passes of \<open>passes/\<close> rewrite that list, using the analyses of \<open>analysis/\<close> (control-flow graph,
  uniformity of branches, liveness). \<open>legacy_lowering.py\<close> lays out the parameters, gives every virtual
  register a physical one and emits AEC instructions, turning divergent forward branches into
  predicates. The scheduler of \<open>passes/scheduler.py\<close> reorders the emitted instructions; \<open>isa.py\<close>
  encodes them; \<open>objdump.py\<close> prints an encoded file; \<open>sim.py\<close> runs one.

  \<^bold>\<open>Conventions.\<close> Python integers are \<open>int\<close>, machine words are written out with \<open>mod 2 ^ 32\<close> where the
  code masks them, strings are lists of characters, dictionaries are association lists in insertion
  order (\<open>Prelude\<close>, \<open>dict\<close>), sets that are only tested are sets. Exceptions are the left side of a
  sum (\<open>result\<close>), one constructor per \<open>raise\<close> of the source, \<open>KeyError\<close> and \<open>IndexError\<close> included.
  The string functions of Python the sources use are in \<open>PyStr\<close>, number formats in \<open>Numerals\<close>.

  \<^bold>\<open>Theories.\<close>
  \<^item> \<open>Isa\<close>, \<open>Isa_Codec\<close>, \<open>Aecbin\<close>, \<open>Disasm\<close>: \<open>isa.py\<close> and \<open>objdump.py\<close>. The locale \<open>codec\<close> states the
    contract of an encoder and its decoder; the round trip of one instruction, of a stream and of the
    bytes, the bounds of the words, and what the disassembler prints.
  \<^item> \<open>Sim\<close>, \<open>Sim_Safety\<close>: the simulator, with the float operations of NumPy a parameter; memory
    accesses stay within their buffers, and every run ends within the instruction limit it is given.
  \<^item> \<open>Scheduler\<close> to \<open>Scheduler_Program\<close>: the list scheduler. The reordering is a permutation that keeps
    every dependence (drain, graph), two independent instructions commute in the simulator, and a
    scheduled program ends in the same state as the original.
  \<^item> \<open>Ptx\<close>, \<open>Ptx_Roundtrip\<close>: the parser and the printer of kernels, as a round trip.
  \<^item> \<open>Helpers\<close>, \<open>Ptx_Sem\<close>: \<open>passes/_helpers.py\<close> and a reference semantics of PTX kernels, \<open>run_kernel\<close>,
    for the passes. It is parametric in what the sources do not define (the machine): the results of
    the operations that are not folded, memory and control. Its fuel bounds the taken jumps, and every
    theorem about it holds for all fuel.
  \<^item> \<open>Dead_Code\<close>: the dead-result and the global dead-code elimination, over the locale \<open>dead_removal\<close>.
  \<^item> \<open>Local_Rewrite\<close>: the locale \<open>local_rewriting\<close>, for passes that rewrite instruction by instruction
    and forget what they know at labels; \<open>Local_Fold\<close> (constant folding) and \<open>Load_Reuse\<close> interpret it.
  \<^item> \<open>Local_Cse\<close>, \<open>Local_Cse_Correct\<close>, \<open>Local_Cse_Sim\<close>, \<open>Local_Cse_Props\<close>: common subexpressions inside
    scopes of pure instructions: the exact reverse indexes, a relation between the registers of a scope
    and its optimized form that every instruction keeps, and the lifting to kernels.
  \<^item> \<open>Cfg\<close>, \<open>Cfg_Graph\<close>, \<open>Cfg_Build\<close>: \<open>analysis/cfg.py\<close>. The dominator and loop algorithms are written
    over an abstract graph and their loops with \<open>while_option\<close>, which the theorems show to end.
  \<^item> \<open>Cfg_Flow\<close>: the graph against the reference semantics. A run of a kernel whose machine jumps only at
    branches, to their operand, moves along the edges of the graph, so what is an invariant of the
    edges holds wherever a run gets.
  \<^item> \<open>Global_Cp\<close>, \<open>Global_Cp_Correct\<close>: global constant propagation and its correctness over \<open>Cfg_Flow\<close>,
    for kernels on which an executable check (\<open>cp_safe\<close>) validates the dataflow.
  \<^item> \<open>Block_Simplify\<close>, \<open>Block_Simplify_Correct\<close>: block simplification. A run of the simplified kernel
    is simulated by the original, jump by jump, for kernels that an executable check (\<open>bs_safe\<close>)
    accepts; kernels it rejects on which the pass drops a jump are in the theory.
  \<^item> \<open>Loop_Motion\<close>, \<open>Loop_Unroll\<close>: loop-invariant code motion, load hoisting and loop unrolling.
  \<^item> \<open>Pass_Manager\<close>, \<open>Pass_Facts\<close>: the analysis cache, the pass manager and the pipelines. The locale
    \<open>announcing_pass\<close> states what a pass owes the cache, and every pass provides it.
  \<^item> \<open>Reports\<close>, \<open>Driver\<close>: the metrics and the report as a JSON value, and the whole compilation.
  \<^item> \<open>Uniformity\<close>, \<open>Liveness\<close>: \<open>analysis/uniformity.py\<close> and \<open>analysis/liveness.py\<close>.
  \<^item> \<open>Reg_Alloc\<close>, \<open>Reg_Alloc_Correct\<close>: the linear scan; an invariant of the scan gives the separation of
    overlapping intervals.
  \<^item> \<open>Lower_Base\<close>, \<open>Lowering\<close>: \<open>legacy_lowering.py\<close>: tables, the fallback allocator, the control plan,
    and the class \<open>Lowerer\<close> as a state and exception monad over its mutable fields.
    \<open>Lower_Alloc\<close> states what the lowering relies on of its allocator (locale \<open>register_source\<close>),
    \<open>Lower_Correct\<close> follows the monad with one rule per operation, \<open>Lower_Layout\<close> is about parameters.

  \<^bold>\<open>Order of iteration.\<close> Where the code iterates over a Python set the model takes the elements in
  sorted order; the lemmas about the results do not depend on it.

  \<^bold>\<open>Not modelled.\<close> Reading and writing files and the argument parser (\<open>main\<close> of \<open>compiler.py\<close>,
  \<open>objdump.py\<close>, \<open>sim.py\<close>) and the printing of a JSON value are input and output around the modelled
  functions. Floating point is a parameter everywhere: Python's floats in the folding, NumPy's in the
  simulator.
\<close>

end
